(* ===== verification/Prelude.thy ===== *)
theory Prelude
  imports Complex_Main "HOL-Library.AList" "HOL-Library.Multiset" "HOL-Library.Monad_Syntax"
begin

text \<open>
  Shared vocabulary of the development: the row identifiers of the schema, fallible
  computations as sums, the left-to-right sum the Rust \<open>Iterator::sum\<close> performs, and the
  generic lemmas on these and on stable sorting that the component theories rely on.
\<close>

section \<open>Identifiers and dates\<close>

text \<open>
  The \<open>infra::id\<close> newtypes wrap an \<open>i64\<close>; only their identity and order are ever used.
  A \<open>NaiveDate\<close> is its day number in the proleptic Gregorian calendar
  (\<open>num_days_from_ce\<close>): comparison, adding days and counting days between two dates are
  the integer operations, and what needs the civil calendar (year, month, weekday, month
  arithmetic) goes through the calendar interface of the theory \<open>Platform\<close>.
\<close>

type_synonym trade_id = int
type_synonym listing_id = int
type_synonym account_id = int
type_synonym action_id = int
type_synonym date = int

section \<open>Collections of facts\<close>

named_theorems result_simps \<open>elimination of the fallible combinators\<close>
named_theorems decimal_exact \<open>exact values of the checked decimal operations\<close>

section \<open>Fallible computations\<close>

text \<open>\<open>Result\<close> is a sum with the error on the left; \<open>and_then\<close> is the \<open>?\<close> operator.\<close>

fun and_then :: "'e + 'a \<Rightarrow> ('a \<Rightarrow> 'e + 'b) \<Rightarrow> 'e + 'b" where
  "and_then (Inl e) f = Inl e"
| "and_then (Inr a) f = f a"

fun ok_or :: "'e \<Rightarrow> 'a option \<Rightarrow> 'e + 'a" where
  "ok_or e None = Inl e"
| "ok_or e (Some a) = Inr a"

fun map_result :: "('a \<Rightarrow> 'b) \<Rightarrow> 'e + 'a \<Rightarrow> 'e + 'b" where
  "map_result f (Inl e) = Inl e"
| "map_result f (Inr a) = Inr (f a)"

text \<open>A loop that stops at the first error, and the same for a fold that can overflow.\<close>

fun try_map :: "('a \<Rightarrow> 'e + 'b) \<Rightarrow> 'a list \<Rightarrow> 'e + 'b list" where
  "try_map f [] = Inr []"
| "try_map f (x # xs) = and_then (f x) (\<lambda>y. and_then (try_map f xs) (\<lambda>ys. Inr (y # ys)))"

fun try_foldl :: "('s \<Rightarrow> 'a \<Rightarrow> 'e + 's) \<Rightarrow> 's \<Rightarrow> 'a list \<Rightarrow> 'e + 's" where
  "try_foldl f s [] = Inr s"
| "try_foldl f s (x # xs) = and_then (f s x) (\<lambda>s'. try_foldl f s' xs)"

fun opt_foldl :: "('s \<Rightarrow> 'a \<Rightarrow> 's option) \<Rightarrow> 's \<Rightarrow> 'a list \<Rightarrow> 's option" where
  "opt_foldl f s [] = Some s"
| "opt_foldl f s (x # xs) = Option.bind (f s x) (\<lambda>s'. opt_foldl f s' xs)"

fun opt_map :: "('a \<Rightarrow> 'b option) \<Rightarrow> 'a list \<Rightarrow> 'b list option" where
  "opt_map f [] = Some []"
| "opt_map f (x # xs) =
     Option.bind (f x) (\<lambda>y. Option.bind (opt_map f xs) (\<lambda>ys. Some (y # ys)))"

text \<open>A \<open>map\<close> whose closure keeps a running state.\<close>

fun walk :: "('s \<Rightarrow> 'a \<Rightarrow> 'b \<times> 's) \<Rightarrow> 's \<Rightarrow> 'a list \<Rightarrow> 'b list \<times> 's" where
  "walk f s [] = ([], s)"
| "walk f s (x # xs) = (let (y, s') = f s x; (ys, s'') = walk f s' xs in (y # ys, s''))"

lemma walk_length: "length (fst (walk f s xs)) = length xs"
proof (induction xs arbitrary: s)
  case (Cons x xs)
  then show ?case using Cons.IH [of "snd (f s x)"] by (simp add: case_prod_unfold Let_def)
qed simp

lemma walk_invariant:
  assumes "\<And>s x. I s \<Longrightarrow> x \<in> set xs \<Longrightarrow> I (snd (f s x)) \<and> P (fst (f s x))" and "I s"
  shows "I (snd (walk f s xs)) \<and> (\<forall>y \<in> set (fst (walk f s xs)). P y)"
  using assms
proof (induction xs arbitrary: s)
  case (Cons x xs)
  obtain y s' where fx: "f s x = (y, s')" by (cases "f s x")
  obtain ys s'' where rest: "walk f s' xs = (ys, s'')" by (cases "walk f s' xs")
  have "I s'" "P y" using Cons.prems(1) [of s x] Cons.prems(2) fx by simp_all
  moreover have "I s'' \<and> (\<forall>y \<in> set ys. P y)"
    using Cons.IH [of s'] Cons.prems(1) \<open>I s'\<close> rest by simp
  ultimately show ?case by (simp add: fx rest)
qed simp

lemma and_then_Inr [result_simps]:
  "and_then r f = Inr b \<longleftrightarrow> (\<exists>a. r = Inr a \<and> f a = Inr b)"
  by (cases r) auto

lemma ok_or_Inr [result_simps]: "ok_or e r = Inr a \<longleftrightarrow> r = Some a"
  by (cases r) auto

lemma ok_or_Inl [result_simps]: "ok_or e r = Inl e' \<longleftrightarrow> r = None \<and> e' = e"
  by (cases r) auto

lemma map_result_Inr [result_simps]:
  "map_result f r = Inr b \<longleftrightarrow> (\<exists>a. r = Inr a \<and> b = f a)"
  by (cases r) auto

lemma try_foldl_invariant:
  assumes "try_foldl f s xs = Inr t" and "I s"
    and "\<And>s x s'. I s \<Longrightarrow> x \<in> set xs \<Longrightarrow> f s x = Inr s' \<Longrightarrow> I s'"
  shows "I t"
  using assms
proof (induction xs arbitrary: s)
  case (Cons x xs)
  from Cons.prems(1) obtain s' where s': "f s x = Inr s'" "try_foldl f s' xs = Inr t"
    by (auto simp: result_simps)
  have "I s'" by (rule Cons.prems(3) [OF Cons.prems(2) _ s'(1)]) simp
  moreover have "I b" if "I a" "y \<in> set xs" "f a y = Inr b" for a y b
    using Cons.prems(3) [OF that(1) _ that(3)] that(2) by simp
  ultimately show ?case by (rule Cons.IH [OF s'(2)])
qed simp

lemma try_map_length: "try_map f xs = Inr ys \<Longrightarrow> length ys = length xs"
  by (induction xs arbitrary: ys) (auto simp: result_simps)

lemma try_map_nth:
  "try_map f xs = Inr ys \<Longrightarrow> i < length xs \<Longrightarrow> f (xs ! i) = Inr (ys ! i)"
proof (induction xs arbitrary: ys i)
  case (Cons x xs)
  then show ?case by (cases i) (auto simp: result_simps)
qed simp

lemma opt_map_length: "opt_map f xs = Some ys \<Longrightarrow> length ys = length xs"
  by (induction xs arbitrary: ys) (auto simp: bind_eq_Some_conv)

lemma opt_map_nth:
  "opt_map f xs = Some ys \<Longrightarrow> i < length xs \<Longrightarrow> f (xs ! i) = Some (ys ! i)"
proof (induction xs arbitrary: ys i)
  case (Cons x xs)
  then show ?case by (cases i) (auto simp: bind_eq_Some_conv)
qed simp

lemma find_SomeD: "find P xs = Some x \<Longrightarrow> P x \<and> x \<in> set xs"
  by (induction xs) (auto split: if_splits)

lemma set_update_sub: "set (AList.update k v al) \<subseteq> insert (k, v) (set al)"
  by (induction al) auto

section \<open>Sums\<close>

text \<open>\<open>Sum for Decimal\<close> folds from zero, left to right.\<close>

definition dsum :: "'d::{zero,plus} list \<Rightarrow> 'd" where
  "dsum xs = foldl (+) 0 xs"

lemma foldl_plus_shift: "foldl (+) (a::'d::monoid_add) xs = a + foldl (+) 0 xs"
proof (induction xs arbitrary: a)
  case (Cons x xs)
  have "foldl (+) (a + x) xs = (a + x) + foldl (+) 0 xs" by (rule Cons.IH)
  moreover have "foldl (+) (0 + x) xs = x + foldl (+) 0 xs"
    using Cons.IH [of x] by simp
  ultimately show ?case by (simp add: add.assoc)
qed simp

lemma dsum_sum_list: "dsum (xs::'d::monoid_add list) = sum_list xs"
proof (induction xs)
  case (Cons x xs)
  have "dsum (x # xs) = x + dsum xs"
    using foldl_plus_shift [of x xs] by (simp add: dsum_def)
  with Cons.IH show ?case by simp
qed (simp add: dsum_def)

lemma dsum_Nil [simp]: "dsum [] = 0"
  by (simp add: dsum_def)

lemma dsum_Cons [simp]: "dsum ((x::'d::monoid_add) # xs) = x + dsum xs"
  by (simp add: dsum_sum_list)

lemma dsum_append [simp]: "dsum (xs @ ys) = dsum xs + dsum (ys::'d::monoid_add list)"
  by (simp add: dsum_sum_list)

lemma dsum_nonneg: "(\<And>x. x \<in> set xs \<Longrightarrow> 0 \<le> x) \<Longrightarrow> 0 \<le> dsum (xs::'d::linordered_field list)"
  by (simp add: dsum_sum_list sum_list_nonneg)

section \<open>Stable sorting\<close>

lemma set_sort_key [simp]: "set (sort_key f xs) = set xs"
  by (rule set_sort)

lemma sum_list_sort_key:
  "sum_list (map g (sort_key f xs)) = sum_list (map (g::'a \<Rightarrow> 'd::comm_monoid_add) xs)"
proof -
  have "mset (map g (sort_key f xs)) = mset (map g xs)" by (simp only: mset_map mset_sort)
  then show ?thesis by (metis sum_mset_sum_list)
qed

end
