(* ===== verification/Platform.thy ===== *)
theory Platform
  imports Prelude
begin

text \<open>
  The third-party interfaces the program computes with, as parameters of the model:
  \<open>rust_decimal::Decimal\<close> and the civil calendar of \<open>chrono\<close>. Each is a record of the
  functions the source calls, a locale states the documented behaviour that the lemmas
  rely on, and a reference instance (exact rationals bounded by \<open>Decimal::MAX\<close>; the
  proleptic Gregorian calendar) shows that the laws can hold and lets examples be evaluated.
\<close>

section \<open>Decimal arithmetic\<close>

text \<open>
  The model is polymorphic in the type \<open>'d\<close> of decimal values. The operators
  \<open>+ - * /\<close>, comparison, \<open>0\<close> and \<open>1\<close> are those of \<open>'d\<close> (the definitions ask for
  nothing but these operations, no law); everything else the source calls on a \<open>Decimal\<close>
  is a component of this record. A plain operator of the source panics on overflow; a run
  that panics has no counterpart in the model. Numerically equal decimals are one value
  here, so \<open>scale\<close> and \<open>mantissa\<close> are those of one chosen representation of it.
\<close>

datatype rounding_strategy =
    MidpointNearestEven
  | MidpointAwayFromZero
  | ToZero
  | AwayFromZero

record 'd decimal_api =
  dnew :: "int \<Rightarrow> nat \<Rightarrow> 'd"
  checked_add :: "'d \<Rightarrow> 'd \<Rightarrow> 'd option"
  checked_sub :: "'d \<Rightarrow> 'd \<Rightarrow> 'd option"
  checked_mul :: "'d \<Rightarrow> 'd \<Rightarrow> 'd option"
  checked_div :: "'d \<Rightarrow> 'd \<Rightarrow> 'd option"
  drem :: "'d \<Rightarrow> 'd \<Rightarrow> 'd"
  dtrunc :: "'d \<Rightarrow> 'd"
  dfract :: "'d \<Rightarrow> 'd"
  round_with :: "rounding_strategy \<Rightarrow> nat \<Rightarrow> 'd \<Rightarrow> 'd"
  mantissa :: "'d \<Rightarrow> int"
  scale :: "'d \<Rightarrow> nat"
  normal_scale :: "'d \<Rightarrow> nat"
  of_mantissa :: "int \<Rightarrow> nat \<Rightarrow> 'd option"
  to_usize :: "'d \<Rightarrow> nat option"

text \<open>
  \<open>on_grid s x\<close>: the value has at most \<open>s\<close> decimal places. It is the specification of
  what rounding to \<open>s\<close> places returns.
\<close>

definition on_grid :: "nat \<Rightarrow> 'd::linordered_field \<Rightarrow> bool" where
  "on_grid s x \<longleftrightarrow> (\<exists>k::int. x = of_int k / 10 ^ s)"

lemma on_grid_0: "on_grid s (0::'d::linordered_field)"
  unfolding on_grid_def by (rule exI [of _ 0]) simp

lemma on_grid_int: "on_grid s (of_int k :: 'd::linordered_field)"
  unfolding on_grid_def by (rule exI [of _ "k * 10 ^ s"]) simp

lemma on_grid_add: "on_grid s x \<Longrightarrow> on_grid s y \<Longrightarrow> on_grid s (x + y :: 'd::linordered_field)"
  unfolding on_grid_def
  by (metis add_divide_distrib of_int_add)

lemma on_grid_diff: "on_grid s x \<Longrightarrow> on_grid s y \<Longrightarrow> on_grid s (x - y :: 'd::linordered_field)"
  unfolding on_grid_def
  by (metis diff_divide_distrib of_int_diff)

lemma on_grid_mono:
  assumes "on_grid t x" and "t \<le> s"
  shows "on_grid s (x :: 'd::linordered_field)"
proof -
  obtain n where "x = of_int n / 10 ^ t" using assms(1) by (auto simp: on_grid_def)
  also have "\<dots> = of_int (n * 10 ^ (s - t)) / 10 ^ s"
    using assms(2) by (simp add: field_simps flip: power_add)
  finally show ?thesis unfolding on_grid_def by blast
qed

text \<open>
  The laws: a checked operation that answers gives the exact result, a literal
  \<open>Decimal::new(m, s)\<close> is \<open>m / 10^s\<close>, and rounding to \<open>s\<close> places lands on the grid,
  fixes what is on it, is monotone, a value rounded to zero stays between zero and
  itself, and one rounded away from zero does not come nearer to it. They describe \<open>rust_decimal\<close> on values whose results its 28 digits can hold; where
  the library rounds, the theorems that assume these laws do not speak.
\<close>

locale decimal_laws =
  fixes D :: "'d::linordered_field decimal_api"
  assumes dnew_eq: "dnew D m s = of_int m / 10 ^ s"
    and add_eq: "checked_add D a b = Some c \<Longrightarrow> c = a + b"
    and sub_eq: "checked_sub D a b = Some c \<Longrightarrow> c = a - b"
    and mul_eq: "checked_mul D a b = Some c \<Longrightarrow> c = a * b"
    and div_eq: "checked_div D a b = Some c \<Longrightarrow> b \<noteq> 0 \<and> c = a / b"
    and round_grid: "on_grid s (round_with D st s x)"
    and round_fix: "on_grid s x \<Longrightarrow> round_with D st s x = x"
    and round_mono: "x \<le> y \<Longrightarrow> round_with D st s x \<le> round_with D st s y"
    and round_to_zero: "0 \<le> x \<Longrightarrow> round_with D ToZero s x \<le> x"
    and round_away: "0 \<le> x \<Longrightarrow> x \<le> round_with D AwayFromZero s x"
    and normal_scale_grid: "normal_scale D x \<le> s \<Longrightarrow> s \<le> 28 \<Longrightarrow> on_grid s x"
    and scale_grid: "scale D x \<le> 28 \<Longrightarrow> on_grid (scale D x) x"
    and fract_int: "dfract D x = 0 \<Longrightarrow> \<exists>k::int. x = of_int k"
    and rem_int: "0 \<le> i \<Longrightarrow> 0 < j \<Longrightarrow> drem D (of_int i) (of_int j) = of_int (i mod j)"
    and trunc_int: "\<exists>k::int. dtrunc D x = of_int k \<and> (0 \<le> x \<longrightarrow> of_int k \<le> x \<and> x < of_int k + 1)"
    and usize_eq: "to_usize D x = Some n \<Longrightarrow> of_nat n \<le> x \<and> x < of_nat n + 1"
begin

lemmas checked_exact [decimal_exact] = add_eq sub_eq mul_eq div_eq

lemma dnew_0_scale: "dnew D m 0 = of_int m"
  by (simp add: dnew_eq)

lemma round_zero: "round_with D st s 0 = 0"
  by (rule round_fix) (auto simp: on_grid_def intro: exI [of _ 0])

lemma round_nonneg: "0 \<le> x \<Longrightarrow> 0 \<le> round_with D st s x"
  using round_mono [of 0 x st s] by (simp add: round_zero)

lemma round_nonpos: "x \<le> 0 \<Longrightarrow> round_with D st s x \<le> 0"
  using round_mono [of x 0 st s] by (simp add: round_zero)

lemma opt_fold_add:
  "opt_foldl (checked_add D) a xs = Some s \<Longrightarrow> s = a + sum_list xs"
proof (induction xs arbitrary: a)
  case (Cons x xs)
  then obtain b where "checked_add D a x = Some b" and "opt_foldl (checked_add D) b xs = Some s"
    by (auto simp: bind_eq_Some_conv)
  with Cons.IH [of b] add_eq [of a x b] show ?case by simp
qed simp

end

section \<open>The reference decimals\<close>

text \<open>
  Exact rational arithmetic whose checked operations refuse what exceeds \<open>Decimal::MAX\<close>,
  with the four rounding strategies written out.
\<close>

definition decimal_max :: rat where
  "decimal_max = 79228162514264337593543950335"

fun round_int :: "rounding_strategy \<Rightarrow> rat \<Rightarrow> int" where
  "round_int ToZero x = (if 0 \<le> x then \<lfloor>x\<rfloor> else \<lceil>x\<rceil>)"
| "round_int AwayFromZero x = (if 0 \<le> x then \<lceil>x\<rceil> else \<lfloor>x\<rfloor>)"
| "round_int MidpointAwayFromZero x = (if 0 \<le> x then \<lfloor>x + 1 / 2\<rfloor> else \<lceil>x - 1 / 2\<rceil>)"
| "round_int MidpointNearestEven x =
     (if x - of_int \<lfloor>x\<rfloor> < 1 / 2 then \<lfloor>x\<rfloor>
      else if 1 / 2 < x - of_int \<lfloor>x\<rfloor> then \<lfloor>x\<rfloor> + 1
      else if even \<lfloor>x\<rfloor> then \<lfloor>x\<rfloor> else \<lfloor>x\<rfloor> + 1)"

definition ref_round :: "rounding_strategy \<Rightarrow> nat \<Rightarrow> rat \<Rightarrow> rat" where
  "ref_round st s x = of_int (round_int st (x * 10 ^ s)) / 10 ^ s"

definition ref_checked :: "(rat \<Rightarrow> rat \<Rightarrow> rat) \<Rightarrow> rat \<Rightarrow> rat \<Rightarrow> rat option" where
  "ref_checked f a b = (if \<bar>f a b\<bar> \<le> decimal_max then Some (f a b) else None)"

definition ref_scale :: "rat \<Rightarrow> nat" where
  "ref_scale x =
     (case find (\<lambda>s. of_int \<lfloor>x * 10 ^ s\<rfloor> = x * 10 ^ s) [0..<29] of None \<Rightarrow> 29 | Some s \<Rightarrow> s)"

definition ref_dec :: "rat decimal_api" where
  "ref_dec = \<lparr>
     dnew = (\<lambda>m s. of_int m / 10 ^ s),
     checked_add = ref_checked (+),
     checked_sub = ref_checked (-),
     checked_mul = ref_checked (*),
     checked_div = (\<lambda>a b. if b = 0 then None else ref_checked (/) a b),
     drem = (\<lambda>a b. a - b * of_int (round_int ToZero (a / b))),
     dtrunc = (\<lambda>x. of_int (round_int ToZero x)),
     dfract = (\<lambda>x. x - of_int (round_int ToZero x)),
     round_with = ref_round,
     mantissa = (\<lambda>x. \<lfloor>x * 10 ^ ref_scale x\<rfloor>),
     scale = ref_scale,
     normal_scale = ref_scale,
     of_mantissa = (\<lambda>m s. if \<bar>m\<bar> < 2 ^ 96 \<and> s \<le> 28 then Some (of_int m / 10 ^ s) else None),
     to_usize = (\<lambda>x. if 0 \<le> x then Some (nat \<lfloor>x\<rfloor>) else None)\<rparr>"

lemma ref_dec_simps [simp]:
  "dnew ref_dec m s = of_int m / 10 ^ s"
  "checked_add ref_dec = ref_checked (+)"
  "checked_sub ref_dec = ref_checked (-)"
  "checked_mul ref_dec = ref_checked (*)"
  "checked_div ref_dec a b = (if b = 0 then None else ref_checked (/) a b)"
  "drem ref_dec a b = a - b * of_int (round_int ToZero (a / b))"
  "dtrunc ref_dec x = of_int (round_int ToZero x)"
  "dfract ref_dec x = x - of_int (round_int ToZero x)"
  "round_with ref_dec = ref_round"
  "mantissa ref_dec x = \<lfloor>x * 10 ^ ref_scale x\<rfloor>"
  "scale ref_dec = ref_scale"
  "normal_scale ref_dec = ref_scale"
  "of_mantissa ref_dec m s = (if \<bar>m\<bar> < 2 ^ 96 \<and> s \<le> 28 then Some (of_int m / 10 ^ s) else None)"
  "to_usize ref_dec x = (if 0 \<le> x then Some (nat \<lfloor>x\<rfloor>) else None)"
  by (simp_all add: ref_dec_def)

lemma round_int_of_int: "round_int st (of_int k) = k"
proof (cases st)
  case MidpointAwayFromZero
  have "\<lfloor>of_int k + 1 / 2 :: rat\<rfloor> = k" and "\<lceil>of_int k - 1 / 2 :: rat\<rceil> = k"
    by (simp_all add: floor_eq_iff ceiling_eq_iff)
  with MidpointAwayFromZero show ?thesis by simp
qed simp_all

lemma round_int_nonneg: "0 \<le> x \<Longrightarrow> 0 \<le> round_int st x"
  by (cases st) (auto simp: le_floor_iff)

lemma round_int_nonpos: "x \<le> 0 \<Longrightarrow> round_int st x \<le> 0"
proof (cases st)
  case MidpointNearestEven
  assume "x \<le> 0"
  then consider "x = 0" | "\<lfloor>x\<rfloor> \<le> -1" by linarith
  then show ?thesis using MidpointNearestEven by cases auto
qed (auto simp: ceiling_le_iff floor_less_iff)

lemma nearest_even_bounds:
  "\<lfloor>x\<rfloor> \<le> round_int MidpointNearestEven x \<and> round_int MidpointNearestEven x \<le> \<lfloor>x\<rfloor> + 1"
  by simp

lemma round_int_mono:
  assumes "x \<le> y"
  shows "round_int st x \<le> round_int st y"
proof (cases "0 \<le> x \<longleftrightarrow> 0 \<le> y")
  case False
  with assms have "x \<le> 0" and "0 \<le> y" by auto
  then show ?thesis using round_int_nonpos [of x st] round_int_nonneg [of y st] by linarith
next
  case True
  show ?thesis
  proof (cases st)
    case MidpointNearestEven
    show ?thesis
    proof (cases "\<lfloor>x\<rfloor> = \<lfloor>y\<rfloor>")
      case True
      with assms MidpointNearestEven show ?thesis by auto
    next
      case False
      with floor_mono [OF assms] have "\<lfloor>x\<rfloor> + 1 \<le> \<lfloor>y\<rfloor>" by linarith
      then have "round_int MidpointNearestEven x \<le> round_int MidpointNearestEven y"
        using nearest_even_bounds [of x] nearest_even_bounds [of y] by linarith
      with MidpointNearestEven show ?thesis by simp
    qed
  qed (use True assms in \<open>auto intro: floor_mono ceiling_mono\<close>)
qed

lemma ref_scale_grid:
  assumes "ref_scale x \<le> 28"
  shows "on_grid (ref_scale x) x"
proof -
  obtain t where t: "ref_scale x = t"
    and f: "find (\<lambda>s. of_int \<lfloor>x * 10 ^ s\<rfloor> = x * 10 ^ s) [0..<29] = Some t"
    using assms by (auto simp: ref_scale_def split: option.splits)
  obtain n where "x * 10 ^ t = of_int n"
    using f by (auto simp: find_Some_iff)
  then have "x = of_int n / 10 ^ t" by (simp add: eq_divide_eq)
  then show ?thesis unfolding on_grid_def t by blast
qed

interpretation ref: decimal_laws ref_dec
proof
  fix st s and x y :: rat
  show "on_grid s (round_with ref_dec st s x)"
    by (auto simp: on_grid_def ref_round_def)
  show "on_grid s x \<Longrightarrow> round_with ref_dec st s x = x"
    by (auto simp: on_grid_def ref_round_def round_int_of_int)
  show "x \<le> y \<Longrightarrow> round_with ref_dec st s x \<le> round_with ref_dec st s y"
    by (simp add: ref_round_def divide_right_mono round_int_mono)
  show "0 \<le> x \<Longrightarrow> round_with ref_dec ToZero s x \<le> x"
    by (simp add: ref_round_def divide_le_eq)
  show "0 \<le> x \<Longrightarrow> x \<le> round_with ref_dec AwayFromZero s x"
    by (simp add: ref_round_def le_divide_eq)
  show "normal_scale ref_dec x \<le> s \<Longrightarrow> s \<le> 28 \<Longrightarrow> on_grid s x"
    using on_grid_mono [OF ref_scale_grid [of x], of s] by simp
  show "scale ref_dec x \<le> 28 \<Longrightarrow> on_grid (scale ref_dec x) x"
    by (simp add: ref_scale_grid)
  show "dfract ref_dec x = 0 \<Longrightarrow> \<exists>k. x = of_int k"
    by (simp only: ref_dec_simps eq_iff_diff_eq_0 [symmetric]) blast
  show "0 \<le> a \<Longrightarrow> 0 < b \<Longrightarrow> drem ref_dec (of_int a) (of_int b) = of_int (a mod b)" for a b
    by (simp add: floor_divide_of_int_eq minus_mult_div_eq_mod flip: of_int_mult of_int_diff)
  show "\<exists>k::int. dtrunc ref_dec x = of_int k \<and> (0 \<le> x \<longrightarrow> of_int k \<le> x \<and> x < of_int k + 1)"
    by (rule exI [of _ "round_int ToZero x"]) (use floor_correct [of x] in simp)
  show "to_usize ref_dec x = Some n \<Longrightarrow> of_nat n \<le> x \<and> x < of_nat n + 1" for n
    by (auto split: if_splits) linarith
qed (auto simp: ref_checked_def split: if_splits)

section \<open>The civil calendar\<close>

text \<open>
  What the source asks of \<open>chrono\<close> beyond day arithmetic: year, month and weekday (0 is
  Monday) of a date, the date of a year, month and day, and subtracting months with the
  day clamped to the target month's length.
\<close>

record chrono_api =
  year_of :: "date \<Rightarrow> int"
  month_of :: "date \<Rightarrow> int"
  from_ymd :: "int \<Rightarrow> int \<Rightarrow> int \<Rightarrow> date"
  sub_months :: "date \<Rightarrow> nat \<Rightarrow> date"
  weekday_of :: "date \<Rightarrow> int"

locale calendar_laws =
  fixes C :: chrono_api
  assumes month_range: "1 \<le> month_of C d \<and> month_of C d \<le> 12"
    and month_start: "1 \<le> m \<Longrightarrow> m \<le> 12 \<Longrightarrow>
      from_ymd C y m 1 \<le> d \<longleftrightarrow> y < year_of C d \<or> y = year_of C d \<and> m \<le> month_of C d"
    and sub_year: "d - 366 \<le> sub_months C d 12 \<and> sub_months C d 12 \<le> d - 365"
    and weekday_range: "0 \<le> weekday_of C d \<and> weekday_of C d \<le> 6"
    and weekday_next: "weekday_of C (d + 1) = (weekday_of C d + 1) mod 7"
begin

lemma sub_year_mono: "d \<le> e \<Longrightarrow> sub_months C d 12 \<le> sub_months C e 12"
  using sub_year [of d] sub_year [of e] by (cases "d = e") auto

end


section \<open>The Gregorian calendar\<close>

text \<open>
  \<open>year_start y\<close> is the day before 1 January of year \<open>y\<close>; day 1 is Monday 1 January
  of year 1, as \<open>chrono\<close> counts.
\<close>

definition year_start :: "int \<Rightarrow> int" where
  "year_start y = 365 * (y - 1) + (y - 1) div 4 - (y - 1) div 100 + (y - 1) div 400"

definition leap :: "int \<Rightarrow> bool" where
  "leap y \<longleftrightarrow> y mod 4 = 0 \<and> (y mod 100 \<noteq> 0 \<or> y mod 400 = 0)"

definition month_offset :: "int \<Rightarrow> int \<Rightarrow> int" where
  "month_offset y m =
     (if m \<le> 1 then 0 else if m = 2 then 31 else
      (if m = 3 then 59 else if m = 4 then 90 else if m = 5 then 120 else if m = 6 then 151
       else if m = 7 then 181 else if m = 8 then 212 else if m = 9 then 243
       else if m = 10 then 273 else if m = 11 then 304 else if m = 12 then 334 else 365)
      + (if leap y then 1 else 0))"

definition greg_year :: "date \<Rightarrow> int" where
  "greg_year d =
     (let y = d * 400 div 146097 + 1
      in if d \<le> year_start y then y - 1 else if year_start (y + 1) < d then y + 1 else y)"

definition greg_month :: "date \<Rightarrow> int" where
  "greg_month d =
     (let y = greg_year d; n = d - year_start y
      in if n \<le> month_offset y 2 then 1 else if n \<le> month_offset y 3 then 2
         else if n \<le> month_offset y 4 then 3 else if n \<le> month_offset y 5 then 4
         else if n \<le> month_offset y 6 then 5 else if n \<le> month_offset y 7 then 6
         else if n \<le> month_offset y 8 then 7 else if n \<le> month_offset y 9 then 8
         else if n \<le> month_offset y 10 then 9 else if n \<le> month_offset y 11 then 10
         else if n \<le> month_offset y 12 then 11 else 12)"

definition greg_ymd :: "int \<Rightarrow> int \<Rightarrow> int \<Rightarrow> date" where
  "greg_ymd y m d = year_start y + month_offset y m + d"

definition greg_sub_months :: "date \<Rightarrow> nat \<Rightarrow> date" where
  "greg_sub_months d n =
     (let y = greg_year d; m = greg_month d; t = y * 12 + (m - 1) - int n;
          y' = t div 12; m' = t mod 12 + 1
      in greg_ymd y' m' (min (d - year_start y - month_offset y m)
                             (month_offset y' (m' + 1) - month_offset y' m')))"

definition gregorian :: chrono_api where
  "gregorian = \<lparr>year_of = greg_year, month_of = greg_month, from_ymd = greg_ymd,
     sub_months = greg_sub_months, weekday_of = (\<lambda>d. (d - 1) mod 7)\<rparr>"

lemma div_pred:
  fixes k y :: int
  assumes "0 < k"
  shows "(y - 1) div k = y div k - (if y mod k = 0 then 1 else 0)"
proof -
  define q r where "q = (y - 1) div k" and "r = (y - 1) mod k"
  have r: "0 \<le> r" "r < k" using assms by (simp_all add: r_def)
  have "k * q + r = y - 1" unfolding q_def r_def by (rule mult_div_mod_eq)
  then have y: "y = k * q + (r + 1)" by linarith
  show ?thesis
  proof (cases "r + 1 = k")
    case True
    then have "y = k * (q + 1)" using y by (simp add: distrib_left)
    then have "y div k = q + 1" and "y mod k = 0" using assms by simp_all
    then show ?thesis by (simp flip: q_def)
  next
    case False
    then have "y div k = q" and "y mod k = r + 1"
      using r y by (auto intro: int_div_pos_eq int_mod_pos_eq)
    with r show ?thesis by (simp flip: q_def)
  qed
qed

lemma leap_arith:
  "(q \<longrightarrow> p) \<Longrightarrow> (r \<longrightarrow> q) \<Longrightarrow>
   365 + (if p then 1 else 0) - (if q then 1 else 0) + (if r then 1 else 0) =
   (if p \<and> (\<not> q \<or> r) then 366 else 365 :: int)"
  by (cases p; cases q; cases r) simp_all

lemma year_start_arith:
  "365 * y + a - b + c - (365 * (y - 1) + (a - p) - (b - q) + (c - r)) = 365 + p - q + (r::int)"
  by simp

lemma year_start_next: "year_start (y + 1) = year_start y + (if leap y then 366 else 365)"
proof -
  have d: "(4::int) dvd 100" "(100::int) dvd 400" by simp_all
  have m: "y mod 100 = 0 \<longrightarrow> y mod 4 = 0" "y mod 400 = 0 \<longrightarrow> y mod 100 = 0"
    unfolding mod_eq_0_iff_dvd using d by (blast intro: dvd_trans)+
  define P Q R :: int where "P = (if y mod 4 = 0 then 1 else 0)"
    and "Q = (if y mod 100 = 0 then 1 else 0)" and "R = (if y mod 400 = 0 then 1 else 0)"
  have succ: "year_start (y + 1) = 365 * y + y div 4 - y div 100 + y div 400"
    by (simp only: year_start_def add_diff_cancel_right')
  have this_year: "year_start y =
    365 * (y - 1) + (y div 4 - P) - (y div 100 - Q) + (y div 400 - R)"
    unfolding year_start_def P_def Q_def R_def by (simp only: div_pred zero_less_numeral)
  have "year_start (y + 1) - year_start y = 365 + P - Q + R"
    unfolding succ this_year by (rule year_start_arith)
  also have "\<dots> = (if leap y then 366 else 365)"
    unfolding leap_def P_def Q_def R_def by (rule leap_arith [OF m])
  finally show ?thesis by (simp only: algebra_simps)
qed

lemma year_start_bounds:
  "146097 * (y - 1) - 700 \<le> 400 * year_start y"
  "400 * year_start y \<le> 146097 * (y - 1) + 400"
proof -
  define z a b c where "z = y - 1" and "a = z div 4" and "b = z div 100" and "c = z div 400"
  have "4 * a \<le> z \<and> z \<le> 4 * a + 3" unfolding a_def by linarith
  moreover have "100 * b \<le> z \<and> z \<le> 100 * b + 99" unfolding b_def by linarith
  moreover have "400 * c \<le> z \<and> z \<le> 400 * c + 399" unfolding c_def by linarith
  moreover have "year_start y = 365 * z + a - b + c"
    by (simp add: year_start_def z_def a_def b_def c_def)
  ultimately have "146097 * z - 700 \<le> 400 * year_start y \<and> 400 * year_start y \<le> 146097 * z + 400"
    by linarith
  then show "146097 * (y - 1) - 700 \<le> 400 * year_start y"
    and "400 * year_start y \<le> 146097 * (y - 1) + 400"
    by (simp_all add: z_def)
qed

lemma year_start_less: "year_start y < year_start (y + 1)"
  by (simp add: year_start_next)

lemma year_start_mono:
  assumes "y \<le> z"
  shows "year_start y \<le> year_start z"
proof -
  have "year_start y \<le> year_start (y + int n)" for n
  proof (induction n)
    case (Suc n)
    then show ?case using year_start_less [of "y + int n"] by (simp add: add.commute add.left_commute)
  qed simp
  from this [of "nat (z - y)"] assms show ?thesis by simp
qed

lemma greg_year_bounds: "year_start (greg_year d) < d \<and> d \<le> year_start (greg_year d + 1)"
proof -
  define y where "y = d * 400 div 146097 + 1"
  have "146097 * (d * 400 div 146097) \<le> d * 400" by linarith
  moreover have "d * 400 < 146097 * (d * 400 div 146097) + 146097" by linarith
  ultimately have y: "146097 * (y - 1) \<le> d * 400" "d * 400 < 146097 * y"
    by (simp_all add: y_def)
  have "year_start (y - 1) < d"
    using year_start_bounds(2) [of "y - 1"] y by simp
  moreover have "d \<le> year_start (y + 1 + 1)"
    using year_start_bounds(1) [of "y + 1 + 1"] y by simp
  ultimately show ?thesis
    unfolding greg_year_def Let_def y_def [symmetric] by auto
qed

lemma greg_year_unique:
  assumes "year_start y < d" and "d \<le> year_start (y + 1)"
  shows "greg_year d = y"
proof (rule ccontr)
  assume "greg_year d \<noteq> y"
  then consider "greg_year d + 1 \<le> y" | "y + 1 \<le> greg_year d" by linarith
  then show False
    using year_start_mono [of "greg_year d + 1" y] year_start_mono [of "y + 1" "greg_year d"]
      greg_year_bounds [of d] assms by cases auto
qed

lemma month_cases:
  assumes "1 \<le> m" and "m \<le> (12::int)"
  shows "m \<in> {1, 2, 3, 4, 5, 6, 7, 8, 9, 10, 11, 12}"
  using assms by (simp; presburger)

lemma month_offset_step:
  assumes "1 \<le> m" and "m \<le> 12"
  shows "month_offset y m + 28 \<le> month_offset y (m + 1)"
  using month_cases [OF assms] by (elim insertE emptyE) (simp_all add: month_offset_def)

lemma month_offset_year: "month_offset y 13 = year_start (y + 1) - year_start y"
  by (simp add: month_offset_def year_start_next)

lemma month_offset_mono:
  assumes "1 \<le> m" and "m \<le> n" and "n \<le> 13"
  shows "month_offset y m \<le> month_offset y n"
proof -
  have "n \<le> 13 \<Longrightarrow> month_offset y m \<le> month_offset y n"
    using assms(2)
  proof (induction n rule: int_ge_induct)
    case (step k)
    then show ?case using month_offset_step [of k y] assms(1) by simp
  qed simp
  with assms(3) show ?thesis by simp
qed

text \<open>The month is the unique one whose first day is not after the date and whose end is not before.\<close>

lemma greg_month_eq:
  assumes "1 \<le> m" and "m \<le> 12" and y: "y = greg_year d"
    and "month_offset y m < d - year_start y" and "d - year_start y \<le> month_offset y (m + 1)"
  shows "greg_month d = m"
proof -
  have lo: "\<not> d - year_start y \<le> month_offset y k" if "1 \<le> k" "k \<le> m" for k
    using month_offset_mono [of k m y] that assms by linarith
  show ?thesis
    using month_cases [OF assms(1,2)] lo assms(5)
    unfolding greg_month_def Let_def y [symmetric]
    by (elim insertE emptyE) simp_all
qed

lemma greg_month_bounds:
  "month_offset (greg_year d) (greg_month d) < d - year_start (greg_year d) \<and>
   d - year_start (greg_year d) \<le> month_offset (greg_year d) (greg_month d + 1)"
proof -
  define y n where "y = greg_year d" and "n = d - year_start y"
  have "month_offset y 1 < n" and "n \<le> month_offset y 13"
    using greg_year_bounds [of d] month_offset_year [of y]
    by (simp_all add: month_offset_def y_def n_def)
  then show ?thesis
    unfolding greg_month_def Let_def y_def [symmetric] n_def [symmetric] by simp
qed

lemma greg_month_range: "1 \<le> greg_month d \<and> greg_month d \<le> 12"
  by (simp add: greg_month_def Let_def)

lemma greg_month_start:
  assumes "1 \<le> m" and "m \<le> 12"
  shows "greg_ymd y m 1 \<le> d \<longleftrightarrow> y < greg_year d \<or> y = greg_year d \<and> m \<le> greg_month d"
proof -
  have yb: "year_start (greg_year d) < d" "d \<le> year_start (greg_year d + 1)"
    using greg_year_bounds by auto
  consider "y < greg_year d" | "y = greg_year d" | "greg_year d < y" by linarith
  then show ?thesis
  proof cases
    case 1
    then have "year_start (y + 1) \<le> year_start (greg_year d)" by (intro year_start_mono) simp
    moreover have "month_offset y m + 28 \<le> month_offset y 13"
      using month_offset_step [OF assms, of y] month_offset_mono [of "m + 1" 13 y] assms by simp
    ultimately have "greg_ymd y m 1 \<le> d"
      using yb month_offset_year [of y] by (simp add: greg_ymd_def)
    with 1 show ?thesis by simp
  next
    case 2
    have "month_offset y m < d - year_start y \<longleftrightarrow> m \<le> greg_month d"
    proof (cases "m \<le> greg_month d")
      case True
      then show ?thesis
        using month_offset_mono [of m "greg_month d" y] assms greg_month_range [of d]
          greg_month_bounds [of d] 2 by simp
    next
      case False
      then show ?thesis
        using month_offset_mono [of "greg_month d + 1" m y] assms greg_month_range [of d]
          greg_month_bounds [of d] 2 by simp
    qed
    with 2 show ?thesis by (auto simp: greg_ymd_def)
  next
    case 3
    then have "year_start (greg_year d + 1) \<le> year_start y" by (intro year_start_mono) simp
    moreover have "0 \<le> month_offset y m"
      using month_offset_mono [of 1 m y] assms by (simp add: month_offset_def)
    ultimately have "\<not> greg_ymd y m 1 \<le> d" using yb by (simp add: greg_ymd_def)
    with 3 show ?thesis by simp
  qed
qed

lemma month_offset_prev_year:
  assumes "1 \<le> m" and "m \<le> 12" and "1 \<le> k" and "k \<le> month_offset y (m + 1) - month_offset y m"
  shows "year_start y + month_offset y m + k
           - (year_start (y - 1) + month_offset (y - 1) m
              + min k (month_offset (y - 1) (m + 1) - month_offset (y - 1) m)) \<in> {365, 366}"
proof -
  have ys: "year_start y = year_start (y - 1) + (if leap (y - 1) then 366 else 365)"
    using year_start_next [of "y - 1"] by simp
  show ?thesis
    using month_cases [OF assms(1,2)] assms(3,4) unfolding ys
    by (elim insertE emptyE)
      (simp_all add: month_offset_def min_def, (cases "leap y"; cases "leap (y - 1)"; auto)+)
qed

lemma greg_sub_year:
  "d - 366 \<le> greg_sub_months d 12 \<and> greg_sub_months d 12 \<le> d - 365"
proof -
  define y m k where "y = greg_year d" and "m = greg_month d"
    and "k = d - year_start y - month_offset y m"
  have m: "1 \<le> m" "m \<le> 12" using greg_month_range by (auto simp: m_def)
  have k: "1 \<le> k" "k \<le> month_offset y (m + 1) - month_offset y m"
    using greg_month_bounds [of d] by (auto simp: k_def y_def m_def)
  have t: "y * 12 + (m - 1) - int 12 = 12 * (y - 1) + (m - 1)" by simp
  have "(y * 12 + (m - 1) - int 12) div 12 = y - 1"
    unfolding t by (rule int_div_pos_eq [OF refl]) (use m in simp_all)
  moreover have "(y * 12 + (m - 1) - int 12) mod 12 = m - 1"
    unfolding t by (rule int_mod_pos_eq [OF refl]) (use m in simp_all)
  ultimately have "greg_sub_months d 12 = year_start (y - 1) + month_offset (y - 1) m
      + min k (month_offset (y - 1) (m + 1) - month_offset (y - 1) m)"
    by (simp add: greg_sub_months_def greg_ymd_def Let_def k_def y_def m_def add.commute)
  moreover have "d = year_start y + month_offset y m + k" by (simp add: k_def)
  ultimately show ?thesis using month_offset_prev_year [OF m k] by auto
qed

interpretation greg: calendar_laws gregorian
proof
  fix d y m
  show "1 \<le> month_of gregorian d \<and> month_of gregorian d \<le> 12"
    by (simp add: gregorian_def greg_month_range)
  show "1 \<le> m \<Longrightarrow> m \<le> 12 \<Longrightarrow> from_ymd gregorian y m 1 \<le> d \<longleftrightarrow>
      y < year_of gregorian d \<or> y = year_of gregorian d \<and> m \<le> month_of gregorian d"
    by (simp add: gregorian_def greg_month_start)
  show "d - 366 \<le> sub_months gregorian d 12 \<and> sub_months gregorian d 12 \<le> d - 365"
    by (simp add: gregorian_def greg_sub_year)
  show "0 \<le> weekday_of gregorian d \<and> weekday_of gregorian d \<le> 6"
    using pos_mod_bound [of 7 "d - 1"] by (simp add: gregorian_def)
  show "weekday_of gregorian (d + 1) = (weekday_of gregorian d + 1) mod 7"
    by (simp add: gregorian_def mod_simps)
qed

lemma gregorian_simps [simp]:
  "year_of gregorian = greg_year"
  "month_of gregorian = greg_month"
  "from_ymd gregorian = greg_ymd"
  "sub_months gregorian = greg_sub_months"
  "weekday_of gregorian = (\<lambda>d. (d - 1) mod 7)"
  by (simp_all add: gregorian_def)

text \<open>1 July 2024 is a Monday, and 29 February 2024 less twelve months clamps to 28 February.\<close>

lemma gregorian_examples:
  "greg_ymd 2024 7 1 = 739068"
  "greg_year 739068 = 2024 \<and> greg_month 739068 = 7 \<and> (739068 - 1) mod 7 = (0::int)"
  "greg_sub_months (greg_ymd 2024 2 29) 12 = greg_ymd 2023 2 28"
  by code_simp+

end
