(* ===== verification/DecimalOps.thy ===== *)
theory DecimalOps
  imports Platform
begin

text \<open>
  \<open>src/src/infra/decimal.rs\<close>: the cent rounding, the multiply-then-divide that survives an
  overflowing product, the two-way split of a cost base, and the request codec that refuses
  JSON numbers.
\<close>

section \<open>Rounding to the cent\<close>

definition to_cents :: "'d::zero decimal_api \<Rightarrow> 'd \<Rightarrow> 'd" where
  "to_cents D value =
     (let rounded = round_with D MidpointAwayFromZero 2 value
      in if rounded = 0 then 0 else rounded)"

section \<open>Multiply, then divide\<close>

text \<open>The loop of \<open>mul_div\<close>: the flag says that the division was taken early.\<close>

fun mul_div_loop ::
    "'d::{times,inverse} decimal_api \<Rightarrow> 'd \<Rightarrow> 'd \<Rightarrow> bool \<Rightarrow> 'd list \<Rightarrow> 'd \<times> bool" where
  "mul_div_loop D divisor acc divided [] = (acc, divided)"
| "mul_div_loop D divisor acc divided (f # rest) =
     (case checked_mul D acc f of
        Some product \<Rightarrow> mul_div_loop D divisor product divided rest
      | None \<Rightarrow>
          if \<not> divided then mul_div_loop D divisor (acc / divisor * f) True rest
          else mul_div_loop D divisor (acc * f) divided rest)"

definition mul_div :: "'d::{one,times,inverse} decimal_api \<Rightarrow> 'd list \<Rightarrow> 'd \<Rightarrow> 'd" where
  "mul_div D factors divisor =
     (case factors of
        [] \<Rightarrow> 1 / divisor
      | first # rest \<Rightarrow>
          (let (acc, divided) = mul_div_loop D divisor first False rest
           in if divided then acc else acc / divisor))"

section \<open>The two-way split of a cost base\<close>

record 'd apportioned =
  ap_share :: 'd
  ap_rest :: 'd

text \<open>\<open>checked_ilog10\<close> plus one is the number of digits, one for a zero.\<close>

fun digit_count :: "nat \<Rightarrow> nat" where
  "digit_count n = (if n < 10 then 1 else Suc (digit_count (n div 10)))"

declare digit_count.simps [simp del]

definition apportion :: "'d::{one,minus,times,inverse} decimal_api \<Rightarrow> 'd \<Rightarrow> 'd \<Rightarrow> 'd \<Rightarrow> 'd apportioned"
  where
  "apportion D whole num den =
     (let digits = digit_count (nat \<bar>mantissa D whole\<bar>);
          integer_digits = digits - scale D whole;
          places = max (28 - integer_digits) (scale D whole);
          share = round_with D MidpointNearestEven places (mul_div D [whole, num] den)
      in \<lparr>ap_share = share, ap_rest = whole - share\<rparr>)"

section \<open>The request codec\<close>

text \<open>
  What \<open>serde\<close> hands to the visitor: a string, a number of any width, null, or another
  shape. Parsing the digits is the library's (\<open>parse\<close>), on the trimmed text.
\<close>

datatype json = JStr string | JFloat | JInt | JNull | JOther

datatype codec_error = JsonNumberRefused | NotADecimal string | InvalidType

definition is_space :: "char \<Rightarrow> bool" where
  "is_space c \<longleftrightarrow> c \<in> {CHR '' '', CHR 0x09, CHR 0x0A, CHR 0x0B, CHR 0x0C, CHR 0x0D}"

definition trim :: "string \<Rightarrow> string" where
  "trim s = rev (dropWhile is_space (rev (dropWhile is_space s)))"

fun strict_decimal :: "(string \<Rightarrow> 'd option) \<Rightarrow> json \<Rightarrow> codec_error + 'd" where
  "strict_decimal parse (JStr v) = ok_or (NotADecimal v) (parse (trim v))"
| "strict_decimal parse JFloat = Inl JsonNumberRefused"
| "strict_decimal parse JInt = Inl JsonNumberRefused"
| "strict_decimal parse JNull = Inl InvalidType"
| "strict_decimal parse JOther = Inl InvalidType"

fun strict_optional_decimal :: "(string \<Rightarrow> 'd option) \<Rightarrow> json option \<Rightarrow> codec_error + 'd option"
  where
  "strict_optional_decimal parse None = Inr None"
| "strict_optional_decimal parse (Some JNull) = Inr None"
| "strict_optional_decimal parse (Some v) = map_result Some (strict_decimal parse v)"

definition strict_aud_map ::
    "(string \<Rightarrow> 'd option) \<Rightarrow> ('k \<times> json) list \<Rightarrow> codec_error + ('k \<times> 'd) list" where
  "strict_aud_map parse entries =
     try_map (\<lambda>(k, v). map_result (\<lambda>d. (k, d)) (strict_decimal parse v)) entries"

section \<open>Lemmas\<close>

context decimal_laws
begin

lemma to_cents_round: "to_cents D x = round_with D MidpointAwayFromZero 2 x"
  by (simp add: to_cents_def Let_def)

lemma to_cents_grid: "on_grid 2 (to_cents D x)"
  by (simp add: to_cents_round round_grid)

lemma to_cents_fix: "on_grid 2 x \<Longrightarrow> to_cents D x = x"
  by (simp add: to_cents_round round_fix)

lemma to_cents_mono: "x \<le> y \<Longrightarrow> to_cents D x \<le> to_cents D y"
  by (simp add: to_cents_round round_mono)

lemma to_cents_nonneg: "0 \<le> x \<Longrightarrow> 0 \<le> to_cents D x"
  by (simp add: to_cents_round round_nonneg)

lemma to_cents_nonpos: "x \<le> 0 \<Longrightarrow> to_cents D x \<le> 0"
  by (simp add: to_cents_round round_nonpos)

lemma to_cents_zero [simp]: "to_cents D 0 = 0"
  by (simp add: to_cents_fix on_grid_0)

text \<open>Whatever overflows on the way, the exact result is the product over the divisor.\<close>

lemma mul_div_loop_eq:
  assumes "divisor \<noteq> 0"
  shows "(case mul_div_loop D divisor acc divided fs of
            (r, d) \<Rightarrow> if d then r else r / divisor) =
         (if divided then acc else acc / divisor) * prod_list fs"
proof (induction fs arbitrary: acc divided)
  case (Cons f fs)
  show ?case
  proof (cases "checked_mul D acc f")
    case None
    then show ?thesis using Cons.IH assms by (cases divided) (simp_all add: mult.assoc)
  next
    case (Some p)
    then have "p = acc * f" by (rule mul_eq)
    with Some show ?thesis using Cons.IH by (simp add: mult.assoc)
  qed
qed simp

lemma mul_div_eq [decimal_exact]:
  "divisor \<noteq> 0 \<Longrightarrow> mul_div D factors divisor = prod_list factors / divisor"
proof (cases factors)
  case (Cons f fs)
  assume "divisor \<noteq> 0"
  then show ?thesis
    using mul_div_loop_eq [of divisor f False fs] Cons
    by (simp add: mul_div_def Let_def split: prod.splits)
qed (simp add: mul_div_def)

lemma apportion_exact: "ap_share (apportion D w n d) + ap_rest (apportion D w n d) = w"
  by (simp add: apportion_def Let_def)

lemma apportion_bounds:
  assumes "0 \<le> w" and "0 \<le> n" and "n \<le> d" and "0 < d" and "scale D w \<le> 28"
  shows "0 \<le> ap_share (apportion D w n d) \<and> ap_share (apportion D w n d) \<le> w"
proof -
  define places where
    "places = max (28 - (digit_count (nat \<bar>mantissa D w\<bar>) - scale D w)) (scale D w)"
  have share: "ap_share (apportion D w n d) = round_with D MidpointNearestEven places (w * n / d)"
    using assms(4) by (simp add: apportion_def Let_def places_def mul_div_eq)
  have "on_grid places w"
    using on_grid_mono [OF scale_grid [OF assms(5)], of places] by (simp add: places_def)
  then have fix_w: "round_with D MidpointNearestEven places w = w" by (rule round_fix)
  have "w * n / d \<le> w"
    using assms mult_left_mono [of n d w] by (simp add: divide_le_eq)
  then have "ap_share (apportion D w n d) \<le> w"
    unfolding share using round_mono fix_w by metis
  moreover have "0 \<le> w * n / d" using assms by simp
  then have "0 \<le> ap_share (apportion D w n d)" unfolding share by (rule round_nonneg)
  ultimately show ?thesis by blast
qed

end

lemma strict_decimal_number:
  "v = JFloat \<or> v = JInt \<Longrightarrow> strict_decimal parse v = Inl JsonNumberRefused"
  by auto

lemma strict_aud_map_ok:
  "strict_aud_map parse entries = Inr out \<Longrightarrow>
   length out = length entries \<and>
   (\<forall>i < length entries. \<exists>s. snd (entries ! i) = JStr s \<and> parse (trim s) = Some (snd (out ! i))
      \<and> fst (out ! i) = fst (entries ! i))"
proof (intro conjI allI impI)
  assume ok: "strict_aud_map parse entries = Inr out"
  show "length out = length entries"
    using ok by (auto simp: strict_aud_map_def dest: try_map_length)
  fix i assume "i < length entries"
  then have "(\<lambda>(k, v). map_result (\<lambda>d. (k, d)) (strict_decimal parse v)) (entries ! i) = Inr (out ! i)"
    using ok by (auto simp: strict_aud_map_def dest: try_map_nth)
  then show "\<exists>s. snd (entries ! i) = JStr s \<and> parse (trim s) = Some (snd (out ! i))
      \<and> fst (out ! i) = fst (entries ! i)"
    by (cases "entries ! i"; cases "snd (entries ! i)") (auto simp: result_simps)
qed

end
