(* ===== verification/Units.thy ===== *)
theory Units
  imports DecimalOps
begin

text \<open>
  \<open>src/src/domain/adjustments.rs\<close>, the unit counts: decimal gcd and lcm, fractions in
  lowest terms, and \<open>AcquiredUnits\<close>, the exact as-acquired quantities every cost-base
  calculation runs in. The value of a count is \<open>num / den\<close>; the lemmas show that its
  addition, subtraction and comparison are those of the value, whichever branch the
  overflow checks take.
\<close>

section \<open>Fractions\<close>

record 'd fraction =
  fr_num :: 'd
  fr_den :: 'd

definition fraction_whole :: "'d::one \<Rightarrow> 'd fraction" where
  "fraction_whole n = \<lparr>fr_num = n, fr_den = 1\<rparr>"

text \<open>Euclid's algorithm on the aligned mantissas, which are \<open>u128\<close> values.\<close>

fun euclid :: "nat \<Rightarrow> nat \<Rightarrow> nat" where
  "euclid x y = (if y = 0 then x else euclid y (x mod y))"

declare euclid.simps [simp del]

definition align :: "'d decimal_api \<Rightarrow> nat \<Rightarrow> 'd \<Rightarrow> nat option" where
  "align D s d =
     (let p = 10 ^ (s - scale D d); m = nat \<bar>mantissa D d\<bar>
      in if p < 2 ^ 128 \<and> m * p < 2 ^ 128 then Some (m * p) else None)"

definition dgcd :: "'d decimal_api \<Rightarrow> 'd \<Rightarrow> 'd \<Rightarrow> 'd option" where
  "dgcd D a b =
     (let s = max (scale D a) (scale D b) in
      case align D s a of None \<Rightarrow> None | Some x \<Rightarrow>
      (case align D s b of None \<Rightarrow> None | Some y \<Rightarrow>
        (let g = euclid x y in
         if g = 0 then None
         else if g < 2 ^ 127 then of_mantissa D (int g) s else None)))"

definition lowest_terms :: "'d::{one,inverse,linorder} decimal_api \<Rightarrow> 'd \<Rightarrow> 'd \<Rightarrow> 'd \<times> 'd" where
  "lowest_terms D num den =
     (case dgcd D num den of
        Some g \<Rightarrow> if g > 1 then (num / g, den / g) else (num, den)
      | None \<Rightarrow> (num, den))"

text \<open>
  The Euclidean loop of \<open>lcm\<close> runs on the decimals themselves. Nothing in its type makes
  it stop, so not returning is \<open>None\<close> here; \<open>dec_euclid_int\<close> shows that it always returns
  on the whole counts it is called with.
\<close>

partial_function (option) dec_euclid :: "'d::zero decimal_api \<Rightarrow> 'd \<Rightarrow> 'd \<Rightarrow> 'd option" where
  "dec_euclid D x y = (if y = 0 then Some x else dec_euclid D y (drem D x y))"

definition dlcm :: "'d::{zero,inverse} decimal_api \<Rightarrow> 'd \<Rightarrow> 'd \<Rightarrow> 'd option" where
  "dlcm D a b =
     (if dfract D a = 0 \<and> dfract D b = 0
      then (case dec_euclid D a b of None \<Rightarrow> None | Some x \<Rightarrow> checked_mul D (a / x) b)
      else checked_mul D a b)"

text \<open>\<open>Fraction::over_common_denominator\<close> and \<open>Fraction::sum\<close>.\<close>

definition over_common_denominator ::
    "'d::{zero,one,inverse} decimal_api \<Rightarrow> 'd fraction list \<Rightarrow> ('d list \<times> 'd) option" where
  "over_common_denominator D fractions =
     (case opt_foldl (\<lambda>common f. dlcm D common (fr_den f)) 1 fractions of
        None \<Rightarrow> None
      | Some common \<Rightarrow>
          (case opt_map (\<lambda>f. checked_mul D (fr_num f) (common / fr_den f)) fractions of
             None \<Rightarrow> None
           | Some nums \<Rightarrow> Some (nums, common)))"

definition fraction_sum ::
    "'d::{zero,one,inverse} decimal_api \<Rightarrow> 'd fraction list \<Rightarrow> 'd fraction option" where
  "fraction_sum D fractions =
     (case over_common_denominator D fractions of
        None \<Rightarrow> None
      | Some (nums, den) \<Rightarrow>
          (case opt_foldl (checked_add D) 0 nums of
             None \<Rightarrow> None
           | Some num \<Rightarrow> Some \<lparr>fr_num = num, fr_den = den\<rparr>))"

section \<open>As-acquired unit counts\<close>

record 'd acquired_units =
  au_num :: 'd
  au_den :: 'd

definition au_zero :: "'d::{zero,one} acquired_units" where
  "au_zero = \<lparr>au_num = 0, au_den = 1\<rparr>"

definition au_new :: "'d::one \<Rightarrow> 'd acquired_units" where
  "au_new quantity = \<lparr>au_num = quantity, au_den = 1\<rparr>"

definition au_fraction ::
    "'d::{zero,one,inverse,linorder} decimal_api \<Rightarrow> 'd \<Rightarrow> 'd \<Rightarrow> 'd acquired_units" where
  "au_fraction D num den =
     (if den = 1 then au_new num
      else if drem D num den = 0 then au_new (num / den)
      else (let (n, d) = lowest_terms D num den in \<lparr>au_num = n, au_den = d\<rparr>))"

definition au_get :: "'d::{one,inverse} acquired_units \<Rightarrow> 'd" where
  "au_get u = (if au_den u = 1 then au_num u else au_num u / au_den u)"

definition au_parts :: "'d acquired_units \<Rightarrow> 'd fraction" where
  "au_parts u = \<lparr>fr_num = au_num u, fr_den = au_den u\<rparr>"

definition au_common ::
    "'d::{zero,inverse} decimal_api \<Rightarrow> 'd acquired_units \<Rightarrow> 'd acquired_units \<Rightarrow> ('d \<times> 'd \<times> 'd) option"
  where
  "au_common D u r =
     (if au_den u = au_den r then Some (au_num u, au_num r, au_den u)
      else (case dlcm D (au_den u) (au_den r) of None \<Rightarrow> None | Some common \<Rightarrow>
        (case checked_mul D (au_num u) (common / au_den u) of None \<Rightarrow> None | Some a \<Rightarrow>
          (case checked_mul D (au_num r) (common / au_den r) of None \<Rightarrow> None | Some b \<Rightarrow>
             Some (a, b, common)))))"

text \<open>
  \<open>combine\<close>: where the exact form does not fit, the operation runs on the quotients; its
  \<open>expect\<close> panics exactly where the plain operator \<open>plain\<close> would.
\<close>

definition au_combine ::
    "'d::{zero,one,inverse,linorder} decimal_api \<Rightarrow> ('d \<Rightarrow> 'd \<Rightarrow> 'd option) \<Rightarrow> ('d \<Rightarrow> 'd \<Rightarrow> 'd) \<Rightarrow>
     'd acquired_units \<Rightarrow> 'd acquired_units \<Rightarrow> 'd acquired_units" where
  "au_combine D checked plain u r =
     (case au_common D u r of
        Some (a, b, den) \<Rightarrow>
          (case checked a b of
             Some n \<Rightarrow> au_fraction D n den
           | None \<Rightarrow> au_new (plain (au_get u) (au_get r)))
      | None \<Rightarrow> au_new (plain (au_get u) (au_get r)))"

definition au_add ::
    "'d::{zero,one,plus,inverse,linorder} decimal_api \<Rightarrow>
     'd acquired_units \<Rightarrow> 'd acquired_units \<Rightarrow> 'd acquired_units" where
  "au_add D = au_combine D (checked_add D) (+)"

definition au_sub ::
    "'d::{zero,one,minus,inverse,linorder} decimal_api \<Rightarrow>
     'd acquired_units \<Rightarrow> 'd acquired_units \<Rightarrow> 'd acquired_units" where
  "au_sub D = au_combine D (checked_sub D) (-)"

text \<open>\<open>Ord\<close>: the two numbers \<open>cmp\<close> compares, and the relations derived from it.\<close>

definition au_key ::
    "'d::{zero,one,inverse} decimal_api \<Rightarrow> 'd acquired_units \<Rightarrow> 'd acquired_units \<Rightarrow> 'd \<times> 'd" where
  "au_key D u r =
     (case au_common D u r of Some (a, b, _) \<Rightarrow> (a, b) | None \<Rightarrow> (au_get u, au_get r))"

definition au_eq ::
    "'d::{zero,one,inverse} decimal_api \<Rightarrow> 'd acquired_units \<Rightarrow> 'd acquired_units \<Rightarrow> bool" where
  "au_eq D u r = (let (a, b) = au_key D u r in a = b)"

definition au_less ::
    "'d::{zero,one,inverse,linorder} decimal_api \<Rightarrow> 'd acquired_units \<Rightarrow> 'd acquired_units \<Rightarrow> bool"
  where
  "au_less D u r = (let (a, b) = au_key D u r in a < b)"

definition au_sum ::
    "'d::{zero,one,plus,inverse,linorder} decimal_api \<Rightarrow> 'd acquired_units list \<Rightarrow> 'd acquired_units"
  where
  "au_sum D us = foldl (au_add D) au_zero us"

section \<open>The value of a count\<close>

definition au_val :: "'d::linordered_field acquired_units \<Rightarrow> 'd" where
  "au_val u = au_num u / au_den u"

definition au_ok :: "'d::linordered_field acquired_units \<Rightarrow> bool" where
  "au_ok u \<longleftrightarrow> 0 < au_den u"

named_theorems units_simps \<open>values and well-formedness of unit counts\<close>

lemma au_get_val [units_simps]: "au_get u = au_val u"
  by (simp add: au_get_def au_val_def)

lemma au_new_simps [units_simps]: "au_val (au_new q) = q" "au_ok (au_new q)"
  by (simp_all add: au_new_def au_val_def au_ok_def)

lemma au_zero_simps [units_simps]: "au_val au_zero = 0" "au_ok au_zero"
  by (simp_all add: au_zero_def au_val_def au_ok_def)

lemma euclid_gcd: "euclid x y = gcd x y"
  by (induction x y rule: euclid.induct) (subst euclid.simps, simp add: gcd_red_nat [symmetric] gcd.commute)

context decimal_laws
begin

lemma dgcd_nonzero: "lowest_terms D n d = (n', d') \<Longrightarrow> n' / d' = n / d \<and> (0 < d \<longrightarrow> 0 < d')"
  by (auto simp: lowest_terms_def split: option.splits if_splits)

lemma lowest_terms_val:
  assumes "0 < d"
  shows "fst (lowest_terms D n d) / snd (lowest_terms D n d) = n / d
       \<and> 0 < snd (lowest_terms D n d)"
  using dgcd_nonzero [of n d] assms by (cases "lowest_terms D n d") simp

lemma au_fraction_simps [units_simps]:
  assumes "0 < den"
  shows "au_val (au_fraction D num den) = num / den" "au_ok (au_fraction D num den)"
  using lowest_terms_val [OF assms, of num] assms
  by (auto simp: au_fraction_def au_val_def au_ok_def au_new_def split: prod.splits)

text \<open>Euclid's loop returns on whole counts, with their gcd.\<close>

lemma dec_euclid_int:
  assumes "0 \<le> i" and "0 \<le> j"
  shows "dec_euclid D (of_int i) (of_int j) = Some (of_int (gcd i j))"
  using assms
proof (induction "nat j" arbitrary: i j rule: less_induct)
  case less
  show ?case
  proof (cases "j = 0")
    case True
    then show ?thesis using less.prems by (simp add: dec_euclid.simps)
  next
    case False
    then have "0 < j" using less.prems by simp
    then have "dec_euclid D (of_int j) (of_int (i mod j)) = Some (of_int (gcd j (i mod j)))"
      using less.hyps [of "i mod j" j] less.prems by simp
    then show ?thesis
      using rem_int [OF less.prems(1) \<open>0 < j\<close>] \<open>0 < j\<close>
      by (simp add: dec_euclid.simps [of _ "of_int i"] gcd_red_int [symmetric])
  qed
qed

lemma dlcm_pos:
  assumes "0 < a" and "0 < b" and "dlcm D a b = Some c"
  shows "0 < c"
proof (cases "dfract D a = 0 \<and> dfract D b = 0")
  case True
  then obtain i j where ij: "a = of_int i" "b = of_int j" using fract_int by blast
  with assms have "0 < i" "0 < j" by simp_all
  then have e: "dec_euclid D a b = Some (of_int (gcd i j))" and g: "0 < gcd i j"
    using dec_euclid_int [of i j] ij by simp_all
  have "c = a / of_int (gcd i j) * b"
    using assms(3) True e by (auto simp: dlcm_def dest: mul_eq)
  then show ?thesis using assms g by simp
next
  case False
  then have "c = a * b" using assms(3) by (auto simp: dlcm_def dest: mul_eq split: if_splits)
  then show ?thesis using assms by simp
qed

lemma au_common_val:
  assumes "au_ok u" and "au_ok r" and "au_common D u r = Some (a, b, c)"
  shows "0 < c \<and> a / c = au_val u \<and> b / c = au_val r"
proof (cases "au_den u = au_den r")
  case True
  then show ?thesis using assms by (auto simp: au_common_def au_ok_def au_val_def)
next
  case False
  with assms(3) have "dlcm D (au_den u) (au_den r) = Some c"
    and ab: "checked_mul D (au_num u) (c / au_den u) = Some a"
      "checked_mul D (au_num r) (c / au_den r) = Some b"
    by (auto simp: au_common_def split: option.splits)
  moreover have "0 < au_den u" "0 < au_den r" using assms(1,2) by (simp_all add: au_ok_def)
  ultimately have "0 < c" using dlcm_pos by blast
  then show ?thesis
    using mul_eq [OF ab(1)] mul_eq [OF ab(2)] \<open>0 < au_den u\<close> \<open>0 < au_den r\<close>
    by (simp add: au_val_def)
qed

lemma au_combine_val:
  assumes ok: "au_ok u" "au_ok r"
    and checked: "\<And>a b n. checked a b = Some n \<Longrightarrow> n = plain a b"
    and linear: "\<And>a b c. 0 < c \<Longrightarrow> plain a b / c = plain (a / c) (b / c)"
  shows "au_val (au_combine D checked plain u r) = plain (au_val u) (au_val r)
       \<and> au_ok (au_combine D checked plain u r)"
proof (cases "au_common D u r")
  case None
  then show ?thesis by (simp add: au_combine_def units_simps)
next
  case (Some t)
  obtain a b c where t: "t = (a, b, c)" by (cases t)
  note abc = au_common_val [OF ok Some [unfolded t]]
  show ?thesis
  proof (cases "checked a b")
    case None
    with Some t show ?thesis by (simp add: au_combine_def units_simps)
  next
    case (Some n)
    then have "au_combine D checked plain u r = au_fraction D n c"
      using \<open>au_common D u r = Some t\<close> t by (simp add: au_combine_def)
    then show ?thesis
      using abc checked [OF Some] linear [of c a b] by (simp add: units_simps)
  qed
qed

lemma au_add_simps [units_simps]:
  assumes "au_ok u" "au_ok r"
  shows "au_val (au_add D u r) = au_val u + au_val r" "au_ok (au_add D u r)"
  using au_combine_val [OF assms, of "checked_add D" "(+)"]
  by (simp_all add: au_add_def add_eq add_divide_distrib)

lemma au_sub_simps [units_simps]:
  assumes "au_ok u" "au_ok r"
  shows "au_val (au_sub D u r) = au_val u - au_val r" "au_ok (au_sub D u r)"
  using au_combine_val [OF assms, of "checked_sub D" "(-)"]
  by (simp_all add: au_sub_def sub_eq diff_divide_distrib)

lemma au_key_cmp:
  assumes "au_ok u" "au_ok r" "au_key D u r = (a, b)"
  shows "(a < b \<longleftrightarrow> au_val u < au_val r) \<and> (a = b \<longleftrightarrow> au_val u = au_val r)"
proof (cases "au_common D u r")
  case None
  then show ?thesis using assms(3) by (auto simp: au_key_def units_simps)
next
  case (Some t)
  obtain c where "t = (a, b, c)" using assms(3) Some by (cases t) (auto simp: au_key_def)
  then have abc: "0 < c" "a / c = au_val u" "b / c = au_val r"
    using au_common_val [OF assms(1,2)] Some by blast+
  show ?thesis
    unfolding abc(2) [symmetric] abc(3) [symmetric] using abc(1)
    by (simp add: divide_less_cancel)
qed

lemma au_less_val [units_simps]: "au_ok u \<Longrightarrow> au_ok r \<Longrightarrow> au_less D u r \<longleftrightarrow> au_val u < au_val r"
  using au_key_cmp [of u r] by (cases "au_key D u r") (simp add: au_less_def)

lemma au_eq_val [units_simps]: "au_ok u \<Longrightarrow> au_ok r \<Longrightarrow> au_eq D u r \<longleftrightarrow> au_val u = au_val r"
  using au_key_cmp [of u r] by (cases "au_key D u r") (simp add: au_eq_def)

lemma au_sum_fold:
  "au_ok u \<Longrightarrow> (\<And>v. v \<in> set us \<Longrightarrow> au_ok v) \<Longrightarrow>
   au_val (foldl (au_add D) u us) = au_val u + sum_list (map au_val us)
   \<and> au_ok (foldl (au_add D) u us)"
proof (induction us arbitrary: u)
  case (Cons v us)
  from Cons.IH [of "au_add D u v"] Cons.prems show ?case
    by (simp add: units_simps)
qed simp

lemma au_sum_simps [units_simps]:
  assumes "\<And>v. v \<in> set us \<Longrightarrow> au_ok v"
  shows "au_val (au_sum D us) = sum_list (map au_val us)" "au_ok (au_sum D us)"
  using au_sum_fold [of au_zero us] assms by (simp_all add: au_sum_def units_simps)

lemma common_den_pos:
  assumes "opt_foldl (\<lambda>common f. dlcm D common (fr_den f)) c fs = Some den"
    and "0 < c" and "\<And>f. f \<in> set fs \<Longrightarrow> 0 < fr_den f"
  shows "0 < den"
  using assms
proof (induction fs arbitrary: c)
  case (Cons f fs)
  then obtain c' where c': "dlcm D c (fr_den f) = Some c'"
    and rest: "opt_foldl (\<lambda>common f. dlcm D common (fr_den f)) c' fs = Some den"
    by (auto simp: bind_eq_Some_conv)
  have "0 < c'" using dlcm_pos [OF Cons.prems(2) _ c'] Cons.prems(3) by simp
  with Cons.IH [OF rest] Cons.prems(3) show ?case by simp
qed simp

text \<open>Bringing fractions over a common denominator keeps every value.\<close>

lemma over_common_denominator_val:
  assumes "over_common_denominator D fs = Some (nums, den)"
    and pos: "\<And>f. f \<in> set fs \<Longrightarrow> 0 < fr_den f"
  shows "0 < den \<and> length nums = length fs \<and>
    (\<forall>i < length fs. nums ! i / den = fr_num (fs ! i) / fr_den (fs ! i))"
proof -
  from assms(1) have common: "opt_foldl (\<lambda>common f. dlcm D common (fr_den f)) 1 fs = Some den"
    and nums: "opt_map (\<lambda>f. checked_mul D (fr_num f) (den / fr_den f)) fs = Some nums"
    by (auto simp: over_common_denominator_def split: option.splits)
  have den: "0 < den" using common_den_pos [OF common] pos by simp
  have "nums ! i / den = fr_num (fs ! i) / fr_den (fs ! i)" if "i < length fs" for i
    using mul_eq [OF opt_map_nth [OF nums that]] den by simp
  with den opt_map_length [OF nums] show ?thesis by simp
qed

lemma fraction_sum_val:
  assumes "fraction_sum D fs = Some f" and "\<And>f. f \<in> set fs \<Longrightarrow> 0 < fr_den f"
  shows "fr_num f / fr_den f = sum_list (map (\<lambda>f. fr_num f / fr_den f) fs)"
proof -
  obtain nums den num where c: "over_common_denominator D fs = Some (nums, den)"
    and n: "opt_foldl (checked_add D) 0 nums = Some num" and f: "f = \<lparr>fr_num = num, fr_den = den\<rparr>"
    using assms(1) by (auto simp: fraction_sum_def split: option.splits)
  note v = over_common_denominator_val [OF c assms(2)]
  have "map (\<lambda>f. fr_num f / fr_den f) fs = map (\<lambda>n. n / den) nums"
    using v by (auto intro: nth_equalityI)
  moreover have "sum_list (map (\<lambda>n. n / den) nums) = sum_list nums / den"
    by (induction nums) (simp_all add: add_divide_distrib)
  ultimately show ?thesis using opt_fold_add [OF n] f by simp
qed

end

end
