(* ===== verification/Splits.thy ===== *)
theory Splits
  imports Units "HOL-Library.Option_ord"
begin

text \<open>
  \<open>src/src/domain/adjustments.rs\<close>: share splits, consolidations and bonus issues, the
  re-basing of unit counts between dates, the as-acquired units of recorded sales, and
  return-of-capital payments. Everything is stated over the cumulative factor of the
  splits on or before a date: re-basing from one date to another multiplies a count by
  the quotient of the two factors.
\<close>

section \<open>Re-basing events\<close>

datatype 'd rebase_terms =
    SplitTerms 'd 'd
  | ConsolidationTerms 'd 'd
  | BonusIssueTerms 'd 'd

record 'd stored_count =
  sc_before :: 'd
  sc_after :: 'd

record 'd split_event =
  se_date :: date
  se_new_units :: 'd
  se_old_units :: 'd
  se_terms :: "'d rebase_terms"
  se_stored :: "(trade_id \<rightharpoonup> 'd stored_count) option"

type_synonym 'd listing_splits = "'d split_event list"

definition share_split :: "date \<Rightarrow> 'd::linorder \<Rightarrow> 'd \<Rightarrow> 'd split_event" where
  "share_split d new_units old_units =
     \<lparr>se_date = d, se_new_units = new_units, se_old_units = old_units,
      se_terms = (if new_units < old_units then ConsolidationTerms new_units old_units
                  else SplitTerms new_units old_units),
      se_stored = None\<rparr>"

definition bonus_issue :: "date \<Rightarrow> 'd::plus \<Rightarrow> 'd \<Rightarrow> 'd split_event" where
  "bonus_issue d bonus_units held_units =
     \<lparr>se_date = d, se_new_units = held_units + bonus_units, se_old_units = held_units,
      se_terms = BonusIssueTerms bonus_units held_units, se_stored = None\<rparr>"

text \<open>\<open>ListingSplits::for_parcel\<close>: an event carrying stored counts re-bases this parcel by its own.\<close>

definition for_parcel :: "'d listing_splits \<Rightarrow> trade_id \<Rightarrow> 'd split_event list" where
  "for_parcel splits parcel =
     (if list_all (\<lambda>e. se_stored e = None) splits then splits
      else map (\<lambda>e.
        let resolved = e\<lparr>se_stored := None\<rparr> in
        (case se_stored e of
           None \<Rightarrow> resolved
         | Some s \<Rightarrow>
             (case s parcel of
                None \<Rightarrow> resolved
              | Some c \<Rightarrow> resolved\<lparr>se_new_units := sc_after c, se_old_units := sc_before c\<rparr>)))
        splits)"

definition announced :: "'d listing_splits \<Rightarrow> 'd split_event list" where
  "announced splits =
     (if list_all (\<lambda>e. se_stored e = None) splits then splits
      else map (\<lambda>e. e\<lparr>se_stored := None\<rparr>) splits)"

definition parcel_splits ::
    "(listing_id \<rightharpoonup> 'd listing_splits) \<Rightarrow> listing_id \<Rightarrow> trade_id \<Rightarrow> 'd split_event list" where
  "parcel_splits splits listing parcel =
     (case splits listing of None \<Rightarrow> [] | Some s \<Rightarrow> for_parcel s parcel)"

section \<open>Ratios\<close>

record 'd ratio =
  sr_new :: 'd
  sr_old :: 'd

definition ratio_identity :: "'d::one ratio" where
  "ratio_identity = \<lparr>sr_new = 1, sr_old = 1\<rparr>"

definition ratio_inverse :: "'d ratio \<Rightarrow> 'd ratio" where
  "ratio_inverse r = \<lparr>sr_new = sr_old r, sr_old = sr_new r\<rparr>"

definition is_after :: "date \<Rightarrow> date option \<Rightarrow> bool" where
  "is_after d bound = (case bound of None \<Rightarrow> False | Some b \<Rightarrow> b < d)"

definition split_ratio ::
    "'d::{one,times,inverse,linorder} decimal_api \<Rightarrow> 'd split_event list \<Rightarrow> date \<Rightarrow> date option \<Rightarrow>
     'd ratio" where
  "split_ratio D splits from up_to =
     (let (new, old) = foldl (\<lambda>(new, old) s.
            if se_date s \<le> from \<or> is_after (se_date s) up_to then (new, old)
            else lowest_terms D (new * se_new_units s) (old * se_old_units s)) (1, 1) splits
      in \<lparr>sr_new = new, sr_old = old\<rparr>)"

fun rebase_ratio ::
    "'d::{one,times,inverse,linorder} decimal_api \<Rightarrow> 'd split_event list \<Rightarrow> date option \<Rightarrow>
     date option \<Rightarrow> 'd ratio" where
  "rebase_ratio D splits None None = ratio_identity"
| "rebase_ratio D splits (Some f) None = split_ratio D splits f None"
| "rebase_ratio D splits (Some f) (Some t) =
     (if f \<le> t then split_ratio D splits f (Some t)
      else ratio_inverse (split_ratio D splits t (Some f)))"
| "rebase_ratio D splits None (Some t) = ratio_inverse (split_ratio D splits t None)"

text \<open>\<open>times_ratio\<close> reduces across the two fractions before it multiplies.\<close>

definition times_ratio ::
    "'d::{one,inverse,linorder} decimal_api \<Rightarrow> 'd fraction \<Rightarrow> 'd ratio \<Rightarrow> 'd fraction option"
  where
  "times_ratio D f r =
     (let (num, old) = lowest_terms D (fr_num f) (sr_old r);
          (new, den) = lowest_terms D (sr_new r) (fr_den f)
      in case checked_mul D num new of None \<Rightarrow> None | Some n \<Rightarrow>
         (case checked_mul D den old of None \<Rightarrow> None | Some d \<Rightarrow>
            Some \<lparr>fr_num = n, fr_den = d\<rparr>))"

section \<open>Unit counts with their basis\<close>

record 'd units_at =
  ua_quantity :: 'd
  ua_basis :: "date option"

definition units_at_new :: "'d \<Rightarrow> date \<Rightarrow> 'd units_at" where
  "units_at_new quantity basis = \<lparr>ua_quantity = quantity, ua_basis = Some basis\<rparr>"

definition rebase ::
    "'d::{one,times,inverse,linorder} decimal_api \<Rightarrow> 'd \<Rightarrow> 'd split_event list \<Rightarrow> date option \<Rightarrow>
     date option \<Rightarrow> 'd" where
  "rebase D qty splits from to =
     (let r = rebase_ratio D splits from to
      in if sr_new r = sr_old r then qty else mul_div D [qty, sr_new r] (sr_old r))"

definition rebased ::
    "'d::{one,times,inverse,linorder} decimal_api \<Rightarrow> 'd units_at \<Rightarrow> 'd split_event list \<Rightarrow>
     date option \<Rightarrow> 'd units_at" where
  "rebased D u splits to =
     \<lparr>ua_quantity = rebase D (ua_quantity u) splits (ua_basis u) to, ua_basis = to\<rparr>"

definition rebased_fraction ::
    "'d::{one,times,inverse,linorder} decimal_api \<Rightarrow> 'd units_at \<Rightarrow> 'd split_event list \<Rightarrow>
     date option \<Rightarrow> 'd fraction option" where
  "rebased_fraction D u splits to =
     times_ratio D (fraction_whole (ua_quantity u)) (rebase_ratio D splits (ua_basis u) to)"

definition split_adjusted_quantity ::
    "'d::{one,times,inverse,linorder} decimal_api \<Rightarrow> 'd acquired_units \<Rightarrow> 'd split_event list \<Rightarrow>
     date \<Rightarrow> date option \<Rightarrow> 'd units_at" where
  "split_adjusted_quantity D qty splits acquired up_to =
     (let r = rebase_ratio D splits (Some acquired) up_to;
          quantity =
            (if sr_new r = sr_old r then au_get qty
             else (case times_ratio D (au_parts qty) r of
                     Some f \<Rightarrow> if fr_den f = 1 then fr_num f else fr_num f / fr_den f
                   | None \<Rightarrow> mul_div D [au_get qty, sr_new r] (sr_old r)))
      in \<lparr>ua_quantity = quantity, ua_basis = up_to\<rparr>)"

definition split_adjusted_fraction ::
    "'d::{one,times,inverse,linorder} decimal_api \<Rightarrow> 'd acquired_units \<Rightarrow> 'd split_event list \<Rightarrow>
     date \<Rightarrow> date option \<Rightarrow> 'd fraction option" where
  "split_adjusted_fraction D qty splits acquired up_to =
     times_ratio D (au_parts qty) (rebase_ratio D splits (Some acquired) up_to)"

definition full_precision :: nat where
  "full_precision = 10 ^ 27"

text \<open>
  \<open>as_acquired_quantity\<close>: a count at the decimal's full precision has been rounded by the
  forward re-basing, so the shortest as-acquired count that re-bases to it is preferred.
\<close>

definition as_acquired_quantity ::
    "'d::{zero,one,times,inverse,linorder} decimal_api \<Rightarrow> 'd units_at \<Rightarrow> 'd split_event list \<Rightarrow>
     date \<Rightarrow> 'd acquired_units" where
  "as_acquired_quantity D qty splits acquired =
     (let r = rebase_ratio D splits (ua_basis qty) (Some acquired)
      in if sr_new r = sr_old r then au_new (ua_quantity qty)
         else (case checked_mul D (ua_quantity qty) (sr_new r) of
           None \<Rightarrow> au_new (mul_div D [ua_quantity qty, sr_new r] (sr_old r))
         | Some num \<Rightarrow>
             (let exact = au_fraction D num (sr_old r)
              in if nat \<bar>mantissa D (ua_quantity qty)\<bar> < full_precision then exact
                 else (let approx = au_get exact in
                   case find (\<lambda>dp. ua_quantity (split_adjusted_quantity D
                               (au_new (round_with D MidpointNearestEven dp approx))
                               splits acquired (ua_basis qty)) = ua_quantity qty)
                             [0..<Suc (scale D approx)] of
                     Some dp \<Rightarrow> au_new (round_with D MidpointNearestEven dp approx)
                   | None \<Rightarrow> exact))))"

section \<open>The as-acquired units of a parcel's sales\<close>

text \<open>
  The sales are taken in the order of their dates; a sale of everything that is left takes
  the exact remainder. The result is in the order the sales were given.
\<close>

definition acquired_units_of_sales ::
    "'d::{zero,one,plus,minus,times,inverse,linorder} decimal_api \<Rightarrow> 'd acquired_units \<Rightarrow>
     'd units_at list \<Rightarrow> 'd split_event list \<Rightarrow> date \<Rightarrow> 'd acquired_units list" where
  "acquired_units_of_sales D parcel sales splits acquired =
     snd (foldl (\<lambda>(sold, out) i.
       let sale = sales ! i;
           left = au_sub D parcel sold;
           units = (if au_less D au_zero left \<and>
                       ua_quantity (split_adjusted_quantity D left splits acquired (ua_basis sale))
                         = ua_quantity sale
                    then left else as_acquired_quantity D sale splits acquired)
       in (au_add D sold units, out[i := units]))
       (au_zero, replicate (length sales) au_zero)
       (sort_key (\<lambda>i. ua_basis (sales ! i)) [0..<length sales]))"

definition sold_in_acquired_units ::
    "'d::{zero,one,plus,minus,times,inverse,linorder} decimal_api \<Rightarrow> 'd acquired_units \<Rightarrow>
     'd units_at list \<Rightarrow> 'd split_event list \<Rightarrow> date \<Rightarrow> 'd acquired_units" where
  "sold_in_acquired_units D parcel sales splits acquired =
     au_sum D (acquired_units_of_sales D parcel sales splits acquired)"

section \<open>Refusing an unrepresentable re-based count\<close>

datatype 'd unrepresentable_quantity = UnrepresentableQuantity "string \<times> 'd" "string \<times> 'd" "string \<times> 'd"

definition checked_rebased_quantity ::
    "'d decimal_api \<Rightarrow> string \<times> 'd \<Rightarrow> string \<times> 'd \<Rightarrow> string \<times> 'd \<Rightarrow> 'd unrepresentable_quantity + 'd"
  where
  "checked_rebased_quantity D units new old =
     ok_or (UnrepresentableQuantity units new old)
       (case checked_mul D (snd units) (snd new) of
          Some product \<Rightarrow> checked_div D product (snd old)
        | None \<Rightarrow> Option.bind (checked_div D (snd units) (snd old))
                    (\<lambda>divided. checked_mul D divided (snd new)))"

definition checked_as_acquired_quantity ::
    "'d::{zero,one,times,inverse,linorder} decimal_api \<Rightarrow> string \<times> 'd units_at \<Rightarrow>
     'd split_event list \<Rightarrow> date \<Rightarrow> 'd unrepresentable_quantity + 'd acquired_units" where
  "checked_as_acquired_quantity D qty splits acquired =
     (let r = split_ratio D splits acquired (ua_basis (snd qty))
      in if sr_new r = sr_old r then Inr (au_new (ua_quantity (snd qty)))
         else and_then (checked_rebased_quantity D (fst qty, ua_quantity (snd qty))
                          (''old units'', sr_old r) (''new units'', sr_new r))
                (\<lambda>_. Inr (as_acquired_quantity D (snd qty) splits acquired)))"

section \<open>Return-of-capital payments\<close>

record 'd roc_event =
  roc_date :: date
  roc_amount_per_unit :: 'd
  roc_currency :: string
  roc_record_date :: "date option"

record rollover_origin =
  ro_on :: date
  ro_registered_from :: date

datatype currency_mismatch = CurrencyMismatch string string

definition per_unit_for ::
    "'d::{one,times,inverse,linorder} decimal_api \<Rightarrow> 'd roc_event \<Rightarrow> 'd split_event list \<Rightarrow> string \<Rightarrow>
     date \<Rightarrow> date \<Rightarrow> rollover_origin option \<Rightarrow> date option \<Rightarrow> currency_mismatch + 'd option" where
  "per_unit_for D e splits parcel_currency acquired settled rollover up_to =
     (let registered_from = (case rollover of None \<Rightarrow> settled | Some r \<Rightarrow> ro_registered_from r);
          entitled = registered_from
            \<le> (case roc_record_date e of None \<Rightarrow> roc_date e | Some rd \<Rightarrow> rd)
      in if \<not> entitled \<or> is_after (roc_date e) up_to then Inr None
         else if (case rollover of None \<Rightarrow> False | Some r \<Rightarrow> roc_date e \<le> ro_on r) then Inr None
         else if roc_currency e \<noteq> parcel_currency
           then Inl (CurrencyMismatch (roc_currency e) parcel_currency)
         else (let r = split_ratio D splits acquired (Some (roc_date e))
               in Inr (Some (if sr_new r = sr_old r then roc_amount_per_unit e
                             else mul_div D [roc_amount_per_unit e, sr_new r] (sr_old r)))))"

section \<open>Price bases\<close>

record 'd price_basis_event =
  pb_date :: date
  pb_recover_new :: 'd
  pb_recover_old :: 'd

definition price_basis_of_split :: "'d split_event \<Rightarrow> 'd price_basis_event" where
  "price_basis_of_split s =
     \<lparr>pb_date = se_date s, pb_recover_new = se_new_units s, pb_recover_old = se_old_units s\<rparr>"

definition price_basis_ratio ::
    "'d::{one,times} price_basis_event list \<Rightarrow> date \<Rightarrow> date \<Rightarrow> 'd ratio" where
  "price_basis_ratio events from up_to =
     foldl (\<lambda>r e. if pb_date e \<le> from \<or> up_to < pb_date e then r
                   else \<lparr>sr_new = sr_new r * pb_recover_new e, sr_old = sr_old r * pb_recover_old e\<rparr>)
       ratio_identity events"

definition contemporaneous_price ::
    "'d::{one,times,inverse} decimal_api \<Rightarrow> 'd \<Rightarrow> 'd price_basis_event list \<Rightarrow> date \<Rightarrow> date \<Rightarrow> 'd"
  where
  "contemporaneous_price D price events price_date observed =
     (let r = price_basis_ratio events price_date observed
      in if sr_new r = sr_old r then price else mul_div D [price, sr_new r] (sr_old r))"

section \<open>The cumulative factor\<close>

definition splits_ok :: "'d::linordered_field split_event list \<Rightarrow> bool" where
  "splits_ok splits \<longleftrightarrow> (\<forall>s \<in> set splits. 0 < se_new_units s \<and> 0 < se_old_units s)"

definition split_factor :: "'d::linordered_field split_event \<Rightarrow> 'd" where
  "split_factor s = se_new_units s / se_old_units s"

text \<open>The factor of every split on or before \<open>b\<close>; \<open>None\<close> is after all of them.\<close>

definition cum_factor :: "'d::linordered_field split_event list \<Rightarrow> date option \<Rightarrow> 'd" where
  "cum_factor splits b = prod_list (map (\<lambda>s. if is_after (se_date s) b then 1 else split_factor s) splits)"

lemma cum_factor_pos: "splits_ok splits \<Longrightarrow> 0 < cum_factor splits b"
  unfolding cum_factor_def splits_ok_def
  by (induction splits) (auto simp: split_factor_def)

lemma cum_factor_nonzero: "splits_ok splits \<Longrightarrow> cum_factor splits b \<noteq> 0"
  using cum_factor_pos [of splits b] by simp

definition ratio_val :: "'d::linordered_field ratio \<Rightarrow> 'd" where
  "ratio_val r = sr_new r / sr_old r"

definition ratio_ok :: "'d::linordered_field ratio \<Rightarrow> bool" where
  "ratio_ok r \<longleftrightarrow> 0 < sr_new r \<and> 0 < sr_old r"

lemma ratio_val_eq1: "ratio_ok r \<Longrightarrow> sr_new r = sr_old r \<Longrightarrow> ratio_val r = 1"
  by (simp add: ratio_ok_def ratio_val_def)

lemma window_factor:
  assumes "\<not> is_after from up_to"
  shows "prod_list (map (\<lambda>s. if se_date s \<le> from \<or> is_after (se_date s) up_to then 1
           else split_factor s) splits) * cum_factor splits (Some from) = cum_factor splits up_to"
  unfolding cum_factor_def
proof (induction splits)
  case (Cons s splits)
  have "is_after (se_date s) up_to \<Longrightarrow> \<not> se_date s \<le> from"
    using assms by (auto simp: is_after_def split: option.splits)
  with Cons.IH show ?case by (auto simp: is_after_def algebra_simps)
qed simp

context decimal_laws
begin

lemma lowest_terms_pos:
  assumes "0 < n" and "0 < d" and "lowest_terms D n d = (n', d')"
  shows "0 < n' \<and> 0 < d' \<and> n' / d' = n / d"
proof -
  have e: "n' / d' = n / d" and d: "0 < d'"
    using lowest_terms_val [OF assms(2), of n] assms(3) by auto
  have "0 < n' / d'" unfolding e using assms(1,2) by simp
  with d have "0 < n'" by (auto simp: zero_less_divide_iff)
  with d e show ?thesis by simp
qed

lemma split_ratio_fold:
  fixes P :: "'d split_event \<Rightarrow> bool"
  assumes "splits_ok splits" and "0 < new" and "0 < old"
    and "foldl (\<lambda>(new, old) s. if P s then (new, old)
           else lowest_terms D (new * se_new_units s) (old * se_old_units s)) (new, old) splits = (n, d)"
  shows "0 < n \<and> 0 < d \<and>
    n / d = new / old * prod_list (map (\<lambda>s. if P s then 1 else split_factor s) splits)"
  using assms
proof (induction splits arbitrary: new old)
  case (Cons s splits)
  have ok: "splits_ok splits" "0 < se_new_units s" "0 < se_old_units s"
    using Cons.prems(1) by (auto simp: splits_ok_def)
  show ?case
  proof (cases "P s")
    case True
    have "0 < n \<and> 0 < d \<and>
      n / d = new / old * prod_list (map (\<lambda>s. if P s then 1 else split_factor s) splits)"
      by (rule Cons.IH [OF ok(1) Cons.prems(2,3)]) (use Cons.prems(4) True in simp)
    with True show ?thesis by simp
  next
    case False
    obtain n' d' where l: "lowest_terms D (new * se_new_units s) (old * se_old_units s) = (n', d')"
      by (cases "lowest_terms D (new * se_new_units s) (old * se_old_units s)")
    have nd: "0 < n' \<and> 0 < d' \<and> n' / d' = new * se_new_units s / (old * se_old_units s)"
      by (rule lowest_terms_pos [OF _ _ l]) (use ok Cons.prems(2,3) in simp_all)
    have "0 < n \<and> 0 < d \<and>
      n / d = n' / d' * prod_list (map (\<lambda>s. if P s then 1 else split_factor s) splits)"
      by (rule Cons.IH [OF ok(1)]) (use nd Cons.prems(4) l False in simp_all)
    with nd False show ?thesis by (simp add: split_factor_def)
  qed
qed simp

lemma split_ratio_val:
  assumes "splits_ok splits" and "\<not> is_after from up_to"
  shows "ratio_ok (split_ratio D splits from up_to)"
    and "ratio_val (split_ratio D splits from up_to) = cum_factor splits up_to / cum_factor splits (Some from)"
proof -
  obtain n d where f: "foldl (\<lambda>(new, old) s. if se_date s \<le> from \<or> is_after (se_date s) up_to
      then (new, old) else lowest_terms D (new * se_new_units s) (old * se_old_units s)) (1, 1) splits = (n, d)"
    by fastforce
  note v = split_ratio_fold [OF assms(1) zero_less_one zero_less_one f]
  have r: "split_ratio D splits from up_to = \<lparr>sr_new = n, sr_old = d\<rparr>"
    using f by (simp add: split_ratio_def)
  show "ratio_ok (split_ratio D splits from up_to)" using v r by (simp add: ratio_ok_def)
  show "ratio_val (split_ratio D splits from up_to) = cum_factor splits up_to / cum_factor splits (Some from)"
    using v r window_factor [OF assms(2), of splits] cum_factor_nonzero [OF assms(1), of "Some from"]
    by (simp add: ratio_val_def eq_divide_eq)
qed

lemma ratio_inverse_val: "ratio_val (ratio_inverse r) = 1 / ratio_val r"
  by (simp add: ratio_inverse_def ratio_val_def)

lemma ratio_inverse_ok: "ratio_ok r \<Longrightarrow> ratio_ok (ratio_inverse r)"
  by (simp add: ratio_inverse_def ratio_ok_def)

lemma rebase_ratio_val:
  assumes "splits_ok splits"
  shows "ratio_ok (rebase_ratio D splits f t)"
    and "ratio_val (rebase_ratio D splits f t) = cum_factor splits t / cum_factor splits f"
proof -
  have "ratio_ok (rebase_ratio D splits f t) \<and>
    ratio_val (rebase_ratio D splits f t) = cum_factor splits t / cum_factor splits f"
  proof (cases f; cases t)
    assume "f = None" "t = None"
    then show ?thesis
      using cum_factor_nonzero [OF assms] by (simp add: ratio_identity_def ratio_ok_def ratio_val_def)
  next
    fix t' assume "f = None" "t = Some t'"
    then show ?thesis using split_ratio_val [OF assms, of t' None]
      by (simp add: ratio_inverse_ok ratio_inverse_val is_after_def)
  next
    fix f' assume "f = Some f'" "t = None"
    then show ?thesis using split_ratio_val [OF assms, of f' None] by (simp add: is_after_def)
  next
    fix f' t' assume ft: "f = Some f'" "t = Some t'"
    show ?thesis
    proof (cases "f' \<le> t'")
      case True
      then show ?thesis using ft split_ratio_val [OF assms, of f' "Some t'"] by (simp add: is_after_def)
    next
      case False
      then show ?thesis using ft split_ratio_val [OF assms, of t' "Some f'"]
        by (simp add: is_after_def ratio_inverse_ok ratio_inverse_val)
    qed
  qed
  then show "ratio_ok (rebase_ratio D splits f t)"
    and "ratio_val (rebase_ratio D splits f t) = cum_factor splits t / cum_factor splits f" by auto
qed

lemma times_ratio_val:
  assumes "times_ratio D f r = Some g" and "0 < fr_den f" and "ratio_ok r"
  shows "0 < fr_den g \<and> fr_num g / fr_den g = fr_num f / fr_den f * ratio_val r"
proof -
  obtain num old new den where
    l1: "lowest_terms D (fr_num f) (sr_old r) = (num, old)" and
    l2: "lowest_terms D (sr_new r) (fr_den f) = (new, den)" by fastforce
  have v1: "num / old = fr_num f / sr_old r" "0 < old"
    using lowest_terms_val [of "sr_old r" "fr_num f"] assms(3) l1 by (auto simp: ratio_ok_def)
  have v2: "new / den = sr_new r / fr_den f" "0 < den"
    using lowest_terms_val [of "fr_den f" "sr_new r"] assms(2) l2 by auto
  have g: "fr_num g = num * new" "fr_den g = den * old"
    using assms(1) l1 l2 by (auto simp: times_ratio_def dest: mul_eq split: option.splits)
  have "fr_num g / fr_den g = (num / old) * (new / den)" by (simp add: g)
  also have "\<dots> = fr_num f / fr_den f * ratio_val r" by (simp add: v1 v2 ratio_val_def)
  finally show ?thesis using g v1 v2 by simp
qed

lemma rebase_val:
  assumes "splits_ok splits"
  shows "rebase D q splits f t = q * (cum_factor splits t / cum_factor splits f)"
proof -
  define r where "r = rebase_ratio D splits f t"
  have r: "ratio_ok r" "ratio_val r = cum_factor splits t / cum_factor splits f"
    using rebase_ratio_val [OF assms] by (simp_all add: r_def)
  have "rebase D q splits f t = q * ratio_val r"
  proof (cases "sr_new r = sr_old r")
    case True
    then show ?thesis using ratio_val_eq1 [OF r(1)] by (simp add: rebase_def Let_def r_def)
  next
    case False
    have "sr_old r \<noteq> 0" using r(1) by (simp add: ratio_ok_def)
    with False show ?thesis
      by (simp add: rebase_def Let_def r_def [symmetric] mul_div_eq ratio_val_def)
  qed
  with r(2) show ?thesis by simp
qed

lemma split_adjusted_val:
  assumes "splits_ok splits" and "au_ok u"
  shows "ua_quantity (split_adjusted_quantity D u splits acquired up_to) =
    au_val u * (cum_factor splits up_to / cum_factor splits (Some acquired))"
proof -
  define r where "r = rebase_ratio D splits (Some acquired) up_to"
  have r: "ratio_ok r" "ratio_val r = cum_factor splits up_to / cum_factor splits (Some acquired)"
    using rebase_ratio_val [OF assms(1)] by (simp_all add: r_def)
  have "ua_quantity (split_adjusted_quantity D u splits acquired up_to) = au_val u * ratio_val r"
  proof (cases "sr_new r = sr_old r")
    case True
    then show ?thesis using ratio_val_eq1 [OF r(1)]
      by (simp add: split_adjusted_quantity_def Let_def r_def units_simps)
  next
    case False
    show ?thesis
    proof (cases "times_ratio D (au_parts u) r")
      case None
      have "sr_old r \<noteq> 0" using r(1) by (simp add: ratio_ok_def)
      with None False show ?thesis
        by (simp add: split_adjusted_quantity_def Let_def r_def [symmetric] units_simps mul_div_eq
            ratio_val_def)
    next
      case (Some g)
      then have "fr_num g / fr_den g = au_val u * ratio_val r"
        using times_ratio_val [OF Some] r(1) assms(2) by (simp add: au_parts_def au_ok_def au_val_def)
      with Some False show ?thesis
        by (auto simp: split_adjusted_quantity_def Let_def r_def [symmetric])
    qed
  qed
  with r(2) show ?thesis by simp
qed

lemma split_adjusted_basis: "ua_basis (split_adjusted_quantity D u splits acquired up_to) = up_to"
  by (simp add: split_adjusted_quantity_def Let_def)

lemma as_acquired_val:
  assumes "splits_ok splits"
  shows "au_val (as_acquired_quantity D q splits acquired) =
    ua_quantity q * (cum_factor splits (Some acquired) / cum_factor splits (ua_basis q))"
    and "au_ok (as_acquired_quantity D q splits acquired)"
proof -
  define r where "r = rebase_ratio D splits (ua_basis q) (Some acquired)"
  have r: "ratio_ok r" "ratio_val r = cum_factor splits (Some acquired) / cum_factor splits (ua_basis q)"
    using rebase_ratio_val [OF assms] by (simp_all add: r_def)
  have old: "0 < sr_old r" using r(1) by (simp add: ratio_ok_def)
  have cand: "au_val (au_new c) = ua_quantity q * ratio_val r"
    if "ua_quantity (split_adjusted_quantity D (au_new c) splits acquired (ua_basis q)) = ua_quantity q"
    for c
  proof -
    have "c * (cum_factor splits (ua_basis q) / cum_factor splits (Some acquired)) = ua_quantity q"
      using that split_adjusted_val [OF assms, of "au_new c" acquired "ua_basis q"]
      by (simp add: units_simps)
    then show ?thesis
      unfolding r(2) using cum_factor_pos [OF assms, of "ua_basis q"]
        cum_factor_pos [OF assms, of "Some acquired"]
      by (auto simp: units_simps eq_divide_eq divide_eq_eq)
  qed
  have "au_val (as_acquired_quantity D q splits acquired) = ua_quantity q * ratio_val r
      \<and> au_ok (as_acquired_quantity D q splits acquired)"
  proof (cases "sr_new r = sr_old r")
    case True
    then show ?thesis using ratio_val_eq1 [OF r(1)]
      by (simp add: as_acquired_quantity_def Let_def r_def units_simps)
  next
    case False
    show ?thesis
    proof (cases "checked_mul D (ua_quantity q) (sr_new r)")
      case None
      with False old show ?thesis
        by (simp add: as_acquired_quantity_def Let_def r_def [symmetric] units_simps mul_div_eq
            ratio_val_def)
    next
      case (Some num)
      then have "num = ua_quantity q * sr_new r" by (rule mul_eq)
      then have exact: "au_val (au_fraction D num (sr_old r)) = ua_quantity q * ratio_val r"
        "au_ok (au_fraction D num (sr_old r))"
        using old by (simp_all add: units_simps ratio_val_def)
      define E where "E = au_fraction D num (sr_old r)"
      define F where "F = find (\<lambda>dp. ua_quantity (split_adjusted_quantity D
          (au_new (round_with D MidpointNearestEven dp (au_get E))) splits acquired (ua_basis q))
            = ua_quantity q) [0..<Suc (scale D (au_get E))]"
      have body: "as_acquired_quantity D q splits acquired =
        (if nat \<bar>mantissa D (ua_quantity q)\<bar> < full_precision then E
         else (case F of Some dp \<Rightarrow> au_new (round_with D MidpointNearestEven dp (au_get E)) | None \<Rightarrow> E))"
        using Some False
        by (simp only: as_acquired_quantity_def Let_def r_def [symmetric] E_def F_def if_False option.case)
      show ?thesis
      proof (cases F)
        case None
        with exact show ?thesis unfolding body by (simp add: E_def)
      next
        case (Some dp)
        then have "ua_quantity (split_adjusted_quantity D
            (au_new (round_with D MidpointNearestEven dp (au_get E))) splits acquired (ua_basis q))
              = ua_quantity q"
          unfolding F_def using find_SomeD by fast
        from cand [OF this] exact Some show ?thesis
          unfolding body by (simp add: E_def au_new_simps(2))
      qed
    qed
  qed
  with r(2) show "au_val (as_acquired_quantity D q splits acquired) =
      ua_quantity q * (cum_factor splits (Some acquired) / cum_factor splits (ua_basis q))"
    and "au_ok (as_acquired_quantity D q splits acquired)" by simp_all
qed

text \<open>The as-acquired value of one sale, whichever branch computes it.\<close>

lemma sale_left_val:
  assumes "splits_ok splits" and "au_ok left"
    and "ua_quantity (split_adjusted_quantity D left splits acquired b) = q"
  shows "au_val left = q * (cum_factor splits (Some acquired) / cum_factor splits b)"
  using assms(3) split_adjusted_val [OF assms(1,2), of acquired b]
    cum_factor_pos [OF assms(1), of b] cum_factor_pos [OF assms(1), of "Some acquired"]
  by (auto simp: eq_divide_eq divide_eq_eq)

end

definition sale_val :: "'d::linordered_field split_event list \<Rightarrow> date \<Rightarrow> 'd units_at \<Rightarrow> 'd" where
  "sale_val splits acquired sale =
     ua_quantity sale * (cum_factor splits (Some acquired) / cum_factor splits (ua_basis sale))"

definition sales_step ::
    "'d::linordered_field decimal_api \<Rightarrow> 'd acquired_units \<Rightarrow> 'd units_at list \<Rightarrow>
     'd split_event list \<Rightarrow> date \<Rightarrow> 'd acquired_units \<times> 'd acquired_units list \<Rightarrow> nat \<Rightarrow>
     'd acquired_units \<times> 'd acquired_units list" where
  "sales_step D parcel sales splits acquired = (\<lambda>(sold, out) i.
       let sale = sales ! i;
           left = au_sub D parcel sold;
           units = (if au_less D au_zero left \<and>
                       ua_quantity (split_adjusted_quantity D left splits acquired (ua_basis sale))
                         = ua_quantity sale
                    then left else as_acquired_quantity D sale splits acquired)
       in (au_add D sold units, out[i := units]))"

lemma acquired_units_of_sales_step:
  "acquired_units_of_sales D parcel sales splits acquired =
   snd (foldl (sales_step D parcel sales splits acquired)
     (au_zero, replicate (length sales) au_zero)
     (sort_key (\<lambda>i. ua_basis (sales ! i)) [0..<length sales]))"
  by (simp add: acquired_units_of_sales_def sales_step_def)

context decimal_laws
begin

lemma sales_fold:
  assumes "splits_ok splits" and "au_ok parcel" and "au_ok sold"
    and "distinct js" and "\<And>i. i \<in> set js \<Longrightarrow> i < length out"
    and "foldl (sales_step D parcel sales splits acquired) (sold, out) js = (sold', out')"
  shows "au_ok sold' \<and> length out' = length out
    \<and> au_val sold' = au_val sold + sum_list (map (\<lambda>i. sale_val splits acquired (sales ! i)) js)
    \<and> (\<forall>i < length out. if i \<in> set js
         then au_val (out' ! i) = sale_val splits acquired (sales ! i) \<and> au_ok (out' ! i)
         else out' ! i = out ! i)"
  using assms(3-6)
proof (induction js arbitrary: sold out)
  case (Cons i js')
  define left where "left = au_sub D parcel sold"
  define units where "units = (if au_less D au_zero left \<and>
      ua_quantity (split_adjusted_quantity D left splits acquired (ua_basis (sales ! i)))
        = ua_quantity (sales ! i)
    then left else as_acquired_quantity D (sales ! i) splits acquired)"
  have "au_ok left" using assms(2) Cons.prems(1) by (simp add: left_def units_simps)
  then have u: "au_ok units \<and> au_val units = sale_val splits acquired (sales ! i)"
    using sale_left_val [OF assms(1) \<open>au_ok left\<close>, of acquired "ua_basis (sales ! i)"
        "ua_quantity (sales ! i)"] as_acquired_val [OF assms(1), of "sales ! i" acquired]
    by (simp add: units_def sale_val_def)
  have "sales_step D parcel sales splits acquired (sold, out) i = (au_add D sold units, out[i := units])"
    by (simp only: sales_step_def Let_def left_def units_def prod.case)
  then have "foldl (sales_step D parcel sales splits acquired) (au_add D sold units, out[i := units]) js'
      = (sold', out')"
    using Cons.prems(4) by simp
  then have IH: "au_ok sold' \<and> length out' = length out
    \<and> au_val sold' = au_val sold + au_val units
        + sum_list (map (\<lambda>i. sale_val splits acquired (sales ! i)) js')
    \<and> (\<forall>j < length out. if j \<in> set js'
         then au_val (out' ! j) = sale_val splits acquired (sales ! j) \<and> au_ok (out' ! j)
         else out' ! j = out[i := units] ! j)"
    using Cons.IH [of "au_add D sold units" "out[i := units]"] Cons.prems(1-3) u
    by (simp add: units_simps)
  show ?case
    using IH u Cons.prems(2,3) by (auto simp: nth_list_update split: if_splits)
qed simp

lemma acquired_units_of_sales_val:
  assumes "splits_ok splits" and "au_ok parcel"
  shows "length (acquired_units_of_sales D parcel sales splits acquired) = length sales"
    and "i < length sales \<Longrightarrow>
      au_val (acquired_units_of_sales D parcel sales splits acquired ! i) = sale_val splits acquired (sales ! i)
      \<and> au_ok (acquired_units_of_sales D parcel sales splits acquired ! i)"
proof -
  define js where "js = sort_key (\<lambda>i. ua_basis (sales ! i)) [0..<length sales]"
  obtain sold' out' where f: "foldl (sales_step D parcel sales splits acquired)
      (au_zero, replicate (length sales) au_zero) js = (sold', out')"
    by (cases "foldl (sales_step D parcel sales splits acquired)
      (au_zero, replicate (length sales) au_zero) js")
  have out: "acquired_units_of_sales D parcel sales splits acquired = out'"
    using f by (simp add: acquired_units_of_sales_step js_def)
  have r: "length out' = length (replicate (length sales) (au_zero :: 'd acquired_units))
    \<and> (\<forall>i < length (replicate (length sales) (au_zero :: 'd acquired_units)). if i \<in> set js
         then au_val (out' ! i) = sale_val splits acquired (sales ! i) \<and> au_ok (out' ! i)
         else out' ! i = replicate (length sales) au_zero ! i)"
    using sales_fold [OF assms au_zero_simps(2) _ _ f] by (auto simp: js_def)
  then show "length (acquired_units_of_sales D parcel sales splits acquired) = length sales"
    and "i < length sales \<Longrightarrow>
      au_val (acquired_units_of_sales D parcel sales splits acquired ! i) = sale_val splits acquired (sales ! i)
      \<and> au_ok (acquired_units_of_sales D parcel sales splits acquired ! i)"
    unfolding out by (auto simp: js_def)
qed

lemma sold_in_acquired_val:
  assumes "splits_ok splits" and "au_ok parcel"
  shows "au_val (sold_in_acquired_units D parcel sales splits acquired)
           = sum_list (map (sale_val splits acquired) sales)"
    and "au_ok (sold_in_acquired_units D parcel sales splits acquired)"
proof -
  let ?out = "acquired_units_of_sales D parcel sales splits acquired"
  have "map au_val ?out = map (sale_val splits acquired) sales"
    using acquired_units_of_sales_val [OF assms] by (auto intro: nth_equalityI)
  moreover have ok: "au_ok v" if "v \<in> set ?out" for v
    using that acquired_units_of_sales_val [OF assms] by (auto simp: in_set_conv_nth)
  ultimately show "au_val (sold_in_acquired_units D parcel sales splits acquired)
           = sum_list (map (sale_val splits acquired) sales)"
    and "au_ok (sold_in_acquired_units D parcel sales splits acquired)"
    by (simp_all add: sold_in_acquired_units_def units_simps)
qed

lemma per_unit_for_val:
  assumes "splits_ok splits" and "acquired \<le> roc_date e"
    and "per_unit_for D e splits cur acquired settled rollover up_to = Inr (Some p)"
  shows "p = roc_amount_per_unit e
    * (cum_factor splits (Some (roc_date e)) / cum_factor splits (Some acquired))"
proof -
  define r where "r = split_ratio D splits acquired (Some (roc_date e))"
  have r: "ratio_ok r" "ratio_val r = cum_factor splits (Some (roc_date e)) / cum_factor splits (Some acquired)"
    using split_ratio_val [OF assms(1), of acquired "Some (roc_date e)"] assms(2)
    by (simp_all add: r_def is_after_def)
  have "p = roc_amount_per_unit e * ratio_val r"
  proof (cases "sr_new r = sr_old r")
    case True
    then show ?thesis using assms(3) ratio_val_eq1 [OF r(1)]
      by (auto simp: per_unit_for_def Let_def r_def split: if_splits)
  next
    case False
    have "sr_old r \<noteq> 0" using r(1) by (simp add: ratio_ok_def)
    with False show ?thesis using assms(3)
      by (auto simp: per_unit_for_def Let_def r_def [symmetric] mul_div_eq ratio_val_def split: if_splits)
  qed
  with r(2) show ?thesis by simp
qed

end

section \<open>Properties\<close>

definition two_for_one :: "rat split_event list" where
  "two_for_one = [share_split 100 2 1, bonus_issue 200 1 4]"

lemma two_for_one_ok: "splits_ok two_for_one"
  by (simp add: two_for_one_def splits_ok_def share_split_def bonus_issue_def)

lemma two_for_one_factors:
  "cum_factor two_for_one None = 5 / 2" "cum_factor two_for_one (Some 50) = 1"
  "cum_factor two_for_one (Some 60) = 1" "cum_factor two_for_one (Some 150) = 2"
  by (simp_all add: cum_factor_def two_for_one_def split_factor_def share_split_def bonus_issue_def
      is_after_def)

text \<open>Adding, subtracting and comparing two as-acquired unit counts is exact, whichever
  branch of the overflow checks and of the reduction to lowest terms is taken.\<close>

theorem units_exact:
  assumes D: "decimal_laws D" and ok: "au_ok u" "au_ok r"
  shows "au_val (au_add D u r) = au_val u + au_val r
       \<and> au_val (au_sub D u r) = au_val u - au_val r
       \<and> (au_less D u r \<longleftrightarrow> au_val u < au_val r)
       \<and> (au_eq D u r \<longleftrightarrow> au_val u = au_val r)
       \<and> au_ok (au_add D u r) \<and> au_ok (au_sub D u r)"
  using decimal_laws.au_add_simps [OF D ok] decimal_laws.au_sub_simps [OF D ok]
    decimal_laws.au_less_val [OF D ok] decimal_laws.au_eq_val [OF D ok] by blast

theorem units_exact_witness:
  "au_val (au_add ref_dec \<lparr>au_num = 1, au_den = 3\<rparr> \<lparr>au_num = 2, au_den = 3\<rparr>) = 1"
  using units_exact [OF ref.decimal_laws_axioms, of "\<lparr>au_num = 1, au_den = 3\<rparr>" "\<lparr>au_num = 2, au_den = 3\<rparr>"]
  by (simp add: au_ok_def au_val_def)
  
text \<open>The Euclidean loop over decimals, which nothing in its types makes stop, returns on
  every pair of non-negative whole counts, with their greatest common divisor.\<close>

theorem acquired_units_loop_returns:
  assumes "decimal_laws D" and "0 \<le> i" and "0 \<le> j"
  shows "dec_euclid D (of_int i) (of_int j) = Some (of_int (gcd i j))"
  using decimal_laws.dec_euclid_int [OF assms] .

theorem acquired_units_loop_returns_witness:
  "dec_euclid ref_dec (of_int 84) (of_int 36) = Some (of_int 12)"
  using acquired_units_loop_returns [OF ref.decimal_laws_axioms, of 84 36] by (simp add: gcd_non_0_int)

text \<open>Re-basing a unit count from one date to a second and on to a third is re-basing it
  directly, and re-basing it back returns the count it started from, whatever the splits and the
  order of the dates.\<close>

theorem rebase_composes:
  assumes D: "decimal_laws D" and "splits_ok splits"
  shows "rebase D (rebase D q splits f t) splits t u = rebase D q splits f u
       \<and> rebase D (rebase D q splits f t) splits t f = q"
  using assms(2) cum_factor_nonzero [OF assms(2)]
  by (simp add: decimal_laws.rebase_val [OF D])

theorem rebase_composes_witness:
  "rebase ref_dec (rebase ref_dec 40 two_for_one (Some 50) (Some 150)) two_for_one (Some 150) (Some 50) = 40"
  using rebase_composes [OF ref.decimal_laws_axioms two_for_one_ok] by blast



text \<open>A return of capital that reaches a parcel reduces it, over its as-acquired units, by
  exactly the announced amount on each unit held at the payment date; it reaches it only in the
  parcel's currency, up to the bound, and when the parcel was registered by the record date.\<close>

theorem capital_return_total:
  assumes D: "decimal_laws D" and ok: "splits_ok splits" "au_ok u" and "acquired \<le> roc_date e"
    and "per_unit_for D e splits cur acquired settled rollover up_to = Inr (Some p)"
  shows "p * au_val u = roc_amount_per_unit e
           * ua_quantity (split_adjusted_quantity D u splits acquired (Some (roc_date e)))
       \<and> roc_currency e = cur \<and> \<not> is_after (roc_date e) up_to
       \<and> (case rollover of None \<Rightarrow> settled | Some r \<Rightarrow> ro_registered_from r)
           \<le> (case roc_record_date e of None \<Rightarrow> roc_date e | Some rd \<Rightarrow> rd)"
  using decimal_laws.per_unit_for_val [OF D ok(1) assms(4,5)] assms(5)
  by (auto simp: decimal_laws.split_adjusted_val [OF D ok] per_unit_for_def Let_def split: if_splits)

theorem capital_return_total_witness:
  "3 / 10 * 40 = 3 / 10 * ua_quantity (split_adjusted_quantity ref_dec (au_new 40) two_for_one 120 (Some 150))"
proof -
  let ?e = "\<lparr>roc_date = 150, roc_amount_per_unit = 3 / 10 :: rat, roc_currency = ''AUD'', roc_record_date = Some 140\<rparr>"
  have "per_unit_for ref_dec ?e two_for_one ''AUD'' 120 122 None None = Inr (Some (3 / 10))"
    by (simp add: per_unit_for_def split_ratio_def two_for_one_def share_split_def bonus_issue_def
        is_after_def)
  from capital_return_total [OF ref.decimal_laws_axioms two_for_one_ok au_new_simps(2) _ this, of 40]
  show ?thesis by (simp add: units_simps)
qed

end
