(* ===== verification/EntitlementRounding.thy ===== *)
theory EntitlementRounding
  imports Splits
begin

text \<open>
  \<open>src/src/domain/entitlement_rounding.rs\<close>: rounding a holding's post-action count to whole
  registered units and distributing the rounded total over the parcels. Indices into the
  parcel list are as in the code; a comparator that chains keys is written as stable sorts by
  each key, the last key first.
\<close>

section \<open>Parcels and rules\<close>

datatype rounding = Down | Up | Nearest | CashInLieu

record 'd prior =
  pri_before :: 'd
  pri_on_grid :: 'd

record 'd parcel_before =
  pb_trade_id :: trade_id
  pb_acquired :: date
  pb_units :: 'd
  pb_exact :: "'d fraction option"
  pb_prior :: "'d prior option"

record 'd parcel_count =
  pc_trade_id :: trade_id
  pc_before :: 'd
  pc_after :: 'd
  pc_in_lieu :: 'd

datatype 'd rounding_error =
    ParcelEmptied trade_id
  | ReceivedNotPositive 'd
  | ReceivedOffGrid 'd nat
  | Unrepresentable

definition in_lieu_places :: nat where
  "in_lieu_places = 12"

fun for_obligation :: "rounding \<Rightarrow> rounding" where
  "for_obligation CashInLieu = Down"
| "for_obligation Down = Down"
| "for_obligation Up = Up"
| "for_obligation Nearest = Nearest"

definition sort_desc :: "('a \<Rightarrow> 'k::linorder) \<Rightarrow> 'a list \<Rightarrow> 'a list" where
  "sort_desc f xs = rev (sort_key f (rev xs))"

section \<open>The floor of a quotient\<close>

text \<open>
  The two correction loops. \<open>None\<close> is an overflow, or a loop that does not return; the
  theorem \<open>floor_on_grid_returns\<close> below shows that they do.
\<close>

partial_function (option) floor_down ::
    "'d::ord decimal_api \<Rightarrow> 'd \<Rightarrow> 'd \<Rightarrow> 'd \<Rightarrow> 'd \<Rightarrow> 'd option" where
  "floor_down D num den step flr =
     Option.bind (checked_mul D flr den) (\<lambda>product.
       if num < product
       then Option.bind (checked_sub D flr step) (\<lambda>lower. floor_down D num den step lower)
       else Some flr)"

partial_function (option) floor_up ::
    "'d::ord decimal_api \<Rightarrow> 'd \<Rightarrow> 'd \<Rightarrow> 'd \<Rightarrow> 'd \<Rightarrow> 'd option" where
  "floor_up D num den step flr =
     Option.bind (checked_add D flr step) (\<lambda>higher.
     Option.bind (checked_mul D higher den) (\<lambda>product.
       if product \<le> num then floor_up D num den step higher else Some flr))"

definition floor_on_grid :: "'d::ord decimal_api \<Rightarrow> 'd \<Rightarrow> 'd \<Rightarrow> nat \<Rightarrow> ('d \<times> 'd) option" where
  "floor_on_grid D num den s =
     (let step = dnew D 1 s in
      Option.bind (checked_div D num den) (\<lambda>quotient.
      Option.bind (floor_down D num den step (round_with D ToZero s quotient)) (\<lambda>down.
      Option.bind (floor_up D num den step down) (\<lambda>flr.
      Option.bind (checked_mul D flr den) (\<lambda>product.
      Option.bind (checked_sub D num product) (\<lambda>rem. Some (flr, rem)))))))"

section \<open>The rounded total\<close>

definition overflow :: "'a option \<Rightarrow> 'd rounding_error + 'a" where
  "overflow = ok_or Unrepresentable"

definition checked_received :: "'d::{zero,ord} decimal_api \<Rightarrow> 'd \<Rightarrow> nat \<Rightarrow> 'd rounding_error + 'd" where
  "checked_received D received s =
     (if received \<le> 0 then Inl (ReceivedNotPositive received)
      else if s < normal_scale D received then Inl (ReceivedOffGrid received s)
      else Inr received)"

definition rounded_total ::
    "'d::{zero,linorder} decimal_api \<Rightarrow> 'd \<Rightarrow> 'd \<Rightarrow> 'd \<Rightarrow> nat \<Rightarrow> rounding \<Rightarrow> 'd rounding_error + 'd" where
  "rounded_total D units new old s rule =
     (let step = dnew D 1 s in
      and_then (overflow (checked_mul D units new)) (\<lambda>exact_num.
      and_then (overflow (floor_on_grid D exact_num old s)) (\<lambda>(exact_floor, exact_rem).
      case rule of
        Down \<Rightarrow> Inr exact_floor
      | CashInLieu \<Rightarrow> Inr exact_floor
      | Up \<Rightarrow> if 0 < exact_rem then overflow (checked_add D exact_floor step) else Inr exact_floor
      | Nearest \<Rightarrow>
          and_then (overflow (checked_mul D exact_rem (dnew D 2 0))) (\<lambda>doubled.
          and_then (overflow (checked_mul D step old)) (\<lambda>bound.
          if bound \<le> doubled then overflow (checked_add D exact_floor step) else Inr exact_floor)))))"

definition in_lieu_fraction ::
    "'d::{zero,linorder} decimal_api \<Rightarrow> 'd \<Rightarrow> 'd \<Rightarrow> 'd \<Rightarrow> 'd \<Rightarrow> nat \<Rightarrow> rounding \<Rightarrow>
     'd rounding_error + 'd option" where
  "in_lieu_fraction D units tot new old s rule =
     (if rule \<noteq> CashInLieu then Inr None
      else and_then (overflow (checked_mul D units new)) (\<lambda>exact_num.
           and_then (overflow (checked_mul D tot old)) (\<lambda>registered.
           and_then (overflow (checked_sub D exact_num registered)) (\<lambda>difference.
           and_then (overflow (checked_div D difference old)) (\<lambda>quotient.
             Inr (Some (round_with D ToZero (s + in_lieu_places) quotient)))))))"

section \<open>Distributing the total\<close>

definition shares_of ::
    "'d::ord decimal_api \<Rightarrow> 'd list \<Rightarrow> 'd \<Rightarrow> 'd \<Rightarrow> nat \<Rightarrow> 'd rounding_error + ('d \<times> 'd) list" where
  "shares_of D units multiplier divisor s =
     try_map (\<lambda>u. and_then (overflow (checked_mul D u multiplier))
                (\<lambda>num. overflow (floor_on_grid D num divisor s))) units"

definition emptied :: "'d::{zero,ord} parcel_before list \<Rightarrow> ('d \<times> 'd) list \<Rightarrow> nat \<Rightarrow> bool" where
  "emptied parcels shares i \<longleftrightarrow> fst (shares ! i) = 0 \<and> 0 < pb_units (parcels ! i)"

definition extra_order :: "'d::{zero,linorder} parcel_before list \<Rightarrow> ('d \<times> 'd) list \<Rightarrow> nat list" where
  "extra_order parcels shares =
     sort_desc (emptied parcels shares)
       (sort_desc (\<lambda>i. snd (shares ! i))
         (sort_key (\<lambda>i. pb_acquired (parcels ! i))
           (sort_key (\<lambda>i. pb_trade_id (parcels ! i)) [0..<length parcels])))"

definition kept_count ::
    "'d::{zero,linorder} decimal_api \<Rightarrow> nat \<Rightarrow> 'd parcel_before \<Rightarrow> 'd \<times> 'd \<Rightarrow>
     'd rounding_error + 'd option" where
  "kept_count D s p share =
     and_then (if snd share = 0 then Inr (fst share)
               else overflow (checked_add D (fst share) (dnew D 1 s))) (\<lambda>limit.
       Inr (case pb_prior p of None \<Rightarrow> None
            | Some pr \<Rightarrow>
                if 0 < pri_on_grid pr \<and> normal_scale D (pri_on_grid pr) \<le> s
                   \<and> fst share \<le> pri_on_grid pr \<and> pri_on_grid pr \<le> limit
                then Some (pri_on_grid pr) else None))"

definition prior_changed :: "'d parcel_before \<Rightarrow> bool" where
  "prior_changed p =
     (case pb_prior p of None \<Rightarrow> False | Some pr \<Rightarrow> pri_before pr \<noteq> pb_units p)"

definition release_order :: "'d parcel_before list \<Rightarrow> 'd option list \<Rightarrow> nat list" where
  "release_order parcels kept =
     sort_desc (\<lambda>i. prior_changed (parcels ! i))
       (sort_desc (\<lambda>i. pb_acquired (parcels ! i))
         (sort_desc (\<lambda>i. pb_trade_id (parcels ! i))
           (filter (\<lambda>i. kept ! i \<noteq> None) [0..<length parcels])))"

text \<open>The totals of the parcels not kept: their floors, and the fewest and most steps they can take.\<close>

definition free_indices :: "'d option list \<Rightarrow> nat list" where
  "free_indices kept = filter (\<lambda>i. kept ! i = None) [0..<length kept]"

definition free_range ::
    "'d::{zero,plus,ord} decimal_api \<Rightarrow> 'd \<Rightarrow> 'd parcel_before list \<Rightarrow> ('d \<times> 'd) list \<Rightarrow> 'd option list \<Rightarrow>
     'd rounding_error + ('d \<times> 'd \<times> 'd)" where
  "free_range D step parcels shares kept =
     try_foldl (\<lambda>(lower, must, may) i.
       and_then (overflow (checked_add D lower (fst (shares ! i)))) (\<lambda>lower'.
         Inr (lower', if emptied parcels shares i then must + step else must,
              if snd (shares ! i) \<noteq> 0 then may + step else may)))
       (0, 0, 0) (free_indices kept)"

definition kept_sum :: "'d::zero decimal_api \<Rightarrow> 'd option list \<Rightarrow> 'd option" where
  "kept_sum D kept = opt_foldl (checked_add D) 0 (map the (filter (\<lambda>k. k \<noteq> None) kept))"

fun settle ::
    "'d::{zero,plus,linorder} decimal_api \<Rightarrow> 'd \<Rightarrow> 'd parcel_before list \<Rightarrow> ('d \<times> 'd) list \<Rightarrow> 'd \<Rightarrow>
     'd option list \<Rightarrow> nat list \<Rightarrow> 'd rounding_error + ('d \<times> 'd option list)" where
  "settle D step parcels shares tot kept release =
     and_then (overflow (kept_sum D kept)) (\<lambda>ks.
     and_then (overflow (checked_sub D tot ks)) (\<lambda>rest.
     and_then (free_range D step parcels shares kept) (\<lambda>(lower, must, may).
     and_then (overflow (checked_add D lower must)) (\<lambda>least.
     and_then (if least \<le> rest then map_result (\<lambda>most. rest \<le> most) (overflow (checked_add D lower may))
               else Inr False) (\<lambda>fits.
       if fits then Inr (rest, kept)
       else (case release of
               i # others \<Rightarrow> settle D step parcels shares tot (kept[i := None]) others
             | [] \<Rightarrow> Inr (rest, kept)))))))"

declare settle.simps [simp del]

definition add_steps ::
    "'d decimal_api \<Rightarrow> 'd \<Rightarrow> nat list \<Rightarrow> 'd parcel_count list \<Rightarrow> 'd rounding_error + 'd parcel_count list"
  where
  "add_steps D step chosen counts =
     try_foldl (\<lambda>counts i. and_then (overflow (checked_add D (pc_after (counts ! i)) step))
                 (\<lambda>a. Inr (counts[i := (counts ! i)\<lparr>pc_after := a\<rparr>]))) counts chosen"

definition add_in_lieu ::
    "'d::{zero,minus,linorder} decimal_api \<Rightarrow> 'd option \<Rightarrow> nat list \<Rightarrow> ('d \<times> 'd) list \<Rightarrow>
     'd parcel_count list \<Rightarrow> 'd rounding_error + 'd parcel_count list" where
  "add_in_lieu D in_lieu order shares counts =
     (case in_lieu of None \<Rightarrow> Inr counts
      | Some fraction \<Rightarrow>
          if 0 < fraction
          then (case find (\<lambda>i. pc_after (counts ! i) = fst (shares ! i)) order of
                  None \<Rightarrow> Inr counts
                | Some i \<Rightarrow>
                    (let carried = pc_after (counts ! i) in
                     and_then (overflow (checked_add D carried fraction)) (\<lambda>after.
                       Inr (counts[i := (counts ! i)\<lparr>pc_after := after, pc_in_lieu := after - carried\<rparr>]))))
          else Inr counts)"

definition initial_counts ::
    "'d::zero parcel_before list \<Rightarrow> ('d \<times> 'd) list \<Rightarrow> 'd option list \<Rightarrow> 'd parcel_count list" where
  "initial_counts parcels shares kept =
     map2 (\<lambda>(p, share) k. \<lparr>pc_trade_id = pb_trade_id p, pc_before = pb_units p,
             pc_after = (case k of None \<Rightarrow> fst share | Some c \<Rightarrow> c), pc_in_lieu = 0\<rparr>)
       (zip parcels shares) kept"

definition distribute ::
    "'d::{zero,plus,minus,inverse,linorder} decimal_api \<Rightarrow> 'd parcel_before list \<Rightarrow> 'd list \<Rightarrow> 'd \<Rightarrow>
     'd \<times> 'd \<Rightarrow> nat \<Rightarrow> 'd option \<Rightarrow> 'd rounding_error + 'd parcel_count list" where
  "distribute D parcels units tot share_of s in_lieu =
     (let step = dnew D 1 s in
      and_then (shares_of D units (fst share_of) (snd share_of) s) (\<lambda>shares.
      and_then (try_map (\<lambda>(p, share). kept_count D s p share) (zip parcels shares)) (\<lambda>kept0.
      and_then (settle D step parcels shares tot kept0 (release_order parcels kept0)) (\<lambda>(rest, kept).
        let counts = initial_counts parcels shares kept;
            order = extra_order parcels shares
        in and_then (overflow (opt_foldl (checked_add D) 0
                      (map (\<lambda>i. pc_after (counts ! i)) (free_indices kept)))) (\<lambda>free_floors.
           and_then (overflow (checked_sub D rest free_floors)) (\<lambda>left.
           and_then (overflow (to_usize D (left / step))) (\<lambda>extra.
           and_then (add_steps D step (take extra (filter (\<lambda>i. kept ! i = None) order)) counts) (\<lambda>stepped.
           and_then (add_in_lieu D in_lieu order shares stepped) (\<lambda>final.
             case find (\<lambda>c. pc_after c = 0) final of
               Some c \<Rightarrow> Inl (ParcelEmptied (pc_trade_id c))
             | None \<Rightarrow> Inr final)))))))))"

section \<open>Holdings\<close>

definition exact_units ::
    "'d::{zero,one,inverse} decimal_api \<Rightarrow> 'd parcel_before list \<Rightarrow> 'd list \<times> 'd" where
  "exact_units D parcels =
     (case over_common_denominator D (map (\<lambda>p. case pb_exact p of Some f \<Rightarrow> f
                 | None \<Rightarrow> \<lparr>fr_num = pb_units p, fr_den = 1\<rparr>) parcels) of
        Some r \<Rightarrow> r
      | None \<Rightarrow> (map pb_units parcels, 1))"

definition round_holding ::
    "'d::{zero,one,plus,minus,inverse,linorder} decimal_api \<Rightarrow> 'd parcel_before list \<Rightarrow> 'd \<Rightarrow> 'd \<Rightarrow> nat \<Rightarrow>
     rounding \<Rightarrow> 'd option \<Rightarrow> 'd rounding_error + 'd parcel_count list" where
  "round_holding D parcels new old s rule units_received =
     and_then (overflow (opt_foldl (checked_add D) 0 (map pb_units parcels))) (\<lambda>held0.
       if parcels = [] \<or> held0 \<le> 0 then Inr []
       else (let (nums, den) = exact_units D parcels in
         and_then (overflow (opt_foldl (checked_add D) 0 nums)) (\<lambda>held.
         and_then (overflow (checked_mul D old den)) (\<lambda>old'.
         and_then (case units_received of
                     Some received \<Rightarrow> checked_received D received s
                   | None \<Rightarrow> rounded_total D held new old' s rule) (\<lambda>tot.
         and_then (in_lieu_fraction D held tot new old' s rule) (\<lambda>in_lieu.
           distribute D parcels nums tot
             (case units_received of Some received \<Rightarrow> (received, held) | None \<Rightarrow> (new, old'))
             s in_lieu))))))"

definition round_registered_holding ::
    "'d::{zero,one,plus,minus,inverse,linorder} decimal_api \<Rightarrow> 'd parcel_before list \<Rightarrow>
     'd fraction list \<Rightarrow> 'd \<Rightarrow> 'd \<Rightarrow> nat \<Rightarrow> rounding \<Rightarrow> 'd option \<Rightarrow>
     'd rounding_error + 'd parcel_count list" where
  "round_registered_holding D parcels delivered new old s rule units_received =
     and_then (overflow (opt_foldl (checked_add D) 0 (map pb_units parcels))) (\<lambda>held0.
       if parcels = [] \<or> held0 \<le> 0 then Inr []
       else (let fractions = map (\<lambda>p. case pb_exact p of Some f \<Rightarrow> f
                     | None \<Rightarrow> fraction_whole (pb_units p)) parcels @ delivered;
                 (nums, den) = (case over_common_denominator D fractions of
                     Some r \<Rightarrow> r
                   | None \<Rightarrow> (map pb_units parcels @
                       map (\<lambda>f. if fr_den f = 1 then fr_num f else fr_num f / fr_den f) delivered, 1));
                 parcel_nums = take (length parcels) nums;
                 delivered_nums = drop (length parcels) nums in
         and_then (overflow (opt_foldl (checked_add D) 0 parcel_nums)) (\<lambda>held.
         and_then (overflow (opt_foldl (checked_add D) 0 delivered_nums)) (\<lambda>gone.
         and_then (overflow (checked_add D held gone)) (\<lambda>register_units.
         and_then (overflow (checked_mul D old den)) (\<lambda>old'.
         and_then (case units_received of
                     Some received \<Rightarrow> checked_received D received s
                   | None \<Rightarrow> rounded_total D register_units new old' s rule) (\<lambda>registered.
         and_then (try_foldl (\<lambda>tot u.
                     and_then (rounded_total D u new old' s (for_obligation rule)) (\<lambda>d.
                       overflow (checked_sub D tot d))) registered delivered_nums) (\<lambda>tot.
           if tot \<le> 0 then Inl (ParcelEmptied (pb_trade_id (parcels ! 0)))
           else and_then (in_lieu_fraction D register_units registered new old' s rule) (\<lambda>in_lieu.
             distribute D parcels parcel_nums tot (tot, held) s in_lieu)))))))))"

section \<open>Lemmas\<close>

text \<open>A share is the floor of its parcel's exact entitlement.\<close>

definition share_ok :: "nat \<Rightarrow> 'd::linordered_field \<Rightarrow> 'd \<times> 'd \<Rightarrow> bool" where
  "share_ok s x share \<longleftrightarrow> on_grid s (fst share) \<and> fst share \<le> x \<and> x < fst share + 1 / 10 ^ s
     \<and> (snd share = 0 \<longleftrightarrow> fst share = x)"

lemma on_grid_step: "on_grid s (1 / 10 ^ s :: 'd::linordered_field)"
  unfolding on_grid_def by (rule exI [of _ 1]) simp

lemma on_grid_less_step:
  fixes a b :: "'d::linordered_field"
  assumes "on_grid s a" and "on_grid s b" and "a < b + 1 / 10 ^ s"
  shows "a \<le> b"
proof -
  obtain i j where a: "a = of_int i / 10 ^ s" and b: "b = of_int j / 10 ^ s"
    using assms(1,2) by (auto simp: on_grid_def)
  have "of_int i / 10 ^ s < (of_int j + 1) / (10 ^ s :: 'd)"
    using assms(3) by (simp add: a b add_divide_distrib)
  then have "of_int i < (of_int (j + 1) :: 'd)" by (simp add: divide_less_cancel)
  then have "i < j + 1" by (simp only: of_int_less_iff)
  then have "i \<le> j" by simp
  then show ?thesis by (simp add: a b divide_right_mono)
qed

lemma sum_on_grid: "(\<And>x. x \<in> set xs \<Longrightarrow> on_grid s x) \<Longrightarrow> on_grid s (sum_list xs :: 'd::linordered_field)"
  by (induction xs) (auto simp: on_grid_0 on_grid_add)

lemma set_sort_desc [simp]: "set (sort_desc f xs) = set xs"
  by (simp add: sort_desc_def)

lemma distinct_sort_desc [simp]: "distinct (sort_desc f xs) = distinct xs"
  by (simp add: sort_desc_def)

lemma extra_order_indices:
  "distinct (extra_order parcels shares)" "set (extra_order parcels shares) = {..<length parcels}"
  by (auto simp: extra_order_def)

context decimal_laws
begin

lemma floor_down_val:
  assumes "floor_down D num den step f = Some g" and "on_grid s f" and "step = 1 / 10 ^ s"
  shows "on_grid s g \<and> g * den \<le> num"
proof -
  let ?P = "\<lambda>E num den step f g. E = D \<longrightarrow> step = 1 / 10 ^ s \<longrightarrow> on_grid s f \<longrightarrow> on_grid s g \<and> g * den \<le> num"
  have "?P D num den step f g"
  proof (rule floor_down.raw_induct [of ?P, OF _ assms(1)])
    fix rec :: "'d decimal_api \<Rightarrow> 'd \<Rightarrow> 'd \<Rightarrow> 'd \<Rightarrow> 'd \<Rightarrow> 'd option" and E num den step f g
    assume IH: "\<And>E num den step f g. rec E num den step f = Some g \<Longrightarrow> ?P E num den step f g"
      and body: "checked_mul E f den \<bind> (\<lambda>product. if num < product
        then checked_sub E f step \<bind> rec E num den step else Some f) = Some g"
    show "?P E num den step f g"
    proof (intro impI)
      assume E: "E = D" and step: "step = 1 / 10 ^ s" and f: "on_grid s f"
      obtain p where p: "checked_mul D f den = Some p" using body E by (cases "checked_mul D f den") auto
      show "on_grid s g \<and> g * den \<le> num"
      proof (cases "num < p")
        case True
        then obtain l where l: "checked_sub D f step = Some l" "rec D num den step l = Some g"
          using body p E by (cases "checked_sub D f step") auto
        have "on_grid s l" using sub_eq [OF l(1)] on_grid_diff [OF f on_grid_step] step by simp
        with IH [OF l(2)] step show ?thesis by blast
      next
        case False
        then show ?thesis using body p E f mul_eq [OF p] by auto
      qed
    qed
  qed
  with assms show ?thesis by blast
qed

lemma floor_up_val:
  assumes "floor_up D num den step f = Some g" and "on_grid s f" and "step = 1 / 10 ^ s"
    and "f * den \<le> num"
  shows "on_grid s g \<and> g * den \<le> num \<and> num < (g + 1 / 10 ^ s) * den"
proof -
  let ?P = "\<lambda>E num den step f g. E = D \<longrightarrow> step = 1 / 10 ^ s \<longrightarrow> on_grid s f \<longrightarrow> f * den \<le> num \<longrightarrow>
    on_grid s g \<and> g * den \<le> num \<and> num < (g + 1 / 10 ^ s) * den"
  have "?P D num den step f g"
  proof (rule floor_up.raw_induct [of ?P, OF _ assms(1)])
    fix rec :: "'d decimal_api \<Rightarrow> 'd \<Rightarrow> 'd \<Rightarrow> 'd \<Rightarrow> 'd \<Rightarrow> 'd option" and E num den step f g
    assume IH: "\<And>E num den step f g. rec E num den step f = Some g \<Longrightarrow> ?P E num den step f g"
      and body: "checked_add E f step \<bind> (\<lambda>higher. checked_mul E higher den \<bind> (\<lambda>product.
        if product \<le> num then rec E num den step higher else Some f)) = Some g"
    show "?P E num den step f g"
    proof (intro impI)
      assume E: "E = D" and step: "step = 1 / 10 ^ s" and f: "on_grid s f" and le: "f * den \<le> num"
      obtain h p where h: "checked_add D f step = Some h" and p: "checked_mul D h den = Some p"
        using body E by (auto simp: bind_eq_Some_conv)
      have hv: "h = f + 1 / 10 ^ s" "p = (f + 1 / 10 ^ s) * den"
        using add_eq [OF h] mul_eq [OF p] step by simp_all
      show "on_grid s g \<and> g * den \<le> num \<and> num < (g + 1 / 10 ^ s) * den"
      proof (cases "p \<le> num")
        case True
        then have "rec D num den step h = Some g" using body h p E by simp
        moreover have "on_grid s h" unfolding hv(1) by (rule on_grid_add [OF f on_grid_step])
        ultimately show ?thesis using IH [of D num den step h g] step hv True by blast
      next
        case False
        then show ?thesis using body h p E f le hv by auto
      qed
    qed
  qed
  with assms show ?thesis by blast
qed

text \<open>The routine's contract: the largest grid point at or below the quotient, and what is left over.\<close>

lemma floor_on_grid_val:
  assumes "floor_on_grid D num den s = Some (f, r)"
  shows "on_grid s f \<and> f * den \<le> num \<and> num < (f + 1 / 10 ^ s) * den \<and> r = num - f * den"
proof -
  have step: "dnew D 1 s = 1 / 10 ^ s" by (simp add: dnew_eq)
  from assms obtain quotient down product where
    d: "floor_down D num den (dnew D 1 s) (round_with D ToZero s quotient) = Some down"
    and u: "floor_up D num den (dnew D 1 s) down = Some f"
    and m: "checked_mul D f den = Some product" "checked_sub D num product = Some r"
    by (auto simp: floor_on_grid_def Let_def bind_eq_Some_conv)
  note dv = floor_down_val [OF d round_grid step]
  note uv = floor_up_val [OF u conjunct1 [OF dv] step conjunct2 [OF dv]]
  show ?thesis using uv sub_eq [OF m(2)] mul_eq [OF m(1)] by simp
qed

text \<open>Exact division makes neither loop take a step, so both return where nothing overflows.\<close>

lemma floor_on_grid_returns:
  assumes "0 \<le> num" and "0 < den"
    and "checked_div D num den \<noteq> None" and "\<And>a. \<bar>a\<bar> \<le> num / den + 1 / 10 ^ s \<Longrightarrow> checked_mul D a den \<noteq> None"
    and "\<And>a. \<bar>a\<bar> \<le> num / den \<Longrightarrow> checked_add D a (1 / 10 ^ s) \<noteq> None"
    and "\<And>a. \<bar>a\<bar> \<le> num \<Longrightarrow> checked_sub D num a \<noteq> None"
  shows "floor_on_grid D num den s \<noteq> None"
proof -
  define q where "q = num / den"
  define f where "f = round_with D ToZero s q"
  have q: "0 \<le> q" "checked_div D num den = Some q"
    using assms(1-3) div_eq [of num den] by (auto simp: q_def)
  have f: "0 \<le> f" "f \<le> q" using q by (simp_all add: f_def round_nonneg round_to_zero)
  have up: "q < f + 1 / 10 ^ s"
  proof (rule ccontr)
    assume "\<not> q < f + 1 / 10 ^ s"
    then have "round_with D ToZero s (f + 1 / 10 ^ s) \<le> f"
      using round_mono [of "f + 1 / 10 ^ s" q ToZero s] by (simp add: f_def)
    moreover have "on_grid s (f + 1 / 10 ^ s)"
      unfolding f_def by (rule on_grid_add [OF round_grid on_grid_step])
    ultimately have "f + 1 / 10 ^ s \<le> f" by (simp only: round_fix)
    moreover have "0 < (1 / 10 ^ s :: 'd)" by simp
    ultimately show False by linarith
  qed
  have pos: "0 < (1 / 10 ^ s :: 'd)" by simp
  have fb: "\<bar>f\<bar> \<le> num / den + 1 / 10 ^ s" "\<bar>f\<bar> \<le> num / den" "\<bar>f + 1 / 10 ^ s\<bar> \<le> num / den + 1 / 10 ^ s"
    unfolding q_def [symmetric] using f pos by linarith+
  obtain p where p: "checked_mul D f den = Some p" using assms(4) [OF fb(1)] by auto
  have pv: "p = f * den" "p \<le> num" "\<bar>p\<bar> \<le> num"
    using mul_eq [OF p] f assms(1,2) by (simp_all add: q_def pos_le_divide_eq)
  obtain h where h: "checked_add D f (1 / 10 ^ s) = Some h" using assms(5) [OF fb(2)] by auto
  have hv: "h = f + 1 / 10 ^ s" by (rule add_eq [OF h])
  obtain p' where p': "checked_mul D h den = Some p'" using assms(4) [OF fb(3)] by (auto simp: hv)
  have p'v: "\<not> p' \<le> num"
    using mul_eq [OF p'] up assms(2) by (simp add: hv q_def pos_divide_less_eq)
  obtain r where "checked_sub D num p = Some r" using assms(6) [OF pv(3)] by auto
  moreover have "floor_down D num den (1 / 10 ^ s) f = Some f"
    using p pv by (subst floor_down.simps) simp
  moreover have "floor_up D num den (1 / 10 ^ s) f = Some f"
    using h p' p'v by (subst floor_up.simps) simp
  ultimately show ?thesis
    using q p by (simp add: floor_on_grid_def Let_def dnew_eq f_def [symmetric])
qed

lemma overflow_Inr: "overflow r = Inr a \<longleftrightarrow> r = Some a"
  by (simp add: overflow_def ok_or_Inr)

text \<open>What each rule promises of the total, for \<open>num = units * new\<close> over \<open>old\<close>.\<close>

lemma rounded_total_val:
  assumes "rounded_total D units new old s rule = Inr t" and "0 < old"
  shows "on_grid s t \<and> (t - 1 / 10 ^ s) * old < units * new \<and> units * new < (t + 1 / 10 ^ s) * old
    \<and> (rule \<in> {Down, CashInLieu} \<longrightarrow> t * old \<le> units * new)
    \<and> (rule = Up \<longrightarrow> units * new \<le> t * old)
    \<and> (rule = Nearest \<longrightarrow> - (1 / 10 ^ s) * old \<le> 2 * (units * new - t * old)
          \<and> 2 * (units * new - t * old) < 1 / 10 ^ s * old)"
proof -
  define step where "step = (1 / 10 ^ s :: 'd)"
  obtain num f r where n: "checked_mul D units new = Some num"
    and fl: "floor_on_grid D num old s = Some (f, r)"
    using assms(1) by (auto simp: rounded_total_def Let_def result_simps overflow_Inr)
  have num: "num = units * new" by (rule mul_eq [OF n])
  have fv: "on_grid s f" "f * old \<le> num" "num < (f + step) * old" "r = num - f * old"
    using floor_on_grid_val [OF fl] by (simp_all add: step_def)
  have so: "0 < step * old" using assms(2) by (simp add: step_def)
  have up: "on_grid s (f + step)" using on_grid_add [OF fv(1) on_grid_step] by (simp add: step_def)
  have cases_t: "t = f \<and> (rule = Up \<longrightarrow> r \<le> 0) \<and> (rule = Nearest \<longrightarrow> 2 * r < step * old)
    \<or> t = f + step \<and> rule \<noteq> Down \<and> rule \<noteq> CashInLieu \<and> (rule = Up \<longrightarrow> 0 < r)
      \<and> (rule = Nearest \<longrightarrow> step * old \<le> 2 * r)"
    using assms(1) n fl
    by (cases rule)
      (auto simp: rounded_total_def Let_def result_simps overflow_Inr dnew_eq step_def mult.commute
        dest!: add_eq mul_eq split: if_splits)
  show ?thesis unfolding step_def [symmetric] num [symmetric]
    using cases_t fv so up
    by (cases rule) (auto simp: algebra_simps)
qed

lemma checked_received_val: "checked_received D r s = Inr t \<Longrightarrow> s \<le> 28 \<Longrightarrow> t = r \<and> 0 < t \<and> on_grid s t"
  using normal_scale_grid [of r s] by (auto simp: checked_received_def split: if_splits)

lemma shares_of_val:
  assumes "shares_of D units m d s = Inr shares" and "0 < d"
  shows "length shares = length units"
    and "i < length units \<Longrightarrow> share_ok s (units ! i * m / d) (shares ! i)"
proof -
  show "length shares = length units"
    using assms(1) by (simp add: shares_of_def try_map_length)
  assume i: "i < length units"
  obtain num f r where n: "checked_mul D (units ! i) m = Some num"
    and fl: "floor_on_grid D num d s = Some (f, r)" and sh: "shares ! i = (f, r)"
    using try_map_nth [OF assms(1) [unfolded shares_of_def] i]
    by (cases "shares ! i") (auto simp: result_simps overflow_Inr)
  have v: "on_grid s f" "f * d \<le> units ! i * m" "units ! i * m < (f + 1 / 10 ^ s) * d"
    "r = units ! i * m - f * d"
    using floor_on_grid_val [OF fl] mul_eq [OF n] by simp_all
  then show "share_ok s (units ! i * m / d) (shares ! i)"
    using assms(2) by (auto simp: share_ok_def sh pos_le_divide_eq pos_divide_less_eq)
qed

lemma kept_count_val:
  assumes "kept_count D s p share = Inr k" and "s \<le> 28" and "on_grid s (fst share)"
  shows "k = Some c \<Longrightarrow> on_grid s c \<and> fst share \<le> c \<and> c \<le> fst share + 1 / 10 ^ s"
proof -
  assume c: "k = Some c"
  obtain l where lim: "(if snd share = 0 then Inr (fst share)
      else overflow (checked_add D (fst share) (dnew D 1 s))) = (Inr l :: 'd rounding_error + 'd)"
    using assms(1) by (cases "(if snd share = 0 then Inr (fst share)
      else overflow (checked_add D (fst share) (dnew D 1 s))) :: 'd rounding_error + 'd")
      (auto simp: kept_count_def)
  then have "(case pb_prior p of None \<Rightarrow> None | Some pr \<Rightarrow>
       if 0 < pri_on_grid pr \<and> normal_scale D (pri_on_grid pr) \<le> s \<and> fst share \<le> pri_on_grid pr
         \<and> pri_on_grid pr \<le> l then Some (pri_on_grid pr) else None) = Some c"
    using assms(1) c by (simp add: kept_count_def)
  moreover have "0 < (1 / 10 ^ s :: 'd)" by simp
  then have "l \<le> fst share + 1 / 10 ^ s"
    using lim add_eq [of "fst share" "dnew D 1 s" l] by (auto simp: overflow_Inr dnew_eq split: if_splits)
  ultimately show ?thesis
    using normal_scale_grid [of c s] assms(2) by (auto split: option.splits if_splits)
qed

end

text \<open>Sums over the kept and the free parcels.\<close>

definition kept_total :: "'d::linordered_field option list \<Rightarrow> 'd" where
  "kept_total kept = (\<Sum>i < length kept. case kept ! i of None \<Rightarrow> 0 | Some c \<Rightarrow> c)"

definition free_total :: "(nat \<Rightarrow> 'd::linordered_field) \<Rightarrow> 'd option list \<Rightarrow> 'd" where
  "free_total g kept = (\<Sum>i < length kept. if kept ! i = None then g i else 0)"

lemma kept_total_list: "sum_list (map the (filter (\<lambda>k. k \<noteq> None) kept)) = kept_total kept"
proof -
  have "kept_total kept = sum_list (map (\<lambda>i. case kept ! i of None \<Rightarrow> 0 | Some c \<Rightarrow> c) [0..<length kept])"
    by (simp add: kept_total_def sum_list_distinct_conv_sum_set atLeast0LessThan)
  also have "\<dots> = sum_list (map (\<lambda>k. case k of None \<Rightarrow> 0 | Some c \<Rightarrow> c) kept)"
    by (rule arg_cong [where f = sum_list]) (auto intro: nth_equalityI)
  also have "\<dots> = sum_list (map the (filter (\<lambda>k. k \<noteq> None) kept))"
    by (induction kept) (auto split: option.splits)
  finally show ?thesis ..
qed

lemma free_total_list: "sum_list (map g (free_indices kept)) = free_total g kept"
proof -
  have "sum_list (map g (free_indices kept)) = sum g {i \<in> {..<length kept}. kept ! i = None}"
    by (simp add: free_indices_def sum_list_distinct_conv_sum_set atLeast0LessThan Collect_conj_eq
        Int_commute lessThan_def)
  also have "\<dots> = free_total g kept"
    unfolding free_total_def by (rule sum.inter_filter) simp
  finally show ?thesis .
qed

context decimal_laws
begin

lemma kept_sum_val: "kept_sum D kept = Some ks \<Longrightarrow> ks = kept_total kept"
  using opt_fold_add [of 0 "map the (filter (\<lambda>k. k \<noteq> None) kept)" ks]
  unfolding kept_sum_def kept_total_list by simp

lemma free_range_val:
  assumes "free_range D step parcels shares kept = Inr (lower, must, may)" and "0 < step"
  shows "lower = free_total (\<lambda>i. fst (shares ! i)) kept \<and> 0 \<le> must
    \<and> may = free_total (\<lambda>i. if snd (shares ! i) \<noteq> 0 then step else 0) kept"
proof -
  define f :: "'d \<times> 'd \<times> 'd \<Rightarrow> nat \<Rightarrow> 'd rounding_error + 'd \<times> 'd \<times> 'd"
    where "f = (\<lambda>(lower, must, may) i.
       and_then (overflow (checked_add D lower (fst (shares ! i)))) (\<lambda>lower'.
         Inr (lower', if emptied parcels shares i then must + step else must,
              if snd (shares ! i) \<noteq> 0 then may + step else may)))"
  have "try_foldl f (l, m, y) js = Inr (l', m', y') \<Longrightarrow>
    l' = l + sum_list (map (\<lambda>i. fst (shares ! i)) js) \<and> m \<le> m'
    \<and> y' = y + sum_list (map (\<lambda>i. if snd (shares ! i) \<noteq> 0 then step else 0) js)" for js l m y l' m' y'
  proof (induction js arbitrary: l m y)
    case (Cons j js)
    then obtain st where st: "f (l, m, y) j = Inr st" and rest: "try_foldl f st js = Inr (l', m', y')"
      by (auto simp: and_then_Inr)
    obtain a where a: "checked_add D l (fst (shares ! j)) = Some a"
      and sv: "st = (a, if emptied parcels shares j then m + step else m,
        if snd (shares ! j) \<noteq> 0 then y + step else y)"
      using st by (auto simp: f_def and_then_Inr overflow_Inr)
    show ?case using Cons.IH [OF rest [unfolded sv]] add_eq [OF a] assms(2) by (auto split: if_splits)
  qed simp
  from this [of 0 0 0 "free_indices kept" lower must may] assms(1) show ?thesis
    by (simp add: free_range_def f_def free_total_list)
qed

lemma settle_step:
  assumes "settle D step parcels shares tot kept release = Inr (rest, kept')" and "0 < step"
  shows "(rest = tot - kept_total kept \<and> kept' = kept
      \<and> free_total (\<lambda>i. fst (shares ! i)) kept \<le> rest
      \<and> rest \<le> free_total (\<lambda>i. fst (shares ! i)) kept
              + free_total (\<lambda>i. if snd (shares ! i) \<noteq> 0 then step else 0) kept)
    \<or> (release = [] \<and> rest = tot - kept_total kept \<and> kept' = kept)
    \<or> (\<exists>i others. release = i # others
        \<and> settle D step parcels shares tot (kept[i := None]) others = Inr (rest, kept'))"
proof -
  obtain ks r lower must may least fits where ks: "kept_sum D kept = Some ks"
    and r: "checked_sub D tot ks = Some r"
    and fr: "free_range D step parcels shares kept = Inr (lower, must, may)"
    and least: "checked_add D lower must = Some least"
    and fits: "(if least \<le> r then map_result (\<lambda>most. r \<le> most) (overflow (checked_add D lower may))
       else Inr False) = (Inr fits :: 'd rounding_error + bool)"
    and rest: "(if fits then Inr (r, kept) else (case release of
        i # others \<Rightarrow> settle D step parcels shares tot (kept[i := None]) others
      | [] \<Rightarrow> Inr (r, kept))) = Inr (rest, kept')"
    using assms(1) unfolding settle.simps [of D step parcels shares tot kept release]
    by (auto simp: and_then_Inr overflow_Inr)
  have rv: "r = tot - kept_total kept" using kept_sum_val [OF ks] sub_eq [OF r] by simp
  note fv = free_range_val [OF fr assms(2)]
  show ?thesis
  proof (cases fits)
    case True
    then obtain most where "least \<le> r" "checked_add D lower may = Some most" "r \<le> most"
      using fits by (auto simp: map_result_Inr overflow_Inr split: if_splits)
    then have "lower \<le> r" "r \<le> lower + may" using add_eq [OF least] add_eq [of lower may] fv by auto
    with True rest rv fv show ?thesis by auto
  next
    case False
    with rest rv show ?thesis by (cases release) auto
  qed
qed

lemma settle_val:
  assumes "settle D step parcels shares tot kept release = Inr (rest, kept')" and "0 < step"
    and "\<And>i. i < length kept \<Longrightarrow> kept ! i \<noteq> None \<Longrightarrow> i \<in> set release"
    and low: "(\<Sum>i < length kept. fst (shares ! i)) \<le> tot"
    and high: "tot \<le> (\<Sum>i < length kept. fst (shares ! i))
      + (\<Sum>i < length kept. if snd (shares ! i) \<noteq> 0 then step else 0)"
  shows "length kept' = length kept \<and> (\<forall>i < length kept. kept' ! i = None \<or> kept' ! i = kept ! i)
    \<and> rest = tot - kept_total kept'
    \<and> free_total (\<lambda>i. fst (shares ! i)) kept' \<le> rest
    \<and> rest \<le> free_total (\<lambda>i. fst (shares ! i)) kept'
            + free_total (\<lambda>i. if snd (shares ! i) \<noteq> 0 then step else 0) kept'"
  using assms(1,3,4,5)
proof (induction release arbitrary: kept)
  case Nil
  have none: "kept ! i = None" if "i < length kept" for i
    using Nil.prems(2) [OF that] by (cases "kept ! i") auto
  then have "kept_total kept = 0" "free_total g kept = (\<Sum>i < length kept. g i)" for g :: "nat \<Rightarrow> 'd"
    by (simp_all add: kept_total_def free_total_def)
  with settle_step [OF Nil.prems(1) assms(2)] Nil.prems(3,4) show ?case by auto
next
  case (Cons i others)
  from settle_step [OF Cons.prems(1) assms(2)] consider
      (fits) "rest = tot - kept_total kept" "kept' = kept"
        "free_total (\<lambda>i. fst (shares ! i)) kept \<le> rest"
        "rest \<le> free_total (\<lambda>i. fst (shares ! i)) kept
              + free_total (\<lambda>i. if snd (shares ! i) \<noteq> 0 then step else 0) kept"
    | (next_one) "settle D step parcels shares tot (kept[i := None]) others = Inr (rest, kept')"
    by auto
  then show ?case
  proof cases
    case fits
    then show ?thesis by simp
  next
    case next_one
    have cover: "j \<in> set others" if "j < length (kept[i := None])" "kept[i := None] ! j \<noteq> None" for j
      using Cons.prems(2) [of j] that by (cases "j = i") auto
    have "length kept' = length (kept[i := None])
      \<and> (\<forall>j < length (kept[i := None]). kept' ! j = None \<or> kept' ! j = kept[i := None] ! j)
      \<and> rest = tot - kept_total kept'
      \<and> free_total (\<lambda>i. fst (shares ! i)) kept' \<le> rest
      \<and> rest \<le> free_total (\<lambda>i. fst (shares ! i)) kept'
              + free_total (\<lambda>i. if snd (shares ! i) \<noteq> 0 then step else 0) kept'"
      by (rule Cons.IH [OF next_one cover]) (use Cons.prems(3,4) in simp_all)
    moreover have "kept[i := None] ! j = None \<or> kept[i := None] ! j = kept ! j" if "j < length kept" for j
      using that by (cases "j = i") simp_all
    ultimately show ?thesis by (metis length_list_update)
  qed
qed

lemma add_steps_val:
  assumes "add_steps D step chosen counts = Inr counts'" and "distinct chosen"
    and "\<And>i. i \<in> set chosen \<Longrightarrow> i < length counts"
  shows "length counts' = length counts \<and> (\<forall>i < length counts.
    counts' ! i = (counts ! i)\<lparr>pc_after := pc_after (counts ! i) + (if i \<in> set chosen then step else 0)\<rparr>)"
  using assms
proof (induction chosen arbitrary: counts)
  case (Cons j js)
  define c where "c = counts[j := (counts ! j)\<lparr>pc_after := pc_after (counts ! j) + step\<rparr>]"
  obtain a where "checked_add D (pc_after (counts ! j)) step = Some a"
    and r: "add_steps D step js (counts[j := (counts ! j)\<lparr>pc_after := a\<rparr>]) = Inr counts'"
    using Cons.prems(1) by (auto simp: add_steps_def and_then_Inr overflow_Inr)
  then have rest: "add_steps D step js c = Inr counts'" using add_eq by (auto simp: c_def)
  have "length counts' = length c \<and> (\<forall>i < length c. counts' ! i
      = (c ! i)\<lparr>pc_after := pc_after (c ! i) + (if i \<in> set js then step else 0)\<rparr>)"
    by (rule Cons.IH [OF rest]) (use Cons.prems(2,3) in \<open>auto simp: c_def\<close>)
  then show ?case using Cons.prems(2,3) by (auto simp: c_def nth_list_update)
qed (simp add: add_steps_def)

lemma add_in_lieu_val:
  assumes "add_in_lieu D il order shares counts = Inr final"
    and "\<And>i. i \<in> set order \<Longrightarrow> i < length counts"
    and "\<And>i. i < length counts \<Longrightarrow> pc_in_lieu (counts ! i) = 0"
  shows "length final = length counts \<and> (\<forall>i < length counts.
    pc_after (final ! i) - pc_in_lieu (final ! i) = pc_after (counts ! i)
    \<and> pc_trade_id (final ! i) = pc_trade_id (counts ! i) \<and> pc_before (final ! i) = pc_before (counts ! i))"
proof (cases "final = counts")
  case True
  with assms(3) show ?thesis by simp
next
  case False
  then obtain fraction i where f: "il = Some fraction" "0 < fraction"
    and i: "find (\<lambda>i. pc_after (counts ! i) = fst (shares ! i)) order = Some i"
    using assms(1) by (auto simp: add_in_lieu_def split: option.splits if_splits)
  then obtain a where a: "checked_add D (pc_after (counts ! i)) fraction = Some a"
    and final: "final = counts[i := (counts ! i)\<lparr>pc_after := a, pc_in_lieu := a - pc_after (counts ! i)\<rparr>]"
    using assms(1) by (auto simp: add_in_lieu_def and_then_Inr overflow_Inr Let_def)
  have "i < length counts" using find_SomeD [OF i] assms(2) by blast
  with assms(3) show ?thesis by (auto simp: final nth_list_update)
qed

lemma sum_floor_bounds:
  fixes tot :: 'd
  assumes "\<And>i. i < n \<Longrightarrow> share_ok s (x i) (shares ! i)" and "on_grid s tot"
    and "(\<Sum>i < n. x i) < tot + 1 / 10 ^ s" and "tot < (\<Sum>i < n. x i) + 1 / 10 ^ s"
  shows "(\<Sum>i < n. fst (shares ! i)) \<le> tot"
    and "tot \<le> (\<Sum>i < n. fst (shares ! i)) + (\<Sum>i < n. if snd (shares ! i) \<noteq> 0 then 1 / 10 ^ s else 0)"
proof -
  let ?F = "\<Sum>i < n. fst (shares ! i)"
    and ?M = "\<Sum>i < n. if snd (shares ! i) \<noteq> 0 then 1 / 10 ^ s else (0 :: 'd)"
  have grid: "on_grid s (\<Sum>i < n. f i)" if "\<And>i. i < n \<Longrightarrow> on_grid s (f i)" for f :: "nat \<Rightarrow> 'd"
    using that by (induction n) (auto simp: on_grid_0 on_grid_add)
  have F: "on_grid s ?F" by (rule grid) (use assms(1) in \<open>simp add: share_ok_def\<close>)
  have M: "on_grid s ?M" by (rule grid) (simp add: on_grid_0 on_grid_step)
  have "?F \<le> (\<Sum>i < n. x i)" by (rule sum_mono) (use assms(1) in \<open>simp add: share_ok_def\<close>)
  then show "?F \<le> tot" using on_grid_less_step [OF F assms(2)] assms(3) by linarith
  have "(\<Sum>i < n. x i) \<le> (\<Sum>i < n. fst (shares ! i) + (if snd (shares ! i) \<noteq> 0 then 1 / 10 ^ s else 0))"
    by (rule sum_mono) (use assms(1) in \<open>auto simp: share_ok_def less_imp_le\<close>)
  then have "(\<Sum>i < n. x i) \<le> ?F + ?M" by (simp only: sum.distrib)
  then show "tot \<le> ?F + ?M"
    using on_grid_less_step [OF assms(2) on_grid_add [OF F M]] assms(4) by linarith
qed

lemma extra_steps:
  assumes "on_grid s lower" and "on_grid s rest" and "lower \<le> rest"
    and "rest \<le> lower + free_total (\<lambda>i. if P i then 1 / 10 ^ s else 0) kept"
    and "to_usize D ((rest - lower) / (1 / 10 ^ s)) = Some extra"
  shows "extra \<le> length (free_indices kept)" and "of_nat extra * (1 / 10 ^ s) = rest - lower"
proof -
  obtain k where k: "rest - lower = of_int k / 10 ^ s"
    using on_grid_diff [OF assms(2,1)] by (auto simp: on_grid_def)
  have "(rest - lower) / (1 / 10 ^ s) = of_int k" by (simp add: k)
  then have u: "of_nat extra \<le> (of_int k :: 'd)" "(of_int k :: 'd) < of_nat extra + 1"
    using usize_eq [OF assms(5)] by simp_all
  have "of_int (int extra) \<le> (of_int k :: 'd)" "(of_int k :: 'd) < of_int (int extra + 1)" using u by simp_all
  then have "int extra \<le> k" "k < int extra + 1" by (simp_all only: of_int_le_iff of_int_less_iff)
  then have "k = int extra" by simp
  then show e: "of_nat extra * (1 / 10 ^ s) = rest - lower" by (simp add: k)
  have "free_total (\<lambda>i. if P i then 1 / 10 ^ s else (0::'d)) kept \<le> free_total (\<lambda>i. 1 / 10 ^ s) kept"
    unfolding free_total_def by (rule sum_mono) simp
  also have "\<dots> = of_nat (length (free_indices kept)) * (1 / 10 ^ s)"
    by (simp add: free_total_list [symmetric] sum_list_triv)
  finally have "of_nat extra * (1 / 10 ^ s :: 'd) \<le> of_nat (length (free_indices kept)) * (1 / 10 ^ s)"
    using assms(4) e by simp
  then have "(of_nat extra :: 'd) \<le> of_nat (length (free_indices kept))"
    by (simp add: divide_le_cancel)
  then show "extra \<le> length (free_indices kept)" by (simp only: of_nat_le_iff)
qed

lemma distribute_val:
  assumes dist: "distribute D parcels units tot (m, d) s il = Inr final" and "0 < d" and "s \<le> 28"
    and len: "length units = length parcels" and grid: "on_grid s tot"
    and near: "(\<Sum>i < length parcels. units ! i * m / d) < tot + 1 / 10 ^ s"
      "tot < (\<Sum>i < length parcels. units ! i * m / d) + 1 / 10 ^ s"
  shows "length final = length parcels
    \<and> (\<Sum>i < length parcels. pc_after (final ! i) - pc_in_lieu (final ! i)) = tot
    \<and> (\<forall>i < length parcels. \<bar>pc_after (final ! i) - pc_in_lieu (final ! i) - units ! i * m / d\<bar> \<le> 1 / 10 ^ s
         \<and> pc_trade_id (final ! i) = pb_trade_id (parcels ! i) \<and> pc_before (final ! i) = pb_units (parcels ! i)
         \<and> pc_after (final ! i) \<noteq> 0)"
proof -
  define n where "n = length parcels"
  define step where "step = (1 / 10 ^ s :: 'd)"
  have step: "0 < step" "dnew D 1 s = step" by (simp_all add: step_def dnew_eq)
  obtain shares kept0 rest kept free_floors left extra stepped where
    sh: "shares_of D units m d s = Inr shares"
    and k0: "try_map (\<lambda>(p, share). kept_count D s p share) (zip parcels shares) = Inr kept0"
    and st: "settle D step parcels shares tot kept0 (release_order parcels kept0) = Inr (rest, kept)"
    and ff: "opt_foldl (checked_add D) 0 (map (\<lambda>i. pc_after (initial_counts parcels shares kept ! i)) (free_indices kept))
      = Some free_floors"
    and left: "checked_sub D rest free_floors = Some left"
    and ex: "to_usize D (left / step) = Some extra"
    and ad: "add_steps D step (take extra (filter (\<lambda>i. kept ! i = None) (extra_order parcels shares)))
      (initial_counts parcels shares kept) = Inr stepped"
    and il: "add_in_lieu D il (extra_order parcels shares) shares stepped = Inr final"
    and nz: "find (\<lambda>c. pc_after c = 0) final = None"
    using dist unfolding distribute_def Let_def step(2) fst_conv snd_conv
    by (auto simp: and_then_Inr overflow_Inr split: option.splits)
  have shares: "length shares = n" "\<And>i. i < n \<Longrightarrow> share_ok s (units ! i * m / d) (shares ! i)"
    using shares_of_val [OF sh assms(2)] len by (simp_all add: n_def)
  have len0: "length kept0 = n" using try_map_length [OF k0] shares(1) by (simp add: n_def)
  have kept0: "kept0 ! i = Some c \<Longrightarrow> on_grid s c \<and> fst (shares ! i) \<le> c \<and> c \<le> fst (shares ! i) + step"
    if "i < n" for i c
    using try_map_nth [OF k0, of i] kept_count_val [OF _ assms(3), of "parcels ! i" "shares ! i" "kept0 ! i" c]
      that shares by (auto simp: n_def step_def share_ok_def)
  note bounds = sum_floor_bounds [of n s "\<lambda>i. units ! i * m / d" shares tot, OF shares(2) grid
      near [folded n_def], folded step_def]
  have kv: "length kept = n \<and> (\<forall>i < n. kept ! i = None \<or> kept ! i = kept0 ! i)
    \<and> rest = tot - kept_total kept \<and> free_total (\<lambda>i. fst (shares ! i)) kept \<le> rest
    \<and> rest \<le> free_total (\<lambda>i. fst (shares ! i)) kept
            + free_total (\<lambda>i. if snd (shares ! i) \<noteq> 0 then step else 0) kept"
    using settle_val [OF st step(1)] bounds len0
    by (simp add: release_order_def n_def)
  define counts where "counts = initial_counts parcels shares kept"
  have counts: "length counts = n" "\<And>i. i < n \<Longrightarrow> counts ! i = \<lparr>pc_trade_id = pb_trade_id (parcels ! i),
      pc_before = pb_units (parcels ! i),
      pc_after = (case kept ! i of None \<Rightarrow> fst (shares ! i) | Some c \<Rightarrow> c), pc_in_lieu = 0\<rparr>"
    using kv shares(1) by (simp_all add: counts_def initial_counts_def n_def)
  define lower where "lower = free_total (\<lambda>i. fst (shares ! i)) kept"
  have free: "\<And>i. i \<in> set (free_indices kept) \<longleftrightarrow> i < n \<and> kept ! i = None"
    using kv by (auto simp: free_indices_def)
  have "free_floors = sum_list (map (\<lambda>i. pc_after (counts ! i)) (free_indices kept))"
    using opt_fold_add [OF ff] by (simp add: counts_def)
  also have "map (\<lambda>i. pc_after (counts ! i)) (free_indices kept) = map (\<lambda>i. fst (shares ! i)) (free_indices kept)"
    using free counts(2) by simp
  finally have left_v: "left = rest - lower"
    using sub_eq [OF left] by (simp add: lower_def free_total_list)
  have kept_grid: "on_grid s (case kept ! i of None \<Rightarrow> 0 | Some c \<Rightarrow> c)" if "i < n" for i
    using kv kept0 that by (auto simp: on_grid_0 split: option.splits)
  have grid_sum: "on_grid s (\<Sum>i < k. f i)" if "\<And>i. i < k \<Longrightarrow> on_grid s (f i)" for f :: "nat \<Rightarrow> 'd" and k
    using that by (induction k) (auto simp: on_grid_0 on_grid_add)
  have "on_grid s (kept_total kept)" unfolding kept_total_def by (rule grid_sum) (use kv kept_grid in simp)
  then have rest_grid: "on_grid s rest" using kv on_grid_diff [OF grid] by simp
  have lower_grid: "on_grid s lower" unfolding lower_def free_total_def
    by (rule grid_sum) (use kv shares(2) in \<open>simp add: on_grid_0 share_ok_def\<close>)
  have extra: "extra \<le> length (free_indices kept)" "of_nat extra * step = rest - lower"
    using extra_steps [OF lower_grid rest_grid, of "\<lambda>i. snd (shares ! i) \<noteq> 0" kept extra,
        folded step_def] kv ex [unfolded left_v]
    by (simp_all add: lower_def)
  define order chosen where "order = extra_order parcels shares"
    and "chosen = take extra (filter (\<lambda>i. kept ! i = None) order)"
  have order: "distinct order" "set order = {..<n}"
    by (simp_all add: order_def extra_order_indices n_def)
  have same: "set (filter (\<lambda>i. kept ! i = None) order) = set (free_indices kept)"
    using order(2) free by auto
  have df: "distinct (free_indices kept)" by (simp add: free_indices_def)
  have "length (filter (\<lambda>i. kept ! i = None) order) = card (set (filter (\<lambda>i. kept ! i = None) order))"
    by (rule distinct_card [symmetric]) (use order(1) in simp)
  also have "\<dots> = length (free_indices kept)" unfolding same by (rule distinct_card [OF df])
  finally have count: "length (filter (\<lambda>i. kept ! i = None) order) = length (free_indices kept)" .
  have chosen: "distinct chosen" "length chosen = extra"
    using order(1) extra(1) count by (simp_all add: chosen_def)
  have chosen_free: "i < n \<and> kept ! i = None" if "i \<in> set chosen" for i
    using in_set_takeD [OF that [unfolded chosen_def]] order(2) by auto
  note chosen = chosen chosen_free
  have stepped: "length stepped = n \<and> (\<forall>i < n.
      stepped ! i = (counts ! i)\<lparr>pc_after := pc_after (counts ! i) + (if i \<in> set chosen then step else 0)\<rparr>)"
    using add_steps_val [OF ad [folded counts_def order_def, folded chosen_def] chosen(1)] chosen(3) counts(1)
    by simp
  have "length final = length stepped \<and> (\<forall>i < length stepped.
    pc_after (final ! i) - pc_in_lieu (final ! i) = pc_after (stepped ! i)
    \<and> pc_trade_id (final ! i) = pc_trade_id (stepped ! i) \<and> pc_before (final ! i) = pc_before (stepped ! i))"
    by (rule add_in_lieu_val [OF il]) (use stepped counts order in \<open>auto simp: order_def\<close>)
  then have final: "length final = n" "\<And>i. i < n \<Longrightarrow> pc_after (final ! i) - pc_in_lieu (final ! i)
      = pc_after (counts ! i) + (if i \<in> set chosen then step else 0)"
    "\<And>i. i < n \<Longrightarrow> pc_trade_id (final ! i) = pb_trade_id (parcels ! i) \<and> pc_before (final ! i) = pb_units (parcels ! i)"
    using stepped counts(2) by auto
  have "(\<Sum>i < n. pc_after (final ! i) - pc_in_lieu (final ! i))
      = (\<Sum>i < n. pc_after (counts ! i)) + (\<Sum>i < n. if i \<in> set chosen then step else 0)"
    by (simp add: final(2) sum.distrib)
  also have "(\<Sum>i < n. if i \<in> set chosen then step else 0) = of_nat extra * step"
  proof -
    have "(\<Sum>i < n. if i \<in> set chosen then step else 0) = sum (\<lambda>_. step) {i \<in> {..<n}. i \<in> set chosen}"
      by (rule sum.inter_filter [symmetric]) simp
    also have "{i \<in> {..<n}. i \<in> set chosen} = set chosen" using chosen(3) by auto
    finally show ?thesis using chosen(1,2) by (simp add: distinct_card)
  qed
  also have "(\<Sum>i < n. pc_after (counts ! i)) = kept_total kept + lower"
    using kv unfolding kept_total_def lower_def free_total_def
    by (simp only: sum.distrib [symmetric]) (rule sum.cong, auto simp: counts(2) split: option.splits)
  finally have total_v: "(\<Sum>i < n. pc_after (final ! i) - pc_in_lieu (final ! i)) = tot"
    using extra(2) kv by simp
  have close: "\<bar>pc_after (final ! i) - pc_in_lieu (final ! i) - units ! i * m / d\<bar> \<le> step" if i: "i < n" for i
  proof -
    have "fst (shares ! i) \<le> pc_after (counts ! i) + (if i \<in> set chosen then step else 0)"
      "pc_after (counts ! i) + (if i \<in> set chosen then step else 0) \<le> fst (shares ! i) + step"
      using kv kept0 [OF i] chosen(3) [of i] step(1) i counts(2) [OF i] by (auto split: option.splits)
    then show ?thesis using shares(2) [OF i] unfolding final(2) [OF i] step_def [symmetric] share_ok_def
      by (simp add: abs_le_iff step_def)
  qed
  have "pc_after (final ! i) \<noteq> 0" if "i < n" for i
    using nz that final(1) by (auto simp: find_None_iff)
  with total_v close final show ?thesis by (simp add: n_def step_def)
qed

lemma exact_units_den:
  assumes "\<And>p f. p \<in> set parcels \<Longrightarrow> pb_exact p = Some f \<Longrightarrow> 0 < fr_den f"
  shows "0 < snd (exact_units D parcels) \<and> length (fst (exact_units D parcels)) = length parcels"
proof (cases "over_common_denominator D (map (\<lambda>p. case pb_exact p of Some f \<Rightarrow> f
                 | None \<Rightarrow> \<lparr>fr_num = pb_units p, fr_den = 1\<rparr>) parcels)")
  case None
  then show ?thesis by (simp add: exact_units_def)
next
  case (Some r)
  have "0 < snd r \<and> length (fst r) = length parcels"
    using over_common_denominator_val [of _ "fst r" "snd r"] Some assms
    by (force split: option.splits)
  with Some show ?thesis by (simp add: exact_units_def)
qed

lemma sum_shares: "(\<Sum>i < length xs. xs ! i * m / d) = sum_list xs * m / (d :: 'd)"
proof -
  have "(\<Sum>i < length xs. xs ! i * m / d) = (\<Sum>i < length xs. xs ! i) * m / d"
    by (simp add: sum_distrib_right sum_divide_distrib)
  then show ?thesis by (simp add: sum_list_sum_nth atLeast0LessThan)
qed

lemma round_holding_val:
  assumes "round_holding D parcels new old s rule received = Inr counts" and "counts \<noteq> []"
    and "0 < old" and "s \<le> 28"
    and den: "\<And>p f. p \<in> set parcels \<Longrightarrow> pb_exact p = Some f \<Longrightarrow> 0 < fr_den f"
    and eu: "exact_units D parcels = (nums, den)" and held: "0 < sum_list nums"
  shows "\<exists>tot. (case received of Some r \<Rightarrow> tot = r | None \<Rightarrow> rounded_total D (sum_list nums) new (old * den) s rule = Inr tot)
    \<and> length counts = length parcels
    \<and> (\<Sum>i < length parcels. pc_after (counts ! i) - pc_in_lieu (counts ! i)) = tot
    \<and> (\<forall>i < length parcels. pc_after (counts ! i) \<noteq> 0 \<and> pc_trade_id (counts ! i) = pb_trade_id (parcels ! i)
         \<and> \<bar>pc_after (counts ! i) - pc_in_lieu (counts ! i)
              - (case received of Some r \<Rightarrow> nums ! i * r / sum_list nums | None \<Rightarrow> nums ! i * new / (old * den))\<bar> \<le> 1 / 10 ^ s)"
proof -
  have nd: "0 < den" "length nums = length parcels"
    using exact_units_den [of parcels] den eu by simp_all
  obtain held' old' tot in_lieu where h: "opt_foldl (checked_add D) 0 nums = Some held'"
    and o': "checked_mul D old den = Some old'"
    and t: "(case received of Some r \<Rightarrow> checked_received D r s | None \<Rightarrow> rounded_total D held' new old' s rule) = Inr tot"
    and d: "distribute D parcels nums tot (case received of Some r \<Rightarrow> (r, held') | None \<Rightarrow> (new, old')) s in_lieu
      = Inr counts"
    using assms(1,2) eu by (auto simp: round_holding_def and_then_Inr overflow_Inr split: if_splits)
  have hv: "held' = sum_list nums" using opt_fold_add [OF h] by simp
  have ov: "old' = old * den" "0 < old'" using mul_eq [OF o'] assms(3) nd(1) by simp_all
  show ?thesis
  proof (cases received)
    case None
    then have rt: "rounded_total D (sum_list nums) new (old * den) s rule = Inr tot"
      using t by (simp add: hv ov)
    note v = rounded_total_val [OF rt ov(2) [unfolded ov(1)]]
    have od: "0 < old * den" using ov by simp
    have "sum_list nums * new / (old * den) < tot + 1 / 10 ^ s"
      using v unfolding pos_divide_less_eq [OF od] by blast
    moreover have "tot - 1 / 10 ^ s < sum_list nums * new / (old * den)"
      using v unfolding pos_less_divide_eq [OF od] by blast
    ultimately have "sum_list nums * new / (old * den) < tot + 1 / 10 ^ s"
      "tot < sum_list nums * new / (old * den) + 1 / 10 ^ s" by linarith+
    then have near: "(\<Sum>i < length parcels. nums ! i * new / (old * den)) < tot + 1 / 10 ^ s"
      "tot < (\<Sum>i < length parcels. nums ! i * new / (old * den)) + 1 / 10 ^ s"
      unfolding nd(2) [symmetric] sum_shares by simp_all
    have "distribute D parcels nums tot (new, old * den) s in_lieu = Inr counts"
      using d None by (simp add: ov)
    from distribute_val [OF this ov(2) [unfolded ov(1)] assms(4) nd(2) conjunct1 [OF v] near] rt None
    show ?thesis by auto
  next
    case (Some r)
    then have r: "tot = r" "0 < tot" "on_grid s tot"
      using t checked_received_val [of r s tot] assms(4) by auto
    have "(\<Sum>i < length parcels. nums ! i * r / sum_list nums) = tot"
      unfolding nd(2) [symmetric] sum_shares using held r(1) by simp
    then have near: "(\<Sum>i < length parcels. nums ! i * r / sum_list nums) < tot + 1 / 10 ^ s"
      "tot < (\<Sum>i < length parcels. nums ! i * r / sum_list nums) + 1 / 10 ^ s" by simp_all
    have "distribute D parcels nums tot (r, sum_list nums) s in_lieu = Inr counts"
      using d Some by (simp add: hv)
    from distribute_val [OF this held assms(4) nd(2) r(3) near] r(1) Some show ?thesis by auto
  qed
qed

end

section \<open>Properties\<close>



text \<open>C6: rounding a holding distributes exactly the registered total: over the parcels, what is
  counted, less any fraction kept for cash in lieu, adds up to the units received, or to the
  exact entitlement rounded by the action's rule; every parcel is within one grid step of its own
  exact entitlement and none is left with nothing.\<close>

theorem round_holding_exact:
  assumes D: "decimal_laws D" and "round_holding D parcels new old s rule received = Inr counts"
    and "counts \<noteq> []" and "0 < old" and "s \<le> 28"
    and "\<forall>p \<in> set parcels. \<forall>f. pb_exact p = Some f \<longrightarrow> 0 < fr_den f"
    and "exact_units D parcels = (nums, den)" and "0 < sum_list nums"
  shows "\<exists>tot. (case received of Some r \<Rightarrow> tot = r
        | None \<Rightarrow> \<bar>tot * (old * den) - sum_list nums * new\<bar> < 1 / 10 ^ s * (old * den)
            \<and> (rule \<in> {Down, CashInLieu} \<longrightarrow> tot * (old * den) \<le> sum_list nums * new)
            \<and> (rule = Up \<longrightarrow> sum_list nums * new \<le> tot * (old * den))
            \<and> (rule = Nearest \<longrightarrow> - (1 / 10 ^ s) * (old * den) \<le> 2 * (sum_list nums * new - tot * (old * den))
                 \<and> 2 * (sum_list nums * new - tot * (old * den)) < 1 / 10 ^ s * (old * den)))
    \<and> length counts = length parcels
    \<and> (\<Sum>i < length parcels. pc_after (counts ! i) - pc_in_lieu (counts ! i)) = tot
    \<and> (\<forall>i < length parcels. pc_after (counts ! i) \<noteq> 0 \<and> pc_trade_id (counts ! i) = pb_trade_id (parcels ! i)
         \<and> \<bar>pc_after (counts ! i) - pc_in_lieu (counts ! i)
              - (case received of Some r \<Rightarrow> nums ! i * r / sum_list nums | None \<Rightarrow> nums ! i * new / (old * den))\<bar> \<le> 1 / 10 ^ s)"
proof -
  have den: "0 < den" using decimal_laws.exact_units_den [OF D, of parcels] assms(6,7) by simp
  have "rounded_total D (sum_list nums) new (old * den) s rule = Inr tot \<Longrightarrow>
      \<bar>tot * (old * den) - sum_list nums * new\<bar> < 1 / 10 ^ s * (old * den)
            \<and> (rule \<in> {Down, CashInLieu} \<longrightarrow> tot * (old * den) \<le> sum_list nums * new)
            \<and> (rule = Up \<longrightarrow> sum_list nums * new \<le> tot * (old * den))
            \<and> (rule = Nearest \<longrightarrow> - (1 / 10 ^ s) * (old * den) \<le> 2 * (sum_list nums * new - tot * (old * den))
                 \<and> 2 * (sum_list nums * new - tot * (old * den)) < 1 / 10 ^ s * (old * den))" for tot
    using decimal_laws.rounded_total_val [OF D, of "sum_list nums" new "old * den" s rule tot] den assms(4)
    by (simp add: abs_less_iff algebra_simps)
  moreover have "0 < fr_den f" if "p \<in> set parcels" "pb_exact p = Some f" for p f using assms(6) that by blast
  note decimal_laws.round_holding_val [OF D assms(2-5) this assms(7,8)]
  ultimately show ?thesis by (cases received) fastforce+
qed

definition two_parcels :: "rat parcel_before list" where
  "two_parcels =
     [\<lparr>pb_trade_id = 1, pb_acquired = 10, pb_units = 3, pb_exact = None, pb_prior = None\<rparr>,
      \<lparr>pb_trade_id = 2, pb_acquired = 20, pb_units = 5, pb_exact = None, pb_prior = None\<rparr>]"

lemmas rounding_eval = ref_checked_def decimal_max_def ref_round_def floor_eq_iff overflow_def

lemma ref_floor_0:
  assumes "ref_round ToZero 0 (num / den) = f" and "0 \<le> f" and "0 < den" and "f * den \<le> num"
    and "num < (f + 1) * den" and "(f + 1) * den \<le> decimal_max" and "num / den \<le> decimal_max" and "f + 1 \<le> decimal_max"
    and "num \<le> decimal_max"
  shows "floor_on_grid ref_dec num den 0 = Some (f, num - f * den)"
proof -
  have nn: "0 \<le> f * den" "0 \<le> (f + 1) * den" using assms(2,3) by simp_all
  have num: "0 \<le> num" using nn(1) assms(4) by (rule order_trans)
  have "num - f * den \<le> decimal_max" "0 \<le> num - f * den" using assms(4,9) nn by linarith+
  then have rest: "\<bar>num - f * den\<bar> \<le> decimal_max" by simp
  have m: "ref_checked (*) f den = Some (f * den)" "ref_checked (*) (f + 1) den = Some ((f + 1) * den)"
    "ref_checked (+) f 1 = Some (f + 1)" "ref_checked (/) num den = Some (num / den)"
    using assms nn num by (simp_all add: ref_checked_def algebra_simps)
  have "ref_checked (-) num (f * den) = Some (num - f * den)" using rest by (simp add: ref_checked_def)
  note m = m this
  have "floor_down ref_dec num den 1 f = Some f" using assms(4) by (subst floor_down.simps) (simp add: m)
  moreover have "floor_up ref_dec num den 1 f = Some f" using assms(5) by (subst floor_up.simps) (simp add: m)
  ultimately show ?thesis using assms(1,3) by (simp add: floor_on_grid_def Let_def m)
qed

lemma two_parcels_floors:
  "floor_on_grid ref_dec 9 2 0 = Some (4, 1)" "floor_on_grid ref_dec 15 2 0 = Some (7, 1)"
  "floor_on_grid ref_dec 24 2 0 = Some (12, 0)"
  using ref_floor_0 [of 9 2 4] ref_floor_0 [of 15 2 7] ref_floor_0 [of 24 2 12]
  by (simp_all add: ref_round_def floor_eq_iff decimal_max_def)

lemma two_parcels_units: "exact_units ref_dec two_parcels = ([3, 5], 1)"
proof -
  have "dec_euclid ref_dec 1 1 = Some 1" using ref.dec_euclid_int [of 1 1] by simp
  then have "dlcm ref_dec 1 1 = Some 1" by (simp add: dlcm_def rounding_eval)
  then show ?thesis
    by (simp add: exact_units_def two_parcels_def over_common_denominator_def rounding_eval)
qed

lemma two_parcels_distribute:
  "distribute ref_dec two_parcels [3, 5] 12 (3, 2) 0 None = Inr
    [\<lparr>pc_trade_id = 1, pc_before = 3, pc_after = 5, pc_in_lieu = 0\<rparr>,
     \<lparr>pc_trade_id = 2, pc_before = 5, pc_after = 7, pc_in_lieu = 0\<rparr>]"
proof -
  let ?sh = "[(4, 1), (7, 1)] :: (rat \<times> rat) list"
  have shares: "shares_of ref_dec [3, 5] 3 2 0 = Inr ?sh"
    by (simp add: shares_of_def two_parcels_floors rounding_eval)
  have kept: "try_map (\<lambda>(p, share). kept_count ref_dec 0 p share) (zip two_parcels ?sh) = Inr [None, None]"
    by (simp add: two_parcels_def kept_count_def rounding_eval)
  have rel: "release_order two_parcels [None, None] = []"
    by (simp add: release_order_def two_parcels_def sort_desc_def)
  have settled: "settle ref_dec 1 two_parcels ?sh 12 [None, None] [] = Inr (12, [None, None])"
    by (simp add: settle.simps kept_sum_def free_range_def free_indices_def emptied_def rounding_eval)
  have order: "extra_order two_parcels ?sh = [0, 1]"
    by (simp add: extra_order_def two_parcels_def sort_desc_def emptied_def)
  show ?thesis
    unfolding distribute_def Let_def fst_conv snd_conv shares kept rel order
    by (simp add: kept rel settled order)
      (simp add: initial_counts_def two_parcels_def free_indices_def add_steps_def add_in_lieu_def rounding_eval)
qed

lemma two_parcels_rounded: "round_holding ref_dec two_parcels 3 2 0 Down None = Inr
    [\<lparr>pc_trade_id = 1, pc_before = 3, pc_after = 5, pc_in_lieu = 0\<rparr>,
     \<lparr>pc_trade_id = 2, pc_before = 5, pc_after = 7, pc_in_lieu = 0\<rparr>]"
proof -
  have "opt_foldl (checked_add ref_dec) 0 (map pb_units two_parcels) = Some 8" "two_parcels \<noteq> []"
    by (simp_all add: two_parcels_def rounding_eval)
  moreover have "rounded_total ref_dec 8 3 2 0 Down = Inr 12"
    by (simp add: rounded_total_def two_parcels_floors rounding_eval)
  moreover have "opt_foldl (checked_add ref_dec) 0 [3, 5] = Some 8" "checked_mul ref_dec 2 1 = Some 2"
    by (simp_all add: rounding_eval)
  ultimately show ?thesis
    using two_parcels_distribute
    by (simp add: round_holding_def two_parcels_units in_lieu_fraction_def overflow_def)
qed

theorem round_holding_exact_witness:
  "\<exists>counts tot. round_holding ref_dec two_parcels 3 2 0 Down None = Inr counts
     \<and> tot * 2 \<le> 24 \<and> (\<Sum>i < 2. pc_after (counts ! i) - pc_in_lieu (counts ! i)) = tot"
proof -
  have ok: "\<forall>p \<in> set two_parcels. \<forall>f. pb_exact p = Some f \<longrightarrow> 0 < fr_den f" and len: "length two_parcels = 2"
    by (simp_all add: two_parcels_def)
  have "\<exists>tot. tot * (2 * 1) \<le> sum_list [3, 5] * (3 :: rat) \<and>
    (\<Sum>i < 2. pc_after ([\<lparr>pc_trade_id = 1, pc_before = 3, pc_after = 5, pc_in_lieu = 0\<rparr>,
       \<lparr>pc_trade_id = 2, pc_before = 5, pc_after = 7, pc_in_lieu = 0\<rparr>] ! i)
     - pc_in_lieu ([\<lparr>pc_trade_id = 1, pc_before = 3, pc_after = 5, pc_in_lieu = 0\<rparr>,
       \<lparr>pc_trade_id = 2, pc_before = 5, pc_after = 7, pc_in_lieu = 0\<rparr>] ! i)) = tot"
    by (rule exE [OF round_holding_exact [OF ref.decimal_laws_axioms two_parcels_rounded _ _ _ ok two_parcels_units]])
      (simp_all only: len option.case insert_iff simp_thms, simp_all)
  with two_parcels_rounded show ?thesis by simp
qed

end
