(* ===== verification/TaxCalendar.thy ===== *)
theory TaxCalendar
  imports DecimalOps
begin

text \<open>
  \<open>src/src/domain/tax_year.rs\<close>, \<open>cgt_discount.rs\<close>, \<open>franking_credit.rs\<close> and
  \<open>src/src/infra/date.rs\<close>: the financial year a date falls in, the twelve-month rule of the
  CGT discount, and the ceiling a recorded franking credit is checked against.
\<close>

section \<open>Financial years\<close>

definition tax_year_for :: "chrono_api \<Rightarrow> date \<Rightarrow> int" where
  "tax_year_for C d = (if 7 \<le> month_of C d then year_of C d + 1 else year_of C d)"

definition fy_start :: "chrono_api \<Rightarrow> date \<Rightarrow> date" where
  "fy_start C d = from_ymd C (tax_year_for C d - 1) 7 1"

definition amit_in_tax_year :: "chrono_api \<Rightarrow> bool \<Rightarrow> date option \<Rightarrow> int \<Rightarrow> bool" where
  "amit_in_tax_year C amit amit_from tax_year \<longleftrightarrow>
     amit \<and> (case amit_from of None \<Rightarrow> True | Some from \<Rightarrow> tax_year_for C from \<le> tax_year)"

text \<open>An absent bound of a ledger query is the last day of year 9999.\<close>

definition open_ended_cutoff :: "chrono_api \<Rightarrow> date" where
  "open_ended_cutoff C = from_ymd C 9999 12 31"

definition as_of_or_open :: "chrono_api \<Rightarrow> date option \<Rightarrow> date" where
  "as_of_or_open C as_of = (case as_of of None \<Rightarrow> open_ended_cutoff C | Some d \<Rightarrow> d)"

definition as_of_or_today :: "date \<Rightarrow> date option \<Rightarrow> date" where
  "as_of_or_today today as_of = (case as_of of None \<Rightarrow> today | Some d \<Rightarrow> d)"

section \<open>The CGT discount\<close>

definition discount_eligible :: "chrono_api \<Rightarrow> date \<Rightarrow> date \<Rightarrow> bool" where
  "discount_eligible C acquired event_date \<longleftrightarrow> acquired < sub_months C event_date 12"

section \<open>The franking credit ceiling\<close>

definition thirty_percent_rate_from :: "chrono_api \<Rightarrow> date" where
  "thirty_percent_rate_from C = from_ymd C 2001 7 1"

definition tolerance :: "'d::{times,linorder} decimal_api \<Rightarrow> 'd \<Rightarrow> 'd" where
  "tolerance D maximum = max (maximum * dnew D 5 3) (dnew D 1 2)"

definition maximum_franking_credit :: "'d::{one,times,inverse} decimal_api \<Rightarrow> 'd \<Rightarrow> 'd" where
  "maximum_franking_credit D franked_amount =
     round_with D MidpointAwayFromZero 2 (mul_div D [franked_amount, dnew D 30 0] (dnew D 70 0))"

definition credit_ceiling ::
    "'d::{one,plus,times,inverse,linorder} decimal_api \<Rightarrow> chrono_api \<Rightarrow> 'd \<Rightarrow> date \<Rightarrow> 'd option" where
  "credit_ceiling D C franked_amount paid_on =
     (if thirty_percent_rate_from C \<le> paid_on
      then (let maximum = maximum_franking_credit D franked_amount
            in Some (round_with D MidpointAwayFromZero 2 (maximum + tolerance D maximum)))
      else None)"

definition credit_above_ceiling ::
    "'d::{one,plus,times,inverse,linorder} decimal_api \<Rightarrow> chrono_api \<Rightarrow> 'd \<Rightarrow> 'd \<Rightarrow> date \<Rightarrow>
     'd option" where
  "credit_above_ceiling D C franked_amount franking_credits paid_on =
     (case credit_ceiling D C franked_amount paid_on of
        Some limit \<Rightarrow> if limit < franking_credits then Some limit else None
      | None \<Rightarrow> None)"

section \<open>Lemmas\<close>

context calendar_laws
begin

lemma fy_start_le: "from_ymd C (t - 1) 7 1 \<le> d \<longleftrightarrow> t \<le> tax_year_for C d"
  using month_start [of 7 "t - 1" d] by (auto simp: tax_year_for_def)

lemma fy_start_bounds: "fy_start C d \<le> d \<and> d < from_ymd C (tax_year_for C d) 7 1"
  using fy_start_le [of "tax_year_for C d" d] fy_start_le [of "tax_year_for C d + 1" d]
  by (simp add: fy_start_def)

lemma tax_year_mono: "d \<le> e \<Longrightarrow> tax_year_for C d \<le> tax_year_for C e"
  using fy_start_le [of "tax_year_for C d" d] fy_start_le [of "tax_year_for C d" e] by auto

lemma fy_start_mono: "d \<le> e \<Longrightarrow> fy_start C d \<le> fy_start C e"
proof -
  assume "d \<le> e"
  have "tax_year_for C (fy_start C e) = tax_year_for C e"
  proof (rule antisym)
    show "tax_year_for C (fy_start C e) \<le> tax_year_for C e"
      using tax_year_mono fy_start_bounds by blast
    show "tax_year_for C e \<le> tax_year_for C (fy_start C e)"
      using fy_start_le [of "tax_year_for C e" "fy_start C e"] by (simp add: fy_start_def)
  qed
  then show ?thesis
    using fy_start_le [of "tax_year_for C d" "fy_start C e"] tax_year_mono [OF \<open>d \<le> e\<close>]
    by (simp add: fy_start_def)
qed

lemma tax_year_iff: "tax_year_for C d = t \<longleftrightarrow> from_ymd C (t - 1) 7 1 \<le> d \<and> d < from_ymd C t 7 1"
  using fy_start_le [of t d] fy_start_le [of "t + 1" d] by auto

lemma discount_bounds:
  "(discount_eligible C a e \<longrightarrow> a + 366 \<le> e) \<and> (a + 367 \<le> e \<longrightarrow> discount_eligible C a e)"
  using sub_year [of e] by (auto simp: discount_eligible_def)

lemma discount_mono:
  "discount_eligible C a e \<Longrightarrow> a' \<le> a \<Longrightarrow> e \<le> e' \<Longrightarrow> discount_eligible C a' e'"
  using sub_year_mono [of e e'] by (auto simp: discount_eligible_def)

end

context decimal_laws
begin

lemma maximum_credit_val: "on_grid 2 (maximum_franking_credit D f)"
  by (simp add: maximum_franking_credit_def round_grid)

lemma tolerance_cent: "1 / 100 \<le> tolerance D m"
  by (simp add: tolerance_def dnew_eq le_max_iff_disj)

lemma credit_ceiling_cent:
  assumes "credit_ceiling D C f paid = Some c"
  shows "maximum_franking_credit D f + 1 / 100 \<le> c"
proof -
  let ?m = "maximum_franking_credit D f"
  have "on_grid 2 (?m + 1 / 100)"
    by (rule on_grid_add [OF maximum_credit_val]) (auto simp: on_grid_def intro: exI [of _ 1])
  then have "?m + 1 / 100 = round_with D MidpointAwayFromZero 2 (?m + 1 / 100)"
    by (simp add: round_fix)
  also have "\<dots> \<le> round_with D MidpointAwayFromZero 2 (?m + tolerance D ?m)"
    using tolerance_cent [of ?m] by (intro round_mono) simp
  also have "\<dots> = c"
    using assms by (simp add: credit_ceiling_def Let_def split: if_splits)
  finally show ?thesis .
qed

end

section \<open>The discount rule by counting days\<close>

text \<open>
  The specification of the rule: the first day owned is the day after acquisition, and the
  asset has been owned twelve months on its anniversary, which is 1 March where the year
  after has no 29 February.
\<close>

definition greg_day :: "date \<Rightarrow> int" where
  "greg_day d = d - year_start (greg_year d) - month_offset (greg_year d) (greg_month d)"

definition anniversary :: "date \<Rightarrow> date" where
  "anniversary d =
     (if greg_month d = 2 \<and> greg_day d = 29 then greg_ymd (greg_year d + 1) 3 1
      else greg_ymd (greg_year d + 1) (greg_month d) (greg_day d))"

definition month_len :: "int \<Rightarrow> int \<Rightarrow> int" where
  "month_len y m = month_offset y (m + 1) - month_offset y m"

lemma greg_day_bounds: "1 \<le> greg_day d \<and> greg_day d \<le> month_len (greg_year d) (greg_month d)"
  using greg_month_bounds [of d] by (simp add: greg_day_def month_len_def)

lemma greg_ymd_self: "greg_ymd (greg_year d) (greg_month d) (greg_day d) = d"
  by (simp add: greg_ymd_def greg_day_def)

lemma greg_fields:
  assumes m: "1 \<le> m" "m \<le> 12" and k: "1 \<le> k" "k \<le> month_len y m"
  shows "greg_year (greg_ymd y m k) = y" and "greg_month (greg_ymd y m k) = m"
    and "greg_day (greg_ymd y m k) = k"
proof -
  have "month_offset y m + month_len y m \<le> month_offset y 13"
    using month_offset_mono [of "m + 1" 13 y] m by (simp add: month_len_def)
  then have "year_start y < greg_ymd y m k" and "greg_ymd y m k \<le> year_start (y + 1)"
    using k m month_offset_mono [of 1 m y] month_offset_year [of y]
    by (simp_all add: greg_ymd_def month_offset_def [of y 1])
  then show y: "greg_year (greg_ymd y m k) = y" by (rule greg_year_unique)
  show "greg_month (greg_ymd y m k) = m"
    by (rule greg_month_eq [OF m y [symmetric]])
      (use k in \<open>simp_all add: greg_ymd_def month_len_def\<close>)
  with y show "greg_day (greg_ymd y m k) = k" by (simp add: greg_day_def greg_ymd_def)
qed

text \<open>A valid civil date is at or before a day exactly when its fields are, in order.\<close>

lemma greg_ymd_le:
  assumes m: "1 \<le> m" "m \<le> 12" and k: "1 \<le> k" "k \<le> month_len y m"
  shows "greg_ymd y m k \<le> d \<longleftrightarrow> y < greg_year d \<or> y = greg_year d \<and>
    (m < greg_month d \<or> m = greg_month d \<and> k \<le> greg_day d)"
proof (cases "y = greg_year d \<and> m = greg_month d")
  case True
  then show ?thesis by (simp add: greg_ymd_def greg_day_def algebra_simps)
next
  case False
  define e where "e = greg_ymd y m k"
  have ms: "greg_ymd y m 1 \<le> e" using k(1) by (simp add: e_def greg_ymd_def)
  have ey: "greg_year e = y" and em: "greg_month e = m" using greg_fields [OF m k] by (simp_all add: e_def)
  show ?thesis
  proof (cases "greg_ymd y m 1 \<le> d")
    case True
    then have lt: "y < greg_year d \<or> y = greg_year d \<and> m < greg_month d"
      using False greg_month_start [OF m] by auto
    have "e \<le> d"
    proof (rule ccontr)
      assume "\<not> e \<le> d"
      have md: "1 \<le> greg_month d" "greg_month d \<le> 12" using greg_month_range by auto
      have "greg_ymd (greg_year d) (greg_month d) 1 \<le> d"
        using greg_month_start [OF md, of "greg_year d" d] by blast
      then have "greg_ymd (greg_year d) (greg_month d) 1 \<le> e" using \<open>\<not> e \<le> d\<close> by linarith
      then show False using greg_month_start [OF md, of "greg_year d" e] ey em lt by linarith
    qed
    then show ?thesis using lt unfolding e_def by blast
  next
    case False
    then have "\<not> e \<le> d" using ms by simp
    with False greg_month_start [OF m, of y d] show ?thesis by (auto simp: e_def)
  qed
qed

lemma month_len_range: "1 \<le> m \<Longrightarrow> m \<le> 12 \<Longrightarrow> 28 \<le> month_len y m"
  using month_offset_step [of m y] by (simp add: month_len_def)

lemma month_len_2: "month_len y 2 = (if leap y then 29 else 28)"
  by (simp add: month_len_def month_offset_def)

lemma month_len_const:
  assumes "1 \<le> m" and "m \<le> 12" and "m \<noteq> 2"
  shows "month_len y m = month_len z m"
  using month_cases [OF assms(1,2)] assms(3)
  by (elim insertE emptyE) (simp_all add: month_len_def month_offset_def)

lemma leap_next: "leap y \<Longrightarrow> \<not> leap (y + 1)"
  unfolding leap_def by presburger

lemma sub_year_fields:
  "greg_sub_months d 12 = greg_ymd (greg_year d - 1) (greg_month d)
     (min (greg_day d) (month_len (greg_year d - 1) (greg_month d)))"
proof -
  define y m where "y = greg_year d" and "m = greg_month d"
  have m: "1 \<le> m" "m \<le> 12" using greg_month_range by (auto simp: m_def)
  have t: "y * 12 + (m - 1) - int 12 = 12 * (y - 1) + (m - 1)" by simp
  have "(y * 12 + (m - 1) - int 12) div 12 = y - 1"
    unfolding t by (rule int_div_pos_eq [OF refl]) (use m in simp_all)
  moreover have "(y * 12 + (m - 1) - int 12) mod 12 = m - 1"
    unfolding t by (rule int_mod_pos_eq [OF refl]) (use m in simp_all)
  ultimately show ?thesis
    by (simp add: greg_sub_months_def greg_day_def month_len_def Let_def y_def m_def add.commute)
qed

lemma anniversary_galois: "anniversary f \<le> e \<longleftrightarrow> f \<le> greg_sub_months e 12"
proof -
  define y m k where "y = greg_year f" and "m = greg_month f" and "k = greg_day f"
  define z n l where "z = greg_year e" and "n = greg_month e" and "l = greg_day e"
  have m: "1 \<le> m" "m \<le> 12" and n: "1 \<le> n" "n \<le> 12"
    using greg_month_range by (auto simp: m_def n_def)
  have k: "1 \<le> k" "k \<le> month_len y m" and l: "1 \<le> l" "l \<le> month_len z n"
    using greg_day_bounds by (auto simp: y_def m_def k_def z_def n_def l_def)
  have len: "1 \<le> month_len (z - 1) n" using month_len_range [OF n, of "z - 1"] by simp
  have cap: "month_len (z - 1) n = month_len y m" if "n = m" "z - 1 = y" using that by simp
  have fields: "f \<le> greg_sub_months e 12 \<longleftrightarrow> y < z - 1 \<or> y = z - 1 \<and> (m < n \<or> m = n \<and> k \<le> l)"
    using greg_ymd_le [OF m k, of "greg_sub_months e 12"] greg_ymd_self [of f] k
      greg_fields [OF n, of "min l (month_len (z - 1) n)" "z - 1"] l len cap
    by (auto simp: sub_year_fields [of e] y_def m_def k_def z_def n_def l_def)
  show ?thesis
  proof (cases "m = 2 \<and> k = 29")
    case True
    then have "leap y" using k month_len_2 [of y] by (cases "leap y") simp_all
    then have "month_len (y + 1) 2 = 28" by (simp add: month_len_2 leap_next)
    then have "l < 29" if "z = y + 1" "n = 2" using that l by simp
    moreover have "anniversary f \<le> e \<longleftrightarrow> y + 1 < z \<or> y + 1 = z \<and> 3 \<le> n"
      using greg_month_start [of 3 "y + 1" e] True
      by (auto simp: anniversary_def y_def m_def k_def z_def n_def)
    ultimately show ?thesis unfolding fields using True by auto
  next
    case False
    have "k \<le> month_len (y + 1) m"
    proof (cases "m = 2")
      case True
      then show ?thesis using False k month_len_2 [of y] month_len_2 [of "y + 1"]
        by (cases "leap y"; cases "leap (y + 1)"; simp)
    next
      case False
      then show ?thesis using k month_len_const [OF m False, of y "y + 1"] by simp
    qed
    then have "anniversary f \<le> e \<longleftrightarrow> y + 1 < z \<or> y + 1 = z \<and> (m < n \<or> m = n \<and> k \<le> l)"
      using greg_ymd_le [OF m k(1), of "y + 1" e] False
      by (auto simp: anniversary_def y_def m_def k_def z_def n_def l_def)
    then show ?thesis unfolding fields by auto
  qed
qed

section \<open>Properties\<close>

text \<open>Every date lies in exactly the financial year named for it: the year is t precisely
  when the date is on or after 1 July of t - 1 and before 1 July of t; its start is on or before
  it, and both are monotone in the date.\<close>

theorem tax_year_partition:
  assumes C: "calendar_laws C"
  shows "(tax_year_for C d = t \<longleftrightarrow> from_ymd C (t - 1) 7 1 \<le> d \<and> d < from_ymd C t 7 1)
       \<and> fy_start C d \<le> d
       \<and> (d \<le> e \<longrightarrow> tax_year_for C d \<le> tax_year_for C e \<and> fy_start C d \<le> fy_start C e)"
  using calendar_laws.tax_year_iff [OF C, of d t] calendar_laws.fy_start_bounds [OF C, of d]
    calendar_laws.tax_year_mono [OF C, of d e] calendar_laws.fy_start_mono [OF C, of d e] by blast

theorem tax_year_partition_witness: "tax_year_for gregorian 739068 = 2025"
proof -
  have "greg_ymd 2024 7 1 = 739068" "greg_ymd 2025 7 1 = 739433" by code_simp+
  then show ?thesis
    using tax_year_partition [OF greg.calendar_laws_axioms, of 739068 2025 739068] by simp
qed

text \<open>The discount rule, which compares the event date less twelve clamped calendar months
  with the acquisition date, is the rule of section 115-25 counted in days: the asset has been
  owned from the day after acquisition to that day's anniversary, a 29 February's anniversary
  being 1 March.\<close>

theorem discount_counts_owned_days:
  "discount_eligible gregorian acquired event \<longleftrightarrow> anniversary (acquired + 1) \<le> event"
  using anniversary_galois [of "acquired + 1" event] by (auto simp: discount_eligible_def)



end
