(* ===== verification/Fx.thy ===== *)
theory Fx
  imports TaxCalendar
begin

text \<open>
  \<open>src/src/infra/fx.rs\<close> and \<open>currency.rs\<close>: the monthly ATO rates, the order in which a
  trade's own rates and the published rate are consulted, and the older month a valuation may
  fall back to. The rate table is the \<open>HashMap\<close> of \<open>FxRates\<close>.
\<close>

section \<open>Currency codes\<close>

type_synonym currency_code = string

definition ascii_upper :: "char \<Rightarrow> char" where
  "ascii_upper c =
     (let n = (of_char c :: nat) in if 97 \<le> n \<and> n \<le> 122 then char_of (n - 32) else c)"

definition is_aud :: "currency_code \<Rightarrow> bool" where
  "is_aud c \<longleftrightarrow> map ascii_upper c = ''AUD''"

section \<open>Months\<close>

record rate_month =
  rm_year :: int
  rm_month :: int

definition rate_month_of :: "chrono_api \<Rightarrow> date \<Rightarrow> rate_month" where
  "rate_month_of C d = \<lparr>rm_year = year_of C d, rm_month = month_of C d\<rparr>"

definition rate_month_previous :: "rate_month \<Rightarrow> rate_month" where
  "rate_month_previous m =
     (if rm_month m = 1 then \<lparr>rm_year = rm_year m - 1, rm_month = 12\<rparr>
      else \<lparr>rm_year = rm_year m, rm_month = rm_month m - 1\<rparr>)"

text \<open>
  \<open>FromStr\<close>: four and two characters around the first dash, each read as Rust reads an
  integer, a leading plus included. The year text holds no dash, so no minus can reach it.
\<close>

definition digit_of :: "char \<Rightarrow> int option" where
  "digit_of c = (let n = (of_char c :: int) in if 48 \<le> n \<and> n \<le> 57 then Some (n - 48) else None)"

definition parse_int :: "string \<Rightarrow> int option" where
  "parse_int s =
     (let ds = (if s \<noteq> [] \<and> hd s = CHR ''+'' then tl s else s)
      in if ds = [] then None
         else map_option (foldl (\<lambda>n d. 10 * n + d) 0) (opt_map digit_of ds))"

fun split_once :: "char \<Rightarrow> string \<Rightarrow> (string \<times> string) option" where
  "split_once sep [] = None"
| "split_once sep (c # cs) =
     (if c = sep then Some ([], cs)
      else (case split_once sep cs of None \<Rightarrow> None | Some (a, b) \<Rightarrow> Some (c # a, b)))"

datatype not_a_rate_month = NotARateMonth string

definition parse_rate_month :: "string \<Rightarrow> not_a_rate_month + rate_month" where
  "parse_rate_month s =
     ok_or (NotARateMonth s)
       (case split_once (CHR ''-'') s of
          None \<Rightarrow> None
        | Some (y, m) \<Rightarrow>
            if length y \<noteq> 4 \<or> length m \<noteq> 2 then None
            else (case parse_int y of None \<Rightarrow> None | Some y' \<Rightarrow>
                 (case parse_int m of None \<Rightarrow> None | Some m' \<Rightarrow>
                    if 1 \<le> m' \<and> m' \<le> 12 then Some \<lparr>rm_year = y', rm_month = m'\<rparr> else None)))"

text \<open>\<open>Display\<close>: the year in at least four digits and the month in two.\<close>

definition show_digit :: "nat \<Rightarrow> char" where
  "show_digit n = char_of (48 + n)"

definition show_rate_month :: "rate_month \<Rightarrow> string" where
  "show_rate_month m =
     (let y = nat (rm_year m); k = nat (rm_month m)
      in [show_digit (y div 1000), show_digit (y div 100 mod 10), show_digit (y div 10 mod 10),
          show_digit (y mod 10), CHR ''-'', show_digit (k div 10), show_digit (k mod 10)])"

section \<open>Rates\<close>

datatype 'd fx_override = FxNone | FxFallback 'd | FxSpot 'd

datatype fx_error = MissingRate currency_code rate_month

definition fx_override_from_trade :: "'d \<Rightarrow> 'd option \<Rightarrow> 'd fx_override" where
  "fx_override_from_trade fx_rate spot =
     (case spot of Some s \<Rightarrow> FxSpot s | None \<Rightarrow> FxFallback fx_rate)"

definition pick_rate ::
    "'d option \<Rightarrow> currency_code \<Rightarrow> rate_month \<Rightarrow> 'd fx_override \<Rightarrow> fx_error + 'd" where
  "pick_rate ato_rate currency month manual =
     (case manual of
        FxSpot rate \<Rightarrow> Inr rate
      | _ \<Rightarrow> (case ato_rate of
          Some rate \<Rightarrow> Inr rate
        | None \<Rightarrow> (case manual of
            FxFallback rate \<Rightarrow> Inr rate
          | _ \<Rightarrow> Inl (MissingRate currency month))))"

definition apply_rate :: "'d::{one,inverse} \<Rightarrow> 'd \<Rightarrow> 'd" where
  "apply_rate amount rate = (if rate = 1 then amount else amount / rate)"

type_synonym 'd fx_rates = "currency_code \<times> rate_month \<Rightarrow> 'd option"

definition load_rates :: "(currency_code \<times> rate_month \<times> 'd) list \<Rightarrow> 'd fx_rates" where
  "load_rates rows = foldl (\<lambda>rates (c, m, r). rates((c, m) \<mapsto> r)) (\<lambda>_. None) rows"

definition resolve_rate ::
    "chrono_api \<Rightarrow> 'd::one fx_rates \<Rightarrow> currency_code \<Rightarrow> date \<Rightarrow> 'd fx_override \<Rightarrow> fx_error + 'd" where
  "resolve_rate C rates currency d manual =
     (if is_aud currency then Inr 1
      else (let month = rate_month_of C d
            in pick_rate (rates (currency, month)) currency month manual))"

definition fx_to_aud ::
    "chrono_api \<Rightarrow> 'd::{one,inverse} fx_rates \<Rightarrow> 'd \<Rightarrow> currency_code \<Rightarrow> date \<Rightarrow> 'd fx_override \<Rightarrow>
     fx_error + 'd" where
  "fx_to_aud C rates amount currency d manual =
     map_result (apply_rate amount) (resolve_rate C rates currency d manual)"

record 'd valuation_rate =
  vr_rate :: 'd
  vr_provisional :: bool

definition valuation_months :: "chrono_api \<Rightarrow> date \<Rightarrow> rate_month list" where
  "valuation_months C d =
     (let m = rate_month_of C d
      in [m, rate_month_previous m, rate_month_previous (rate_month_previous m)])"

fun first_rate :: "'d fx_rates \<Rightarrow> currency_code \<Rightarrow> nat \<Rightarrow> rate_month list \<Rightarrow> 'd valuation_rate option"
  where
  "first_rate rates currency i [] = None"
| "first_rate rates currency i (m # ms) =
     (case rates (currency, m) of
        Some rate \<Rightarrow> Some \<lparr>vr_rate = rate, vr_provisional = 0 < i\<rparr>
      | None \<Rightarrow> first_rate rates currency (Suc i) ms)"

definition resolve_valuation_rate ::
    "chrono_api \<Rightarrow> 'd::one fx_rates \<Rightarrow> currency_code \<Rightarrow> date \<Rightarrow> fx_error + 'd valuation_rate" where
  "resolve_valuation_rate C rates currency d =
     (if is_aud currency then Inr \<lparr>vr_rate = 1, vr_provisional = False\<rparr>
      else (case first_rate rates currency 0 (valuation_months C d) of
          Some r \<Rightarrow> Inr r
        | None \<Rightarrow> Inl (MissingRate currency (rate_month_of C d))))"

definition rate_for :: "'d::one fx_rates \<Rightarrow> currency_code \<Rightarrow> rate_month \<Rightarrow> 'd option" where
  "rate_for rates currency month = (if is_aud currency then Some 1 else rates (currency, month))"

section \<open>Lemmas\<close>

lemma apply_rate_val: "apply_rate a r = (a / r :: 'd::linordered_field)"
  by (simp add: apply_rate_def)

lemma pick_rate_order:
  "pick_rate ato c m manual = Inr r \<longleftrightarrow>
     manual = FxSpot r \<or> (\<forall>s. manual \<noteq> FxSpot s) \<and> (ato = Some r \<or> ato = None \<and> manual = FxFallback r)"
  by (cases manual; cases ato) (auto simp: pick_rate_def)

text \<open>The months a valuation tries count back from the date's own, across the year end.\<close>

definition month_index :: "rate_month \<Rightarrow> int" where
  "month_index m = 12 * rm_year m + rm_month m"

lemma month_index_previous: "month_index (rate_month_previous m) = month_index m - 1"
  by (simp add: month_index_def rate_month_previous_def)

lemma show_digit_cases:
  "list_all (\<lambda>n. digit_of (show_digit n) = Some (int n) \<and> show_digit n \<noteq> CHR ''-''
     \<and> show_digit n \<noteq> CHR ''+'') [0, 1, 2, 3, 4, 5, 6, 7, 8, 9]"
  by code_simp

lemma show_digit_parse:
  assumes "n < 10"
  shows "digit_of (show_digit n) = Some (int n)" "show_digit n \<noteq> CHR ''-''"
    "show_digit n \<noteq> CHR ''+''"
proof -
  have "n \<in> set [0, 1, 2, 3, 4, 5, 6, 7, 8, 9]" using assms by auto
  then show "digit_of (show_digit n) = Some (int n)" "show_digit n \<noteq> CHR ''-''"
    "show_digit n \<noteq> CHR ''+''"
    using show_digit_cases unfolding list_all_iff by blast+
qed

lemma parse_int_digits:
  assumes "n < 10" and "\<And>k. k \<in> set ns \<Longrightarrow> k < 10"
  shows "parse_int (map show_digit (n # ns)) = Some (foldl (\<lambda>a d. 10 * a + d) 0 (map int (n # ns)))"
proof -
  have "opt_map digit_of (map show_digit ks) = Some (map int ks)" if "\<And>k. k \<in> set ks \<Longrightarrow> k < 10" for ks
    using that by (induction ks) (simp_all add: show_digit_parse)
  from this [of "n # ns"] assms
  have "opt_map digit_of (map show_digit (n # ns)) = Some (map int (n # ns))" by auto
  then show ?thesis using show_digit_parse(3) [OF assms(1)] by (simp add: parse_int_def)
qed

lemma decimal_digits_4:
  fixes y :: nat
  assumes "y < 10000"
  shows "1000 * (y div 1000) + 100 * (y div 100 mod 10) + 10 * (y div 10 mod 10) + y mod 10 = y"
proof -
  have "y div 100 = y div 10 div 10" "y div 1000 = y div 10 div 10 div 10"
    by (simp_all add: div_mult2_eq [symmetric])
  moreover have "10 * (z div 10) + z mod 10 = z" for z :: nat by simp
  from this [of y] this [of "y div 10"] this [of "y div 10 div 10"]
  show ?thesis unfolding calculation by linarith
qed

lemma split_once_show:
  "list_all (\<lambda>c. c \<noteq> sep) xs \<Longrightarrow> split_once sep (xs @ sep # ys) = Some (xs, ys)"
  by (induction xs) auto

lemma first_rate_Some:
  assumes "first_rate rates c i ms = Some r"
  shows "\<exists>j < length ms. rates (c, ms ! j) = Some (vr_rate r)
    \<and> (\<forall>k < j. rates (c, ms ! k) = None) \<and> vr_provisional r = (0 < i + j)"
  using assms
proof (induction ms arbitrary: i)
  case (Cons m ms)
  show ?case
  proof (cases "rates (c, m)")
    case None
    then have "first_rate rates c (Suc i) ms = Some r" using Cons.prems by simp
    from Cons.IH [OF this] obtain j where "j < length ms" "rates (c, ms ! j) = Some (vr_rate r)"
      "\<forall>k < j. rates (c, ms ! k) = None" "vr_provisional r = (0 < Suc i + j)" by blast
    with None show ?thesis by (intro exI [of _ "Suc j"]) (auto simp: less_Suc_eq_0_disj)
  next
    case (Some x)
    then show ?thesis using Cons.prems by (intro exI [of _ 0]) auto
  qed
qed simp

section \<open>Properties\<close>

text \<open>Writing a month as YYYY-MM and parsing the text gives the month back.\<close>

theorem rate_month_roundtrip:
  assumes "0 \<le> rm_year m" and "rm_year m \<le> 9999" and "1 \<le> rm_month m" and "rm_month m \<le> 12"
  shows "parse_rate_month (show_rate_month m) = Inr m"
proof -
  define y k where "y = nat (rm_year m)" and "k = nat (rm_month m)"
  have yk: "y < 10000" "k < 13" "int y = rm_year m" "int k = rm_month m"
    using assms by (auto simp: y_def k_def)
  define a b c d e f where abc: "a = y div 1000" "b = y div 100 mod 10" "c = y div 10 mod 10"
    "d = y mod 10" "e = k div 10" "f = k mod 10"
  have small: "a < 10" "b < 10" "c < 10" "d < 10" "e < 10" "f < 10"
    using yk(1,2) by (simp_all add: abc less_mult_imp_div_less)
  have "1000 * a + 100 * b + 10 * c + d = y" unfolding abc by (rule decimal_digits_4 [OF yk(1)])
  have y: "10 * (10 * (10 * int a + int b) + int c) + int d = rm_year m"
    unfolding yk(3) [symmetric] by (simp flip: \<open>1000 * a + 100 * b + 10 * c + d = y\<close>)
  have "10 * e + f = k" unfolding abc by simp
  have k: "10 * int e + int f = rm_month m"
    unfolding yk(4) [symmetric] by (simp flip: \<open>10 * e + f = k\<close>)
  have "show_rate_month m = map show_digit [a, b, c, d] @ CHR ''-'' # map show_digit [e, f]"
    by (simp add: show_rate_month_def y_def [symmetric] k_def [symmetric] Let_def abc)
  moreover have "list_all (\<lambda>x. x \<noteq> CHR ''-'') (map show_digit [a, b, c, d])"
    using show_digit_parse(2) small by simp
  ultimately have "split_once (CHR ''-'') (show_rate_month m)
      = Some (map show_digit [a, b, c, d], map show_digit [e, f])"
    using split_once_show by simp
  moreover have "parse_int (map show_digit [a, b, c, d]) = Some (rm_year m)"
    by (subst parse_int_digits) (use small y in auto)
  moreover have "parse_int (map show_digit [e, f]) = Some (rm_month m)"
    by (subst parse_int_digits) (use small k in auto)
  ultimately show ?thesis using assms by (simp add: parse_rate_month_def)
qed

theorem rate_month_roundtrip_witness:
  "parse_rate_month (show_rate_month \<lparr>rm_year = 2024, rm_month = 7\<rparr>) = Inr \<lparr>rm_year = 2024, rm_month = 7\<rparr>"
  by (rule rate_month_roundtrip) simp_all

text \<open>A foreign valuation is converted at the published rate of the date's own month or,
  when that is missing, of the latest of the two months before it that has one; the rate is
  marked provisional exactly when it is an older month's.\<close>

theorem valuation_rate_is_latest:
  assumes "resolve_valuation_rate C rates c d = Inr r" and "\<not> is_aud c"
  shows "\<exists>m \<in> set (valuation_months C d). rates (c, m) = Some (vr_rate r)
    \<and> month_index (rate_month_of C d) - 2 \<le> month_index m
    \<and> (\<forall>n \<in> set (valuation_months C d). month_index m < month_index n \<longrightarrow> rates (c, n) = None)
    \<and> vr_provisional r = (month_index m < month_index (rate_month_of C d))"
proof -
  define m where "m = rate_month_of C d"
  have ms: "valuation_months C d = [m, rate_month_previous m, rate_month_previous (rate_month_previous m)]"
    by (simp add: valuation_months_def Let_def m_def)
  have "first_rate rates c 0 (valuation_months C d) = Some r"
    using assms by (simp add: resolve_valuation_rate_def split: option.splits)
  from first_rate_Some [OF this] obtain j where "j < 3" "rates (c, valuation_months C d ! j) = Some (vr_rate r)"
    "\<forall>k < j. rates (c, valuation_months C d ! k) = None" "vr_provisional r = (0 < j)"
    by (force simp: ms numeral_3_eq_3)
  note j = this
  define n o' where "n = rate_month_previous m" and "o' = rate_month_previous n"
  have ix: "month_index n = month_index m - 1" "month_index o' = month_index m - 2"
    by (simp_all add: n_def o'_def month_index_previous)
  have ms': "valuation_months C d = [m, n, o']" by (simp add: ms n_def o'_def)
  from j(1) consider "j = 0" | "j = 1" | "j = 2" by linarith
  then show ?thesis
  proof cases
    case 1
    then show ?thesis using j unfolding ms' m_def [symmetric]
      by (intro bexI [of _ m]) (simp_all add: ix)
  next
    case 2
    then have "rates (c, m) = None" using j(3) unfolding ms' by simp
    with 2 j show ?thesis unfolding ms' m_def [symmetric]
      by (intro bexI [of _ n]) (simp_all add: ix)
  next
    case 3
    have "rates (c, m) = None" "rates (c, n) = None"
      using j(3) [rule_format, of 0] j(3) [rule_format, of 1] 3 unfolding ms' by simp_all
    with 3 j show ?thesis unfolding ms' m_def [symmetric]
      by (intro bexI [of _ o']) (simp_all add: ix)
  qed
qed

theorem valuation_rate_is_latest_witness:
  "\<exists>m \<in> set (valuation_months gregorian 739068).
     (\<lambda>k. if k = (''USD'', \<lparr>rm_year = 2024, rm_month = 6\<rparr>) then Some (2 / 3 :: rat) else None) (''USD'', m)
       = Some (2 / 3)"
proof -
  let ?rates = "\<lambda>k. if k = (''USD'', \<lparr>rm_year = 2024, rm_month = 6\<rparr>) then Some (2 / 3 :: rat) else None"
  have "rate_month_of gregorian 739068 = \<lparr>rm_year = 2024, rm_month = 7\<rparr>"
    using gregorian_examples(2) by (simp add: rate_month_of_def)
  moreover have "\<not> is_aud ''USD''" by code_simp
  ultimately have "resolve_valuation_rate gregorian ?rates ''USD'' 739068
      = Inr \<lparr>vr_rate = 2 / 3, vr_provisional = True\<rparr>"
    by (simp add: resolve_valuation_rate_def valuation_months_def Let_def rate_month_previous_def)
  from valuation_rate_is_latest [OF this \<open>\<not> is_aud ''USD''\<close>] show ?thesis
    by (auto split: if_splits)
qed

end
