(* ===== verification/CostBase.thy ===== *)
theory CostBase
  imports Splits Fx "HOL-Library.Product_Lexorder"
begin

text \<open>
  \<open>src/src/domain/cost_base.rs\<close>: the cost of a parcel, the AMIT and return-of-capital
  reductions that draw it down, and the walk that floors it at nil as each lands. The rows the
  loaders read are records of the decoded columns; a query is a filter over those lists.
\<close>

section \<open>Trades\<close>

record 'd parcel =
  pa_quantity :: "'d acquired_units"
  pa_average_price :: 'd
  pa_brokerage :: 'd
  pa_gst_on_brokerage :: 'd
  pa_currency :: currency_code
  pa_trade_date :: date
  pa_settled :: date
  pa_rollover :: "rollover_origin option"

definition initial_cost :: "'d::{one,plus,times,inverse} parcel \<Rightarrow> 'd" where
  "initial_cost p =
     pa_average_price p * au_get (pa_quantity p) + pa_brokerage p + pa_gst_on_brokerage p"

record 'd parcel_row =
  pr_id :: trade_id
  pr_listing_id :: listing_id
  pr_holding_account_id :: account_id
  pr_date :: date
  pr_settlement_date :: date
  pr_quantity :: "'d acquired_units"
  pr_average_price :: 'd
  pr_brokerage :: 'd
  pr_gst_on_brokerage :: 'd
  pr_currency :: currency_code
  pr_fx_rate :: 'd
  pr_spot_fx_rate :: "'d option"
  pr_deemed_acquisition_date :: "date option"
  pr_scrip_action_id :: "action_id option"
  pr_demerger_action_id :: "action_id option"
  pr_transfer_id :: "int option"
  pr_demerger_head_listing_id :: "listing_id option"
  pr_registered_from :: "date option"

definition pr_acquired :: "'d parcel_row \<Rightarrow> date" where
  "pr_acquired p =
     (case pr_deemed_acquisition_date p of None \<Rightarrow> pr_date p | Some d \<Rightarrow> d)"

definition pr_fx_override :: "'d parcel_row \<Rightarrow> 'd fx_override" where
  "pr_fx_override p = fx_override_from_trade (pr_fx_rate p) (pr_spot_fx_rate p)"

definition registered_across_the_rollover :: "'d parcel_row \<Rightarrow> bool" where
  "registered_across_the_rollover p \<longleftrightarrow>
     pr_transfer_id p \<noteq> None \<or> pr_demerger_head_listing_id p = Some (pr_listing_id p)"

definition pr_rollover :: "'d parcel_row \<Rightarrow> rollover_origin option" where
  "pr_rollover p =
     (if pr_scrip_action_id p \<noteq> None \<or> pr_demerger_action_id p \<noteq> None \<or> pr_transfer_id p \<noteq> None
      then Some \<lparr>ro_on = pr_date p,
        ro_registered_from =
          (if registered_across_the_rollover p
           then (case pr_registered_from p of None \<Rightarrow> pr_acquired p | Some d \<Rightarrow> d)
           else pr_date p)\<rparr>
      else None)"

definition pr_parcel :: "'d parcel_row \<Rightarrow> 'd parcel" where
  "pr_parcel p =
     \<lparr>pa_quantity = pr_quantity p, pa_average_price = pr_average_price p,
      pa_brokerage = pr_brokerage p, pa_gst_on_brokerage = pr_gst_on_brokerage p,
      pa_currency = pr_currency p, pa_trade_date = pr_date p, pa_settled = pr_settlement_date p,
      pa_rollover = pr_rollover p\<rparr>"

section \<open>Refusing an unrepresentable cost\<close>

datatype 'd cost_term =
    CostProduct "string \<times> 'd" "string \<times> 'd"
  | CostAmount string 'd

datatype 'd unrepresentable_cost = UnrepresentableCost "'d cost_term list"

fun term_value :: "'d decimal_api \<Rightarrow> 'd cost_term \<Rightarrow> 'd option" where
  "term_value D (CostProduct price units) = checked_mul D (snd price) (snd units)"
| "term_value D (CostAmount _ amount) = Some amount"

definition checked_cost_base ::
    "'d::zero decimal_api \<Rightarrow> 'd cost_term list \<Rightarrow> 'd unrepresentable_cost + 'd" where
  "checked_cost_base D terms =
     ok_or (UnrepresentableCost terms)
       (opt_foldl (\<lambda>total t. case term_value D t of None \<Rightarrow> None
                               | Some v \<Rightarrow> checked_add D total v) 0 terms)"

section \<open>Where the units are\<close>

datatype held = AsAt "date option" | HeldDisposedOn date

datatype whereabouts = InParcel | DisposedOn date | CarriedOut

fun held_up_to :: "held \<Rightarrow> date option" where
  "held_up_to (AsAt d) = d"
| "held_up_to (HeldDisposedOn d) = Some d"

fun held_whereabouts :: "held \<Rightarrow> whereabouts" where
  "held_whereabouts (AsAt _) = InParcel"
| "held_whereabouts (HeldDisposedOn d) = DisposedOn d"

section \<open>AMIT cost base reductions\<close>

record 'd amit_event =
  ae_amma_statement_id :: int
  ae_tax_year_end_date :: date
  ae_per_unit :: 'd
  ae_covered :: "'d acquired_units"
  ae_disposed_by_year_end :: "'d acquired_units"
  ae_disposed_before_year_start :: "'d acquired_units"
  ae_carried_out :: "'d acquired_units"

text \<open>The groups a parcel's units fall into, as the routine derives them from the event.\<close>

definition amit_carried :: "'d::{zero,one,inverse,linorder} amit_event \<Rightarrow> 'd \<Rightarrow> 'd" where
  "amit_carried e q = max (min (au_get (ae_carried_out e)) q) 0"

definition amit_disposed :: "'d::{zero,one,minus,inverse,linorder} amit_event \<Rightarrow> 'd \<Rightarrow> 'd" where
  "amit_disposed e q = max (min (au_get (ae_disposed_by_year_end e)) (q - amit_carried e q)) 0"

definition amit_held :: "'d::{zero,one,minus,inverse,linorder} amit_event \<Rightarrow> 'd \<Rightarrow> 'd" where
  "amit_held e q = q - amit_carried e q - amit_disposed e q"

definition amit_sold :: "'d::{zero,one,minus,inverse,linorder} amit_event \<Rightarrow> 'd \<Rightarrow> 'd" where
  "amit_sold e q = max (amit_disposed e q - max (au_get (ae_disposed_before_year_start e)) 0) 0"

definition reduction_for_units ::
    "'d::{zero,one,minus,times,inverse,linorder} decimal_api \<Rightarrow> chrono_api \<Rightarrow> 'd amit_event \<Rightarrow>
     'd acquired_units \<Rightarrow> 'd acquired_units \<Rightarrow> whereabouts \<Rightarrow> 'd" where
  "reduction_for_units D C e parcel_quantity units w =
     (let q = au_get parcel_quantity; covered = au_get (ae_covered e);
          carried = amit_carried e q; held = amit_held e q; sold = amit_sold e q;
          finish = (\<lambda>coverage group. if group \<le> 0 then 0
                     else mul_div D [ae_per_unit e, coverage, au_get units] group)
      in case w of
           DisposedOn d \<Rightarrow>
             if d < fy_start C (ae_tax_year_end_date e) then 0
             else if d \<le> ae_tax_year_end_date e
               then finish (min (max (covered - held - carried) 0) sold) sold
             else finish (min covered held) held
         | CarriedOut \<Rightarrow> finish (min (max (covered - held) 0) carried) carried
         | InParcel \<Rightarrow> finish (min covered held) held)"

definition amit_per_unit_for ::
    "'d::{zero,one,minus,times,inverse,linorder} decimal_api \<Rightarrow> chrono_api \<Rightarrow> 'd amit_event \<Rightarrow>
     'd acquired_units \<Rightarrow> whereabouts \<Rightarrow> 'd" where
  "amit_per_unit_for D C e parcel_quantity w =
     reduction_for_units D C e parcel_quantity (au_new 1) w"

section \<open>The adjusted cost base\<close>

record 'd cost_base =
  cb_initial_cost :: 'd
  cb_costed_initial_cost :: 'd
  cb_amit_reduction :: 'd
  cb_roc_reduction :: 'd
  cb_adjusted :: 'd

definition prorated_initial_cost ::
    "'d::{zero,one,times,inverse} decimal_api \<Rightarrow> 'd \<Rightarrow> 'd acquired_units \<Rightarrow> 'd acquired_units \<Rightarrow> 'd"
  where
  "prorated_initial_cost D cost units quantity =
     (if au_eq D units quantity then cost
      else (let un = au_num units; ud = au_den units; qn = au_num quantity; qd = au_den quantity
            in case checked_mul D ud qn of
                 Some divisor \<Rightarrow>
                   if qd = 1 then mul_div D [cost, un] divisor else mul_div D [cost, un, qd] divisor
               | None \<Rightarrow> mul_div D [cost, au_get units] (au_get quantity)))"

datatype adjustment_kind = AmitCostBase | ReturnOfCapital | SplitRebase

fun kind_rank :: "adjustment_kind \<Rightarrow> nat" where
  "kind_rank AmitCostBase = 0"
| "kind_rank ReturnOfCapital = 1"
| "kind_rank SplitRebase = 2"

text \<open>The reference text of a row, as what it is written from.\<close>

datatype 'd adjustment_reference =
    AmmaRef int date
  | RocRef 'd currency_code
  | RebaseRef "'d rebase_terms"

record 'd cost_base_adjustment =
  cba_kind :: adjustment_kind
  cba_date :: date
  cba_reference :: "'d adjustment_reference"
  cba_per_unit :: "'d option"
  cba_amount :: 'd
  cba_capped :: bool

definition starting_cost ::
    "'d::{zero,one,plus,times,inverse,linorder} decimal_api \<Rightarrow> 'd parcel \<Rightarrow> 'd acquired_units \<Rightarrow> 'd" where
  "starting_cost D p units =
     (if au_less D au_zero (pa_quantity p)
      then prorated_initial_cost D (initial_cost p) units (pa_quantity p) else 0)"

text \<open>The three loops that build the rows of the walk, then the sort and the draw-down.\<close>

definition amit_row ::
    "'d::{zero,one,minus,times,inverse,linorder} decimal_api \<Rightarrow> chrono_api \<Rightarrow> 'd parcel \<Rightarrow>
     'd acquired_units \<Rightarrow> held \<Rightarrow> 'd amit_event \<Rightarrow> 'd cost_base_adjustment" where
  "amit_row D C p units h e =
     \<lparr>cba_kind = AmitCostBase, cba_date = ae_tax_year_end_date e,
      cba_reference = AmmaRef (ae_amma_statement_id e) (ae_tax_year_end_date e),
      cba_per_unit = Some (amit_per_unit_for D C e (pa_quantity p) (held_whereabouts h)),
      cba_amount = reduction_for_units D C e (pa_quantity p) units (held_whereabouts h),
      cba_capped = False\<rparr>"

definition roc_rows ::
    "'d::{one,times,inverse,linorder} decimal_api \<Rightarrow> 'd parcel \<Rightarrow> 'd acquired_units \<Rightarrow>
     'd split_event list \<Rightarrow> held \<Rightarrow> 'd roc_event list \<Rightarrow>
     currency_mismatch + 'd cost_base_adjustment list" where
  "roc_rows D p units splits h events =
     map_result concat (try_map (\<lambda>e.
       map_result (\<lambda>r. case r of None \<Rightarrow> []
         | Some per_unit \<Rightarrow>
             [\<lparr>cba_kind = ReturnOfCapital, cba_date = roc_date e,
               cba_reference = RocRef per_unit (pa_currency p), cba_per_unit = Some per_unit,
               cba_amount = per_unit * au_get units, cba_capped = False\<rparr>])
         (per_unit_for D e splits (pa_currency p) (pa_trade_date p) (pa_settled p) (pa_rollover p)
            (held_up_to h))) events)"

definition split_rows ::
    "'d::zero parcel \<Rightarrow> 'd split_event list \<Rightarrow> held \<Rightarrow> 'd cost_base_adjustment list" where
  "split_rows p splits h =
     map (\<lambda>s. \<lparr>cba_kind = SplitRebase, cba_date = se_date s, cba_reference = RebaseRef (se_terms s),
                cba_per_unit = None, cba_amount = 0, cba_capped = False\<rparr>)
       (filter (\<lambda>s. \<not> (se_date s \<le> pa_trade_date p \<or> is_after (se_date s) (held_up_to h))) splits)"

fun draw_down ::
    "'d::{zero,minus,linorder} \<Rightarrow> 'd cost_base_adjustment list \<Rightarrow> 'd cost_base_adjustment list \<times> 'd"
  where
  "draw_down running [] = ([], running)"
| "draw_down running (row # rows) =
     (if cba_kind row = SplitRebase
      then (let (out, end_value) = draw_down running rows in (row # out, end_value))
      else (let (out, end_value) = draw_down (max (running - cba_amount row) 0) rows
            in (row\<lparr>cba_capped := running < cba_amount row\<rparr> # out, end_value)))"

definition reduction_walk ::
    "'d::{zero,one,plus,minus,times,inverse,linorder} decimal_api \<Rightarrow> chrono_api \<Rightarrow> 'd parcel \<Rightarrow>
     'd acquired_units \<Rightarrow> 'd amit_event list \<Rightarrow> 'd roc_event list \<Rightarrow> 'd split_event list \<Rightarrow> held \<Rightarrow>
     currency_mismatch + ('d cost_base_adjustment list \<times> 'd)" where
  "reduction_walk D C p units amit_events roc_events splits h =
     and_then (roc_rows D p units splits h roc_events) (\<lambda>roc.
       let rows = map (amit_row D C p units h) amit_events @ roc @ split_rows p splits h;
           sorted_rows = sort_key (\<lambda>row. (cba_date row, kind_rank (cba_kind row))) rows
       in Inr (draw_down (starting_cost D p units) sorted_rows))"

definition adjustment_detail ::
    "'d::{zero,one,plus,minus,times,inverse,linorder} decimal_api \<Rightarrow> chrono_api \<Rightarrow> 'd parcel \<Rightarrow>
     'd acquired_units \<Rightarrow> 'd amit_event list \<Rightarrow> 'd roc_event list \<Rightarrow> 'd split_event list \<Rightarrow> held \<Rightarrow>
     currency_mismatch + 'd cost_base_adjustment list" where
  "adjustment_detail D C p units amit_events roc_events splits h =
     map_result fst (reduction_walk D C p units amit_events roc_events splits h)"

definition reduction_of :: "adjustment_kind \<Rightarrow> 'd::{zero,plus} cost_base_adjustment list \<Rightarrow> 'd" where
  "reduction_of k rows = dsum (map cba_amount (filter (\<lambda>row. cba_kind row = k) rows))"

definition adjusted_cost_base ::
    "'d::{zero,one,plus,minus,times,inverse,linorder} decimal_api \<Rightarrow> chrono_api \<Rightarrow> 'd parcel \<Rightarrow>
     'd acquired_units \<Rightarrow> 'd amit_event list \<Rightarrow> 'd roc_event list \<Rightarrow> 'd split_event list \<Rightarrow> held \<Rightarrow>
     currency_mismatch + 'd cost_base" where
  "adjusted_cost_base D C p units amit_events roc_events splits h =
     and_then (reduction_walk D C p units amit_events roc_events splits h) (\<lambda>(rows, adjusted).
       Inr \<lparr>cb_initial_cost = initial_cost p, cb_costed_initial_cost = starting_cost D p units,
            cb_amit_reduction = reduction_of AmitCostBase rows,
            cb_roc_reduction = reduction_of ReturnOfCapital rows, cb_adjusted = adjusted\<rparr>)"

definition at_rate :: "'d::{one,inverse} \<Rightarrow> 'd cost_base \<Rightarrow> 'd cost_base" where
  "at_rate rate cb =
     (let convert = (\<lambda>figure. if rate = 1 then figure else figure / rate)
      in \<lparr>cb_initial_cost = convert (cb_initial_cost cb),
          cb_costed_initial_cost = convert (cb_costed_initial_cost cb),
          cb_amit_reduction = convert (cb_amit_reduction cb),
          cb_roc_reduction = convert (cb_roc_reduction cb), cb_adjusted = convert (cb_adjusted cb)\<rparr>)"

definition into_aud_with ::
    "chrono_api \<Rightarrow> 'd::{one,inverse} fx_rates \<Rightarrow> currency_code \<Rightarrow> date \<Rightarrow> 'd fx_override \<Rightarrow>
     'd cost_base \<Rightarrow> fx_error + 'd cost_base" where
  "into_aud_with C rates currency acquired override cb =
     and_then (resolve_rate C rates currency acquired override) (\<lambda>rate. Inr (at_rate rate cb))"

definition reduction_for ::
    "'d::{one,times,inverse,linorder} decimal_api \<Rightarrow> 'd acquired_units \<Rightarrow> 'd \<Rightarrow> 'd split_event list \<Rightarrow>
     date \<Rightarrow> date \<Rightarrow> 'd" where
  "reduction_for D quantity cost_base_adjustment splits acquired tax_year_end_date =
     ua_quantity (split_adjusted_quantity D quantity splits acquired (Some tax_year_end_date))
       * cost_base_adjustment"

section \<open>Lemmas\<close>

text \<open>The walk marks rows and drops none.\<close>

lemma draw_down_rows:
  "map cba_amount (fst (draw_down r rows)) = map cba_amount rows \<and>
   map cba_kind (fst (draw_down r rows)) = map cba_kind rows \<and>
   map cba_date (fst (draw_down r rows)) = map cba_date rows"
  by (induction r rows rule: draw_down.induct) (auto simp: Let_def split: prod.splits)

lemma draw_down_nonneg: "0 \<le> r \<Longrightarrow> 0 \<le> snd (draw_down r rows)"
  by (induction r rows rule: draw_down.induct) (auto simp: Let_def split: prod.splits)

definition drawn :: "'d::linordered_field cost_base_adjustment list \<Rightarrow> 'd" where
  "drawn rows = sum_list (map (\<lambda>row. if cba_kind row = SplitRebase then 0 else cba_amount row) rows)"

lemma draw_down_ge:
  "(r::'d::linordered_field) - drawn rows \<le> snd (draw_down r rows)"
proof (induction rows arbitrary: r)
  case (Cons row rows)
  show ?case using Cons.IH [of r] Cons.IH [of "max (r - cba_amount row) 0"]
    by (auto simp: drawn_def Let_def split: prod.splits)
qed (simp add: drawn_def)

lemma draw_down_uncapped:
  assumes "0 \<le> (r::'d::linordered_field)" and "\<forall>row \<in> set (fst (draw_down r rows)). \<not> cba_capped row"
  shows "snd (draw_down r rows) = r - drawn rows"
  using assms
proof (induction rows arbitrary: r)
  case (Cons row rows)
  show ?case
  proof (cases "cba_kind row = SplitRebase")
    case True
    then show ?thesis using Cons.IH [of r] Cons.prems by (auto simp: drawn_def Let_def split: prod.splits)
  next
    case False
    then have "cba_amount row \<le> r" using Cons.prems(2) by (auto simp: Let_def split: prod.splits)
    with False show ?thesis using Cons.IH [of "r - cba_amount row"] Cons.prems
      by (auto simp: drawn_def Let_def split: prod.splits)
  qed
qed (simp add: drawn_def)

lemma draw_down_closed:
  assumes "\<forall>row \<in> set rows. 0 \<le> cba_amount row" and "0 \<le> (r::'d::linordered_field)"
  shows "snd (draw_down r rows) = max (r - drawn rows) 0"
  using assms
proof (induction rows arbitrary: r)
  case (Cons row rows)
  have nn: "0 \<le> drawn rows" unfolding drawn_def
    by (rule sum_list_nonneg) (use Cons.prems(1) in auto)
  show ?case
  proof (cases "cba_kind row = SplitRebase")
    case True
    then show ?thesis using Cons.IH [of r] Cons.prems by (auto simp: drawn_def Let_def split: prod.splits)
  next
    case False
    have "snd (draw_down r (row # rows)) = max (max (r - cba_amount row) 0 - drawn rows) 0"
      using False Cons.IH [of "max (r - cba_amount row) 0"] Cons.prems
      by (cases "draw_down (max (r - cba_amount row) 0) rows") simp
    also have "\<dots> = max (r - drawn (row # rows)) 0"
      using nn False by (auto simp: drawn_def max_def)
    finally show ?thesis .
  qed
qed (simp add: drawn_def)

lemma drawn_reductions: "drawn rows = reduction_of AmitCostBase rows + reduction_of ReturnOfCapital rows"
proof (induction rows)
  case (Cons row rows)
  then show ?case by (cases "cba_kind row") (simp_all add: drawn_def reduction_of_def)
qed (simp add: drawn_def reduction_of_def)

lemma drawn_zip:
  "drawn rows = sum_list (map2 (\<lambda>k a. if k = SplitRebase then 0 else a)
     (map cba_kind rows) (map cba_amount rows))"
  by (induction rows) (simp_all add: drawn_def)

lemma drawn_draw_down [simp]: "drawn (fst (draw_down r rows)) = drawn rows"
  using draw_down_rows [of r rows] by (simp add: drawn_zip del: map_map)

context decimal_laws
begin

lemma checked_cost_base_val:
  "checked_cost_base D terms = Inr c \<Longrightarrow>
   c = sum_list (map (\<lambda>t. case t of CostProduct p u \<Rightarrow> snd p * snd u | CostAmount _ a \<Rightarrow> a) terms)"
proof -
  have "opt_foldl (\<lambda>total t. case term_value D t of None \<Rightarrow> None | Some v \<Rightarrow> checked_add D total v) a terms = Some c
    \<Longrightarrow> c = a + sum_list (map (\<lambda>t. case t of CostProduct p u \<Rightarrow> snd p * snd u | CostAmount _ a \<Rightarrow> a) terms)"
    for a
  proof (induction terms arbitrary: a)
    case (Cons t terms)
    then obtain v a' where v: "term_value D t = Some v" "checked_add D a v = Some a'"
      and rest: "opt_foldl (\<lambda>total t. case term_value D t of None \<Rightarrow> None | Some v \<Rightarrow> checked_add D total v) a' terms = Some c"
      by (auto simp: bind_eq_Some_conv split: option.splits)
    have "v = (case t of CostProduct p u \<Rightarrow> snd p * snd u | CostAmount _ a \<Rightarrow> a)"
      using v(1) by (cases t) (auto dest: mul_eq)
    then show ?case using Cons.IH [OF rest] add_eq [OF v(2)] by simp
  qed simp
  from this [of 0] show "checked_cost_base D terms = Inr c \<Longrightarrow> ?thesis"
    by (simp add: checked_cost_base_def result_simps)
qed

lemma prorated_val:
  assumes "au_ok units" and "au_ok quantity" and "0 < au_val quantity"
  shows "prorated_initial_cost D cost units quantity = cost * au_val units / au_val quantity"
proof -
  have pos: "0 < au_den units" "0 < au_den quantity" "0 < au_num quantity"
    using assms by (auto simp: au_ok_def au_val_def zero_less_divide_iff)
  show ?thesis
  proof (cases "au_eq D units quantity")
    case True
    then show ?thesis using assms by (simp add: prorated_initial_cost_def units_simps)
  next
    case False
    show ?thesis
    proof (cases "checked_mul D (au_den units) (au_num quantity)")
      case None
      with False assms(3) show ?thesis
        by (simp add: prorated_initial_cost_def Let_def mul_div_eq units_simps)
    next
      case (Some divisor)
      with pos have "divisor = au_den units * au_num quantity" "divisor \<noteq> 0"
        using mul_eq [OF Some] by auto
      with False Some show ?thesis
        by (simp add: prorated_initial_cost_def Let_def mul_div_eq au_val_def)
    qed
  qed
qed

lemma starting_cost_val:
  assumes "au_ok units" and "au_ok (pa_quantity p)"
  shows "starting_cost D p units =
    (if 0 < au_val (pa_quantity p) then initial_cost p * au_val units / au_val (pa_quantity p) else 0)"
  using prorated_val [OF assms] assms by (simp add: starting_cost_def units_simps)

text \<open>The coverage each group of a parcel's units gets, summed over the groups.\<close>

lemma amit_groups:
  fixes e :: "'d amit_event"
  assumes "0 \<le> au_get (ae_carried_out e)" and "au_get (ae_carried_out e) \<le> q"
    and "au_get (ae_disposed_by_year_end e) \<le> q - au_get (ae_carried_out e)"
    and "0 \<le> au_get (ae_disposed_before_year_start e)"
    and "au_get (ae_disposed_before_year_start e) \<le> au_get (ae_disposed_by_year_end e)"
  shows "amit_carried e q = au_get (ae_carried_out e)"
    and "amit_held e q = q - au_get (ae_carried_out e) - au_get (ae_disposed_by_year_end e)"
    and "amit_sold e q = au_get (ae_disposed_by_year_end e) - au_get (ae_disposed_before_year_start e)"
proof -
  show c: "amit_carried e q = au_get (ae_carried_out e)"
    using assms(1,2) unfolding amit_carried_def by (simp only: min_absorb1 max_absorb1)
  have "0 \<le> au_get (ae_disposed_by_year_end e)" using assms(4,5) by (rule order_trans)
  then have d: "amit_disposed e q = au_get (ae_disposed_by_year_end e)"
    using assms(3) unfolding amit_disposed_def c by (simp only: min_absorb1 max_absorb1)
  show "amit_held e q = q - au_get (ae_carried_out e) - au_get (ae_disposed_by_year_end e)"
    unfolding amit_held_def c d ..
  have "0 \<le> au_get (ae_disposed_by_year_end e) - au_get (ae_disposed_before_year_start e)"
    using assms(5) by simp
  then show "amit_sold e q = au_get (ae_disposed_by_year_end e) - au_get (ae_disposed_before_year_start e)"
    using assms(4) unfolding amit_sold_def d by (simp only: max_absorb1)
qed

lemma reduction_in_parcel:
  "0 \<le> amit_held e (au_get q) \<Longrightarrow> 0 \<le> au_get (ae_covered e) \<Longrightarrow>
   reduction_for_units D C e q (au_new (amit_held e (au_get q))) InParcel
     = ae_per_unit e * min (au_get (ae_covered e)) (amit_held e (au_get q))"
  by (cases "amit_held e (au_get q) = 0")
    (simp_all add: reduction_for_units_def Let_def au_get_val au_new_simps mul_div_eq)

lemma reduction_carried_out:
  "0 \<le> amit_carried e (au_get q) \<Longrightarrow>
   reduction_for_units D C e q (au_new (amit_carried e (au_get q))) CarriedOut
     = ae_per_unit e * min (max (au_get (ae_covered e) - amit_held e (au_get q)) 0) (amit_carried e (au_get q))"
  by (cases "amit_carried e (au_get q) = 0")
    (simp_all add: reduction_for_units_def Let_def au_get_val au_new_simps mul_div_eq)

lemma reduction_sold_in_year:
  "0 \<le> amit_sold e (au_get q) \<Longrightarrow> fy_start C (ae_tax_year_end_date e) \<le> d \<Longrightarrow> d \<le> ae_tax_year_end_date e \<Longrightarrow>
   reduction_for_units D C e q (au_new (amit_sold e (au_get q))) (DisposedOn d)
     = ae_per_unit e * min (max (au_get (ae_covered e) - amit_held e (au_get q) - amit_carried e (au_get q)) 0)
         (amit_sold e (au_get q))"
  by (cases "amit_sold e (au_get q) = 0")
    (simp_all add: reduction_for_units_def Let_def au_get_val au_new_simps mul_div_eq)

lemma coverage_total:
  "0 \<le> (h::'d) \<Longrightarrow> 0 \<le> c \<Longrightarrow> 0 \<le> s \<Longrightarrow> 0 \<le> v \<Longrightarrow>
   min v h + min (max (v - h) 0) c + min (max (v - h - c) 0) s = min v (h + c + s)"
  by (auto simp: min_def max_def)

end

section \<open>Properties\<close>

definition hundred_units :: "rat parcel" where
  "hundred_units = \<lparr>pa_quantity = au_new 100, pa_average_price = 2, pa_brokerage = 0,
     pa_gst_on_brokerage = 0, pa_currency = ''AUD'', pa_trade_date = 10, pa_settled = 12,
     pa_rollover = None\<rparr>"

definition capital_return :: "date \<Rightarrow> rat \<Rightarrow> rat roc_event" where
  "capital_return d amount =
     \<lparr>roc_date = d, roc_amount_per_unit = amount, roc_currency = ''AUD'', roc_record_date = None\<rparr>"

text \<open>C5: the adjusted cost base never goes below nil and never below the pro-rated cost less
  every reduction; when no row of the walk is marked capped it is exactly that difference, and
  when no reduction is negative it is that difference floored at nil, whatever the order the
  reductions land in.\<close>

theorem adjusted_cost_base_floor:
  assumes "decimal_laws D" and ok: "au_ok units" "au_ok (pa_quantity p)"
    and cost: "0 \<le> initial_cost p" "0 \<le> au_val units"
    and walk: "adjustment_detail D C p units amit roc splits h = Inr rows"
      "adjusted_cost_base D C p units amit roc splits h = Inr cb"
  shows "0 \<le> cb_adjusted cb
    \<and> cb_costed_initial_cost cb - cb_amit_reduction cb - cb_roc_reduction cb \<le> cb_adjusted cb
    \<and> ((\<forall>row \<in> set rows. \<not> cba_capped row) \<longrightarrow>
         cb_adjusted cb = cb_costed_initial_cost cb - cb_amit_reduction cb - cb_roc_reduction cb)
    \<and> ((\<forall>row \<in> set rows. 0 \<le> cba_amount row) \<longrightarrow>
         cb_adjusted cb = max (cb_costed_initial_cost cb - cb_amit_reduction cb - cb_roc_reduction cb) 0)"
proof -
  obtain r where r: "roc_rows D p units splits h roc = Inr r"
    using walk(1) by (auto simp: adjustment_detail_def reduction_walk_def result_simps)
  define input where "input = sort_key (\<lambda>row. (cba_date row, kind_rank (cba_kind row)))
    (map (amit_row D C p units h) amit @ r @ split_rows p splits h)"
  obtain out last_value where dd: "draw_down (starting_cost D p units) input = (out, last_value)"
    by (cases "draw_down (starting_cost D p units) input")
  then have w: "reduction_walk D C p units amit roc splits h = Inr (out, last_value)"
    by (simp add: reduction_walk_def r input_def)
  have rows: "rows = out" using walk(1) by (simp add: adjustment_detail_def w)
  have input: "rows = fst (draw_down (starting_cost D p units) input)" by (simp add: rows dd)
  have cb: "cb_adjusted cb = snd (draw_down (starting_cost D p units) input)"
    "cb_costed_initial_cost cb = starting_cost D p units"
    "cb_amit_reduction cb = reduction_of AmitCostBase rows"
    "cb_roc_reduction cb = reduction_of ReturnOfCapital rows"
    using walk(2) by (auto simp: adjusted_cost_base_def w rows dd)
  have start: "0 \<le> starting_cost D p units"
    using decimal_laws.starting_cost_val [OF assms(1) ok] cost by simp
  have total: "cb_costed_initial_cost cb - cb_amit_reduction cb - cb_roc_reduction cb
      = starting_cost D p units - drawn input"
    using drawn_reductions [of rows] by (simp add: cb input)
  have amounts: "(\<forall>row \<in> set rows. 0 \<le> cba_amount row) \<longleftrightarrow> (\<forall>row \<in> set input. 0 \<le> cba_amount row)"
    using draw_down_rows [of "starting_cost D p units" input] unfolding input
    by (metis (no_types, lifting) image_iff list.set_map)
  show ?thesis
    unfolding total amounts cb(1)
    using draw_down_nonneg [OF start, of input] draw_down_ge [of "starting_cost D p units" input]
      draw_down_uncapped [OF start, of input] draw_down_closed [OF _ start, of input]
    unfolding input by blast
qed

theorem adjusted_cost_base_floor_witness:
  "\<exists>cb. adjusted_cost_base ref_dec gregorian hundred_units (au_new 50) []
      [capital_return 20 1, capital_return 30 3] [] (AsAt None) = Inr cb
    \<and> cb_adjusted cb = max (cb_costed_initial_cost cb - cb_amit_reduction cb - cb_roc_reduction cb) 0"
proof -
  define cb :: "rat cost_base" where
    "cb = \<lparr>cb_initial_cost = 200, cb_costed_initial_cost = 100, cb_amit_reduction = 0,
      cb_roc_reduction = 200, cb_adjusted = 0\<rparr>"
  define rows where "rows =
    [\<lparr>cba_kind = ReturnOfCapital, cba_date = 20, cba_reference = RocRef 1 ''AUD'', cba_per_unit = Some (1::rat),
      cba_amount = 50, cba_capped = False\<rparr>,
     \<lparr>cba_kind = ReturnOfCapital, cba_date = 30, cba_reference = RocRef 3 ''AUD'', cba_per_unit = Some 3,
      cba_amount = 150, cba_capped = True\<rparr>]"
  have start: "starting_cost ref_dec hundred_units (au_new 50) = 100"
    by (simp add: ref.starting_cost_val units_simps hundred_units_def initial_cost_def)
  have roc: "roc_rows ref_dec hundred_units (au_new 50) [] (AsAt None) [capital_return 20 1, capital_return 30 3]
    = Inr (map (\<lambda>r. r\<lparr>cba_capped := False\<rparr>) rows)"
    by (simp add: roc_rows_def per_unit_for_def capital_return_def hundred_units_def is_after_def rows_def
        split_ratio_def units_simps)
  have walk: "reduction_walk ref_dec gregorian hundred_units (au_new 50) []
      [capital_return 20 1, capital_return 30 3] [] (AsAt None) = Inr (rows, 0)"
    unfolding reduction_walk_def roc start by (simp add: split_rows_def rows_def)
  have "initial_cost hundred_units = 200" by (simp add: initial_cost_def hundred_units_def units_simps)
  then have cb: "adjusted_cost_base ref_dec gregorian hundred_units (au_new 50) []
      [capital_return 20 1, capital_return 30 3] [] (AsAt None) = Inr cb"
    unfolding adjusted_cost_base_def walk start by (simp add: cb_def reduction_of_def rows_def)
  have detail: "adjustment_detail ref_dec gregorian hundred_units (au_new 50) []
      [capital_return 20 1, capital_return 30 3] [] (AsAt None) = Inr rows"
    by (simp add: adjustment_detail_def walk)
  have "cb_adjusted cb = max (cb_costed_initial_cost cb - cb_amit_reduction cb - cb_roc_reduction cb) 0"
    using adjusted_cost_base_floor [OF ref.decimal_laws_axioms _ _ _ _ detail cb]
    by (simp add: units_simps hundred_units_def initial_cost_def rows_def)
  with cb show ?thesis by blast
qed

text \<open>C24: the AMIT reduction of a statement reaches every covered unit once: over the units
  still in the parcel, those sold in the statement's year and those carried out by a rollover,
  the amounts add up to the per-unit figure times the covered units (up to all of those units),
  and units sold before the year take nothing.\<close>

theorem amit_reduction_conserved:
  fixes e :: "'d::linordered_field amit_event"
  assumes D: "decimal_laws D" and "d1 < fy_start C (ae_tax_year_end_date e)"
    and d2: "fy_start C (ae_tax_year_end_date e) \<le> d2" "d2 \<le> ae_tax_year_end_date e"
    and groups: "au_val q = held + carried + sold + earlier"
      "0 \<le> held" "0 \<le> carried" "0 \<le> sold" "0 \<le> earlier" "0 \<le> au_val (ae_covered e)"
      "au_val (ae_carried_out e) = carried" "au_val (ae_disposed_by_year_end e) = sold + earlier"
      "au_val (ae_disposed_before_year_start e) = earlier"
  shows "reduction_for_units D C e q (au_new held) InParcel
       + reduction_for_units D C e q (au_new carried) CarriedOut
       + reduction_for_units D C e q (au_new sold) (DisposedOn d2)
       + reduction_for_units D C e q (au_new earlier) (DisposedOn d1)
     = ae_per_unit e * min (au_val (ae_covered e)) (held + carried + sold)"
proof -
  have g: "amit_carried e (au_get q) = carried" "amit_held e (au_get q) = held"
    "amit_sold e (au_get q) = sold"
    using decimal_laws.amit_groups [OF D, of e "au_get q"] groups by (simp_all add: units_simps)
  have "reduction_for_units D C e q (au_new earlier) (DisposedOn d1) = 0"
    using assms(2) by (simp add: reduction_for_units_def Let_def)
  moreover have "reduction_for_units D C e q (au_new held) InParcel
      = ae_per_unit e * min (au_val (ae_covered e)) held"
    using decimal_laws.reduction_in_parcel [OF D, of e q C] groups g by (simp add: units_simps)
  moreover have "reduction_for_units D C e q (au_new carried) CarriedOut
      = ae_per_unit e * min (max (au_val (ae_covered e) - held) 0) carried"
    using decimal_laws.reduction_carried_out [OF D, of e q C] groups g by (simp add: units_simps)
  moreover have "reduction_for_units D C e q (au_new sold) (DisposedOn d2)
      = ae_per_unit e * min (max (au_val (ae_covered e) - held - carried) 0) sold"
    using decimal_laws.reduction_sold_in_year [OF D, of e q C d2] groups g d2 by (simp add: units_simps)
  ultimately show ?thesis
    using decimal_laws.coverage_total [OF D groups(2,3,4,6)]
    by (simp add: distrib_left [symmetric])
qed

theorem amit_reduction_conserved_witness:
  "reduction_for_units ref_dec gregorian
      \<lparr>ae_amma_statement_id = 1, ae_tax_year_end_date = 739432, ae_per_unit = 1 / 2, ae_covered = au_new 90,
       ae_disposed_by_year_end = au_new 40, ae_disposed_before_year_start = au_new 10,
       ae_carried_out = au_new 20\<rparr> (au_new 100) (au_new 40) InParcel \<le> 45"
proof -
  let ?e = "\<lparr>ae_amma_statement_id = 1, ae_tax_year_end_date = 739432, ae_per_unit = 1 / 2 :: rat,
    ae_covered = au_new 90, ae_disposed_by_year_end = au_new 40, ae_disposed_before_year_start = au_new 10,
    ae_carried_out = au_new 20\<rparr>"
  have fy: "fy_start gregorian 739432 = 739068" by code_simp
  have nn: "0 \<le> amit_held ?e 100" "0 \<le> amit_carried ?e 100" "0 \<le> amit_sold ?e 100"
    by (simp_all add: amit_held_def amit_carried_def amit_disposed_def amit_sold_def units_simps)
  have "reduction_for_units ref_dec gregorian ?e (au_new 100) (au_new 20) CarriedOut \<ge> 0"
    and "reduction_for_units ref_dec gregorian ?e (au_new 100) (au_new 30) (DisposedOn 739100) \<ge> 0"
    by (simp_all add: reduction_for_units_def Let_def units_simps ref.mul_div_eq fy amit_held_def
        amit_carried_def amit_disposed_def amit_sold_def)
  then show ?thesis
    using amit_reduction_conserved [OF ref.decimal_laws_axioms, of 700000 gregorian ?e 739100 "au_new 100" 40 20 30 10]
    by (simp add: fy units_simps)
       (simp add: reduction_for_units_def Let_def units_simps fy)
qed

text \<open>The adjustment rows come out in date order, and on one date AMIT before
  return-of-capital before re-basing rows, with one row for every AMIT event, one for every split
  inside the holding window, and nothing lost or added by the draw-down.\<close>

theorem adjustment_rows_ordered:
  assumes "adjustment_detail D C p units amit roc splits h = Inr rows"
  shows "sorted (map (\<lambda>row. (cba_date row, kind_rank (cba_kind row))) rows)
    \<and> (\<exists>r. roc_rows D p units splits h roc = Inr r \<and>
         mset (map (\<lambda>row. (cba_kind row, cba_date row, cba_amount row)) rows) =
         mset (map (\<lambda>row. (cba_kind row, cba_date row, cba_amount row))
           (map (amit_row D C p units h) amit @ r @ split_rows p splits h)))"
proof -
  obtain r where r: "roc_rows D p units splits h roc = Inr r"
    using assms by (auto simp: adjustment_detail_def reduction_walk_def result_simps)
  define all where "all = map (amit_row D C p units h) amit @ r @ split_rows p splits h"
  define input where "input = sort_key (\<lambda>row. (cba_date row, kind_rank (cba_kind row))) all"
  have rows: "rows = fst (draw_down (starting_cost D p units) input)"
    using assms by (simp add: adjustment_detail_def reduction_walk_def r input_def all_def)
  have eqs: "map cba_amount rows = map cba_amount input" "map cba_kind rows = map cba_kind input"
    "map cba_date rows = map cba_date input"
    using draw_down_rows [of "starting_cost D p units" input] by (simp_all add: rows)
  have key: "map (\<lambda>row. (cba_date row, kind_rank (cba_kind row))) xs
      = zip (map cba_date xs) (map kind_rank (map cba_kind xs))" for xs :: "'a cost_base_adjustment list"
    by (induction xs) simp_all
  have triple: "map (\<lambda>row. (cba_kind row, cba_date row, cba_amount row)) xs
      = zip (map cba_kind xs) (zip (map cba_date xs) (map cba_amount xs))" for xs :: "'a cost_base_adjustment list"
    by (induction xs) simp_all
  have "sorted (map (\<lambda>row. (cba_date row, kind_rank (cba_kind row))) rows)"
    unfolding key eqs unfolding key [symmetric] input_def by (rule sorted_sort_key)
  moreover have "mset (map (\<lambda>row. (cba_kind row, cba_date row, cba_amount row)) rows)
      = mset (map (\<lambda>row. (cba_kind row, cba_date row, cba_amount row)) all)"
    unfolding triple eqs unfolding triple [symmetric] by (simp add: input_def)
  ultimately show ?thesis using r by (auto simp: all_def)
qed

theorem adjustment_rows_ordered_witness:
  "\<exists>rows. adjustment_detail ref_dec gregorian hundred_units (au_new 50) [] [capital_return 20 1]
      [share_split 15 2 1] (AsAt None) = Inr rows
    \<and> sorted (map (\<lambda>row. (cba_date row, kind_rank (cba_kind row))) rows)"
proof -
  obtain r where "roc_rows ref_dec hundred_units (au_new 50) [share_split 15 2 1] (AsAt None)
      [capital_return 20 1] = Inr r"
    by (simp add: roc_rows_def per_unit_for_def capital_return_def hundred_units_def is_after_def Let_def)
  then obtain rows where "adjustment_detail ref_dec gregorian hundred_units (au_new 50) [] [capital_return 20 1]
      [share_split 15 2 1] (AsAt None) = Inr rows"
    by (simp add: adjustment_detail_def reduction_walk_def)
  with adjustment_rows_ordered [OF this] show ?thesis by blast
qed

text \<open>Pro-rating a parcel's initial cost over the parts its units are divided into gives
  each part its share and loses nothing: the shares add up to the initial cost.\<close>

theorem prorated_cost_conserved:
  assumes D: "decimal_laws D" and ok: "au_ok quantity" "0 < au_val quantity"
    and parts: "\<forall>u \<in> set parts. au_ok u" "sum_list (map au_val parts) = au_val quantity"
  shows "sum_list (map (\<lambda>u. prorated_initial_cost D cost u quantity) parts) = cost"
proof -
  have "map (\<lambda>u. prorated_initial_cost D cost u quantity) parts
      = map (\<lambda>u. (cost / au_val quantity) * au_val u) parts"
    using parts(1) by (auto simp: decimal_laws.prorated_val [OF D _ ok])
  then have "sum_list (map (\<lambda>u. prorated_initial_cost D cost u quantity) parts)
      = (cost / au_val quantity) * au_val quantity"
    by (simp only: sum_list_const_mult parts(2))
  with ok(2) show ?thesis by simp
qed

theorem prorated_cost_conserved_witness:
  "sum_list (map (\<lambda>u. prorated_initial_cost ref_dec 1000 u (au_new 3)) [au_new 1, au_new 2]) = (1000 :: rat)"
  by (rule prorated_cost_conserved [OF ref.decimal_laws_axioms]) (simp_all add: units_simps)

end
