(* ===== verification/OpenParcels.thy ===== *)
theory OpenParcels
  imports CostBase
begin

text \<open>
  \<open>src/src/domain/open_parcels.rs\<close> and the AMIT loader of \<open>cost_base.rs\<close>: the parcels with
  units still open at a date, with their cost base in AUD. The ledger is the decoded tables;
  each query is the filter its SQL states, over the rows in the order the tables list them.
\<close>

section \<open>The ledger\<close>

datatype trade_type = Buy | Sell | DRP

record 'd trade =
  tr_type :: trade_type
  tr_row :: "'d parcel_row"

record 'd parcel_allocation =
  al_id :: int
  al_sale_trade_id :: trade_id
  al_purchase_trade_id :: trade_id
  al_quantity_allocated :: 'd

record 'd amma_statement =
  am_id :: int
  am_tax_year_end_date :: date
  am_cost_base_adjustment :: 'd

record 'd amit_adjustment =
  aa_trade_id :: trade_id
  aa_amma_statement_id :: int
  aa_quantity :: 'd

record 'd ledger =
  lg_trades :: "'d trade list"
  lg_allocations :: "'d parcel_allocation list"
  lg_amma_statements :: "'d amma_statement list"
  lg_amit_adjustments :: "'d amit_adjustment list"
  lg_roc_events :: "listing_id \<rightharpoonup> 'd roc_event list"
  lg_splits :: "listing_id \<rightharpoonup> 'd listing_splits"
  lg_rates :: "'d fx_rates"

definition no_provenance :: "'d parcel_row \<Rightarrow> bool" where
  "no_provenance p \<longleftrightarrow>
     pr_scrip_action_id p = None \<and> pr_demerger_action_id p = None \<and> pr_transfer_id p = None"

section \<open>Units consumed\<close>

record 'd units_consumed =
  uc_date :: date
  uc_settled :: date
  uc_quantity :: "'d units_at"
  uc_disposal :: bool

definition db_units_sold :: "chrono_api \<Rightarrow> 'd ledger \<Rightarrow> date option \<Rightarrow> trade_id \<Rightarrow> 'd units_consumed list"
  where
  "db_units_sold C L as_of purchase =
     concat (map (\<lambda>a. map (\<lambda>s. \<lparr>uc_date = pr_date (tr_row s), uc_settled = pr_settlement_date (tr_row s),
                                  uc_quantity = units_at_new (al_quantity_allocated a) (pr_date (tr_row s)),
                                  uc_disposal = no_provenance (tr_row s)\<rparr>)
                     (filter (\<lambda>s. pr_id (tr_row s) = al_sale_trade_id a
                                  \<and> pr_date (tr_row s) \<le> as_of_or_open C as_of) (lg_trades L)))
       (filter (\<lambda>a. al_purchase_trade_id a = purchase) (lg_allocations L)))"

definition sale_of :: "'d parcel_allocation \<Rightarrow> 'd trade \<Rightarrow> 'd units_at" where
  "sale_of a s = units_at_new (al_quantity_allocated a) (pr_date (tr_row s))"

definition db_parcel_sales :: "'d ledger \<Rightarrow> trade_id \<Rightarrow> 'd units_at list" where
  "db_parcel_sales L parcel_id =
     concat (map (\<lambda>a. map (sale_of a) (filter (\<lambda>s. pr_id (tr_row s) = al_sale_trade_id a) (lg_trades L)))
       (filter (\<lambda>a. al_purchase_trade_id a = parcel_id) (lg_allocations L)))"

definition db_sales_by_parcel :: "'d ledger \<Rightarrow> listing_id option \<Rightarrow> trade_id \<Rightarrow> 'd units_at list" where
  "db_sales_by_parcel L listing parcel_id =
     concat (map (\<lambda>a. concat (map (\<lambda>s. map (\<lambda>p. sale_of a s)
           (filter (\<lambda>p. pr_id (tr_row p) = al_purchase_trade_id a
              \<and> (case listing of None \<Rightarrow> True | Some l \<Rightarrow> pr_listing_id (tr_row p) = l)) (lg_trades L)))
         (filter (\<lambda>s. pr_id (tr_row s) = al_sale_trade_id a) (lg_trades L))))
       (filter (\<lambda>a. al_purchase_trade_id a = parcel_id) (lg_allocations L)))"

text \<open>
  \<open>db_acquired_units_by_allocation\<close>: the joined rows come ordered by parcel and allocation;
  each run of one parcel is converted together.
\<close>

record 'd allocation_row =
  ar_id :: int
  ar_sale_trade_id :: trade_id
  ar_purchase_trade_id :: trade_id
  ar_quantity_allocated :: 'd
  ar_sale_date :: date
  ar_parcel_quantity :: "'d acquired_units"
  ar_parcel_date :: date
  ar_listing_id :: listing_id

record 'd allocation_units =
  alu_id :: int
  alu_sale_trade_id :: trade_id
  alu_purchase_trade_id :: trade_id
  alu_units :: "'d acquired_units"

function acquired_units_by_run ::
    "'d::{zero,one,plus,minus,times,inverse,linorder} decimal_api \<Rightarrow>
     (listing_id \<rightharpoonup> 'd listing_splits) \<Rightarrow> 'd allocation_row list \<Rightarrow> 'd allocation_units list" where
  "acquired_units_by_run D splits [] = []"
| "acquired_units_by_run D splits (first # rows) =
     (let same = (\<lambda>r. ar_purchase_trade_id r = ar_purchase_trade_id first);
          run = first # takeWhile same rows;
          sales = map (\<lambda>r. units_at_new (ar_quantity_allocated r) (ar_sale_date r)) run;
          units = acquired_units_of_sales D (ar_parcel_quantity first) sales
                    (parcel_splits splits (ar_listing_id first) (ar_purchase_trade_id first))
                    (ar_parcel_date first)
      in map2 (\<lambda>r u. \<lparr>alu_id = ar_id r, alu_sale_trade_id = ar_sale_trade_id r,
                       alu_purchase_trade_id = ar_purchase_trade_id first, alu_units = u\<rparr>) run units
         @ acquired_units_by_run D splits (dropWhile same rows))"
  by pat_completeness auto
termination
  by (relation "measure (\<lambda>(_, _, rows). length rows)")
    (simp_all add: le_imp_less_Suc length_dropWhile_le)

section \<open>AMIT reductions per parcel\<close>

definition db_cost_base_reduction_events ::
    "'d::{zero,one,plus,minus,times,inverse,linorder} decimal_api \<Rightarrow> chrono_api \<Rightarrow> 'd ledger \<Rightarrow>
     date option \<Rightarrow> trade_id \<Rightarrow> 'd amit_event list" where
  "db_cost_base_reduction_events D C L up_to trade_id =
     (let joined = concat (map (\<lambda>aa. concat (map (\<lambda>a. map (\<lambda>t. (aa, a, tr_row t))
              (filter (\<lambda>t. pr_id (tr_row t) = aa_trade_id aa) (lg_trades L)))
            (filter (\<lambda>a. am_id a = aa_amma_statement_id aa
                         \<and> am_tax_year_end_date a \<le> as_of_or_open C up_to) (lg_amma_statements L))))
          (filter (\<lambda>aa. aa_trade_id aa = trade_id) (lg_amit_adjustments L)));
          rows = sort_key (\<lambda>(aa, a, t). (am_tax_year_end_date a, am_id a)) joined
      in map (\<lambda>(aa, a, t).
           let splits = parcel_splits (lg_splits L) (pr_listing_id t) trade_id;
               consumed = db_units_sold C L up_to trade_id;
               units = acquired_units_of_sales D (pr_quantity t) (map uc_quantity consumed) splits (pr_date t);
               paired = zip consumed units;
               year_end = am_tax_year_end_date a
           in \<lparr>ae_amma_statement_id = am_id a, ae_tax_year_end_date = year_end,
               ae_per_unit = reduction_for D (au_new 1) (am_cost_base_adjustment a) splits (pr_date t) year_end,
               ae_covered = au_new (aa_quantity aa),
               ae_disposed_by_year_end =
                 au_sum D (map snd (filter (\<lambda>(c, _). uc_disposal c \<and> uc_date c \<le> year_end) paired)),
               ae_disposed_before_year_start =
                 au_sum D (map snd (filter (\<lambda>(c, _). uc_disposal c \<and> uc_date c < fy_start C year_end) paired)),
               ae_carried_out =
                 au_sum D (map snd (filter (\<lambda>(c, _). \<not> uc_disposal c) paired))\<rparr>)
         rows)"

section \<open>Open parcels\<close>

record 'd open_parcel =
  op_parcel :: "'d parcel_row"
  op_remaining_as_of :: "'d units_at"
  op_cost_base :: "'d cost_base"

datatype load_error = LoadCurrency currency_mismatch | LoadFx fx_error

fun map_error :: "('e \<Rightarrow> 'f) \<Rightarrow> 'e + 'a \<Rightarrow> 'f + 'a" where
  "map_error f (Inl e) = Inl (f e)"
| "map_error f (Inr a) = Inr a"

text \<open>The body of the loop of \<open>load\<close>: nothing for a parcel fully consumed.\<close>

definition open_parcel_of ::
    "'d::{zero,one,plus,minus,times,inverse,linorder} decimal_api \<Rightarrow> chrono_api \<Rightarrow> 'd ledger \<Rightarrow> date \<Rightarrow>
     'd parcel_row \<Rightarrow> load_error + 'd open_parcel option" where
  "open_parcel_of D C L cutoff p =
     (let splits = parcel_splits (lg_splits L) (pr_listing_id p) (pr_id p);
          sold = sold_in_acquired_units D (pr_quantity p)
                   (map uc_quantity (db_units_sold C L (Some cutoff) (pr_id p))) splits (pr_date p);
          remaining = au_sub D (pr_quantity p) sold
      in if \<not> au_less D au_zero remaining then Inr None
         else and_then (map_error LoadCurrency (adjusted_cost_base D C (pr_parcel p) remaining
                  (db_cost_base_reduction_events D C L (Some cutoff) (pr_id p))
                  (case lg_roc_events L (pr_listing_id p) of None \<Rightarrow> [] | Some es \<Rightarrow> es)
                  splits (AsAt (Some cutoff))))
           (\<lambda>cb. and_then (map_error LoadFx (into_aud_with C (lg_rates L) (pr_currency p) (pr_acquired p)
                    (pr_fx_override p) cb))
           (\<lambda>aud. Inr (Some \<lparr>op_parcel = p,
                     op_remaining_as_of = split_adjusted_quantity D remaining splits (pr_date p) (Some cutoff),
                     op_cost_base = aud\<rparr>))))"

definition parcels_at :: "'d ledger \<Rightarrow> date \<Rightarrow> 'd parcel_row list" where
  "parcels_at L cutoff =
     sort_key pr_id (map tr_row (filter (\<lambda>t. tr_type t \<in> {Buy, DRP} \<and> pr_date (tr_row t) \<le> cutoff)
       (lg_trades L)))"

definition load_open_parcels ::
    "'d::{zero,one,plus,minus,times,inverse,linorder} decimal_api \<Rightarrow> chrono_api \<Rightarrow> date \<Rightarrow> 'd ledger \<Rightarrow>
     date option \<Rightarrow> load_error + 'd open_parcel list" where
  "load_open_parcels D C today L as_of =
     (let cutoff = as_of_or_today today as_of
      in map_result (\<lambda>os. map the (filter (\<lambda>o'. o' \<noteq> None) os))
           (try_map (open_parcel_of D C L cutoff) (parcels_at L cutoff)))"

section \<open>Schedules\<close>

definition schedule_order :: "'d open_parcel \<Rightarrow> listing_id \<times> account_id \<times> date \<times> trade_id" where
  "schedule_order p =
     (pr_listing_id (op_parcel p), pr_holding_account_id (op_parcel p), pr_acquired (op_parcel p),
      pr_id (op_parcel p))"

definition holding_of :: "'d open_parcel \<Rightarrow> listing_id \<times> account_id" where
  "holding_of p = (pr_listing_id (op_parcel p), pr_holding_account_id (op_parcel p))"

text \<open>A \<open>BTreeMap\<close> is its entries in key order.\<close>

definition by_holding :: "'d open_parcel list \<Rightarrow> ((listing_id \<times> account_id) \<times> 'd open_parcel list) list"
  where
  "by_holding ps =
     (let sorted_ps = sort_key schedule_order ps
      in map (\<lambda>k. (k, filter (\<lambda>p. holding_of p = k) sorted_ps))
           (sort (remdups (map holding_of sorted_ps))))"

definition holding_quantity :: "'d::{zero,plus} open_parcel list \<Rightarrow> 'd" where
  "holding_quantity ps = dsum (map (\<lambda>p. ua_quantity (op_remaining_as_of p)) ps)"

section \<open>Lemmas\<close>

definition sold_units :: "chrono_api \<Rightarrow> 'd::linordered_field ledger \<Rightarrow> date \<Rightarrow> 'd parcel_row \<Rightarrow> 'd" where
  "sold_units C L cutoff p =
     sum_list (map (sale_val (parcel_splits (lg_splits L) (pr_listing_id p) (pr_id p)) (pr_date p))
       (map uc_quantity (db_units_sold C L (Some cutoff) (pr_id p))))"

definition ledger_ok :: "'d::linordered_field ledger \<Rightarrow> bool" where
  "ledger_ok L \<longleftrightarrow> (\<forall>t \<in> set (lg_trades L). au_ok (pr_quantity (tr_row t))
     \<and> splits_ok (parcel_splits (lg_splits L) (pr_listing_id (tr_row t)) (pr_id (tr_row t))))"

lemma parcels_at_ok:
  "ledger_ok L \<Longrightarrow> p \<in> set (parcels_at L cutoff) \<Longrightarrow>
   au_ok (pr_quantity p) \<and> splits_ok (parcel_splits (lg_splits L) (pr_listing_id p) (pr_id p))"
  by (auto simp: ledger_ok_def parcels_at_def)

lemma map_error_Inr [result_simps]: "map_error f r = Inr a \<longleftrightarrow> r = Inr a"
  by (cases r) auto

lemma mset_partition:
  assumes "distinct ks"
  shows "mset (concat (map (\<lambda>k. filter (\<lambda>x. f x = k) xs) ks)) = mset (filter (\<lambda>x. f x \<in> set ks) xs)"
  using assms
proof (induction ks)
  case (Cons k ks)
  have "mset (filter (\<lambda>x. f x = k) xs) + mset (filter (\<lambda>x. f x \<in> set ks) xs)
      = mset (filter (\<lambda>x. f x \<in> set (k # ks)) xs)"
    using Cons.prems by (induction xs) auto
  with Cons show ?case by simp
qed simp

context decimal_laws
begin

lemma open_parcel_of_val:
  assumes "au_ok (pr_quantity p)"
    and splits: "splits_ok (parcel_splits (lg_splits L) (pr_listing_id p) (pr_id p))"
    and r: "open_parcel_of D C L cutoff p = Inr r"
  shows "(r \<noteq> None \<longleftrightarrow> sold_units C L cutoff p < au_val (pr_quantity p))
    \<and> (\<forall>o'. r = Some o' \<longrightarrow> op_parcel o' = p \<and>
         ua_quantity (op_remaining_as_of o') = (au_val (pr_quantity p) - sold_units C L cutoff p)
           * (cum_factor (parcel_splits (lg_splits L) (pr_listing_id p) (pr_id p)) (Some cutoff)
              / cum_factor (parcel_splits (lg_splits L) (pr_listing_id p) (pr_id p)) (Some (pr_date p))))"
proof -
  define sp where "sp = parcel_splits (lg_splits L) (pr_listing_id p) (pr_id p)"
  define remaining where "remaining = au_sub D (pr_quantity p) (sold_in_acquired_units D (pr_quantity p)
    (map uc_quantity (db_units_sold C L (Some cutoff) (pr_id p))) sp (pr_date p))"
  note sold = sold_in_acquired_val [OF splits assms(1), folded sp_def]
  have rem: "au_ok remaining" "au_val remaining = au_val (pr_quantity p) - sold_units C L cutoff p"
    using assms(1) sold by (simp_all add: remaining_def units_simps sold_units_def sp_def)
  have "r \<noteq> None \<longleftrightarrow> au_less D au_zero remaining"
    and "\<forall>o'. r = Some o' \<longrightarrow> op_parcel o' = p \<and>
      op_remaining_as_of o' = split_adjusted_quantity D remaining sp (pr_date p) (Some cutoff)"
    using r unfolding open_parcel_of_def Let_def sp_def [symmetric] remaining_def [symmetric]
    by (auto simp: result_simps split: if_splits)
  then show ?thesis
    using split_adjusted_val [OF splits [folded sp_def] rem(1), of "pr_date p" "Some cutoff"] rem
    by (simp add: units_simps sp_def)
qed

end

lemma load_exact:
  assumes D: "decimal_laws D" and ok: "ledger_ok L"
    and load: "load_open_parcels D C today L as_of = Inr out"
  shows "map op_parcel out = filter (\<lambda>p. sold_units C L (as_of_or_today today as_of) p < au_val (pr_quantity p))
      (parcels_at L (as_of_or_today today as_of))
    \<and> (\<forall>o' \<in> set out. \<exists>p \<in> set (parcels_at L (as_of_or_today today as_of)). op_parcel o' = p \<and>
         ua_quantity (op_remaining_as_of o') = (au_val (pr_quantity p) - sold_units C L (as_of_or_today today as_of) p)
           * (cum_factor (parcel_splits (lg_splits L) (pr_listing_id p) (pr_id p)) (Some (as_of_or_today today as_of))
              / cum_factor (parcel_splits (lg_splits L) (pr_listing_id p) (pr_id p)) (Some (pr_date p))))"
proof -
  define cutoff where "cutoff = as_of_or_today today as_of"
  obtain os where os: "try_map (open_parcel_of D C L cutoff) (parcels_at L cutoff) = Inr os"
    and out: "out = map the (filter (\<lambda>o'. o' \<noteq> None) os)"
    using load by (auto simp: load_open_parcels_def Let_def result_simps cutoff_def)
  have "try_map (open_parcel_of D C L cutoff) ps = Inr os \<Longrightarrow> set ps \<subseteq> set (parcels_at L cutoff) \<Longrightarrow>
    map op_parcel (map the (filter (\<lambda>o'. o' \<noteq> None) os))
      = filter (\<lambda>p. sold_units C L cutoff p < au_val (pr_quantity p)) ps
    \<and> (\<forall>o' \<in> set (map the (filter (\<lambda>o'. o' \<noteq> None) os)). \<exists>p \<in> set ps. op_parcel o' = p \<and>
         ua_quantity (op_remaining_as_of o') = (au_val (pr_quantity p) - sold_units C L cutoff p)
           * (cum_factor (parcel_splits (lg_splits L) (pr_listing_id p) (pr_id p)) (Some cutoff)
              / cum_factor (parcel_splits (lg_splits L) (pr_listing_id p) (pr_id p)) (Some (pr_date p))))"
    for ps os
  proof (induction ps arbitrary: os)
    case (Cons p ps)
    obtain r rs where r: "open_parcel_of D C L cutoff p = Inr r" "os = r # rs"
      and rs: "try_map (open_parcel_of D C L cutoff) ps = Inr rs"
      using Cons.prems(1) by (auto simp: result_simps)
    have "au_ok (pr_quantity p)" "splits_ok (parcel_splits (lg_splits L) (pr_listing_id p) (pr_id p))"
      using parcels_at_ok [OF ok, of p cutoff] Cons.prems(2) by auto
    note v = decimal_laws.open_parcel_of_val [OF D this r(1)]
    show ?case
      using v Cons.IH [OF rs] Cons.prems(2) unfolding r(2) by (cases r) auto
  qed simp
  note step = this [OF os order_refl]
  show ?thesis unfolding out cutoff_def [symmetric] by (rule step)
qed

section \<open>Properties\<close>


lemma open_parcel_of_total:
  assumes "lg_roc_events L = (\<lambda>_. None)" and "is_aud (pr_currency p)"
  shows "\<exists>r. open_parcel_of D C L cutoff p = Inr r"
proof -
  have "\<exists>cb. adjusted_cost_base D C q u amit [] sp h = Inr cb" for q u amit sp h
    by (cases "draw_down (starting_cost D q u) (sort_key (\<lambda>row. (cba_date row, kind_rank (cba_kind row)))
        (map (amit_row D C q u h) amit @ split_rows q sp h))")
      (simp add: adjusted_cost_base_def reduction_walk_def roc_rows_def)
  moreover have "into_aud_with C rates (pr_currency p) d ov cb = Inr (at_rate 1 cb)" for rates d ov cb
    using assms(2) by (simp add: into_aud_with_def resolve_rate_def)
  ultimately show ?thesis
    unfolding open_parcel_of_def Let_def assms(1) option.case
    by (metis (no_types, lifting) and_then.simps(2) map_error.simps(2))
qed

definition example_buy :: "rat parcel_row" where
  "example_buy = \<lparr>pr_id = 1, pr_listing_id = 7, pr_holding_account_id = 3, pr_date = 10,
     pr_settlement_date = 12, pr_quantity = au_new 100, pr_average_price = 2, pr_brokerage = 10,
     pr_gst_on_brokerage = 1, pr_currency = ''AUD'', pr_fx_rate = 1, pr_spot_fx_rate = None,
     pr_deemed_acquisition_date = None, pr_scrip_action_id = None, pr_demerger_action_id = None,
     pr_transfer_id = None, pr_demerger_head_listing_id = None, pr_registered_from = None\<rparr>"

definition example_ledger :: "rat ledger" where
  "example_ledger =
     \<lparr>lg_trades = [\<lparr>tr_type = Buy, tr_row = example_buy\<rparr>,
        \<lparr>tr_type = Buy, tr_row = example_buy\<lparr>pr_id := 2, pr_quantity := au_new 40\<rparr>\<rparr>,
        \<lparr>tr_type = Sell, tr_row = example_buy\<lparr>pr_id := 5, pr_date := 20, pr_quantity := au_new 80\<rparr>\<rparr>],
      lg_allocations =
        [\<lparr>al_id = 1, al_sale_trade_id = 5, al_purchase_trade_id = 1, al_quantity_allocated = 40\<rparr>,
         \<lparr>al_id = 2, al_sale_trade_id = 5, al_purchase_trade_id = 2, al_quantity_allocated = 40\<rparr>],
      lg_amma_statements = [], lg_amit_adjustments = [], lg_roc_events = (\<lambda>_. None),
      lg_splits = (\<lambda>_. None), lg_rates = (\<lambda>_. None)\<rparr>"


text \<open>Grouping the open parcels by holding loses and repeats none: the holdings are in strictly
  ascending order of listing and account, each group is non-empty and in schedule order, and the
  groups' quantities add up to the quantity of all the parcels.\<close>

theorem by_holding_partition:
  fixes ps :: "'d::linordered_field open_parcel list"
  shows "mset (concat (map snd (by_holding ps))) = mset ps
    \<and> sorted_wrt (<) (map fst (by_holding ps))
    \<and> (\<forall>(k, g) \<in> set (by_holding ps). g \<noteq> [] \<and> sorted (map schedule_order g) \<and> (\<forall>p \<in> set g. holding_of p = k))
    \<and> sum_list (map (holding_quantity \<circ> snd) (by_holding ps)) = holding_quantity ps"
proof -
  define sp ks where "sp = sort_key schedule_order ps" and "ks = sort (remdups (map holding_of sp))"
  have bh: "by_holding ps = map (\<lambda>k. (k, filter (\<lambda>p. holding_of p = k) sp)) ks"
    by (simp add: by_holding_def Let_def sp_def ks_def)
  have ks: "distinct ks" "sorted ks" "set ks = holding_of ` set ps"
    by (simp_all add: ks_def sp_def)
  have all: "mset (concat (map snd (by_holding ps))) = mset ps"
    using mset_partition [OF ks(1), of holding_of sp] ks(3)
    by (simp add: bh comp_def sp_def filter_True)
  moreover have "sorted_wrt (<) (map fst (by_holding ps))"
    using ks(1,2) by (simp add: bh comp_def strict_sorted_iff)
  moreover have "\<forall>(k, g) \<in> set (by_holding ps). g \<noteq> [] \<and> sorted (map schedule_order g)
      \<and> (\<forall>p \<in> set g. holding_of p = k)"
  proof -
    have "sorted (map schedule_order (filter P sp))" for P
      by (simp add: sp_def sorted_filter)
    then show ?thesis using ks(3) by (auto simp: bh sp_def filter_empty_conv)
  qed
  moreover have "sum_list (map (holding_quantity \<circ> snd) (by_holding ps)) = holding_quantity ps"
  proof -
    have "sum_list (map (holding_quantity \<circ> snd) xs) = holding_quantity (concat (map snd xs))"
      for xs :: "((listing_id \<times> account_id) \<times> 'd open_parcel list) list"
      by (induction xs) (simp_all add: holding_quantity_def)
    moreover have "holding_quantity xs = holding_quantity ys" if "mset xs = mset ys"
      for xs ys :: "'d open_parcel list"
      unfolding holding_quantity_def dsum_sum_list
      by (metis that mset_map sum_mset_sum_list)
    ultimately show ?thesis using all by metis
  qed
  ultimately show ?thesis by blast
qed

definition example_open :: "rat open_parcel list" where
  "example_open = map (\<lambda>(p, q). \<lparr>op_parcel = p, op_remaining_as_of = units_at_new q 30,
      op_cost_base = \<lparr>cb_initial_cost = 200, cb_costed_initial_cost = 200, cb_amit_reduction = 0,
        cb_roc_reduction = 0, cb_adjusted = 200\<rparr>\<rparr>)
     [(example_buy\<lparr>pr_id := 2\<rparr>, 40), (example_buy, 60), (example_buy\<lparr>pr_id := 3, pr_listing_id := 4\<rparr>, 5)]"

theorem by_holding_partition_witness:
  "holding_quantity example_open = 105
     \<and> sum_list (map (holding_quantity \<circ> snd) (by_holding example_open)) = 105
     \<and> mset (concat (map snd (by_holding example_open))) = mset example_open"
proof -
  have "holding_quantity example_open = 105"
    by (simp add: holding_quantity_def example_open_def units_at_new_def dsum_def)
  with by_holding_partition [of example_open] show ?thesis by simp
qed

end
