(* ===== verification/Trades.thy ===== *)
theory Trades
  imports OpenParcels
begin

text \<open>
  \<open>src/src/entities/trade/\<close>: the stored trade (\<open>model.rs\<close>), the checks that the trade and
  Sell write paths share (\<open>checks.rs\<close>), the operations a trade may belong to
  (\<open>provenance.rs\<close>) and the settlement dates derived from an exchange's calendar
  (\<open>settlement.rs\<close>).
\<close>

section \<open>The stored trade\<close>

definition is_acquisition :: "trade_type \<Rightarrow> bool" where
  "is_acquisition t = (case t of Buy \<Rightarrow> True | DRP \<Rightarrow> True | Sell \<Rightarrow> False)"

datatype settlement_date_source = Computed | Stated | Unrecorded

definition is_recomputable :: "settlement_date_source \<Rightarrow> bool" where
  "is_recomputable s \<longleftrightarrow> s = Computed"

record 'd stored_trade =
  st_id :: trade_id
  st_trade_type :: trade_type
  st_date :: date
  st_settlement_date :: date
  st_settlement_date_source :: settlement_date_source
  st_listing_id :: listing_id
  st_average_price :: 'd
  st_quantity :: 'd
  st_currency :: currency_code
  st_brokerage :: 'd
  st_gst_on_brokerage :: 'd
  st_brokerage_includes_gst :: bool
  st_brokerage_currency :: currency_code
  st_fx_rate :: 'd
  st_spot_fx_rate :: "'d option"
  st_contract_note_ref :: "string option"
  st_statement_total :: "'d option"
  st_residual_brought_forward :: 'd
  st_residual_carried_forward :: 'd
  st_residual_paid_out :: 'd
  st_rights_action_id :: "action_id option"
  st_buyback_action_id :: "action_id option"
  st_scrip_action_id :: "action_id option"
  st_demerger_action_id :: "action_id option"
  st_deemed_acquisition_date :: "date option"
  st_holding_account_id :: account_id
  st_transfer_id :: "int option"
  st_ess_statement_id :: "int option"
  st_worthless_action_id :: "action_id option"
  st_cash_in_lieu_action_id :: "action_id option"
  st_inheritance_id :: "int option"

text \<open>A GST-inclusive entry is stored split and handed out as it was entered.\<close>

definition present :: "('d::plus) stored_trade \<Rightarrow> 'd stored_trade" where
  "present t =
     (if st_brokerage_includes_gst t
      then t\<lparr>st_brokerage := st_brokerage t + st_gst_on_brokerage t\<rparr> else t)"

definition st_fx_override :: "'d stored_trade \<Rightarrow> 'd fx_override" where
  "st_fx_override t = fx_override_from_trade (st_fx_rate t) (st_spot_fx_rate t)"

section \<open>Provenance\<close>

text \<open>The refusals of the trade write path that name the operation a trade belongs to.\<close>

datatype edit_refusal =
    EssVestTrade
  | InheritedParcelTrade
  | RightsExerciseTrade
  | BuyBackTrade
  | ScripExchangeTrade
  | DemergerTrade
  | TransferTrade

record trade_provenance =
  tp_column :: string
  tp_edit_refusal :: "edit_refusal option"
  tp_deleted_alone :: bool

definition trade_provenances :: "trade_provenance list" where
  "trade_provenances =
     [\<lparr>tp_column = ''ess_statement_id'', tp_edit_refusal = Some EssVestTrade, tp_deleted_alone = False\<rparr>,
      \<lparr>tp_column = ''inheritance_id'', tp_edit_refusal = Some InheritedParcelTrade, tp_deleted_alone = False\<rparr>,
      \<lparr>tp_column = ''rights_action_id'', tp_edit_refusal = Some RightsExerciseTrade, tp_deleted_alone = True\<rparr>,
      \<lparr>tp_column = ''buyback_action_id'', tp_edit_refusal = Some BuyBackTrade, tp_deleted_alone = True\<rparr>,
      \<lparr>tp_column = ''scrip_action_id'', tp_edit_refusal = Some ScripExchangeTrade, tp_deleted_alone = False\<rparr>,
      \<lparr>tp_column = ''demerger_action_id'', tp_edit_refusal = Some DemergerTrade, tp_deleted_alone = False\<rparr>,
      \<lparr>tp_column = ''transfer_id'', tp_edit_refusal = Some TransferTrade, tp_deleted_alone = False\<rparr>,
      \<lparr>tp_column = ''worthless_action_id'', tp_edit_refusal = None, tp_deleted_alone = False\<rparr>,
      \<lparr>tp_column = ''cash_in_lieu_action_id'', tp_edit_refusal = None, tp_deleted_alone = False\<rparr>]"

text \<open>The link a column of the table holds, and the first one set: the \<open>CASE\<close> of
  \<open>provenance_column_sql\<close> over the rows of the list.\<close>

definition column_set :: "'d stored_trade \<Rightarrow> string \<Rightarrow> bool" where
  "column_set t c \<longleftrightarrow>
     (if c = ''ess_statement_id'' then st_ess_statement_id t \<noteq> None
      else if c = ''inheritance_id'' then st_inheritance_id t \<noteq> None
      else if c = ''rights_action_id'' then st_rights_action_id t \<noteq> None
      else if c = ''buyback_action_id'' then st_buyback_action_id t \<noteq> None
      else if c = ''scrip_action_id'' then st_scrip_action_id t \<noteq> None
      else if c = ''demerger_action_id'' then st_demerger_action_id t \<noteq> None
      else if c = ''transfer_id'' then st_transfer_id t \<noteq> None
      else if c = ''worthless_action_id'' then st_worthless_action_id t \<noteq> None
      else if c = ''cash_in_lieu_action_id'' then st_cash_in_lieu_action_id t \<noteq> None
      else False)"

definition provenance_column :: "'d stored_trade \<Rightarrow> string option" where
  "provenance_column t = find (column_set t) (map tp_column trade_provenances)"

definition provenance_named :: "string \<Rightarrow> trade_provenance option" where
  "provenance_named c = find (\<lambda>p. tp_column p = c) trade_provenances"

definition operation_written :: "trade_id list \<Rightarrow> 'd stored_trade \<Rightarrow> bool" where
  "operation_written fee_sales t \<longleftrightarrow>
     list_ex (\<lambda>p. column_set t (tp_column p)) trade_provenances \<or> st_id t \<in> set fee_sales"

section \<open>The shared checks\<close>

definition split_gst_inclusive :: "'d::{minus,inverse} decimal_api \<Rightarrow> 'd \<Rightarrow> 'd \<times> 'd" where
  "split_gst_inclusive D amount =
     (let gst = round_with D MidpointAwayFromZero 2 (amount / dnew D 11 0)
      in (amount - gst, gst))"

definition resolve_brokerage ::
    "'d::{minus,inverse} decimal_api \<Rightarrow> bool \<Rightarrow> 'd \<Rightarrow> 'd \<Rightarrow> 'd \<times> 'd" where
  "resolve_brokerage D includes_gst brokerage gst_on_brokerage =
     (if includes_gst then split_gst_inclusive D brokerage else (brokerage, gst_on_brokerage))"

datatype spot_fx_rate_error = NotPositive | AudTrade

definition validate_spot_fx_rate ::
    "currency_code \<Rightarrow> 'd::{zero,ord} option \<Rightarrow> spot_fx_rate_error + unit" where
  "validate_spot_fx_rate currency spot =
     (case spot of None \<Rightarrow> Inr ()
      | Some rate \<Rightarrow>
          if rate \<le> 0 then Inl NotPositive
          else if is_aud currency then Inl AudTrade
          else Inr ())"

definition cgt_start :: "chrono_api \<Rightarrow> date" where
  "cgt_start C = from_ymd C 1985 9 20"

datatype 'd amounts_error =
    QuantityNotPositive
  | PriceNegative
  | BrokerageNegative
  | GstNegative
  | BrokerageCurrencyMismatch
  | FxRateNotPositive
  | SettlementBeforeTrade
  | PreCgtDate
  | FutureDate
  | UnrepresentableAmounts "'d unrepresentable_cost"

record 'd amounts_check =
  ac_quantity :: 'd
  ac_average_price :: 'd
  ac_brokerage :: 'd
  ac_gst_on_brokerage :: 'd
  ac_fx_rate :: 'd
  ac_date :: date
  ac_settlement_date :: date
  ac_currency :: currency_code
  ac_brokerage_currency :: currency_code

definition eq_ignore_ascii_case :: "string \<Rightarrow> string \<Rightarrow> bool" where
  "eq_ignore_ascii_case a b \<longleftrightarrow> map ascii_upper a = map ascii_upper b"

definition trade_check_amounts ::
    "'d::{zero,ord} decimal_api \<Rightarrow> chrono_api \<Rightarrow> date \<Rightarrow> 'd amounts_check \<Rightarrow> 'd amounts_error + unit" where
  "trade_check_amounts D C today c =
     (if ac_quantity c \<le> 0 then Inl QuantityNotPositive
      else if ac_average_price c < 0 then Inl PriceNegative
      else if ac_brokerage c < 0 then Inl BrokerageNegative
      else if ac_gst_on_brokerage c < 0 then Inl GstNegative
      else if \<not> eq_ignore_ascii_case (ac_currency c) (ac_brokerage_currency c)
        then Inl BrokerageCurrencyMismatch
      else if ac_fx_rate c \<le> 0 then Inl FxRateNotPositive
      else if ac_settlement_date c < ac_date c then Inl SettlementBeforeTrade
      else if ac_date c < cgt_start C then Inl PreCgtDate
      else if today < ac_date c then Inl FutureDate
      else map_error UnrepresentableAmounts
        (map_result (\<lambda>_. ())
          (checked_cost_base D
            [CostProduct (''average_price'', ac_average_price c) (''quantity'', ac_quantity c),
             CostAmount ''brokerage'' (ac_brokerage c),
             CostAmount ''gst_on_brokerage'' (ac_gst_on_brokerage c)])))"

record 'd trade_amounts =
  ta_trade_type :: trade_type
  ta_quantity :: 'd
  ta_average_price :: 'd
  ta_brokerage :: 'd
  ta_gst_on_brokerage :: 'd

definition st_amounts :: "'d stored_trade \<Rightarrow> 'd trade_amounts" where
  "st_amounts t =
     \<lparr>ta_trade_type = st_trade_type t, ta_quantity = st_quantity t,
      ta_average_price = st_average_price t, ta_brokerage = st_brokerage t,
      ta_gst_on_brokerage = st_gst_on_brokerage t\<rparr>"

definition net_transaction_total :: "'d::{plus,minus,times} trade_amounts \<Rightarrow> 'd" where
  "net_transaction_total a =
     (let costs = ta_brokerage a + ta_gst_on_brokerage a
      in case ta_trade_type a of
           Buy \<Rightarrow> ta_quantity a * ta_average_price a + costs
         | DRP \<Rightarrow> ta_quantity a * ta_average_price a + costs
         | Sell \<Rightarrow> ta_quantity a * ta_average_price a - costs)"

datatype 'd statement_total_error = TotalMismatch 'd

definition check_statement_total ::
    "'d::{plus,minus,times} decimal_api \<Rightarrow> 'd option \<Rightarrow> 'd trade_amounts \<Rightarrow> 'd statement_total_error + unit"
  where
  "check_statement_total D statement_total amounts =
     (case statement_total of None \<Rightarrow> Inr ()
      | Some tot \<Rightarrow>
          (let expected = net_transaction_total amounts;
               cent_rounded = round_with D MidpointAwayFromZero 2 expected
           in if tot \<noteq> expected \<and> tot \<noteq> cent_rounded then Inl (TotalMismatch expected)
              else Inr ()))"

section \<open>Settlement dates\<close>

datatype settlement_error = DateOverflow date int

definition date_max :: "chrono_api \<Rightarrow> date" where
  "date_max C = from_ymd C 262143 12 31"

definition checked_next_day :: "chrono_api \<Rightarrow> date \<Rightarrow> date option" where
  "checked_next_day C d = (if d < date_max C then Some (d + 1) else None)"

definition is_weekend :: "chrono_api \<Rightarrow> date \<Rightarrow> bool" where
  "is_weekend C d \<longleftrightarrow> weekday_of C d = 5 \<or> weekday_of C d = 6"

text \<open>The loop of \<open>add_business_days\<close>: it ends because the dates run out.\<close>

function business_days_loop ::
    "chrono_api \<Rightarrow> date set \<Rightarrow> date \<Rightarrow> int \<Rightarrow> date \<Rightarrow> int \<Rightarrow> settlement_error + date" where
  "business_days_loop C holidays date business_days result remaining =
     (if remaining \<le> 0 then Inr result
      else case checked_next_day C result of
             None \<Rightarrow> Inl (DateOverflow date business_days)
           | Some day \<Rightarrow>
               business_days_loop C holidays date business_days day
                 (if \<not> is_weekend C day \<and> day \<notin> holidays then remaining - 1 else remaining))"
  by pat_completeness auto
termination
  by (relation "measure (\<lambda>(C, _, _, _, result, _). nat (date_max C - result))")
    (auto simp: checked_next_day_def split: if_splits)

declare business_days_loop.simps [simp del]

definition add_business_days ::
    "chrono_api \<Rightarrow> date \<Rightarrow> int \<Rightarrow> date set \<Rightarrow> settlement_error + date" where
  "add_business_days C date business_days holidays =
     business_days_loop C holidays date business_days date business_days"

text \<open>
  The calendar a settlement is derived from: the settlement period of the listing's exchange
  (none for a listing with no exchange) and its holidays. A listing that does not exist has no
  calendar and is refused.
\<close>

record calendar =
  ca_settlement_days :: "int option"
  ca_holidays :: "date set"

datatype settlement_failure = Settlement settlement_error | NoSuchListing listing_id

type_synonym calendars = "listing_id \<rightharpoonup> calendar"

definition auto_settlement_date_on ::
    "chrono_api \<Rightarrow> calendars \<Rightarrow> listing_id \<Rightarrow> date \<Rightarrow> settlement_failure + date" where
  "auto_settlement_date_on C cals listing date =
     (case cals listing of
        None \<Rightarrow> Inl (NoSuchListing listing)
      | Some ca \<Rightarrow>
          (case ca_settlement_days ca of
             None \<Rightarrow> Inr date
           | Some days \<Rightarrow> map_error Settlement (add_business_days C date days (ca_holidays ca))))"

record settlement =
  se_settles :: date
  se_source :: settlement_date_source

definition settlement_stated :: "date \<Rightarrow> settlement" where
  "settlement_stated d = \<lparr>se_settles = d, se_source = Stated\<rparr>"

definition resolve_on ::
    "chrono_api \<Rightarrow> calendars \<Rightarrow> 'd stored_trade list \<Rightarrow> trade_id option \<Rightarrow> listing_id \<Rightarrow> date \<Rightarrow>
     date option \<Rightarrow> settlement_failure + settlement" where
  "resolve_on C cals trades trade_id listing date supplied =
     (case supplied of
        None \<Rightarrow> map_result (\<lambda>d. \<lparr>se_settles = d, se_source = Computed\<rparr>)
                  (auto_settlement_date_on C cals listing date)
      | Some supplied \<Rightarrow>
          Inr (case find (\<lambda>t. Some (st_id t) = trade_id) trades of
                 Some stored \<Rightarrow>
                   if st_settlement_date stored = supplied
                   then \<lparr>se_settles = supplied, se_source = st_settlement_date_source stored\<rparr>
                   else settlement_stated supplied
               | None \<Rightarrow> settlement_stated supplied))"

text \<open>
  The loop of \<open>run_recompute\<close>: every computed date is derived again over the calendar as it stands; the
  candidates are read before the first update, and the first failure undoes the run.
\<close>

definition recompute_step ::
    "chrono_api \<Rightarrow> calendars \<Rightarrow> 'd stored_trade list \<Rightarrow> 'd stored_trade \<Rightarrow>
     settlement_failure + 'd stored_trade list" where
  "recompute_step C cals rows t =
     and_then (auto_settlement_date_on C cals (st_listing_id t) (st_date t)) (\<lambda>wanted.
       Inr (if wanted = st_settlement_date t then rows
            else map (\<lambda>r. if st_id r = st_id t then r\<lparr>st_settlement_date := wanted\<rparr> else r) rows))"

definition recompute_settlements ::
    "chrono_api \<Rightarrow> calendars \<Rightarrow> 'd stored_trade list \<Rightarrow> settlement_failure + 'd stored_trade list" where
  "recompute_settlements C cals rows =
     try_foldl (recompute_step C cals) rows
       (filter (is_recomputable \<circ> st_settlement_date_source) (sort_key st_id rows))"

section \<open>Lemmas\<close>

definition trading_day :: "chrono_api \<Rightarrow> date set \<Rightarrow> date \<Rightarrow> bool" where
  "trading_day C holidays d \<longleftrightarrow> \<not> is_weekend C d \<and> d \<notin> holidays"

definition trading_days :: "chrono_api \<Rightarrow> date set \<Rightarrow> date \<Rightarrow> date \<Rightarrow> date set" where
  "trading_days C holidays after til = {d. after < d \<and> d \<le> til \<and> trading_day C holidays d}"

lemma trading_days_finite: "finite (trading_days C holidays a b)"
  by (rule finite_subset [of _ "{a<..b}"]) (auto simp: trading_days_def)

lemma trading_days_empty [simp]: "trading_days C holidays a a = {}"
  by (auto simp: trading_days_def)

lemma trading_days_first:
  "a < b \<Longrightarrow> trading_days C holidays a b
     = (if trading_day C holidays (a + 1) then {a + 1} else {}) \<union> trading_days C holidays (a + 1) b"
  by (auto simp: trading_days_def) (metis add1_zle_eq le_less)

lemma card_trading_days:
  "a < b \<Longrightarrow> int (card (trading_days C holidays a b))
     = (if trading_day C holidays (a + 1) then 1 else 0) + int (card (trading_days C holidays (a + 1) b))"
  using trading_days_finite [of C holidays "a + 1" b]
  by (subst trading_days_first) (auto simp: trading_days_def)

lemma loop_step:
  "0 < remaining \<Longrightarrow> business_days_loop C holidays date n result remaining =
     (if result < date_max C
      then business_days_loop C holidays date n (result + 1)
             (if trading_day C holidays (result + 1) then remaining - 1 else remaining)
      else Inl (DateOverflow date n))"
  by (subst business_days_loop.simps) (simp add: checked_next_day_def trading_day_def)

lemma loop_done [simp]:
  "remaining \<le> 0 \<Longrightarrow> business_days_loop C holidays date n result remaining = Inr result"
  by (subst business_days_loop.simps) simp

lemma loop_exact:
  assumes "0 \<le> remaining"
  shows "case business_days_loop C holidays date n result remaining of
      Inr s \<Rightarrow> result \<le> s \<and> int (card (trading_days C holidays result s)) = remaining
        \<and> (if remaining = 0 then s = result else trading_day C holidays s)
    | Inl e \<Rightarrow> e = DateOverflow date n
        \<and> int (card (trading_days C holidays result (date_max C))) < remaining"
  using assms
proof (induction C holidays date n result remaining rule: business_days_loop.induct)
  case (1 C holidays date n result remaining)
  show ?case
  proof (cases "0 < remaining")
    case True
    let ?left = "if trading_day C holidays (result + 1) then remaining - 1 else remaining"
    show ?thesis
    proof (cases "result < date_max C")
      case Lt: True
      have step: "business_days_loop C holidays date n result remaining
          = business_days_loop C holidays date n (result + 1) ?left"
        using loop_step [OF True, of C holidays date n result] Lt by simp
      have "checked_next_day C result = Some (result + 1)" using Lt by (simp add: checked_next_day_def)
      then have IH: "case business_days_loop C holidays date n (result + 1) ?left of
          Inr s \<Rightarrow> result + 1 \<le> s \<and> int (card (trading_days C holidays (result + 1) s)) = ?left
            \<and> (if ?left = 0 then s = result + 1 else trading_day C holidays s)
        | Inl e \<Rightarrow> e = DateOverflow date n
            \<and> int (card (trading_days C holidays (result + 1) (date_max C))) < ?left"
        using "1.IH" [of "result + 1"] True unfolding trading_day_def [symmetric] by simp
      show ?thesis unfolding step using IH True Lt card_trading_days [of result _ C holidays]
        by (auto split: sum.splits if_splits)
    next
      case False
      then have "trading_days C holidays result (date_max C) = {}" by (auto simp: trading_days_def)
      then show ?thesis using loop_step [OF True, of C holidays date n result] False True by simp
    qed
  next
    case False
    then show ?thesis using 1 by simp
  qed
qed

lemma loop_relabel_error:
  "business_days_loop C holidays date n result remaining
     = map_error (\<lambda>_. DateOverflow date n) (business_days_loop C holidays date' n' result remaining)"
proof (induction C holidays date n result remaining rule: business_days_loop.induct)
  case (1 C holidays date n result remaining)
  show ?case
  proof (cases "0 < remaining \<and> result < date_max C")
    case True
    then show ?thesis
      using "1.IH" [of "result + 1"] loop_step [of remaining C holidays _ _ result]
      by (simp add: checked_next_day_def trading_day_def)
  next
    case False
    then show ?thesis using loop_step [of remaining C holidays _ _ result] by (cases "0 < remaining") auto
  qed
qed

lemma loop_relabel:
  "business_days_loop C holidays date n result remaining = Inr s \<Longrightarrow>
   business_days_loop C holidays date' n' result remaining = Inr s"
  by (subst loop_relabel_error [where date' = date and n' = n]) simp

lemma loop_compose:
  assumes "0 \<le> k" and "0 \<le> remaining"
    and "business_days_loop C holidays date n result remaining = Inr s"
  shows "business_days_loop C holidays date n result (remaining + k)
    = business_days_loop C holidays date n s k"
  using assms
proof (induction C holidays date n result remaining rule: business_days_loop.induct)
  case (1 C holidays date n result remaining)
  show ?case
  proof (cases "0 < remaining")
    case True
    then have lt: "result < date_max C"
      using 1(4) loop_step [OF True, of C holidays date n result] by (auto split: if_splits)
    show ?thesis
      using "1.IH" [of "result + 1"] True lt "1.prems" loop_step [of remaining C holidays date n result]
        loop_step [of "remaining + k" C holidays date n result]
      by (auto simp: checked_next_day_def trading_day_def algebra_simps split: if_splits)
  qed (use 1 in simp)
qed

lemma recompute_id_rows: "recompute_step C cals rows t = Inr rows' \<Longrightarrow> map st_id rows' = map st_id rows"
  by (auto simp: recompute_step_def result_simps split: if_splits)

definition redated :: "chrono_api \<Rightarrow> calendars \<Rightarrow> 'd stored_trade \<Rightarrow> 'd stored_trade" where
  "redated C cals t =
     (case auto_settlement_date_on C cals (st_listing_id t) (st_date t) of
        Inr d \<Rightarrow> t\<lparr>st_settlement_date := d\<rparr> | Inl _ \<Rightarrow> t)"

lemma redated_simps [simp]:
  "st_id (redated C cals t) = st_id t"
  "st_date (redated C cals t) = st_date t"
  "st_listing_id (redated C cals t) = st_listing_id t"
  "st_settlement_date_source (redated C cals t) = st_settlement_date_source t"
  by (simp_all add: redated_def split: sum.splits)

lemma recompute_step_row:
  assumes step: "recompute_step C cals rows t = Inr rows'" and t: "t \<in> set rows" and ids: "distinct (map st_id rows)"
  shows "(\<exists>d. auto_settlement_date_on C cals (st_listing_id t) (st_date t) = Inr d)
    \<and> rows' = map (\<lambda>r. if r = t then redated C cals r else r) rows"
proof -
  obtain d where d: "auto_settlement_date_on C cals (st_listing_id t) (st_date t) = Inr d"
    and rows': "rows' = (if d = st_settlement_date t then rows
      else map (\<lambda>r. if st_id r = st_id t then r\<lparr>st_settlement_date := d\<rparr> else r) rows)"
    using step by (auto simp: recompute_step_def result_simps)
  have same: "st_id r = st_id t \<longleftrightarrow> r = t" if "r \<in> set rows" for r
    using that t ids by (auto simp: distinct_map inj_on_def)
  have "rows' = map (\<lambda>r. if r = t then r\<lparr>st_settlement_date := d\<rparr> else r) rows"
    unfolding rows' using same by (auto simp: map_idI intro!: map_cong)
  also have "\<dots> = map (\<lambda>r. if r = t then redated C cals r else r) rows"
    using d by (auto simp: redated_def)
  finally show ?thesis using d by blast
qed

lemma recompute_fold:
  assumes "try_foldl (recompute_step C cals) rows cs = Inr rows'" and "set cs \<subseteq> set rows"
    and "distinct (map st_id rows)" and "distinct (map st_id cs)"
  shows "(\<forall>t \<in> set cs. \<exists>d. auto_settlement_date_on C cals (st_listing_id t) (st_date t) = Inr d)
    \<and> rows' = map (\<lambda>r. if r \<in> set cs then redated C cals r else r) rows"
  using assms
proof (induction cs arbitrary: rows)
  case (Cons c cs)
  obtain rows1 where s: "recompute_step C cals rows c = Inr rows1"
    and rest: "try_foldl (recompute_step C cals) rows1 cs = Inr rows'"
    using Cons.prems(1) by (auto simp: result_simps)
  have c: "(\<exists>d. auto_settlement_date_on C cals (st_listing_id c) (st_date c) = Inr d)"
    and rows1: "rows1 = map (\<lambda>r. if r = c then redated C cals r else r) rows"
    using recompute_step_row [OF s] Cons.prems(2,3) by auto
  have "c \<notin> set cs" using Cons.prems(4) by auto
  have sub: "set cs \<subseteq> set rows1" using Cons.prems(2) \<open>c \<notin> set cs\<close> by (auto simp: rows1)
  have ids: "distinct (map st_id rows1)"
    using Cons.prems(3) recompute_id_rows [OF s] by simp
  have d: "distinct (map st_id cs)" using Cons.prems(4) by simp
  have new: "redated C cals c \<notin> set cs"
  proof
    assume "redated C cals c \<in> set cs"
    then have "st_id (redated C cals c) \<in> set (map st_id cs)" unfolding set_map by (rule imageI)
    then show False using Cons.prems(4) by simp
  qed
  note IH = Cons.IH [OF rest sub ids d]
  have "rows' = map (\<lambda>r. if r \<in> set cs then redated C cals r else r) rows1" using IH by simp
  then have "rows' = map (\<lambda>r. if r \<in> set (c # cs) then redated C cals r else r) rows"
    using new by (auto simp: rows1)
  then show ?case using IH c by simp
qed (simp add: map_idI)

lemma recompute_nothing:
  assumes "\<And>t. t \<in> set cs \<Longrightarrow> auto_settlement_date_on C cals (st_listing_id t) (st_date t) = Inr (st_settlement_date t)"
  shows "try_foldl (recompute_step C cals) rows cs = Inr rows"
  using assms by (induction cs) (simp_all add: recompute_step_def)

lemma trade_check_amounts_ok_iff:
  "trade_check_amounts D C today c = Inr () \<longleftrightarrow>
     0 < ac_quantity c \<and> 0 \<le> ac_average_price c \<and> 0 \<le> ac_brokerage c \<and> 0 \<le> ac_gst_on_brokerage c
     \<and> eq_ignore_ascii_case (ac_currency c) (ac_brokerage_currency c) \<and> 0 < ac_fx_rate c
     \<and> ac_date c \<le> ac_settlement_date c \<and> cgt_start C \<le> ac_date c \<and> ac_date c \<le> today
     \<and> (\<exists>cb. checked_cost_base D
           [CostProduct (''average_price'', ac_average_price c) (''quantity'', ac_quantity c),
            CostAmount ''brokerage'' (ac_brokerage c), CostAmount ''gst_on_brokerage'' (ac_gst_on_brokerage c)] = Inr cb)"
  for c :: "('d::linordered_field) amounts_check"
  by (auto simp: trade_check_amounts_def not_le not_less result_simps map_error_Inr)

section \<open>Properties\<close>

text \<open>C23: T+n settlement over any exchange calendar returns, and lands exactly on the n-th
  trading day after the trade (on the trade's own day for T+0), or reports the overflow exactly
  when fewer than n trading days are left before the last date there is; and settling in two
  stages is settling once.\<close>

theorem settlement_is_nth_trading_day:
  assumes "0 \<le> n" and "0 \<le> k"
  shows "(case add_business_days C date n holidays of
      Inr s \<Rightarrow> date \<le> s \<and> int (card (trading_days C holidays date s)) = n
        \<and> (if n = 0 then s = date else trading_day C holidays s)
        \<and> add_business_days C date (n + k) holidays
            = map_error (\<lambda>_. DateOverflow date (n + k)) (add_business_days C s k holidays)
    | Inl e \<Rightarrow> e = DateOverflow date n \<and> int (card (trading_days C holidays date (date_max C))) < n)"
proof -
  have "add_business_days C date (n + k) holidays
      = map_error (\<lambda>_. DateOverflow date (n + k)) (add_business_days C s k holidays)"
    if "add_business_days C date n holidays = Inr s" for s
    using loop_compose [OF assms(2,1) loop_relabel [OF that [unfolded add_business_days_def]]]
    unfolding add_business_days_def by (simp add: loop_relabel_error)
  then show ?thesis
    using loop_exact [OF assms(1), where C = C and holidays = holidays and date = date and n = n
        and result = date]
    unfolding add_business_days_def by (auto split: sum.splits)
qed

text \<open>Thursday 4 July 2024, T+2 with a holiday on the Monday: settled on Tuesday the 9th.\<close>

theorem settlement_is_nth_trading_day_witness:
  "add_business_days gregorian 739071 2 {739075} = Inr 739076
     \<and> int (card (trading_days gregorian {739075} 739071 739076)) = 2"
proof -
  have far: "739076 \<le> date_max gregorian" by code_simp
  have "add_business_days gregorian 739071 2 {739075} = Inr 739076"
    using far unfolding add_business_days_def
    by (subst business_days_loop.simps, simp add: checked_next_day_def is_weekend_def)+
  with settlement_is_nth_trading_day [where n = 2 and k = 0 and C = gregorian and date = 739071
      and holidays = "{739075}"] show ?thesis by simp
qed

text \<open>C35: the recompute job is all or nothing and touches only what it may: every trade whose
  settlement date the server computed is left with the date its listing's calendar gives today,
  every other trade is untouched, and running it again changes nothing.\<close>

theorem recompute_is_idempotent:
  assumes "recompute_settlements C cals rows = Inr rows'" and "distinct (map st_id rows)"
  shows "rows' = map (\<lambda>t. if st_settlement_date_source t = Computed then redated C cals t else t) rows
    \<and> (\<forall>t \<in> set rows'. st_settlement_date_source t = Computed \<longrightarrow>
         auto_settlement_date_on C cals (st_listing_id t) (st_date t) = Inr (st_settlement_date t))
    \<and> recompute_settlements C cals rows' = Inr rows'"
proof -
  let ?cs = "filter (is_recomputable \<circ> st_settlement_date_source) (sort_key st_id rows)"
  have "distinct (map st_id (sort_key st_id rows))"
    using assms(2) by (simp add: distinct_map inj_on_def)
  then have "distinct (map st_id ?cs)" by (rule distinct_map_filter)
  note fold = recompute_fold [OF assms(1) [unfolded recompute_settlements_def] _ assms(2) this]
  have rows': "rows' = map (\<lambda>t. if st_settlement_date_source t = Computed then redated C cals t else t) rows"
    using fold by (auto simp: is_recomputable_def)
  have set: "auto_settlement_date_on C cals (st_listing_id t) (st_date t) = Inr (st_settlement_date t)"
    if t: "t \<in> set rows'" "st_settlement_date_source t = Computed" for t
  proof -
    obtain r where r: "r \<in> set rows" "t = redated C cals r" "st_settlement_date_source r = Computed"
      using t by (auto simp: rows' split: if_splits)
    then obtain d where "auto_settlement_date_on C cals (st_listing_id r) (st_date r) = Inr d"
      using fold by (auto simp: is_recomputable_def)
    then show ?thesis by (simp add: r redated_def)
  qed
  have "recompute_settlements C cals rows' = Inr rows'"
    unfolding recompute_settlements_def
    by (rule recompute_nothing) (auto simp: is_recomputable_def intro: set)
  with rows' set show ?thesis by blast
qed

text \<open>A GST-inclusive brokerage entry survives the store: what is stored splits it into two
  parts that are never negative and are within the amount paid, and reading the trade back gives
  the amount that was entered, whichever way it was entered.\<close>

theorem brokerage_entry_roundtrip:
  assumes D: "decimal_laws D" and "resolve_brokerage D incl amount gst = (b, g)"
  shows "st_brokerage (present (t\<lparr>st_brokerage := b, st_gst_on_brokerage := g, st_brokerage_includes_gst := incl\<rparr>)) = amount
    \<and> (incl \<and> 0 \<le> amount \<and> on_grid 2 amount \<longrightarrow> 0 \<le> b \<and> 0 \<le> g \<and> g \<le> amount \<and> on_grid 2 b \<and> on_grid 2 g)"
proof -
  have "0 \<le> b \<and> 0 \<le> g \<and> g \<le> amount \<and> on_grid 2 b \<and> on_grid 2 g"
    if "incl" and amount: "0 \<le> amount" "on_grid 2 amount"
  proof -
    have g: "g = round_with D MidpointAwayFromZero 2 (amount / 11)" and b: "b = amount - g"
      using assms(2) \<open>incl\<close> by (simp_all add: resolve_brokerage_def split_gst_inclusive_def Let_def
          decimal_laws.dnew_0_scale [OF D])
    have "g \<le> round_with D MidpointAwayFromZero 2 amount"
      unfolding g by (rule decimal_laws.round_mono [OF D]) (use amount(1) in simp)
    then have "g \<le> amount" by (simp add: decimal_laws.round_fix [OF D amount(2)])
    moreover have "0 \<le> g" unfolding g by (rule decimal_laws.round_nonneg [OF D]) (use amount(1) in simp)
    moreover have "on_grid 2 g" unfolding g by (rule decimal_laws.round_grid [OF D])
    ultimately show ?thesis using on_grid_diff [OF amount(2)] by (simp add: b)
  qed
  moreover have "st_brokerage (present (t\<lparr>st_brokerage := b, st_gst_on_brokerage := g, st_brokerage_includes_gst := incl\<rparr>)) = amount"
    using assms(2) by (auto simp: present_def resolve_brokerage_def split_gst_inclusive_def Let_def)
  ultimately show ?thesis by blast
qed

text \<open>The core figures of a trade are accepted exactly when each of them is in range and what
  the parcel cost can be represented; an accepted trade's cost is then exactly its consideration
  plus the incidental costs, and is never negative.\<close>

theorem accepted_amounts:
  assumes D: "decimal_laws D"
  shows "trade_check_amounts D C today c = Inr () \<longleftrightarrow>
     0 < ac_quantity c \<and> 0 \<le> ac_average_price c \<and> 0 \<le> ac_brokerage c \<and> 0 \<le> ac_gst_on_brokerage c
     \<and> eq_ignore_ascii_case (ac_currency c) (ac_brokerage_currency c) \<and> 0 < ac_fx_rate c
     \<and> ac_date c \<le> ac_settlement_date c \<and> cgt_start C \<le> ac_date c \<and> ac_date c \<le> today
     \<and> 0 \<le> ac_average_price c * ac_quantity c + ac_brokerage c + ac_gst_on_brokerage c
     \<and> checked_cost_base D
           [CostProduct (''average_price'', ac_average_price c) (''quantity'', ac_quantity c),
            CostAmount ''brokerage'' (ac_brokerage c), CostAmount ''gst_on_brokerage'' (ac_gst_on_brokerage c)]
       = Inr (ac_average_price c * ac_quantity c + ac_brokerage c + ac_gst_on_brokerage c)"
proof -
  let ?cost = "ac_average_price c * ac_quantity c + ac_brokerage c + ac_gst_on_brokerage c"
  have cost: "cb = ?cost" if "checked_cost_base D
      [CostProduct (''average_price'', ac_average_price c) (''quantity'', ac_quantity c),
       CostAmount ''brokerage'' (ac_brokerage c), CostAmount ''gst_on_brokerage'' (ac_gst_on_brokerage c)] = Inr cb" for cb
    using that by (auto simp: checked_cost_base_def result_simps bind_eq_Some_conv
        dest!: decimal_laws.checked_exact [OF D] split: option.splits)
  have "0 \<le> ?cost" if "0 < ac_quantity c" "0 \<le> ac_average_price c" "0 \<le> ac_brokerage c" "0 \<le> ac_gst_on_brokerage c"
    using that by (simp add: add_nonneg_nonneg)
  then show ?thesis unfolding trade_check_amounts_ok_iff using cost by blast
qed

definition example_check :: "rat amounts_check" where
  "example_check =
     \<lparr>ac_quantity = 100, ac_average_price = 5, ac_brokerage = 10, ac_gst_on_brokerage = 1, ac_fx_rate = 1,
      ac_date = 739071, ac_settlement_date = 739076, ac_currency = ''AUD'', ac_brokerage_currency = ''aud''\<rparr>"

theorem accepted_amounts_witness:
  "trade_check_amounts ref_dec gregorian 739080 example_check = Inr ()
   \<and> trade_check_amounts ref_dec gregorian 739070 example_check = Inl FutureDate"
proof -
  have start: "cgt_start gregorian \<le> 739071" by code_simp
  have aud: "eq_ignore_ascii_case ''AUD'' ''aud''" by code_simp
  have cost: "checked_cost_base ref_dec
      [CostProduct (''average_price'', 5) (''quantity'', 100), CostAmount ''brokerage'' 10,
       CostAmount ''gst_on_brokerage'' 1] = Inr 511"
    by (simp add: checked_cost_base_def ref_checked_def decimal_max_def)
  have "trade_check_amounts ref_dec gregorian 739080 example_check = Inr ()"
    unfolding accepted_amounts [OF ref.decimal_laws_axioms]
    using start aud cost by (simp add: example_check_def)
  moreover have "trade_check_amounts ref_dec gregorian 739070 example_check = Inl FutureDate"
    using start aud by (simp add: trade_check_amounts_def example_check_def)
  ultimately show ?thesis by blast
qed

definition example_trade :: "rat stored_trade" where
  "example_trade =
     \<lparr>st_id = 1, st_trade_type = Buy, st_date = 739071, st_settlement_date = 739073,
      st_settlement_date_source = Computed, st_listing_id = 7, st_average_price = 5, st_quantity = 100,
      st_currency = ''AUD'', st_brokerage = 10, st_gst_on_brokerage = 1, st_brokerage_includes_gst = True,
      st_brokerage_currency = ''AUD'', st_fx_rate = 1, st_spot_fx_rate = None, st_contract_note_ref = None,
      st_statement_total = None, st_residual_brought_forward = 0, st_residual_carried_forward = 0,
      st_residual_paid_out = 0, st_rights_action_id = None, st_buyback_action_id = None,
      st_scrip_action_id = None, st_demerger_action_id = None, st_deemed_acquisition_date = None,
      st_holding_account_id = 3, st_transfer_id = None, st_ess_statement_id = None,
      st_worthless_action_id = None, st_cash_in_lieu_action_id = None, st_inheritance_id = None\<rparr>"

text \<open>A stated date is left alone; a computed one moves when the Monday becomes a holiday.\<close>

theorem recompute_is_idempotent_witness:
  "\<exists>rows'. recompute_settlements gregorian
      [7 \<mapsto> \<lparr>ca_settlement_days = Some 2, ca_holidays = {739075}\<rparr>]
      [example_trade, example_trade\<lparr>st_id := 2, st_settlement_date_source := Stated\<rparr>] = Inr rows'
    \<and> map st_settlement_date rows' = [739076, 739073]"
proof -
  let ?cals = "[7 \<mapsto> \<lparr>ca_settlement_days = Some 2, ca_holidays = {739075}\<rparr>] :: calendars"
  let ?rows = "[example_trade, example_trade\<lparr>st_id := 2, st_settlement_date_source := Stated\<rparr>]"
  have far: "739076 \<le> date_max gregorian" by code_simp
  have "add_business_days gregorian 739071 2 {739075} = Inr 739076"
    using far unfolding add_business_days_def
    by (subst business_days_loop.simps, simp add: checked_next_day_def is_weekend_def)+
  then have auto: "auto_settlement_date_on gregorian ?cals 7 739071 = Inr 739076"
    by (simp add: auto_settlement_date_on_def)
  obtain rows' where r: "recompute_settlements gregorian ?cals ?rows = Inr rows'"
    by (simp add: recompute_settlements_def recompute_step_def auto is_recomputable_def example_trade_def)
  moreover have "distinct (map st_id ?rows)" by (simp add: example_trade_def)
  ultimately have "rows' = map (\<lambda>t. if st_settlement_date_source t = Computed then redated gregorian ?cals t else t) ?rows"
    using recompute_is_idempotent by blast
  with r show ?thesis by (simp add: redated_def auto example_trade_def)
qed

text \<open>110 dollars with GST is 100 of brokerage and 10 of GST.\<close>

theorem brokerage_entry_roundtrip_witness:
  "resolve_brokerage ref_dec True 110 0 = (100, 10)
   \<and> st_brokerage (present (example_trade\<lparr>st_brokerage := 100, st_gst_on_brokerage := 10\<rparr>)) = 110"
proof -
  have half: "\<lfloor>2001 / 2 :: rat\<rfloor> = 1000" by (simp add: floor_eq_iff)
  have r: "resolve_brokerage ref_dec True 110 0 = (100, 10)"
    by (simp add: resolve_brokerage_def split_gst_inclusive_def ref_round_def half)
  have t: "example_trade\<lparr>st_brokerage := 100, st_gst_on_brokerage := 10\<rparr>
      = example_trade\<lparr>st_brokerage := 100, st_gst_on_brokerage := 10, st_brokerage_includes_gst := True\<rparr>"
    by (simp add: example_trade_def)
  have "st_brokerage (present (example_trade\<lparr>st_brokerage := 100, st_gst_on_brokerage := 10\<rparr>)) = 110"
    by (subst t) (rule conjunct1 [OF brokerage_entry_roundtrip [OF ref.decimal_laws_axioms r]])
  with r show ?thesis by blast
qed

lemma provenance_named_column:
  assumes "provenance_column t = Some c"
  shows "\<exists>p. provenance_named c = Some p \<and> p \<in> set trade_provenances \<and> column_set t (tp_column p)"
proof -
  have c: "column_set t c" "c \<in> tp_column ` set trade_provenances"
    using find_SomeD [OF assms [unfolded provenance_column_def]] by auto
  then obtain p where "p \<in> set trade_provenances" "tp_column p = c" by blast
  then obtain q where q: "provenance_named c = Some q"
    unfolding provenance_named_def by (cases "find (\<lambda>p. tp_column p = c) trade_provenances") (auto simp: find_None_iff)
  then show ?thesis using find_SomeD [OF q [unfolded provenance_named_def]] c(1) by auto
qed

end
