(* ===== verification/Market.thy ===== *)
theory Market
  imports Trades
begin

text \<open>
  \<open>src/src/domain/listing_identity.rs\<close> and \<open>src/src/entities/closing_price/market.rs\<close>: the
  tickers and exchanges a listing has had over its renames, and the days its exchange of the
  time traded. Instants are seconds of UTC; time zones and the reading of a clock time are
  parameters.
\<close>

section \<open>The tables\<close>

record listing =
  li_id :: listing_id
  li_exchange_mic :: "string option"
  li_ticker :: string
  li_currency :: currency_code

record exchange =
  ex_mic :: string
  ex_timezone :: string
  ex_settlement_days :: int
  ex_close_time :: string

record rename =
  re_effective_date :: date
  re_old_ticker :: string
  re_new_ticker :: string
  re_old_exchange_mic :: "string option"
  re_new_exchange_mic :: "string option"

record market_tables =
  mt_listings :: "listing list"
  mt_renames :: "(listing_id \<times> rename) list"
  mt_exchanges :: "exchange list"
  mt_holidays :: "(string \<times> date) list"

definition listing_get :: "market_tables \<Rightarrow> listing_id \<Rightarrow> listing option" where
  "listing_get T l = find (\<lambda>li. li_id li = l) (mt_listings T)"

definition exchange_get :: "market_tables \<Rightarrow> string \<Rightarrow> exchange option" where
  "exchange_get T mic = find (\<lambda>ex. ex_mic ex = mic) (mt_exchanges T)"

definition holiday_dates_for :: "market_tables \<Rightarrow> string \<Rightarrow> date set" where
  "holiday_dates_for T mic = set (map snd (filter (\<lambda>(m, _). m = mic) (mt_holidays T)))"

text \<open>\<open>settlement_days_for_listing\<close> and \<open>exchange_holidays_for_listing\<close>: the live exchange.\<close>

definition settlement_days_for_listing :: "market_tables \<Rightarrow> listing_id \<Rightarrow> int option option" where
  "settlement_days_for_listing T l =
     map_option (\<lambda>li. Option.bind (li_exchange_mic li)
       (\<lambda>mic. map_option ex_settlement_days (exchange_get T mic))) (listing_get T l)"

definition exchange_holidays_for_listing :: "market_tables \<Rightarrow> listing_id \<Rightarrow> date set" where
  "exchange_holidays_for_listing T l =
     (case Option.bind (listing_get T l) li_exchange_mic of
        None \<Rightarrow> {} | Some mic \<Rightarrow> holiday_dates_for T mic)"

definition market_calendars :: "market_tables \<Rightarrow> calendars" where
  "market_calendars T l =
     map_option (\<lambda>days. \<lparr>ca_settlement_days = days, ca_holidays = exchange_holidays_for_listing T l\<rparr>)
       (settlement_days_for_listing T l)"

section \<open>Identities\<close>

record identity =
  id_from :: "date option"
  id_ticker :: string
  id_exchange_mic :: "string option"

definition in_effect_at :: "date option \<Rightarrow> date \<Rightarrow> bool" where
  "in_effect_at from d = (case from of None \<Rightarrow> True | Some f \<Rightarrow> f \<le> d)"

text \<open>\<open>RenameHistory\<close>: the renames by listing, each chain in the order of its dates.\<close>

type_synonym rename_history = "listing_id \<rightharpoonup> rename list"

definition rename_load :: "market_tables \<Rightarrow> rename_history" where
  "rename_load T =
     foldl (\<lambda>by (l, r). by(l \<mapsto> (case by l of None \<Rightarrow> [] | Some c \<Rightarrow> c) @ [r])) Map.empty
       (sort_key (\<lambda>(l, r). (l, re_effective_date r)) (mt_renames T))"

definition identities :: "rename_history \<Rightarrow> listing_id \<Rightarrow> identity \<Rightarrow> identity list" where
  "identities by_listing l current =
     (case by_listing l of
        None \<Rightarrow> [current\<lparr>id_from := None\<rparr>]
      | Some chain \<Rightarrow>
          (let spans = \<lparr>id_from = None, id_ticker = re_old_ticker (chain ! 0),
                        id_exchange_mic = re_old_exchange_mic (chain ! 0)\<rparr>
                 # map (\<lambda>r. \<lparr>id_from = Some (re_effective_date r), id_ticker = re_new_ticker r,
                              id_exchange_mic = re_new_exchange_mic r\<rparr>) chain
           in butlast spans @ [(last spans)\<lparr>id_ticker := id_ticker current,
                 id_exchange_mic := id_exchange_mic current\<rparr>]))"

definition identity_as_at :: "rename_history \<Rightarrow> listing_id \<Rightarrow> date \<Rightarrow> identity \<Rightarrow> identity option" where
  "identity_as_at by_listing l d current =
     find (\<lambda>s. in_effect_at (id_from s) d) (rev (identities by_listing l current))"

definition ticker_as_at :: "rename_history \<Rightarrow> listing_id \<Rightarrow> date \<Rightarrow> string \<Rightarrow> string option" where
  "ticker_as_at by_listing l d current_ticker =
     map_option id_ticker
       (identity_as_at by_listing l d \<lparr>id_from = None, id_ticker = current_ticker, id_exchange_mic = None\<rparr>)"

section \<open>Markets\<close>

record market_identity =
  mi_from :: "date option"
  mi_ticker :: string
  mi_exchange_mic :: "string option"
  mi_exchange :: "exchange option"
  mi_holidays :: "date set"

definition mi_is_trading_day :: "chrono_api \<Rightarrow> market_identity \<Rightarrow> date \<Rightarrow> bool" where
  "mi_is_trading_day C i d \<longleftrightarrow>
     (if mi_exchange i = None then True
      else weekday_of C d \<noteq> 5 \<and> weekday_of C d \<noteq> 6 \<and> d \<notin> mi_holidays i)"

record market =
  mk_listing :: listing
  mk_identities :: "market_identity list"
  mk_symbol_override :: "string option"

definition earliest :: "market \<Rightarrow> market_identity" where
  "earliest M = hd (mk_identities M)"

definition identity_at :: "market \<Rightarrow> date \<Rightarrow> market_identity" where
  "identity_at M d =
     (case find (\<lambda>i. in_effect_at (mi_from i) d) (rev (mk_identities M)) of
        Some i \<Rightarrow> i | None \<Rightarrow> earliest M)"

definition current_identity :: "market \<Rightarrow> market_identity" where
  "current_identity M = last (mk_identities M)"

definition next_start :: "market \<Rightarrow> date \<Rightarrow> date option" where
  "next_start M start =
     (let later = filter (\<lambda>f. start < f) (List.map_filter mi_from (mk_identities M))
      in if later = [] then None else Some (Min (set later)))"

definition segment_end :: "market \<Rightarrow> date \<Rightarrow> date \<Rightarrow> date" where
  "segment_end M til start =
     (case next_start M start of None \<Rightarrow> til | Some after \<Rightarrow> min til (after - 1))"

lemma next_start_later:
  "next_start M start = Some after \<Longrightarrow> start < after \<and> Some after \<in> mi_from ` set (mk_identities M)
     \<and> (\<forall>i \<in> set (mk_identities M). \<forall>f. mi_from i = Some f \<longrightarrow> f \<le> start \<or> after \<le> f)"
proof -
  let ?later = "filter (\<lambda>f. start < f) (List.map_filter mi_from (mk_identities M))"
  assume "next_start M start = Some after"
  then have ne: "?later \<noteq> []" and after: "after = Min (set ?later)"
    by (auto simp: next_start_def Let_def split: if_splits)
  have "after \<in> set ?later" unfolding after
    using ne by (intro Min_in) (simp_all only: List.finite_set set_empty not_False_eq_True)
  moreover have "after \<le> f" if "f \<in> set ?later" for f unfolding after by (rule Min_le) (use that in auto)
  ultimately show ?thesis by (auto simp: map_filter_def image_iff) (metis linorder_not_less option.sel)+
qed

lemma segment_end_ge: "start \<le> til \<Longrightarrow> start \<le> segment_end M til start"
  using next_start_later [of M start] by (auto simp: segment_end_def split: option.splits)

function segments_loop :: "market \<Rightarrow> date \<Rightarrow> date \<Rightarrow> (date \<times> date \<times> market_identity) list" where
  "segments_loop M til start =
     (if start \<le> til
      then (start, segment_end M til start, identity_at M start)
             # segments_loop M til (segment_end M til start + 1)
      else [])"
  by pat_completeness auto
termination
proof (relation "measure (\<lambda>(M, til, start). nat (til + 1 - start))")
  fix M :: market and til start :: date
  assume "start \<le> til"
  with segment_end_ge [OF this, of M] show "((M, til, segment_end M til start + 1), (M, til, start))
      \<in> measure (\<lambda>(M, til, start). nat (til + 1 - start))" by simp
qed simp

declare segments_loop.simps [simp del]

definition identity_segments :: "market \<Rightarrow> date \<Rightarrow> date \<Rightarrow> (date \<times> date \<times> market_identity) list" where
  "identity_segments M from til = (if til < from then [] else segments_loop M til from)"

definition is_trading_day :: "chrono_api \<Rightarrow> market \<Rightarrow> date \<Rightarrow> bool" where
  "is_trading_day C M d = mi_is_trading_day C (identity_at M d) d"

fun trading_day_back :: "chrono_api \<Rightarrow> market \<Rightarrow> nat \<Rightarrow> date \<Rightarrow> date option" where
  "trading_day_back C M 0 candidate = None"
| "trading_day_back C M (Suc n) candidate =
     (if is_trading_day C M candidate then Some candidate else trading_day_back C M n (candidate - 1))"

definition latest_trading_day_on_or_before :: "chrono_api \<Rightarrow> market \<Rightarrow> date \<Rightarrow> date option" where
  "latest_trading_day_on_or_before C M d = trading_day_back C M 366 d"

text \<open>
  \<open>latest_complete_trading_day\<close>: the local date and time of day (in seconds) of an instant in a
  named zone, and the reading of a clock time, are parameters.
\<close>

datatype market_error = UnrecognisedTimezone string string | MalformedCloseTime string string

record clock_api =
  zone_local :: "string \<Rightarrow> (int \<Rightarrow> date \<times> int) option"
  utc_date :: "int \<Rightarrow> date"
  parse_time :: "string \<Rightarrow> int option"

definition latest_complete_trading_day ::
    "chrono_api \<Rightarrow> clock_api \<Rightarrow> market \<Rightarrow> int \<Rightarrow> market_error + date option" where
  "latest_complete_trading_day C K M now =
     map_result (latest_trading_day_on_or_before C M)
       (case mi_exchange (current_identity M) of
          None \<Rightarrow> Inr (utc_date K now - 1)
        | Some ex \<Rightarrow>
            and_then (ok_or (MalformedCloseTime (ex_mic ex) (ex_close_time ex)) (parse_time K (ex_close_time ex))) (\<lambda>cl.
            and_then (ok_or (UnrecognisedTimezone (ex_mic ex) (ex_timezone ex)) (zone_local K (ex_timezone ex))) (\<lambda>z.
              let (day, seconds) = z now in Inr (if cl \<le> seconds then day else day - 1))))"

definition crypto_publication_lag_hours :: int where
  "crypto_publication_lag_hours = 7"

definition latest_published_trading_day ::
    "chrono_api \<Rightarrow> clock_api \<Rightarrow> market \<Rightarrow> int \<Rightarrow> market_error + date option" where
  "latest_published_trading_day C K M now =
     (let lag = (case mi_exchange (current_identity M) of
                   None \<Rightarrow> crypto_publication_lag_hours * 3600 | Some _ \<Rightarrow> 0)
      in latest_complete_trading_day C K M (now - lag))"

section \<open>Loading a market\<close>

record exchange_calendars =
  ec_exchanges :: "string \<rightharpoonup> exchange"
  ec_holidays :: "string \<rightharpoonup> date set"

definition no_calendars :: exchange_calendars where
  "no_calendars = \<lparr>ec_exchanges = Map.empty, ec_holidays = Map.empty\<rparr>"

definition assemble :: "exchange_calendars \<Rightarrow> listing \<Rightarrow> identity list \<Rightarrow> market" where
  "assemble cs li spans =
     \<lparr>mk_listing = li,
      mk_identities = map (\<lambda>s.
        let (exchange, holidays) =
              (case id_exchange_mic s of
                 None \<Rightarrow> (None, {})
               | Some mic \<Rightarrow> (ec_exchanges cs mic,
                               case ec_holidays cs mic of None \<Rightarrow> {} | Some hs \<Rightarrow> hs))
        in \<lparr>mi_from = id_from s, mi_ticker = id_ticker s, mi_exchange_mic = id_exchange_mic s,
            mi_exchange = exchange, mi_holidays = holidays\<rparr>) spans,
      mk_symbol_override = None\<rparr>"

definition identity_spans :: "rename_history \<Rightarrow> listing \<Rightarrow> identity list" where
  "identity_spans renames li =
     identities renames (li_id li)
       \<lparr>id_from = None, id_ticker = li_ticker li, id_exchange_mic = li_exchange_mic li\<rparr>"

definition calendar_step :: "market_tables \<Rightarrow> exchange_calendars \<Rightarrow> string \<Rightarrow> exchange_calendars" where
  "calendar_step T cs mic =
     (if ec_holidays cs mic \<noteq> None then cs
      else \<lparr>ec_exchanges = (case exchange_get T mic of
                None \<Rightarrow> ec_exchanges cs | Some ex \<Rightarrow> (ec_exchanges cs)(mic \<mapsto> ex)),
            ec_holidays = (ec_holidays cs)(mic \<mapsto> holiday_dates_for T mic)\<rparr>)"

definition load_market_on :: "market_tables \<Rightarrow> listing_id \<Rightarrow> market option" where
  "load_market_on T l =
     map_option (\<lambda>li.
       let spans = identity_spans (rename_load T) li
       in assemble (foldl (calendar_step T) no_calendars (List.map_filter id_exchange_mic spans)) li spans)
     (listing_get T l)"

text \<open>\<open>MarketCatalog\<close>: everything read once, for a report over many listings.\<close>

record market_catalog =
  mc_listings :: "listing_id \<rightharpoonup> listing"
  mc_renames :: rename_history
  mc_calendars :: exchange_calendars

definition catalog_exchange :: "exchange_calendars \<Rightarrow> exchange \<Rightarrow> exchange_calendars" where
  "catalog_exchange cs ex =
     \<lparr>ec_exchanges = (ec_exchanges cs)(ex_mic ex \<mapsto> ex),
      ec_holidays = (ec_holidays cs)(ex_mic ex \<mapsto>
        (case ec_holidays cs (ex_mic ex) of None \<Rightarrow> {} | Some hs \<Rightarrow> hs))\<rparr>"

definition catalog_holiday :: "exchange_calendars \<Rightarrow> string \<times> date \<Rightarrow> exchange_calendars" where
  "catalog_holiday cs row =
     (let (mic, d) = row
      in cs\<lparr>ec_holidays := (ec_holidays cs)(mic \<mapsto>
           insert d (case ec_holidays cs mic of None \<Rightarrow> {} | Some hs \<Rightarrow> hs))\<rparr>)"

definition catalog_load :: "market_tables \<Rightarrow> market_catalog" where
  "catalog_load T =
     \<lparr>mc_listings = foldl (\<lambda>m li. m(li_id li \<mapsto> li)) Map.empty (mt_listings T),
      mc_renames = rename_load T,
      mc_calendars = foldl catalog_holiday (foldl catalog_exchange no_calendars (mt_exchanges T)) (mt_holidays T)\<rparr>"

definition catalog_market :: "market_catalog \<Rightarrow> listing_id \<Rightarrow> market option" where
  "catalog_market K l =
     map_option (\<lambda>li. assemble (mc_calendars K) li (identity_spans (mc_renames K) li)) (mc_listings K l)"

section \<open>Days the exchange did not trade\<close>

datatype non_trading_reason = Weekend | Holiday

record non_trading =
  nt_exchange_mic :: string
  nt_reason :: non_trading_reason

definition non_trading_day :: "chrono_api \<Rightarrow> market \<Rightarrow> date \<Rightarrow> non_trading option" where
  "non_trading_day C M d =
     (let i = identity_at M d
      in Option.bind (mi_exchange i) (\<lambda>ex.
           if mi_is_trading_day C i d then None
           else Some \<lparr>nt_exchange_mic = ex_mic ex,
                      nt_reason = (if weekday_of C d = 5 \<or> weekday_of C d = 6 then Weekend else Holiday)\<rparr>))"

definition db_non_trading_day :: "chrono_api \<Rightarrow> market_tables \<Rightarrow> listing_id \<Rightarrow> date \<Rightarrow> non_trading option" where
  "db_non_trading_day C T l d =
     Option.bind (load_market_on T l) (\<lambda>M. non_trading_day C M d)"

section \<open>Lemmas\<close>

lemma identity_at_cong:
  assumes "\<And>i f. i \<in> set (mk_identities M) \<Longrightarrow> mi_from i = Some f \<Longrightarrow> f \<le> s \<or> e < f" and "s \<le> d" and "d \<le> e"
  shows "identity_at M d = identity_at M s"
proof -
  have "in_effect_at (mi_from i) d = in_effect_at (mi_from i) s" if "i \<in> set (rev (mk_identities M))" for i
    using assms(1) [of i] assms(2,3) that by (cases "mi_from i") (fastforce simp: in_effect_at_def)+
  then have "find (\<lambda>i. in_effect_at (mi_from i) d) (rev (mk_identities M))
      = find (\<lambda>i. in_effect_at (mi_from i) s) (rev (mk_identities M))"
    by (intro find_cong) simp_all
  then show ?thesis by (simp add: identity_at_def)
qed

lemma segment_identity:
  assumes "start \<le> d" and "d \<le> segment_end M til start"
  shows "identity_at M d = identity_at M start"
proof (rule identity_at_cong [where e = "segment_end M til start"])
  fix i f
  assume i: "i \<in> set (mk_identities M)" "mi_from i = Some f"
  show "f \<le> start \<or> segment_end M til start < f"
  proof (cases "next_start M start")
    case None
    then have "\<not> start < f"
      using i by (auto simp: next_start_def Let_def map_filter_def filter_empty_conv split: if_splits)
    then show ?thesis by simp
  next
    case (Some after)
    then have "f \<le> start \<or> after \<le> f" using next_start_later [OF Some] i by blast
    then show ?thesis using Some by (auto simp: segment_end_def)
  qed
qed (use assms in simp_all)

lemma segments_loop_cover:
  "concat (map (\<lambda>(s, e, i). [s..e]) (segments_loop M til start)) = [start..til]
   \<and> (\<forall>(s, e, i) \<in> set (segments_loop M til start). s \<le> e \<and> (\<forall>d \<in> {s..e}. identity_at M d = i))"
proof (induction M til start rule: segments_loop.induct)
  case (1 M til start)
  show ?case
  proof (cases "start \<le> til")
    case True
    have e: "start \<le> segment_end M til start" "segment_end M til start \<le> til"
      using segment_end_ge [OF True, of M] True by (auto simp: segment_end_def split: option.splits)
    have step: "segments_loop M til start = (start, segment_end M til start, identity_at M start)
        # segments_loop M til (segment_end M til start + 1)"
      using True by (subst segments_loop.simps) simp
    have "\<forall>d \<in> {start..segment_end M til start}. identity_at M d = identity_at M start"
      by (intro ballI segment_identity [where til = til]) simp_all
    moreover have "concat (map (\<lambda>(s, e, i). [s..e]) (segments_loop M til start))
        = [start..segment_end M til start] @ [segment_end M til start + 1..til]"
      unfolding step list.map concat.simps case_prod_conv conjunct1 [OF "1.IH" [OF True]] ..
    ultimately show ?thesis
      using conjunct2 [OF "1.IH" [OF True]] e(1)
      unfolding upto_split2 [OF e] step list.set ball_simps(7) case_prod_conv by blast
  next
    case False
    then show ?thesis by (subst segments_loop.simps) (simp add: segments_loop.simps)
  qed
qed

lemma trading_day_back_Some:
  "trading_day_back C M n c = Some d \<longleftrightarrow>
     d \<le> c \<and> c - int n < d \<and> is_trading_day C M d \<and> (\<forall>x. d < x \<and> x \<le> c \<longrightarrow> \<not> is_trading_day C M x)"
proof (induction n arbitrary: c)
  case (Suc n)
  show ?case
  proof (cases "is_trading_day C M c")
    case True
    then show ?thesis by force
  next
    case False
    have "(\<forall>x. d < x \<and> x \<le> c \<longrightarrow> \<not> is_trading_day C M x) \<longleftrightarrow>
        (\<forall>x. d < x \<and> x \<le> c - 1 \<longrightarrow> \<not> is_trading_day C M x)"
      using False by (metis int_one_le_iff_zero_less linorder_not_less order_le_less zle_diff1_eq)
    moreover have "d \<noteq> c" if "is_trading_day C M d" using False that by blast
    ultimately show ?thesis using False Suc.IH [of "c - 1"] by auto
  qed
qed simp

lemma trading_day_back_None:
  "trading_day_back C M n c = None \<longleftrightarrow> (\<forall>x. c - int n < x \<and> x \<le> c \<longrightarrow> \<not> is_trading_day C M x)"
proof (induction n arbitrary: c)
  case (Suc n)
  have "(c - int (Suc n) < x \<and> x \<le> c) \<longleftrightarrow> x = c \<or> (c - 1 - int n < x \<and> x \<le> c - 1)" for x by auto
  then show ?case using Suc.IH [of "c - 1"] by auto
qed auto

definition serves :: "market_tables \<Rightarrow> exchange_calendars \<Rightarrow> string \<Rightarrow> bool" where
  "serves T cs mic \<longleftrightarrow> ec_exchanges cs mic = exchange_get T mic
     \<and> (case ec_holidays cs mic of None \<Rightarrow> {} | Some hs \<Rightarrow> hs) = holiday_dates_for T mic"

lemma calendar_steps_serve:
  assumes "\<And>m. ec_holidays cs m \<noteq> None \<Longrightarrow> serves T cs m" and "mic \<in> set mics \<or> ec_holidays cs mic \<noteq> None"
    and "\<And>m. ec_holidays cs m = None \<Longrightarrow> ec_exchanges cs m = None"
  shows "serves T (foldl (calendar_step T) cs mics) mic"
  using assms
proof (induction mics arbitrary: cs)
  case (Cons m mics)
  have "serves T (calendar_step T cs m) m'" if "ec_holidays (calendar_step T cs m) m' \<noteq> None" for m'
    using Cons.prems(1) [of m'] Cons.prems(3) [of m'] that
    by (auto simp: calendar_step_def serves_def split: if_splits option.splits)
  moreover have "mic \<in> set mics \<or> ec_holidays (calendar_step T cs m) mic \<noteq> None"
    using Cons.prems(2) by (auto simp: calendar_step_def)
  moreover have "ec_exchanges (calendar_step T cs m) m' = None"
    if "ec_holidays (calendar_step T cs m) m' = None" for m'
    using Cons.prems(3) [of m'] that
    by (auto simp: calendar_step_def split: if_splits option.splits)
  ultimately show ?case using Cons.IH [of "calendar_step T cs m"] by simp
qed simp

lemma foldl_update_find:
  assumes "distinct (map k xs)"
  shows "foldl (\<lambda>m x. m(k x \<mapsto> x)) m0 xs l
    = (case find (\<lambda>x. k x = l) xs of Some x \<Rightarrow> Some x | None \<Rightarrow> m0 l)"
  using assms
proof (induction xs arbitrary: m0)
  case (Cons x xs)
  have "find (\<lambda>y. k y = l) xs = None" if "k x = l"
    using Cons.prems that by (auto simp: find_None_iff image_iff)
  then show ?case using Cons by (auto split: option.splits)
qed simp

lemma catalog_exchanges_fold:
  "ec_exchanges (foldl catalog_exchange cs xs) = foldl (\<lambda>m ex. m(ex_mic ex \<mapsto> ex)) (ec_exchanges cs) xs"
  "(case ec_holidays (foldl catalog_exchange cs xs) mic of None \<Rightarrow> {} | Some hs \<Rightarrow> hs)
     = (case ec_holidays cs mic of None \<Rightarrow> {} | Some hs \<Rightarrow> hs)"
  by (induction xs arbitrary: cs) (simp_all add: catalog_exchange_def)

lemma catalog_holidays_fold:
  "ec_exchanges (foldl catalog_holiday cs rows) = ec_exchanges cs"
  "(case ec_holidays (foldl catalog_holiday cs rows) mic of None \<Rightarrow> {} | Some hs \<Rightarrow> hs)
     = (case ec_holidays cs mic of None \<Rightarrow> {} | Some hs \<Rightarrow> hs) \<union> set (map snd (filter (\<lambda>(m, _). m = mic) rows))"
  by (induction rows arbitrary: cs) (auto simp: catalog_holiday_def split: option.splits)

lemma catalog_serves:
  assumes "distinct (map ex_mic (mt_exchanges T))"
  shows "serves T (mc_calendars (catalog_load T)) mic"
  using foldl_update_find [OF assms, of Map.empty mic]
  by (auto simp: serves_def catalog_load_def catalog_holidays_fold catalog_exchanges_fold no_calendars_def
      exchange_get_def holiday_dates_for_def split: option.splits)

lemma assemble_serves:
  assumes "\<And>s mic. s \<in> set spans \<Longrightarrow> id_exchange_mic s = Some mic \<Longrightarrow> serves T cs mic \<and> serves T cs' mic"
  shows "assemble cs li spans = assemble cs' li spans"
proof -
  have "ec_exchanges cs mic = ec_exchanges cs' mic \<and> (case ec_holidays cs mic of None \<Rightarrow> {} | Some hs \<Rightarrow> hs)
      = (case ec_holidays cs' mic of None \<Rightarrow> {} | Some hs \<Rightarrow> hs)"
    if "s \<in> set spans" "id_exchange_mic s = Some mic" for s mic
    using assms [OF that] by (simp add: serves_def)
  then show ?thesis
    unfolding assemble_def by (auto simp: Let_def split: option.split)
qed

lemma rename_fold_chain:
  "foldl (\<lambda>by (l, r). by(l \<mapsto> (case by l of None \<Rightarrow> [] | Some c \<Rightarrow> c) @ [r])) by0 rows l
     = (case by0 l of
          None \<Rightarrow> (if filter (\<lambda>(k, _). k = l) rows = [] then None
                    else Some (map snd (filter (\<lambda>(k, _). k = l) rows)))
        | Some c \<Rightarrow> Some (c @ map snd (filter (\<lambda>(k, _). k = l) rows)))"
  by (induction rows arbitrary: by0) (auto split: option.splits)

lemma rename_chain_nonempty: "rename_load T l \<noteq> Some []"
  by (auto simp: rename_load_def rename_fold_chain split: option.splits if_splits)

lemma identities_shape:
  assumes "by_listing l \<noteq> Some []"
  shows "\<exists>first rest. identities by_listing l current = first # rest \<and> id_from first = None
     \<and> id_ticker (last (first # rest)) = id_ticker current
     \<and> id_exchange_mic (last (first # rest)) = id_exchange_mic current"
proof (cases "by_listing l")
  case (Some chain)
  then obtain r rs where "chain = r # rs" using assms by (cases chain) auto
  with Some show ?thesis by (auto simp: identities_def Let_def)
qed (simp add: identities_def)

lemma identities_tickers:
  "map (\<lambda>s. (id_from s, id_ticker s)) (identities by_listing l c)
     = map (\<lambda>s. (id_from s, id_ticker s)) (identities by_listing l c')"
  if "id_ticker c = id_ticker c'"
  using that by (auto simp: identities_def Let_def map_butlast split: option.splits)

lemma find_map: "find P (map f xs) = map_option f (find (P \<circ> f) xs)"
  by (induction xs) auto

lemma assemble_identities:
  "map (\<lambda>i. (mi_from i, mi_ticker i)) (mk_identities (assemble cs li spans))
     = map (\<lambda>s. (id_from s, id_ticker s)) spans"
  by (auto simp: assemble_def Let_def split: prod.split)

section \<open>Properties\<close>

text \<open>C22: the segments of a period are whole: laid end to end their days are exactly the days of
  the period, each once and in order, and on every day of a segment the listing's identity is the
  one the segment names.\<close>

theorem segments_partition_period:
  "concat (map (\<lambda>(s, e, i). [s..e]) (identity_segments M from til)) = [from..til]
   \<and> (\<forall>(s, e, i) \<in> set (identity_segments M from til). s \<le> e \<and> (\<forall>d \<in> {s..e}. identity_at M d = i))"
  using segments_loop_cover [where start = "from"] by (simp add: identity_segments_def)

text \<open>C36: the latest trading day found is the greatest trading day on or before the date; nothing
  is found exactly when the exchange did not trade on any of the 366 days up to it.\<close>

theorem latest_trading_day_is_greatest:
  "case latest_trading_day_on_or_before C M d of
     Some t \<Rightarrow> t \<le> d \<and> is_trading_day C M t \<and> d - 366 < t \<and> (\<forall>x \<in> {t<..d}. \<not> is_trading_day C M x)
   | None \<Rightarrow> (\<forall>x \<in> {d - 366<..d}. \<not> is_trading_day C M x)"
  using trading_day_back_Some [of C M 366 d] trading_day_back_None [of C M 366 d]
  by (auto simp: latest_trading_day_on_or_before_def split: option.split)

text \<open>A report over many listings and a write to one of them use the same calendar: the
  market the catalog assembles from one reading of every table is the market loaded for the
  listing alone.\<close>

theorem catalog_market_is_loaded:
  assumes "distinct (map li_id (mt_listings T))" and "distinct (map ex_mic (mt_exchanges T))"
  shows "catalog_market (catalog_load T) l = load_market_on T l"
proof -
  have li: "mc_listings (catalog_load T) l = listing_get T l"
    using foldl_update_find [OF assms(1), of Map.empty l]
    by (auto simp: catalog_load_def listing_get_def split: option.splits)
  have "assemble (mc_calendars (catalog_load T)) li spans
      = assemble (foldl (calendar_step T) no_calendars (List.map_filter id_exchange_mic spans)) li spans" for li spans
  proof (rule assemble_serves)
    fix s mic
    assume "s \<in> set spans" "id_exchange_mic s = Some mic"
    then have "mic \<in> set (List.map_filter id_exchange_mic spans)"
      by (force simp: map_filter_def)
    then show "serves T (mc_calendars (catalog_load T)) mic
        \<and> serves T (foldl (calendar_step T) no_calendars (List.map_filter id_exchange_mic spans)) mic"
      using catalog_serves [OF assms(2)] by (auto intro!: calendar_steps_serve simp: no_calendars_def)
  qed
  moreover have "mc_renames (catalog_load T) = rename_load T" by (simp add: catalog_load_def)
  ultimately show ?thesis by (simp add: catalog_market_def load_market_on_def li Let_def)
qed

text \<open>The identity a market uses at a date is the one the rename history names.\<close>

theorem market_identity_as_at:
  assumes "load_market_on T l = Some M" and "listing_get T l = Some li" and "li_id li = l"
  shows "ticker_as_at (rename_load T) l d (li_ticker li) = Some (mi_ticker (identity_at M d))
    \<and> (non_trading_day C M d = None \<longleftrightarrow> is_trading_day C M d)"
proof -
  let ?c = "\<lparr>id_from = None, id_ticker = li_ticker li, id_exchange_mic = li_exchange_mic li\<rparr>"
  let ?bare = "\<lparr>id_from = None, id_ticker = li_ticker li, id_exchange_mic = None\<rparr> :: identity"
  let ?spans = "identities (rename_load T) l ?c"
  let ?pair = "\<lambda>s. (id_from s, id_ticker s)"
  have ids: "map (\<lambda>i. (mi_from i, mi_ticker i)) (mk_identities M) = map ?pair ?spans"
    using assms by (auto simp: load_market_on_def Let_def identity_spans_def simp del: map_map map_eq_conv
        intro!: assemble_identities)
  obtain first rest where f: "?spans = first # rest" "id_from first = None"
    using identities_shape [of "rename_load T" l ?c] rename_chain_nonempty [of T l] by auto
  let ?eff = "\<lambda>p. in_effect_at (fst p) d"
  have "map_option ?pair (find (\<lambda>s. in_effect_at (id_from s) d) (rev (identities (rename_load T) l ?bare)))
      = find ?eff (rev (map ?pair (identities (rename_load T) l ?bare)))"
    by (simp add: find_map comp_def rev_map)
  also have "\<dots> = find ?eff (rev (map ?pair ?spans))"
    using identities_tickers [of ?bare ?c "rename_load T" l] by simp
  also have "\<dots> = map_option (\<lambda>i. (mi_from i, mi_ticker i))
      (find (\<lambda>i. in_effect_at (mi_from i) d) (rev (mk_identities M)))"
    unfolding ids [symmetric] by (simp add: find_map comp_def rev_map)
  finally have same: "map_option ?pair (find (\<lambda>s. in_effect_at (id_from s) d) (rev (identities (rename_load T) l ?bare)))
      = map_option (\<lambda>i. (mi_from i, mi_ticker i)) (find (\<lambda>i. in_effect_at (mi_from i) d) (rev (mk_identities M)))" .
  have "find ?eff (rev (map ?pair ?spans)) \<noteq> None"
    using f by (auto simp: find_None_iff in_effect_at_def)
  then have "find (\<lambda>i. in_effect_at (mi_from i) d) (rev (mk_identities M)) \<noteq> None"
    unfolding ids [symmetric] by (simp add: find_map comp_def rev_map)
  then obtain i where "find (\<lambda>i. in_effect_at (mi_from i) d) (rev (mk_identities M)) = Some i" by blast
  with same have "ticker_as_at (rename_load T) l d (li_ticker li) = Some (mi_ticker (identity_at M d))"
    by (auto simp: ticker_as_at_def identity_as_at_def identity_at_def)
  moreover have "non_trading_day C M d = None \<longleftrightarrow> is_trading_day C M d"
    by (auto simp: non_trading_day_def is_trading_day_def mi_is_trading_day_def Let_def split: option.splits)
  ultimately show ?thesis by blast
qed

text \<open>A listing renamed and moved from one exchange to another on day 739100.\<close>

definition example_tables :: market_tables where
  "example_tables =
     \<lparr>mt_listings = [\<lparr>li_id = 7, li_exchange_mic = Some ''XASX'', li_ticker = ''NEW'', li_currency = ''AUD''\<rparr>],
      mt_renames = [(7, \<lparr>re_effective_date = 739100, re_old_ticker = ''OLD'', re_new_ticker = ''NEW'',
                         re_old_exchange_mic = Some ''CXAC'', re_new_exchange_mic = Some ''XASX''\<rparr>)],
      mt_exchanges = [\<lparr>ex_mic = ''XASX'', ex_timezone = ''Australia/Sydney'', ex_settlement_days = 2,
                       ex_close_time = ''16:00''\<rparr>,
                      \<lparr>ex_mic = ''CXAC'', ex_timezone = ''Australia/Sydney'', ex_settlement_days = 2,
                       ex_close_time = ''16:00''\<rparr>],
      mt_holidays = [(''XASX'', 739103), (''CXAC'', 739075)]\<rparr>"

definition example_market :: market where
  "example_market = the (load_market_on example_tables 7)"

lemma example_loads: "load_market_on example_tables 7 = Some example_market"
  by (simp add: example_market_def load_market_on_def listing_get_def example_tables_def)

theorem segments_partition_period_witness:
  "map (\<lambda>(s, e, i). (s, e, mi_ticker i)) (identity_segments example_market 739098 739101)
     = [(739098, 739099, ''OLD''), (739100, 739101, ''NEW'')]
   \<and> concat (map (\<lambda>(s, e, i). [s..e]) (identity_segments example_market 739098 739101)) = [739098..739101]"
proof
  show "map (\<lambda>(s, e, i). (s, e, mi_ticker i)) (identity_segments example_market 739098 739101)
     = [(739098, 739099, ''OLD''), (739100, 739101, ''NEW'')]"
    by code_simp
qed (rule conjunct1 [OF segments_partition_period])

text \<open>Friday the first day of the new identity; the Monday after is its exchange's holiday.\<close>

theorem latest_trading_day_is_greatest_witness:
  "latest_trading_day_on_or_before gregorian example_market 739103 = Some 739100
   \<and> \<not> is_trading_day gregorian example_market 739103"
proof -
  have t: "latest_trading_day_on_or_before gregorian example_market 739103 = Some 739100" by code_simp
  with latest_trading_day_is_greatest [where C = gregorian and M = example_market and d = 739103] show ?thesis by simp
qed

theorem catalog_market_is_loaded_witness:
  "catalog_market (catalog_load example_tables) 7 = Some example_market"
  using catalog_market_is_loaded [of example_tables 7] example_loads by (simp add: example_tables_def)

end
