(* ===== verification/StoredCounts.thy ===== *)
theory StoredCounts
  imports EntitlementRounding Market
begin

text \<open>
  The tables a trade or Sell write reads and changes, and the stored per-parcel counts of rounded
  share splits and bonus issues: how they are loaded (\<open>src/src/domain/adjustments.rs\<close>), when a
  write marks a listing for recomputation (the triggers the migrations declare), and how
  \<open>src/src/entities/corporate_action/rounding.rs\<close> recomputes them, with the checks of
  \<open>db.rs\<close> beside it that the recomputed counts must pass.
\<close>

section \<open>Fraction rules\<close>

datatype fraction_rule = RuleExact | RuleDown | RuleUp | RuleNearest | RuleCashInLieu

fun rule_rounding :: "fraction_rule \<Rightarrow> rounding option" where
  "rule_rounding RuleExact = None"
| "rule_rounding RuleDown = Some Down"
| "rule_rounding RuleUp = Some Up"
| "rule_rounding RuleNearest = Some Nearest"
| "rule_rounding RuleCashInLieu = Some CashInLieu"

fun rule_as_str :: "fraction_rule \<Rightarrow> string" where
  "rule_as_str RuleExact = ''Exact''"
| "rule_as_str RuleDown = ''Down''"
| "rule_as_str RuleUp = ''Up''"
| "rule_as_str RuleNearest = ''Nearest''"
| "rule_as_str RuleCashInLieu = ''CashInLieu''"

definition rule_from_str :: "string \<Rightarrow> fraction_rule option" where
  "rule_from_str s =
     (if s = ''Exact'' then Some RuleExact
      else if s = ''Down'' then Some RuleDown
      else if s = ''Up'' then Some RuleUp
      else if s = ''Nearest'' then Some RuleNearest
      else if s = ''CashInLieu'' then Some RuleCashInLieu
      else None)"

lemma rule_roundtrip: "rule_from_str s = Some r \<longleftrightarrow> s = rule_as_str r"
  by (cases r) (auto simp: rule_from_str_def)

section \<open>The tables\<close>

text \<open>The share splits and bonus issues of \<open>corporate_actions\<close>.\<close>

datatype 'd split_terms = ShareSplitAction 'd 'd | BonusIssueAction 'd 'd

record 'd split_action =
  sa_id :: action_id
  sa_listing_id :: listing_id
  sa_date :: date
  sa_record_date :: "date option"
  sa_terms :: "'d split_terms"
  sa_fraction_rule :: "fraction_rule option"

text \<open>A row of \<open>corporate_action_parcel_counts\<close>, identified by its action and parcel.\<close>

record 'd count_row =
  cr_action_id :: action_id
  cr_trade_id :: trade_id
  cr_units_before :: 'd
  cr_units_after :: 'd
  cr_in_lieu_units :: 'd

text \<open>The returns of capital of \<open>corporate_actions\<close>.\<close>

record capital_return_row =
  cp_id :: action_id
  cp_listing_id :: listing_id
  cp_date :: date
  cp_record_date :: "date option"
  cp_currency :: currency_code

record income_link =
  in_reinvestment_trade_id :: "trade_id option"
  in_buyback_trade_id :: "trade_id option"

record 'd book =
  bk_trades :: "'d stored_trade list"
  bk_allocations :: "'d parcel_allocation list"
  bk_actions :: "'d split_action list"
  bk_counts :: "'d count_row list"
  bk_overrides :: "(action_id \<times> account_id \<times> 'd) list"
  bk_accounts :: "(account_id \<times> nat option) list"
  bk_unit_scales :: "((account_id \<times> listing_id) \<times> nat option) list"
  bk_market :: market_tables
  bk_capital_returns :: "capital_return_row list"
  bk_currencies :: "currency_code list"
  bk_fee_sales :: "trade_id list"
  bk_income_links :: "income_link list"
  bk_amit_adjustments :: "'d amit_adjustment list"
  bk_rights_allocations :: "trade_id list"
  bk_dirty :: "listing_id list"

definition trade_get :: "'d book \<Rightarrow> trade_id \<Rightarrow> 'd stored_trade option" where
  "trade_get B i = find (\<lambda>t. st_id t = i) (bk_trades B)"

section \<open>Marking a listing\<close>

text \<open>
  The triggers of \<open>0057_rounding_recompute.sql\<close>: a write to a listing with a rounded share split
  or bonus issue marks it, and no transaction commits while a mark stands.
\<close>

definition rounded_listing :: "'d book \<Rightarrow> listing_id \<Rightarrow> bool" where
  "rounded_listing B l \<longleftrightarrow>
     list_ex (\<lambda>a. sa_listing_id a = l \<and> sa_fraction_rule a \<notin> {None, Some RuleExact}) (bk_actions B)"

definition mark_listing :: "'d book \<Rightarrow> listing_id \<Rightarrow> 'd book" where
  "mark_listing B l = (if rounded_listing B l then B\<lparr>bk_dirty := bk_dirty B @ [l]\<rparr> else B)"

definition insert_trade :: "'d stored_trade \<Rightarrow> 'd book \<Rightarrow> 'd book" where
  "insert_trade t B = mark_listing (B\<lparr>bk_trades := bk_trades B @ [t]\<rparr>) (st_listing_id t)"

definition moves_counts :: "'d stored_trade \<Rightarrow> 'd stored_trade \<Rightarrow> bool" where
  "moves_counts old t \<longleftrightarrow> st_listing_id old \<noteq> st_listing_id t \<or> st_date old \<noteq> st_date t
     \<or> st_settlement_date old \<noteq> st_settlement_date t \<or> st_quantity old \<noteq> st_quantity t
     \<or> st_trade_type old \<noteq> st_trade_type t \<or> st_holding_account_id old \<noteq> st_holding_account_id t"

definition update_trade :: "'d stored_trade \<Rightarrow> 'd stored_trade \<Rightarrow> 'd book \<Rightarrow> 'd book" where
  "update_trade old t B =
     (let B' = B\<lparr>bk_trades := map (\<lambda>r. if st_id r = st_id old then t else r) (bk_trades B)\<rparr>
      in if moves_counts old t
         then foldl mark_listing B' (remdups [st_listing_id old, st_listing_id t])
         else B')"

text \<open>Deleting a trade cascades to its stored counts.\<close>

definition delete_trade :: "'d stored_trade \<Rightarrow> 'd book \<Rightarrow> 'd book" where
  "delete_trade old B =
     mark_listing (B\<lparr>bk_trades := filter (\<lambda>r. st_id r \<noteq> st_id old) (bk_trades B),
                     bk_counts := filter (\<lambda>c. cr_trade_id c \<noteq> st_id old) (bk_counts B)\<rparr>)
       (st_listing_id old)"

definition mark_parcel :: "'d book \<Rightarrow> trade_id \<Rightarrow> 'd book" where
  "mark_parcel B purchase =
     (case trade_get B purchase of None \<Rightarrow> B | Some p \<Rightarrow> mark_listing B (st_listing_id p))"

definition insert_allocation :: "'d parcel_allocation \<Rightarrow> 'd book \<Rightarrow> 'd book" where
  "insert_allocation a B =
     mark_parcel (B\<lparr>bk_allocations := bk_allocations B @ [a]\<rparr>) (al_purchase_trade_id a)"

definition delete_allocations :: "trade_id \<Rightarrow> 'd book \<Rightarrow> 'd book" where
  "delete_allocations sale B =
     foldl mark_parcel (B\<lparr>bk_allocations := filter (\<lambda>a. al_sale_trade_id a \<noteq> sale) (bk_allocations B)\<rparr>)
       (map al_purchase_trade_id (filter (\<lambda>a. al_sale_trade_id a = sale) (bk_allocations B)))"

section \<open>Loading the splits\<close>

fun action_event :: "date \<Rightarrow> ('d::{plus,linorder}) split_terms \<Rightarrow> 'd split_event" where
  "action_event d (BonusIssueAction bonus held) = bonus_issue d bonus held"
| "action_event d (ShareSplitAction new old) = share_split d new old"

type_synonym 'd counts_by_action = "action_id \<rightharpoonup> (trade_id \<rightharpoonup> 'd stored_count)"

definition db_stored_counts :: "'d book \<Rightarrow> listing_id option \<Rightarrow> 'd counts_by_action" where
  "db_stored_counts B listing =
     foldl (\<lambda>m r. m(cr_action_id r \<mapsto>
         (case m (cr_action_id r) of None \<Rightarrow> Map.empty | Some c \<Rightarrow> c)
           (cr_trade_id r \<mapsto> \<lparr>sc_before = cr_units_before r, sc_after = cr_units_after r\<rparr>)))
       Map.empty
       (filter (\<lambda>r. list_ex (\<lambda>a. sa_id a = cr_action_id r
            \<and> (listing = None \<or> listing = Some (sa_listing_id a))) (bk_actions B)) (bk_counts B))"

text \<open>Each event takes its counts out of the map.\<close>

fun events_with_counts ::
    "('d::{plus,linorder}) split_action list \<Rightarrow> 'd counts_by_action \<Rightarrow> (listing_id \<times> 'd split_event) list" where
  "events_with_counts [] counts = []"
| "events_with_counts (a # as) counts =
     (sa_listing_id a, (action_event (sa_date a) (sa_terms a))\<lparr>se_stored := counts (sa_id a)\<rparr>)
       # events_with_counts as (counts(sa_id a := None))"

definition db_share_split_events ::
    "('d::{plus,linorder}) book \<Rightarrow> listing_id \<rightharpoonup> 'd listing_splits" where
  "db_share_split_events B =
     foldl (\<lambda>m (l, e). m(l \<mapsto> (case m l of None \<Rightarrow> [] | Some es \<Rightarrow> es) @ [e])) Map.empty
       (events_with_counts (sort_key (\<lambda>a. (sa_listing_id a, sa_date a, sa_id a)) (bk_actions B))
         (db_stored_counts B None))"

definition listing_actions :: "'d book \<Rightarrow> listing_id \<Rightarrow> 'd split_action list" where
  "listing_actions B l =
     sort_key (\<lambda>a. (sa_date a, sa_id a)) (filter (\<lambda>a. sa_listing_id a = l) (bk_actions B))"

definition db_splits_for_listing :: "('d::{plus,linorder}) book \<Rightarrow> listing_id \<Rightarrow> 'd listing_splits" where
  "db_splits_for_listing B l =
     map snd (events_with_counts (listing_actions B l) (db_stored_counts B (Some l)))"

section \<open>Unit scales\<close>

text \<open>\<open>holding_unit_scale.rs\<close>: an override of the pair, or else the account's own scale.\<close>

definition db_unit_scale :: "'d book \<Rightarrow> account_id \<Rightarrow> listing_id \<Rightarrow> nat option" where
  "db_unit_scale B account listing =
     (case find (\<lambda>(a, _). a = account) (bk_accounts B) of
        None \<Rightarrow> None
      | Some (_, own) \<Rightarrow>
          (case find (\<lambda>(k, _). k = (account, listing)) (bk_unit_scales B) of
             None \<Rightarrow> own | Some (_, s) \<Rightarrow> s))"

datatype scale_source = AccountScale | OverrideScale

record 'd too_fine =
  tf_quantity :: 'd
  tf_scale :: nat
  tf_from :: scale_source

definition places :: "'d decimal_api \<Rightarrow> 'd \<Rightarrow> nat" where
  "places D quantity = normal_scale D quantity"

definition db_too_fine ::
    "'d decimal_api \<Rightarrow> 'd book \<Rightarrow> account_id \<Rightarrow> listing_id \<Rightarrow> 'd \<Rightarrow> 'd too_fine option" where
  "db_too_fine D B account listing quantity =
     (case (find (\<lambda>(a, _). a = account) (bk_accounts B), listing_get (bk_market B) listing) of
        (Some (_, own), Some _) \<Rightarrow>
          (let (scale, source) =
             (case find (\<lambda>(k, _). k = (account, listing)) (bk_unit_scales B) of
                None \<Rightarrow> (own, AccountScale) | Some (_, s) \<Rightarrow> (s, OverrideScale))
           in case scale of
                None \<Rightarrow> None
              | Some s \<Rightarrow>
                  if places D quantity \<le> s then None
                  else Some \<lparr>tf_quantity = quantity, tf_scale = s, tf_from = source\<rparr>)
      | _ \<Rightarrow> None)"

section \<open>Recomputing a listing\<close>

datatype 'd round_error = RoundHolding action_id account_id "'d rounding_error"

record 'd rebase_action =
  ra_id :: action_id
  ra_date :: date
  ra_record_date :: "date option"
  ra_event :: "'d split_event"
  ra_rule :: fraction_rule

definition rebase_action_of :: "('d::{plus,linorder}) split_action \<Rightarrow> 'd rebase_action" where
  "rebase_action_of a =
     \<lparr>ra_id = sa_id a, ra_date = sa_date a, ra_record_date = sa_record_date a,
      ra_event = action_event (sa_date a) (sa_terms a),
      ra_rule = (case sa_fraction_rule a of None \<Rightarrow> RuleExact | Some r \<Rightarrow> r)\<rparr>"

record 'd pass_parcel =
  pp_id :: trade_id
  pp_date :: date
  pp_settled :: date
  pp_quantity :: "'d acquired_units"
  pp_account :: account_id

record 'd pass_sale =
  ps_sale :: trade_id
  ps_units :: "'d units_at"
  ps_settled :: date

definition db_parcels :: "('d::one) book \<Rightarrow> listing_id \<Rightarrow> 'd pass_parcel list" where
  "db_parcels B l =
     map (\<lambda>t. \<lparr>pp_id = st_id t, pp_date = st_date t, pp_settled = st_settlement_date t,
                pp_quantity = au_new (st_quantity t), pp_account = st_holding_account_id t\<rparr>)
       (sort_key (\<lambda>t. (st_date t, st_id t))
         (filter (\<lambda>t. st_listing_id t = l \<and> st_trade_type t \<in> {Buy, DRP}) (bk_trades B)))"

text \<open>The allocations with their sale and parcel: the joins the queries of this theory share.\<close>

definition joined_allocations ::
    "'d book \<Rightarrow> listing_id \<Rightarrow> ('d parcel_allocation \<times> 'd stored_trade \<times> 'd stored_trade) list" where
  "joined_allocations B l =
     concat (map (\<lambda>a. concat (map (\<lambda>p. map (\<lambda>s. (a, p, s))
           (filter (\<lambda>s. st_id s = al_sale_trade_id a) (bk_trades B)))
         (filter (\<lambda>p. st_id p = al_purchase_trade_id a \<and> st_listing_id p = l) (bk_trades B))))
       (bk_allocations B))"

definition db_sales :: "'d book \<Rightarrow> listing_id \<Rightarrow> trade_id \<Rightarrow> 'd pass_sale list" where
  "db_sales B l parcel =
     map (\<lambda>(a, p, s). \<lparr>ps_sale = al_sale_trade_id a,
                        ps_units = units_at_new (al_quantity_allocated a) (st_date s),
                        ps_settled = st_settlement_date s\<rparr>)
       (filter (\<lambda>(a, p, s). al_purchase_trade_id a = parcel)
         (sort_key (\<lambda>(a, p, s). (al_sale_trade_id a, al_purchase_trade_id a)) (joined_allocations B l)))"

definition db_overrides :: "'d book \<Rightarrow> listing_id \<Rightarrow> action_id \<times> account_id \<Rightarrow> 'd option" where
  "db_overrides B l k =
     map_option (\<lambda>(_, _, received). received)
       (find (\<lambda>(action, account, _). (action, account) = k
          \<and> list_ex (\<lambda>a. sa_id a = action \<and> sa_listing_id a = l) (bk_actions B)) (bk_overrides B))"

definition db_priors ::
    "('d::minus) book \<Rightarrow> listing_id \<Rightarrow> action_id \<times> trade_id \<Rightarrow> 'd prior option" where
  "db_priors B l k =
     map_option (\<lambda>r. \<lparr>pri_before = cr_units_before r, pri_on_grid = cr_units_after r - cr_in_lieu_units r\<rparr>)
       (find (\<lambda>r. (cr_action_id r, cr_trade_id r) = k
          \<and> list_ex (\<lambda>a. sa_id a = cr_action_id r \<and> sa_listing_id a = l) (bk_actions B)) (bk_counts B))"

text \<open>The actions before this one, as they re-base one parcel in this pass.\<close>

definition prior_events ::
    "'d rebase_action list \<Rightarrow> 'd counts_by_action \<Rightarrow> trade_id \<Rightarrow> 'd split_event list" where
  "prior_events earlier computed parcel =
     map (\<lambda>a. case Option.bind (computed (ra_id a)) (\<lambda>c. c parcel) of
                None \<Rightarrow> ra_event a
              | Some c \<Rightarrow> (ra_event a)\<lparr>se_new_units := sc_after c, se_old_units := sc_before c\<rparr>) earlier"

definition registered :: "date option \<Rightarrow> date \<Rightarrow> bool" where
  "registered record_date settled \<longleftrightarrow> (case record_date of None \<Rightarrow> True | Some d \<Rightarrow> settled \<le> d)"

definition sold_before :: "date \<Rightarrow> 'd pass_sale list \<Rightarrow> 'd pass_sale list" where
  "sold_before d sales =
     filter (\<lambda>s. case ua_basis (ps_units s) of None \<Rightarrow> False | Some b \<Rightarrow> b < d) sales"

definition parcel_before_action ::
    "'d::{zero,one,plus,minus,times,inverse,linorder} decimal_api \<Rightarrow> 'd rebase_action \<Rightarrow>
     'd split_event list \<Rightarrow> 'd pass_sale list \<Rightarrow> (action_id \<times> trade_id \<Rightarrow> 'd prior option) \<Rightarrow>
     'd pass_parcel \<Rightarrow> 'd parcel_before" where
  "parcel_before_action D action prior sold priors p =
     (let remaining = au_sub D (pp_quantity p)
            (sold_in_acquired_units D (pp_quantity p) (map ps_units sold) prior (pp_date p));
          (units, exact) =
            (if au_less D au_zero remaining
             then (ua_quantity (split_adjusted_quantity D remaining prior (pp_date p) None),
                   split_adjusted_fraction D remaining prior (pp_date p) None)
             else (0, None))
      in \<lparr>pb_trade_id = pp_id p, pb_acquired = pp_date p, pb_units = units, pb_exact = exact,
          pb_prior = priors (ra_id action, pp_id p)\<rparr>)"

definition straddling_units ::
    "'d::{zero,one,plus,minus,times,inverse,linorder} decimal_api \<Rightarrow> 'd split_event list \<Rightarrow>
     'd pass_sale \<Rightarrow> 'd fraction" where
  "straddling_units D prior s =
     (case rebased_fraction D (ps_units s) prior None of
        Some f \<Rightarrow> f | None \<Rightarrow> fraction_whole (ua_quantity (rebased D (ps_units s) prior None)))"

text \<open>Each straddling Sell's units as one exact count, in the order of the Sells.\<close>

definition delivered ::
    "'d::{zero,one,plus,inverse} decimal_api \<Rightarrow> (trade_id \<times> 'd fraction) list \<Rightarrow> 'd fraction list" where
  "delivered D pending =
     map (\<lambda>sale. let allocations = map snd (filter (\<lambda>(s, _). s = sale) pending)
                  in case fraction_sum D allocations of
                       Some f \<Rightarrow> f
                     | None \<Rightarrow> fraction_whole (dsum (map (\<lambda>f. fr_num f / fr_den f) allocations)))
       (sort (remdups (map fst pending)))"

text \<open>
  One holding: nothing is rounded where it has no grid. Its parcels are rounded together, over
  the register's units where a Sell straddles the record date.
\<close>

definition round_account ::
    "'d::{zero,one,plus,minus,inverse,linorder} decimal_api \<Rightarrow> 'd rebase_action \<Rightarrow> rounding \<Rightarrow>
     account_id \<Rightarrow> nat option \<Rightarrow> 'd option \<Rightarrow> 'd parcel_before list \<Rightarrow> (trade_id \<times> 'd fraction) list \<Rightarrow>
     'd round_error + 'd parcel_count list" where
  "round_account D action rounding account unit_scale received before pending =
     (case unit_scale of
        None \<Rightarrow> Inr []
      | Some s \<Rightarrow>
          map_error (RoundHolding (ra_id action) account)
            (if pending = []
             then round_holding D before (se_new_units (ra_event action)) (se_old_units (ra_event action))
                    s rounding received
             else round_registered_holding D before (delivered D pending)
                    (se_new_units (ra_event action)) (se_old_units (ra_event action)) s rounding received))"

text \<open>
  One action of the pass. The registered holdings are taken in the order of their accounts; a
  parcel not on the register at the record date is converted on its own.
\<close>

definition round_action ::
    "'d::{zero,one,plus,minus,times,inverse,linorder} decimal_api \<Rightarrow> 'd book \<Rightarrow> listing_id \<Rightarrow>
     'd rebase_action list \<Rightarrow> 'd counts_by_action \<Rightarrow> 'd rebase_action \<Rightarrow> rounding \<Rightarrow>
     'd round_error + 'd parcel_count list" where
  "round_action D B l earlier computed action rounding =
     (let parcels = filter (\<lambda>p. pp_date p < ra_date action) (db_parcels B l);
          prior = (\<lambda>p. prior_events earlier computed (pp_id p));
          sold = (\<lambda>p. sold_before (ra_date action) (db_sales B l (pp_id p)));
          before = (\<lambda>p. parcel_before_action D action (prior p) (sold p) (db_priors B l) p);
          on_register = (\<lambda>d. registered (ra_record_date action) d);
          members = (\<lambda>account. filter (\<lambda>p. on_register (pp_settled p) \<and> pp_account p = account) parcels);
          held = (\<lambda>account. filter (\<lambda>b. 0 < pb_units b) (map before (members account)));
          pending = (\<lambda>account. concat (map (\<lambda>p. map (\<lambda>s. (ps_sale s, straddling_units D (prior p) s))
                       (filter (\<lambda>s. \<not> on_register (ps_settled s)) (sold p))) (members account)));
          accounts = sort (remdups (map pp_account (filter (\<lambda>p. on_register (pp_settled p)) parcels)));
          obligations = filter (\<lambda>(_, b). 0 < pb_units b)
            (map (\<lambda>p. (pp_account p, before p)) (filter (\<lambda>p. \<not> on_register (pp_settled p)) parcels))
      in and_then (try_map (\<lambda>account.
             round_account D action rounding account (db_unit_scale B account l)
               (db_overrides B l (ra_id action, account)) (held account) (pending account)) accounts) (\<lambda>holdings.
         and_then (try_map (\<lambda>(account, b).
             round_account D action (for_obligation rounding) account (db_unit_scale B account l)
               None [b] []) obligations) (\<lambda>delivers.
           Inr (concat holdings @ concat delivers))))"

type_synonym 'd desired_counts = "((action_id \<times> trade_id) \<times> 'd parcel_count) list"

definition stored_of :: "'d parcel_count list \<Rightarrow> trade_id \<rightharpoonup> 'd stored_count" where
  "stored_of counts =
     foldl (\<lambda>m c. m(pc_trade_id c \<mapsto> \<lparr>sc_before = pc_before c, sc_after = pc_after c\<rparr>)) Map.empty counts"

definition desire :: "action_id \<Rightarrow> 'd parcel_count list \<Rightarrow> 'd desired_counts \<Rightarrow> 'd desired_counts" where
  "desire action counts desired =
     foldl (\<lambda>m c. AList.update (action, pc_trade_id c) c m) desired counts"

fun round_actions ::
    "'d::{zero,one,plus,minus,times,inverse,linorder} decimal_api \<Rightarrow> 'd book \<Rightarrow> listing_id \<Rightarrow>
     'd rebase_action list \<Rightarrow> 'd counts_by_action \<Rightarrow> 'd desired_counts \<Rightarrow> 'd rebase_action list \<Rightarrow>
     'd round_error + 'd desired_counts" where
  "round_actions D B l earlier computed desired [] = Inr desired"
| "round_actions D B l earlier computed desired (action # actions) =
     (case rule_rounding (ra_rule action) of
        None \<Rightarrow> round_actions D B l (earlier @ [action]) computed desired actions
      | Some rounding \<Rightarrow>
          and_then (round_action D B l earlier computed action rounding) (\<lambda>counts.
            round_actions D B l (earlier @ [action]) (computed(ra_id action \<mapsto> stored_of counts))
              (desire (ra_id action) counts desired) actions))"

section \<open>Storing what was recomputed\<close>

definition count_key :: "'d count_row \<Rightarrow> action_id \<times> trade_id" where
  "count_key r = (cr_action_id r, cr_trade_id r)"

definition count_row_of :: "action_id \<Rightarrow> 'd parcel_count \<Rightarrow> 'd count_row" where
  "count_row_of action c =
     \<lparr>cr_action_id = action, cr_trade_id = pc_trade_id c, cr_units_before = pc_before c,
      cr_units_after = pc_after c, cr_in_lieu_units = pc_in_lieu c\<rparr>"

definition reconcile_row ::
    "'d count_row list \<times> 'd desired_counts \<Rightarrow> 'd count_row \<Rightarrow> 'd count_row list \<times> 'd desired_counts" where
  "reconcile_row st row =
     (let (rows, desired) = st in
      case map_of desired (count_key row) of
        Some c \<Rightarrow>
          ((if cr_units_before row = pc_before c \<and> cr_units_after row = pc_after c
               \<and> cr_in_lieu_units row = pc_in_lieu c
            then rows
            else map (\<lambda>r. if count_key r = count_key row
                   then r\<lparr>cr_units_before := pc_before c, cr_units_after := pc_after c,
                          cr_in_lieu_units := pc_in_lieu c\<rparr> else r) rows),
           AList.delete (count_key row) desired)
      | None \<Rightarrow> (filter (\<lambda>r. count_key r \<noteq> count_key row) rows, desired))"

definition reconcile ::
    "'d rebase_action list \<Rightarrow> 'd desired_counts \<Rightarrow> 'd count_row list \<Rightarrow> 'd count_row list" where
  "reconcile actions desired counts =
     (let (rows, left) = foldl (\<lambda>st action.
            foldl reconcile_row st (filter (\<lambda>r. cr_action_id r = ra_id action) (fst st)))
          (counts, desired) actions
      in rows @ map (\<lambda>((action, _), c). count_row_of action c) (sort_key fst left))"

definition db_recompute_listing ::
    "'d::{zero,one,plus,minus,times,inverse,linorder} decimal_api \<Rightarrow> listing_id \<Rightarrow> 'd book \<Rightarrow>
     'd round_error + 'd book" where
  "db_recompute_listing D l B =
     (let actions = map rebase_action_of (listing_actions B l) in
      and_then (if list_ex (\<lambda>a. rule_rounding (ra_rule a) \<noteq> None) actions
                then round_actions D B l [] Map.empty [] actions else Inr []) (\<lambda>desired.
        Inr (B\<lparr>bk_counts := reconcile actions desired (bk_counts B)\<rparr>)))"

section \<open>Checks on the recomputed counts\<close>

definition sales_of_parcel :: "'d book \<Rightarrow> trade_id \<Rightarrow> 'd units_at list" where
  "sales_of_parcel B parcel =
     concat (map (\<lambda>a. map (\<lambda>s. units_at_new (al_quantity_allocated a) (st_date s))
         (filter (\<lambda>s. st_id s = al_sale_trade_id a) (bk_trades B)))
       (filter (\<lambda>a. al_purchase_trade_id a = parcel) (bk_allocations B)))"

definition parcel_fits ::
    "'d::{zero,one,plus,minus,times,inverse,linorder} decimal_api \<Rightarrow> 'd book \<Rightarrow> 'd listing_splits \<Rightarrow>
     'd stored_trade \<Rightarrow> bool" where
  "parcel_fits D B splits p \<longleftrightarrow>
     \<not> au_less D (au_new (st_quantity p))
       (sold_in_acquired_units D (au_new (st_quantity p)) (sales_of_parcel B (st_id p))
         (for_parcel splits (st_id p)) (st_date p))"

definition allocations_fit_parcels ::
    "'d::{zero,one,plus,minus,times,inverse,linorder} decimal_api \<Rightarrow> listing_id \<Rightarrow> 'd book \<Rightarrow> bool" where
  "allocations_fit_parcels D l B =
     (let splits = db_splits_for_listing B l
      in list_all (\<lambda>p. st_listing_id p = l \<and> sales_of_parcel B (st_id p) \<noteq> [] \<longrightarrow> parcel_fits D B splits p)
           (bk_trades B))"

fun first_some :: "('a \<Rightarrow> 'b option) \<Rightarrow> 'a list \<Rightarrow> 'b option" where
  "first_some f [] = None"
| "first_some f (x # xs) = (case f x of None \<Rightarrow> first_some f xs | Some y \<Rightarrow> Some y)"

text \<open>The running product of the announced terms, refused at the first count past the range.\<close>

fun beyond_range ::
    "'d::times decimal_api \<Rightarrow> 'd \<Rightarrow> date \<Rightarrow> 'd \<Rightarrow> 'd \<Rightarrow> 'd split_event list \<Rightarrow> 'd unrepresentable_quantity option"
  where
  "beyond_range D quantity acquired new old [] = None"
| "beyond_range D quantity acquired new old (e # es) =
     (if se_date e \<le> acquired then beyond_range D quantity acquired new old es
      else (let new' = new * se_new_units e; old' = old * se_old_units e in
        case checked_rebased_quantity D (''quantity'', quantity) (''new units'', new') (''old units'', old') of
          Inl err \<Rightarrow> Some err
        | Inr _ \<Rightarrow> beyond_range D quantity acquired new' old' es))"

definition rebased_quantity_beyond_range ::
    "'d::{one,times,inverse,linorder,plus} decimal_api \<Rightarrow> listing_id \<Rightarrow> 'd book \<Rightarrow>
     'd unrepresentable_quantity option" where
  "rebased_quantity_beyond_range D l B =
     (let splits = announced (db_splits_for_listing B l) in
      if splits = [] then None
      else (case first_some (\<lambda>t. beyond_range D (st_quantity t) (st_date t) 1 1 splits)
                   (filter (\<lambda>t. st_listing_id t = l \<and> st_trade_type t \<in> {Buy, DRP}) (bk_trades B)) of
          Some err \<Rightarrow> Some err
        | None \<Rightarrow>
            first_some (\<lambda>(a, p, s).
              let r = split_ratio D splits (st_date p) (Some (st_date s)) in
              case checked_rebased_quantity D (''quantity_allocated'', al_quantity_allocated a)
                     (''old units'', sr_old r) (''new units'', sr_new r) of
                Inl err \<Rightarrow> Some err | Inr _ \<Rightarrow> None) (joined_allocations B l)))"

text \<open>A recorded cash-in-lieu Sell must still sell the fraction its parcel carries.\<close>

definition payment_fits ::
    "'d::{zero,one,times,inverse,linorder} decimal_api \<Rightarrow> 'd count_row list \<Rightarrow> 'd listing_splits \<Rightarrow>
     'd stored_trade \<Rightarrow> 'd split_action \<Rightarrow> 'd parcel_allocation \<Rightarrow> bool" where
  "payment_fits D counts splits s a al =
     (let carried = (case find (\<lambda>c. count_key c = (sa_id a, al_purchase_trade_id al)) counts of
            None \<Rightarrow> 0 | Some c \<Rightarrow> cr_in_lieu_units c)
      in 0 < carried \<and>
         ua_quantity (rebased D (units_at_new carried (sa_date a))
            (for_parcel splits (al_purchase_trade_id al)) (Some (st_date s))) = al_quantity_allocated al)"

definition db_moved_payment ::
    "'d::{zero,one,plus,times,inverse,linorder} decimal_api \<Rightarrow> listing_id \<Rightarrow> 'd book \<Rightarrow>
     (trade_id \<times> action_id \<times> account_id) option" where
  "db_moved_payment D l B =
     (let payments = sort_key (\<lambda>(s, a, al). st_id s)
        (concat (map (\<lambda>s. concat (map (\<lambda>a. map (\<lambda>al. (s, a, al))
             (filter (\<lambda>al. al_sale_trade_id al = st_id s) (bk_allocations B)))
           (filter (\<lambda>a. st_cash_in_lieu_action_id s = Some (sa_id a) \<and> sa_listing_id a = l) (bk_actions B))))
         (bk_trades B)));
          splits = db_splits_for_listing B l
      in first_some (\<lambda>(s, a, al).
           if payment_fits D (bk_counts B) splits s a al then None
           else Some (st_id s, sa_id a, st_holding_account_id s)) payments)"

section \<open>Settling a write\<close>

datatype 'd settle_error =
    SettleRounding "'d round_error"
  | SettleUnrepresentable "'d unrepresentable_quantity"
  | AllocationsExceedParcel
  | CashInLieuMoved trade_id action_id account_id

definition settle_listing ::
    "'d::{zero,one,plus,minus,times,inverse,linorder} decimal_api \<Rightarrow> 'd book \<Rightarrow> listing_id \<Rightarrow>
     'd settle_error + 'd book" where
  "settle_listing D B l =
     and_then (map_error SettleRounding (db_recompute_listing D l B)) (\<lambda>B'.
       case rebased_quantity_beyond_range D l B' of
         Some beyond \<Rightarrow> Inl (SettleUnrepresentable beyond)
       | None \<Rightarrow>
           if \<not> allocations_fit_parcels D l B' then Inl AllocationsExceedParcel
           else (case db_moved_payment D l B' of
                   Some (sell, action, account) \<Rightarrow> Inl (CashInLieuMoved sell action account)
                 | None \<Rightarrow> Inr B'))"

definition db_settle ::
    "'d::{zero,one,plus,minus,times,inverse,linorder} decimal_api \<Rightarrow> 'd book \<Rightarrow> 'd settle_error + 'd book"
  where
  "db_settle D B =
     map_result (\<lambda>B'. B'\<lparr>bk_dirty := []\<rparr>)
       (try_foldl (settle_listing D) B (sort (remdups (bk_dirty B))))"

section \<open>Lemmas\<close>

lemma sort_key_order_cong:
  assumes "\<And>x y. x \<in> set xs \<Longrightarrow> y \<in> set xs \<Longrightarrow> f x \<le> f y \<longleftrightarrow> g x \<le> g y"
  shows "sort_key f xs = sort_key g xs"
  using assms
proof (induction xs)
  case (Cons a xs)
  have "insort_key f a ys = insort_key g a ys" if "set ys \<subseteq> set xs" for ys
    using that Cons.prems [of a] by (induction ys) auto
  moreover have "sort_key f xs = sort_key g xs" using Cons by simp
  moreover have "set (sort_key g xs) \<subseteq> set xs" by simp
  ultimately have "insort_key f a (sort_key f xs) = insort_key g a (sort_key g xs)" by metis
  then show ?case by (simp add: sort_key_def)
qed simp

lemma events_with_counts_map:
  "distinct (map sa_id as) \<Longrightarrow> events_with_counts as counts
     = map (\<lambda>a. (sa_listing_id a, (action_event (sa_date a) (sa_terms a))\<lparr>se_stored := counts (sa_id a)\<rparr>)) as"
proof (induction as arbitrary: counts)
  case (Cons a as)
  then have "events_with_counts as (counts(sa_id a := None))
      = map (\<lambda>b. (sa_listing_id b, (action_event (sa_date b) (sa_terms b))
          \<lparr>se_stored := (counts(sa_id a := None)) (sa_id b)\<rparr>)) as" by simp
  also have "\<dots> = map (\<lambda>b. (sa_listing_id b, (action_event (sa_date b) (sa_terms b))\<lparr>se_stored := counts (sa_id b)\<rparr>)) as"
    using Cons.prems by (intro map_cong) (auto simp: image_iff)
  finally show ?case by simp
qed simp

definition count_get :: "'d count_row list \<Rightarrow> action_id \<times> trade_id \<Rightarrow> 'd count_row option" where
  "count_get rows k = find (\<lambda>r. count_key r = k) rows"

definition stored_step :: "'d counts_by_action \<Rightarrow> 'd count_row \<Rightarrow> 'd counts_by_action" where
  "stored_step m r = m(cr_action_id r \<mapsto>
     (case m (cr_action_id r) of None \<Rightarrow> Map.empty | Some c \<Rightarrow> c)
       (cr_trade_id r \<mapsto> \<lparr>sc_before = cr_units_before r, sc_after = cr_units_after r\<rparr>))"

definition stored_value :: "'d count_row \<Rightarrow> 'd stored_count" where
  "stored_value r = \<lparr>sc_before = cr_units_before r, sc_after = cr_units_after r\<rparr>"

lemma count_get_None: "count_get rows k = None \<longleftrightarrow> k \<notin> count_key ` set rows"
  by (auto simp: count_get_def find_None_iff)

lemma stored_fold:
  assumes "distinct (map count_key rows)"
  shows "foldl stored_step m rows a =
     (if \<exists>r \<in> set rows. cr_action_id r = a
      then Some (\<lambda>t. case count_get rows (a, t) of Some r \<Rightarrow> Some (stored_value r)
                     | None \<Rightarrow> Option.bind (m a) (\<lambda>c. c t))
      else m a)"
  using assms
proof (induction rows arbitrary: m)
  case (Cons r rows)
  have new: "count_get rows (a, t) = None" if "count_key r = (a, t)" for t
    using Cons.prems that by (auto simp: count_get_None)
  have other: "count_get (r # rows) (a, t) = (if count_key r = (a, t) then Some r else count_get rows (a, t))" for t
    by (simp add: count_get_def)
  note IH = Cons.IH [of "stored_step m r"]
  show ?case
  proof (cases "cr_action_id r = a")
    case True
    have step: "stored_step m r a = Some ((\<lambda>t. Option.bind (m a) (\<lambda>c. c t))(cr_trade_id r \<mapsto> stored_value r))"
      using True by (auto simp: stored_step_def stored_value_def fun_eq_iff split: option.splits)
    have none: "count_get rows (a, t) = None" if "\<forall>r \<in> set rows. cr_action_id r \<noteq> a" for t
      using that by (auto simp: count_get_None count_key_def)
    have "foldl stored_step (stored_step m r) rows a = Some (\<lambda>t. case count_get (r # rows) (a, t) of
        Some r \<Rightarrow> Some (stored_value r) | None \<Rightarrow> Option.bind (m a) (\<lambda>c. c t))"
      using IH Cons.prems new none True unfolding step
      by (auto simp: other count_key_def fun_eq_iff split: option.splits)
    then show ?thesis using True by simp
  next
    case False
    then have same: "stored_step m r a = m a" by (simp add: stored_step_def)
    moreover have "count_get (r # rows) (a, t) = count_get rows (a, t)" for t
      using False by (simp add: other count_key_def)
    ultimately show ?thesis using IH [unfolded same] Cons.prems False by simp
  qed
qed simp

lemma filter_distinct_map: "distinct (map f xs) \<Longrightarrow> distinct (map f (filter P xs))"
  by (rule distinct_map_filter)

lemma count_get_filter:
  assumes "\<And>r. r \<in> set rows \<Longrightarrow> count_key r = k \<Longrightarrow> P r"
  shows "count_get (filter P rows) k = count_get rows k"
  using assms by (induction rows) (auto simp: count_get_def)

lemma list_ex_id:
  assumes "distinct (map sa_id as)" and "a \<in> set as"
  shows "list_ex (\<lambda>b. sa_id b = sa_id a \<and> Q b) as \<longleftrightarrow> Q a"
  using assms by (auto simp: list_ex_iff distinct_map inj_on_def)

lemma stored_counts_get:
  assumes "distinct (map sa_id (bk_actions B))" and "distinct (map count_key (bk_counts B))"
    and "a \<in> set (bk_actions B)" and "listing = None \<or> listing = Some (sa_listing_id a)"
  shows "db_stored_counts B listing (sa_id a) =
     (if \<exists>r \<in> set (bk_counts B). cr_action_id r = sa_id a
      then Some (\<lambda>t. map_option stored_value (count_get (bk_counts B) (sa_id a, t))) else None)"
proof -
  let ?P = "\<lambda>r. list_ex (\<lambda>a. sa_id a = cr_action_id r
      \<and> (listing = None \<or> listing = Some (sa_listing_id a))) (bk_actions B)"
  have P: "?P r" if "cr_action_id r = sa_id a" for r
    using list_ex_id [OF assms(1,3), of "\<lambda>a. listing = None \<or> listing = Some (sa_listing_id a)"] assms(4) that
    by simp
  have "count_get (filter ?P (bk_counts B)) (sa_id a, t) = count_get (bk_counts B) (sa_id a, t)" for t
    by (rule count_get_filter) (rule P, simp add: count_key_def)
  moreover have "db_stored_counts B listing = foldl stored_step Map.empty (filter ?P (bk_counts B))"
    by (simp add: db_stored_counts_def stored_step_def [abs_def])
  moreover have "(\<exists>r \<in> set (filter ?P (bk_counts B)). cr_action_id r = sa_id a)
      \<longleftrightarrow> (\<exists>r \<in> set (bk_counts B). cr_action_id r = sa_id a)"
    using P by auto
  ultimately show ?thesis
    using stored_fold [OF filter_distinct_map [OF assms(2), of ?P], of Map.empty "sa_id a"]
    by (auto simp: fun_eq_iff map_option_case split: option.splits)
qed

lemma listing_actions_set [simp]: "set (listing_actions B l) = {a \<in> set (bk_actions B). sa_listing_id a = l}"
  by (auto simp: listing_actions_def)

lemma listing_actions_distinct:
  "distinct (map sa_id (bk_actions B)) \<Longrightarrow> distinct (map sa_id (listing_actions B l))"
  by (auto simp: listing_actions_def distinct_map inj_on_def)

text \<open>The splits of a listing depend on its actions and on the counts stored for them.\<close>

definition split_of :: "('d::{plus,linorder}) book \<Rightarrow> 'd split_action \<Rightarrow> 'd split_event" where
  "split_of B a = (action_event (sa_date a) (sa_terms a))\<lparr>se_stored :=
     (if \<exists>r \<in> set (bk_counts B). cr_action_id r = sa_id a
      then Some (\<lambda>t. map_option stored_value (count_get (bk_counts B) (sa_id a, t))) else None)\<rparr>"

lemma splits_for_listing:
  assumes "distinct (map sa_id (bk_actions B))" and "distinct (map count_key (bk_counts B))"
  shows "db_splits_for_listing B l = map (split_of B) (listing_actions B l)"
proof -
  have "db_stored_counts B (Some l) (sa_id a) =
     (if \<exists>r \<in> set (bk_counts B). cr_action_id r = sa_id a
      then Some (\<lambda>t. map_option stored_value (count_get (bk_counts B) (sa_id a, t))) else None)"
    if "a \<in> set (listing_actions B l)" for a
    using stored_counts_get [OF assms, of a "Some l"] that by simp
  then show ?thesis
    unfolding db_splits_for_listing_def events_with_counts_map [OF listing_actions_distinct [OF assms(1)]] map_map
    by (intro map_cong) (simp_all only: comp_def snd_conv split_of_def)
qed

lemma splits_cong:
  fixes B :: "('d::{plus,linorder}) book"
  assumes "distinct (map sa_id (bk_actions B))" and "distinct (map count_key (bk_counts B))"
    and "distinct (map count_key (bk_counts B'))" and "bk_actions B' = bk_actions B"
    and "\<And>a t. a \<in> set (bk_actions B) \<Longrightarrow> sa_listing_id a = l \<Longrightarrow>
      count_get (bk_counts B') (sa_id a, t) = count_get (bk_counts B) (sa_id a, t)"
  shows "db_splits_for_listing B' l = db_splits_for_listing B l"
proof -
  have "(\<exists>r \<in> set (bk_counts B'). cr_action_id r = sa_id a) \<longleftrightarrow> (\<exists>r \<in> set (bk_counts B). cr_action_id r = sa_id a)"
    if "a \<in> set (bk_actions B)" "sa_listing_id a = l" for a
  proof -
    have "(\<exists>r \<in> set (bk_counts X). cr_action_id r = sa_id a) \<longleftrightarrow> (\<exists>t. count_get (bk_counts X) (sa_id a, t) \<noteq> None)"
      for X :: "'d book"
      by (force simp: count_get_None count_key_def image_iff)
    then show ?thesis using assms(5) [OF that] by simp
  qed
  then have "split_of B' a = split_of B a" if "a \<in> set (listing_actions B l)" for a
    using assms(5) that by (simp add: split_of_def)
  moreover have "listing_actions B' l = listing_actions B l" by (simp add: listing_actions_def assms(4))
  ultimately show ?thesis
    using splits_for_listing [OF assms(1,2)] splits_for_listing [of B'] assms(1,3,4) by simp
qed

lemma share_split_events_for:
  fixes B :: "('d::{plus,linorder}) book"
  assumes "distinct (map sa_id (bk_actions B))" and "distinct (map count_key (bk_counts B))"
  shows "(case db_share_split_events B l of None \<Rightarrow> [] | Some s \<Rightarrow> s)
    = map (split_of B) (listing_actions B l)"
proof -
  let ?key = "\<lambda>a :: 'd split_action. (sa_listing_id a, sa_date a, sa_id a)"
  let ?all = "sort_key ?key (bk_actions B)"
  have ids: "distinct (map sa_id ?all)" using assms(1) by (auto simp: distinct_map inj_on_def)
  have "db_stored_counts B None (sa_id a) =
     (if \<exists>r \<in> set (bk_counts B). cr_action_id r = sa_id a
      then Some (\<lambda>t. map_option stored_value (count_get (bk_counts B) (sa_id a, t))) else None)"
    if "a \<in> set ?all" for a
    using stored_counts_get [OF assms, of a None] that by simp
  then have events: "events_with_counts ?all (db_stored_counts B None) = map (\<lambda>a. (sa_listing_id a, split_of B a)) ?all"
    unfolding events_with_counts_map [OF ids] by (intro map_cong) (simp_all only: split_of_def)
  have "(case db_share_split_events B l of None \<Rightarrow> [] | Some s \<Rightarrow> s)
      = map snd (filter (\<lambda>(k, _). k = l) (map (\<lambda>a. (sa_listing_id a, split_of B a)) ?all))"
    unfolding db_share_split_events_def events rename_fold_chain by (auto split: if_splits)
  also have "\<dots> = map (split_of B) (filter (\<lambda>a. sa_listing_id a = l) ?all)"
    by (simp add: filter_map comp_def)
  also have "filter (\<lambda>a. sa_listing_id a = l) ?all = listing_actions B l"
    unfolding filter_sort listing_actions_def by (rule sort_key_order_cong) auto
  finally show ?thesis .
qed

subsection \<open>Storing the counts\<close>

lemma count_get_map:
  assumes "\<And>r. count_key (f r) = count_key r"
  shows "count_get (map f rows) k = map_option f (count_get rows k)"
  using assms by (induction rows) (simp_all add: count_get_def)

lemma count_get_Some: "count_get rows k = Some r \<Longrightarrow> r \<in> set rows \<and> count_key r = k"
  using find_SomeD [of "\<lambda>r. count_key r = k" rows r] by (simp add: count_get_def)

lemma count_get_in:
  "distinct (map count_key rows) \<Longrightarrow> r \<in> set rows \<Longrightarrow> count_get rows (count_key r) = Some r"
  by (induction rows) (auto simp: count_get_def image_iff)

text \<open>A desired count is kept under its own action and parcel.\<close>

definition desired_ok :: "'d desired_counts \<Rightarrow> bool" where
  "desired_ok desired \<longleftrightarrow> distinct (map fst desired) \<and> (\<forall>(k, c) \<in> set desired. pc_trade_id c = snd k)"

lemma desired_okD: "desired_ok desired \<Longrightarrow> map_of desired k = Some c \<Longrightarrow> pc_trade_id c = snd k"
  unfolding desired_ok_def by (drule map_of_SomeD, drule conjunct2, drule (1) bspec) simp

lemma desired_ok_delete: "desired_ok desired \<Longrightarrow> desired_ok (AList.delete k desired)"
  using AList.distinct_delete [of desired k] by (auto simp: desired_ok_def AList.delete_eq)

lemma reconcile_row_lookup:
  assumes keys: "distinct (map count_key rows)" and row: "row \<in> set rows" and ok: "desired_ok desired"
    and step: "reconcile_row (rows, desired) row = (rows', desired')"
  shows "distinct (map count_key rows') \<and> desired_ok desired'
    \<and> count_get rows' = (count_get rows)(count_key row :=
          map_option (count_row_of (fst (count_key row))) (map_of desired (count_key row)))
    \<and> map_of desired' = (map_of desired)(count_key row := None)
    \<and> set (map count_key rows') \<subseteq> set (map count_key rows)"
proof (cases "map_of desired (count_key row)")
  case None
  then have r: "rows' = filter (\<lambda>r. count_key r \<noteq> count_key row) rows" "desired' = desired"
    using step by (simp_all add: reconcile_row_def)
  have "count_get rows' k = (if k = count_key row then None else count_get rows k)" for k
    unfolding r by (induction rows) (auto simp: count_get_def)
  then show ?thesis
    using keys ok None by (auto simp: r fun_eq_iff filter_distinct_map)
next
  case (Some c)
  let ?new = "count_row_of (fst (count_key row)) c"
  let ?f = "\<lambda>r. if count_key r = count_key row
     then r\<lparr>cr_units_before := pc_before c, cr_units_after := pc_after c, cr_in_lieu_units := pc_in_lieu c\<rparr> else r"
  have trade: "pc_trade_id c = cr_trade_id row" using desired_okD [OF ok Some] by (simp add: count_key_def)
  have f: "count_key (?f r) = count_key r" for r by (simp add: count_key_def)
  have fr: "?f r = ?new" if "count_key r = count_key row" for r
    using that trade by (simp add: count_row_of_def count_key_def)
  have "rows' = map ?f rows" and d: "desired' = AList.delete (count_key row) desired"
  proof -
    have "map ?f rows = rows" if "cr_units_before row = pc_before c" "cr_units_after row = pc_after c"
        "cr_in_lieu_units row = pc_in_lieu c"
    proof (rule map_idI)
      fix r
      assume "r \<in> set rows"
      moreover have "r = row" if "count_key r = count_key row" "r \<in> set rows"
        using that keys row by (auto simp: distinct_map inj_on_def)
      ultimately show "?f r = r" using that by auto
    qed
    then show "rows' = map ?f rows" "desired' = AList.delete (count_key row) desired"
      using step Some by (auto simp: reconcile_row_def split: if_splits)
  qed
  note rows' = this(1)
  have "count_get rows' k = (if k = count_key row then Some ?new else count_get rows k)" for k
  proof (cases "k = count_key row")
    case True
    then show ?thesis unfolding rows' count_get_map [of ?f, OF f] using count_get_in [OF keys row] fr by simp
  next
    case False
    have "map_option ?f (count_get rows k) = count_get rows k"
      using False count_get_Some [of rows k] by (cases "count_get rows k") auto
    then show ?thesis unfolding rows' count_get_map [of ?f, OF f] using False by simp
  qed
  moreover have "map count_key rows' = map count_key rows" by (simp add: rows' f cong: if_cong)
  ultimately show ?thesis
    using keys Some desired_ok_delete [OF ok] by (simp add: fun_eq_iff d AList.delete_conv')
qed

lemma reconcile_rows_lookup:
  assumes "distinct (map count_key rows)" and "desired_ok desired" and "distinct (map count_key es)"
    and "\<And>r. r \<in> set es \<Longrightarrow> count_get rows (count_key r) = Some r"
    and "foldl reconcile_row (rows, desired) es = (rows', desired')"
  shows "distinct (map count_key rows') \<and> desired_ok desired'
    \<and> count_get rows' = (\<lambda>k. if k \<in> count_key ` set es
         then map_option (count_row_of (fst k)) (map_of desired k) else count_get rows k)
    \<and> map_of desired' = (\<lambda>k. if k \<in> count_key ` set es then None else map_of desired k)"
  using assms
proof (induction es arbitrary: rows desired)
  case (Cons e es)
  obtain rows1 desired1 where step: "reconcile_row (rows, desired) e = (rows1, desired1)"
    by (cases "reconcile_row (rows, desired) e")
  have "e \<in> set rows" using count_get_Some [of rows "count_key e" e] Cons.prems(4) [of e] by simp
  note one = reconcile_row_lookup [OF Cons.prems(1) this Cons.prems(2) step]
  have new: "count_key e \<notin> count_key ` set es" and es: "distinct (map count_key es)"
    using Cons.prems(3) by auto
  have "count_get rows1 (count_key r) = Some r" if "r \<in> set es" for r
  proof -
    have "count_key r \<noteq> count_key e" using new that by (metis imageI)
    then show ?thesis using one Cons.prems(4) [of r] that by simp
  qed
  then have IH: "distinct (map count_key rows') \<and> desired_ok desired'
    \<and> count_get rows' = (\<lambda>k. if k \<in> count_key ` set es
         then map_option (count_row_of (fst k)) (map_of desired1 k) else count_get rows1 k)
    \<and> map_of desired' = (\<lambda>k. if k \<in> count_key ` set es then None else map_of desired1 k)"
    using Cons.IH [of rows1 desired1] one es Cons.prems(5) step by simp
  moreover have "count_get rows1 = (\<lambda>k. if k = count_key e
      then map_option (count_row_of (fst k)) (map_of desired k) else count_get rows k)"
    and "map_of desired1 = (\<lambda>k. if k = count_key e then None else map_of desired k)"
    using one by (auto simp: fun_upd_def fun_eq_iff simp del: split_paired_All)
  ultimately show ?case using new by (auto simp: fun_eq_iff simp del: split_paired_All)
qed simp

lemma reconcile_action_lookup:
  assumes "distinct (map count_key rows)" and "desired_ok desired"
    and "foldl reconcile_row (rows, desired) (filter (\<lambda>r. cr_action_id r = a) rows) = (rows', desired')"
  shows "distinct (map count_key rows') \<and> desired_ok desired'
    \<and> (\<forall>k. count_get rows' k = (if fst k = a \<and> count_get rows k \<noteq> None
         then map_option (count_row_of (fst k)) (map_of desired k) else count_get rows k))
    \<and> (\<forall>k. map_of desired' k = (if fst k = a \<and> count_get rows k \<noteq> None then None else map_of desired k))"
proof -
  have keys: "k \<in> count_key ` set (filter (\<lambda>r. cr_action_id r = a) rows) \<longleftrightarrow> fst k = a \<and> count_get rows k \<noteq> None" for k
    by (auto simp: count_get_None count_key_def image_iff)
  have get: "count_get rows (count_key r) = Some r" if "r \<in> set (filter (\<lambda>r. cr_action_id r = a) rows)" for r
    using that by (intro count_get_in [OF assms(1)]) simp
  show ?thesis
    using reconcile_rows_lookup [OF assms(1,2) filter_distinct_map [OF assms(1)] get assms(3)]
    unfolding keys by (simp add: fun_eq_iff)
qed

definition reconcile_pass ::
    "'d count_row list \<times> 'd desired_counts \<Rightarrow> action_id \<Rightarrow> 'd count_row list \<times> 'd desired_counts" where
  "reconcile_pass st a = foldl reconcile_row st (filter (\<lambda>r. cr_action_id r = a) (fst st))"

lemma reconcile_passes_lookup:
  assumes "distinct (map count_key rows)" and "desired_ok desired" and "distinct ids"
    and "foldl reconcile_pass (rows, desired) ids = (rows', desired')"
  shows "distinct (map count_key rows') \<and> desired_ok desired'
    \<and> (\<forall>k. count_get rows' k = (if fst k \<in> set ids \<and> count_get rows k \<noteq> None
         then map_option (count_row_of (fst k)) (map_of desired k) else count_get rows k))
    \<and> (\<forall>k. map_of desired' k = (if fst k \<in> set ids \<and> count_get rows k \<noteq> None then None else map_of desired k))"
  using assms
proof (induction ids arbitrary: rows desired)
  case (Cons a ids)
  obtain rows1 desired1 where step: "reconcile_pass (rows, desired) a = (rows1, desired1)"
    by (cases "reconcile_pass (rows, desired) a")
  note one = reconcile_action_lookup [OF Cons.prems(1,2) step [unfolded reconcile_pass_def fst_conv]]
  have IH: "distinct (map count_key rows') \<and> desired_ok desired'
    \<and> (\<forall>k. count_get rows' k = (if fst k \<in> set ids \<and> count_get rows1 k \<noteq> None
         then map_option (count_row_of (fst k)) (map_of desired1 k) else count_get rows1 k))
    \<and> (\<forall>k. map_of desired' k = (if fst k \<in> set ids \<and> count_get rows1 k \<noteq> None then None else map_of desired1 k))"
    using Cons.IH [of rows1 desired1] one Cons.prems(3,4) step by simp
  have "a \<notin> set ids" using Cons.prems(3) by simp
  then have "count_get rows1 k = count_get rows k \<and> map_of desired1 k = map_of desired k" if "fst k \<in> set ids" for k
    using one that by (cases k) auto
  then show ?case using IH one \<open>a \<notin> set ids\<close> by auto
qed simp

lemma count_get_append:
  "count_get (xs @ ys) k = (case count_get xs k of None \<Rightarrow> count_get ys k | Some r \<Rightarrow> Some r)"
  by (induction xs) (auto simp: count_get_def)

lemma count_get_desired:
  assumes "desired_ok desired"
  shows "count_get (map (\<lambda>((action, _), c). count_row_of action c) desired) k
      = map_option (count_row_of (fst k)) (map_of desired k)
    \<and> map count_key (map (\<lambda>((action, _), c). count_row_of action c) desired) = map fst desired"
  using assms
proof (induction desired)
  case (Cons d desired)
  obtain a t c where d: "d = ((a, t), c)" by (metis surj_pair)
  have ok: "desired_ok desired" and t: "pc_trade_id c = t"
    using Cons.prems by (simp_all add: desired_ok_def d)
  then show ?case using Cons.IH by (auto simp: d count_get_def count_row_of_def count_key_def)
qed (simp add: count_get_def)

lemma reconcile_lookup:
  assumes "distinct (map count_key counts)" and "desired_ok desired" and "distinct (map ra_id actions)"
    and "\<And>k c. (k, c) \<in> set desired \<Longrightarrow> fst k \<in> ra_id ` set actions"
  shows "distinct (map count_key (reconcile actions desired counts))
    \<and> (\<forall>k. count_get (reconcile actions desired counts) k =
         (if fst k \<in> ra_id ` set actions then map_option (count_row_of (fst k)) (map_of desired k)
          else count_get counts k))"
proof -
  obtain rows left where pass: "foldl reconcile_pass (counts, desired) (map ra_id actions) = (rows, left)"
    by (cases "foldl reconcile_pass (counts, desired) (map ra_id actions)")
  have r: "reconcile actions desired counts = rows @ map (\<lambda>((action, _), c). count_row_of action c) (sort_key fst left)"
    using pass by (simp add: reconcile_def reconcile_pass_def [abs_def] foldl_map)
  note p = reconcile_passes_lookup [OF assms(1,2,3) pass]
  have left: "desired_ok (sort_key fst left)"
    using p by (auto simp: desired_ok_def distinct_map inj_on_def)
  have mo: "map_of (sort_key fst left) = map_of left"
    using left p by (subst map_of_inject_set) (auto simp: desired_ok_def)
  note tail = count_get_desired [OF left]
  have in_actions: "fst k \<in> ra_id ` set actions" if "map_of desired k \<noteq> None" for k
    using that map_of_SomeD [of desired k] assms(4) by fastforce
  have get: "count_get (reconcile actions desired counts) k =
      (case count_get rows k of None \<Rightarrow> map_option (count_row_of (fst k)) (map_of left k) | Some r \<Rightarrow> Some r)" for k
    unfolding r count_get_append using tail mo by (simp split: option.split)
  have "count_get (reconcile actions desired counts) k =
         (if fst k \<in> ra_id ` set actions then map_option (count_row_of (fst k)) (map_of desired k)
          else count_get counts k)" for k
    unfolding get using p in_actions [of k] by (cases k) (auto split: option.split)
  moreover have "distinct (map count_key (reconcile actions desired counts))"
  proof -
    have "count_get rows k = None" if "k \<in> set (map fst left)" for k
    proof -
      have "map_of left k \<noteq> None" using that by (simp add: map_of_eq_None_iff)
      then show ?thesis using p in_actions [of k] by (cases k) (auto split: if_splits)
    qed
    then have "set (map count_key rows) \<inter> set (map fst (sort_key fst left)) = {}"
      by (auto simp: count_get_None)
    moreover have tk: "map count_key (map (\<lambda>((action, _), c). count_row_of action c) (sort_key fst left))
        = map fst (sort_key fst left)" using tail by blast
    moreover have "distinct (map fst (sort_key fst left))" using left by (simp add: desired_ok_def)
    ultimately show ?thesis using p unfolding r map_append tk distinct_append by blast
  qed
  ultimately show ?thesis by blast
qed

subsection \<open>What a settled write leaves\<close>

lemma desire_ok:
  assumes "desired_ok desired"
  shows "desired_ok (desire a counts desired)
    \<and> (\<forall>(k, c) \<in> set (desire a counts desired). fst k = a \<or> (k, c) \<in> set desired)"
  using assms
proof (induction counts arbitrary: desired)
  case (Cons c counts)
  let ?m = "AList.update (a, pc_trade_id c) c desired"
  have sub: "set ?m \<subseteq> insert ((a, pc_trade_id c), c) (set desired)" by (rule set_update_sub)
  have "desired_ok ?m"
    using Cons.prems AList.distinct_update [of desired "(a, pc_trade_id c)" c] sub by (fastforce simp: desired_ok_def)
  then show ?case using Cons.IH [of ?m] sub by (fastforce simp: desire_def)
qed (auto simp: desire_def)

lemma round_actions_ok:
  assumes "round_actions D B l earlier computed desired actions = Inr desired'" and "desired_ok desired"
  shows "desired_ok desired'
    \<and> (\<forall>(k, c) \<in> set desired'. fst k \<in> ra_id ` set actions \<or> (k, c) \<in> set desired)"
  using assms
proof (induction actions arbitrary: earlier computed desired)
  case (Cons action actions)
  show ?case
  proof (cases "rule_rounding (ra_rule action)")
    case None
    then show ?thesis using Cons by fastforce
  next
    case (Some r)
    then obtain counts where "round_actions D B l (earlier @ [action]) (computed(ra_id action \<mapsto> stored_of counts))
        (desire (ra_id action) counts desired) actions = Inr desired'"
      using Cons.prems(1) by (auto simp: result_simps)
    from Cons.IH [OF this] desire_ok [OF Cons.prems(2), of "ra_id action" counts] show ?thesis by fastforce
  qed
qed simp

text \<open>The counts the pass asks for.\<close>

definition pass_counts ::
    "'d::{zero,one,plus,minus,times,inverse,linorder} decimal_api \<Rightarrow> listing_id \<Rightarrow> 'd book \<Rightarrow>
     'd round_error + 'd desired_counts" where
  "pass_counts D l B =
     (let actions = map rebase_action_of (listing_actions B l) in
      if list_ex (\<lambda>a. rule_rounding (ra_rule a) \<noteq> None) actions
      then round_actions D B l [] Map.empty [] actions else Inr [])"

definition book_keys :: "'d book \<Rightarrow> bool" where
  "book_keys B \<longleftrightarrow> distinct (map st_id (bk_trades B)) \<and> distinct (map sa_id (bk_actions B))
     \<and> distinct (map count_key (bk_counts B))"

definition of_listing :: "'d book \<Rightarrow> listing_id \<Rightarrow> action_id \<Rightarrow> bool" where
  "of_listing B l i \<longleftrightarrow> (\<exists>a \<in> set (bk_actions B). sa_id a = i \<and> sa_listing_id a = l)"

lemma recompute_facts:
  assumes r: "db_recompute_listing D l B = Inr B'" and keys: "book_keys B"
  shows "\<exists>desired. pass_counts D l B = Inr desired
    \<and> B' = B\<lparr>bk_counts := bk_counts B'\<rparr> \<and> distinct (map count_key (bk_counts B'))
    \<and> (\<forall>k. count_get (bk_counts B') k =
         (if of_listing B l (fst k) then map_option (count_row_of (fst k)) (map_of desired k)
          else count_get (bk_counts B) k))"
proof -
  let ?actions = "map rebase_action_of (listing_actions B l)"
  obtain desired where d: "pass_counts D l B = Inr desired"
    and B': "B' = B\<lparr>bk_counts := reconcile ?actions desired (bk_counts B)\<rparr>"
    using r by (auto simp: db_recompute_listing_def pass_counts_def Let_def result_simps)
  have nil: "desired_ok []" by (simp add: desired_ok_def)
  have ok: "desired_ok desired \<and> (\<forall>(k, c) \<in> set desired. fst k \<in> ra_id ` set ?actions)"
  proof (cases "list_ex (\<lambda>a. rule_rounding (ra_rule a) \<noteq> None) ?actions")
    case True
    then have "round_actions D B l [] Map.empty [] ?actions = Inr desired"
      using d by (simp add: pass_counts_def)
    from round_actions_ok [OF this nil] show ?thesis by fastforce
  next
    case False
    then have "desired = []" using d by (simp add: pass_counts_def)
    then show ?thesis using nil by simp
  qed
  have "distinct (map ra_id ?actions)"
    using listing_actions_distinct [of B l] keys by (simp add: book_keys_def rebase_action_of_def comp_def)
  moreover have "fst k \<in> ra_id ` set ?actions" if "(k, c) \<in> set desired" for k c using ok that by blast
  moreover have ids: "i \<in> ra_id ` set ?actions \<longleftrightarrow> of_listing B l i" for i
    by (auto simp: of_listing_def rebase_action_of_def image_iff)
  ultimately have "distinct (map count_key (reconcile ?actions desired (bk_counts B)))
      \<and> (\<forall>k. count_get (reconcile ?actions desired (bk_counts B)) k =
         (if of_listing B l (fst k) then map_option (count_row_of (fst k)) (map_of desired k)
          else count_get (bk_counts B) k))"
    using reconcile_lookup [of "bk_counts B" desired ?actions] ok keys
    by (simp add: book_keys_def del: split_paired_All set_map)
  then show ?thesis using d by (auto simp: B' simp del: split_paired_All)
qed

text \<open>What the checks of a listing read is the same in both books.\<close>

definition same_listing :: "listing_id \<Rightarrow> 'd book \<Rightarrow> 'd book \<Rightarrow> bool" where
  "same_listing l B B' \<longleftrightarrow> bk_actions B' = bk_actions B \<and> bk_trades B' = bk_trades B
     \<and> bk_allocations B' = bk_allocations B
     \<and> (\<forall>a \<in> set (bk_actions B). sa_listing_id a = l \<longrightarrow>
          (\<forall>t. count_get (bk_counts B') (sa_id a, t) = count_get (bk_counts B) (sa_id a, t)))"

lemma same_listing_refl: "same_listing l B B"
  by (simp add: same_listing_def)

lemma same_listing_trans: "same_listing l A B \<Longrightarrow> same_listing l B C \<Longrightarrow> same_listing l A C"
  by (simp add: same_listing_def)

lemma same_splits:
  fixes B :: "('d::{plus,linorder}) book"
  assumes "same_listing l B B'" and "book_keys B" and "book_keys B'"
  shows "db_splits_for_listing B' l = db_splits_for_listing B l"
  using assms by (intro splits_cong) (auto simp: same_listing_def book_keys_def)

lemma same_sales: "same_listing l B B' \<Longrightarrow> sales_of_parcel B' = sales_of_parcel B"
  by (simp add: same_listing_def sales_of_parcel_def fun_eq_iff)

lemma same_fits:
  assumes "same_listing l B B'" and "book_keys B" and "book_keys B'"
  shows "allocations_fit_parcels D l B' = allocations_fit_parcels D l B"
  using same_splits [OF assms] same_sales [OF assms(1)] assms(1)
  by (simp add: allocations_fit_parcels_def parcel_fits_def same_listing_def)

lemma same_payments:
  assumes "same_listing l B B'" and "book_keys B" and "book_keys B'"
  shows "db_moved_payment D l B' = db_moved_payment D l B"
proof -
  let ?pays = "sort_key (\<lambda>(s, a, al). st_id s)
        (concat (map (\<lambda>s. concat (map (\<lambda>a. map (\<lambda>al. (s, a, al))
             (filter (\<lambda>al. al_sale_trade_id al = st_id s) (bk_allocations B)))
           (filter (\<lambda>a. st_cash_in_lieu_action_id s = Some (sa_id a) \<and> sa_listing_id a = l) (bk_actions B))))
         (bk_trades B)))"
  have fits: "payment_fits D (bk_counts B') spl s a al = payment_fits D (bk_counts B) spl s a al"
    if "a \<in> set (bk_actions B)" "sa_listing_id a = l" for spl s a al
    using assms(1) that by (simp add: payment_fits_def same_listing_def flip: count_get_def)
  have "first_some (\<lambda>(s, a, al). if payment_fits D (bk_counts B') spl s a al then None
           else Some (st_id s, sa_id a, st_holding_account_id s)) ps
      = first_some (\<lambda>(s, a, al). if payment_fits D (bk_counts B) spl s a al then None
           else Some (st_id s, sa_id a, st_holding_account_id s)) ps"
    if "\<forall>(s, a, al) \<in> set ps. a \<in> set (bk_actions B) \<and> sa_listing_id a = l" for ps spl
    using that by (induction ps) (auto simp: fits)
  moreover have "\<forall>(s, a, al) \<in> set ?pays. a \<in> set (bk_actions B) \<and> sa_listing_id a = l" by auto
  ultimately show ?thesis
    using assms(1) same_splits [OF assms] by (simp add: db_moved_payment_def same_listing_def)
qed

definition listing_settled ::
    "'d::{zero,one,plus,minus,times,inverse,linorder} decimal_api \<Rightarrow> 'd book \<Rightarrow> listing_id \<Rightarrow> bool" where
  "listing_settled D B l \<longleftrightarrow> allocations_fit_parcels D l B \<and> db_moved_payment D l B = None"

lemma settle_listing_facts:
  assumes s: "settle_listing D B l = Inr B'" and keys: "book_keys B"
  shows "book_keys B' \<and> listing_settled D B' l \<and> B' = B\<lparr>bk_counts := bk_counts B'\<rparr>
    \<and> (\<forall>m. m \<noteq> l \<longrightarrow> same_listing m B B')
    \<and> (\<forall>k. \<not> of_listing B l (fst k) \<longrightarrow> count_get (bk_counts B') k = count_get (bk_counts B) k)"
proof -
  have r: "db_recompute_listing D l B = Inr B'" and ok: "listing_settled D B' l"
    using s by (auto simp: settle_listing_def listing_settled_def result_simps map_error_Inr
        split: option.splits if_splits)
  obtain desired where f: "B' = B\<lparr>bk_counts := bk_counts B'\<rparr>" "distinct (map count_key (bk_counts B'))"
    "\<And>k. count_get (bk_counts B') k =
         (if of_listing B l (fst k) then map_option (count_row_of (fst k)) (map_of desired k)
          else count_get (bk_counts B) k)"
    using recompute_facts [OF r keys] by blast
  have same: "bk_actions B' = bk_actions B" "bk_trades B' = bk_trades B" "bk_allocations B' = bk_allocations B"
    by (subst f(1), simp)+
  have "\<not> of_listing B l (sa_id a)" if "a \<in> set (bk_actions B)" "sa_listing_id a \<noteq> l" for a
    using that keys by (auto simp: of_listing_def book_keys_def distinct_map inj_on_def)
  then have "same_listing m B B'" if "m \<noteq> l" for m
    using that f(3) same by (auto simp: same_listing_def)
  moreover have "book_keys B'" using keys f(2) same by (simp add: book_keys_def)
  ultimately show ?thesis using ok f(1,3) by (simp del: split_paired_All)
qed

lemma settle_fold:
  assumes "try_foldl (settle_listing D) B ls = Inr B'" and "book_keys B" and "distinct ls"
  shows "book_keys B' \<and> B' = B\<lparr>bk_counts := bk_counts B'\<rparr> \<and> (\<forall>l \<in> set ls. listing_settled D B' l)
    \<and> (\<forall>m. m \<notin> set ls \<longrightarrow> same_listing m B B')
    \<and> (\<forall>k. (\<forall>l \<in> set ls. \<not> of_listing B l (fst k)) \<longrightarrow> count_get (bk_counts B') k = count_get (bk_counts B) k)"
  using assms
proof (induction ls arbitrary: B)
  case (Cons l ls)
  obtain B1 where s: "settle_listing D B l = Inr B1" and rest: "try_foldl (settle_listing D) B1 ls = Inr B'"
    using Cons.prems(1) by (auto simp: result_simps)
  note one = settle_listing_facts [OF s Cons.prems(2)]
  have acts: "bk_actions B1 = bk_actions B" using one by (metis (no_types, lifting) book.select_convs(3) book.surjective book.update_convs(4))
  have IH: "book_keys B' \<and> B' = B1\<lparr>bk_counts := bk_counts B'\<rparr> \<and> (\<forall>l \<in> set ls. listing_settled D B' l)
    \<and> (\<forall>m. m \<notin> set ls \<longrightarrow> same_listing m B1 B')
    \<and> (\<forall>k. (\<forall>l \<in> set ls. \<not> of_listing B1 l (fst k)) \<longrightarrow> count_get (bk_counts B') k = count_get (bk_counts B1) k)"
    using Cons.IH [OF rest] one Cons.prems(3) by simp
  have "same_listing l B1 B'" using IH Cons.prems(3) by simp
  then have "listing_settled D B' l"
    using one IH same_fits [of l B1 B' D] same_payments [of l B1 B' D] by (simp add: listing_settled_def)
  moreover have "same_listing m B B'" if "m \<notin> set (l # ls)" for m
    using that one IH same_listing_trans [of m B B1 B'] by simp
  moreover have "B' = B\<lparr>bk_counts := bk_counts B'\<rparr>"
  proof -
    have "B' = B1\<lparr>bk_counts := bk_counts B'\<rparr>" using IH by blast
    also have "\<dots> = (B\<lparr>bk_counts := bk_counts B1\<rparr>)\<lparr>bk_counts := bk_counts B'\<rparr>" using one by simp
    finally show ?thesis by simp
  qed
  moreover have "of_listing B1 m i \<longleftrightarrow> of_listing B m i" for m i by (simp add: of_listing_def acts)
  ultimately show ?case using IH one by (simp del: split_paired_All)
qed (simp add: same_listing_refl)

section \<open>Properties\<close>

text \<open>Both loaders of a listing's splits read the same stream: the one that loads every
  listing's and the one that loads this listing's, each with the stored counts of its actions.\<close>

theorem split_loaders_agree:
  fixes B :: "('d::{plus,linorder}) book"
  assumes "distinct (map sa_id (bk_actions B))" and "distinct (map count_key (bk_counts B))"
  shows "(case db_share_split_events B l of None \<Rightarrow> [] | Some s \<Rightarrow> s) = db_splits_for_listing B l"
  unfolding share_split_events_for [OF assms] splits_for_listing [OF assms] ..

text \<open>C21: recomputing a listing stores exactly what its pass computed: for each of the listing's
  actions and each parcel the table holds the count of the pass, or nothing where the pass has
  none, with no key stored twice; every other listing's counts and every other table are as they
  were.\<close>

theorem recompute_stores_the_pass:
  assumes "db_recompute_listing D l B = Inr B'" and "book_keys B"
  shows "\<exists>desired. pass_counts D l B = Inr desired
    \<and> B' = B\<lparr>bk_counts := bk_counts B'\<rparr> \<and> distinct (map count_key (bk_counts B'))
    \<and> (\<forall>k. count_get (bk_counts B') k =
         (if of_listing B l (fst k) then map_option (count_row_of (fst k)) (map_of desired k)
          else count_get (bk_counts B) k))"
  using recompute_facts [OF assms] .

lemma same_undirtied: "same_listing l B (B\<lparr>bk_dirty := d\<rparr>)"
  by (simp add: same_listing_def)

lemma settle_facts:
  assumes s: "db_settle D B = Inr B'" and keys: "book_keys B"
  shows "book_keys B' \<and> B' = B\<lparr>bk_counts := bk_counts B', bk_dirty := []\<rparr>
    \<and> (\<forall>l \<in> set (bk_dirty B). listing_settled D B' l)
    \<and> (\<forall>m. m \<notin> set (bk_dirty B) \<longrightarrow> same_listing m B B')
    \<and> (\<forall>k. (\<forall>l \<in> set (bk_dirty B). \<not> of_listing B l (fst k)) \<longrightarrow>
         count_get (bk_counts B') k = count_get (bk_counts B) k)"
proof -
  obtain B1 where fold: "try_foldl (settle_listing D) B (sort (remdups (bk_dirty B))) = Inr B1"
    and B': "B' = B1\<lparr>bk_dirty := []\<rparr>"
    using s by (auto simp: db_settle_def result_simps)
  have "distinct (sort (remdups (bk_dirty B)))" by simp
  note f = settle_fold [OF fold keys this]
  have keys': "book_keys B'" using f by (simp add: B' book_keys_def)
  have "listing_settled D B' l = listing_settled D B1 l" for l
    using same_fits [OF same_undirtied, where B = B1 and l = l and D = D]
      same_payments [OF same_undirtied, where B = B1 and l = l and D = D] f keys'
    by (simp add: listing_settled_def B')
  moreover have "same_listing m B B'" if "m \<notin> set (bk_dirty B)" for m
    using f that same_listing_trans [OF _ same_undirtied, of m B B1 "[]"] by (simp add: B')
  moreover have "B' = B\<lparr>bk_counts := bk_counts B', bk_dirty := []\<rparr>"
  proof -
    have "B1 = B\<lparr>bk_counts := bk_counts B1\<rparr>" using f by blast
    then have "B1\<lparr>bk_dirty := []\<rparr> = (B\<lparr>bk_counts := bk_counts B1\<rparr>)\<lparr>bk_dirty := []\<rparr>" by simp
    then show ?thesis by (simp add: B')
  qed
  ultimately show ?thesis using f keys' by (simp add: B' del: split_paired_All)
qed

text \<open>Settling changes the counts and clears the marks, and nothing else.\<close>

lemma settle_rows:
  assumes "db_settle D B1 = Inr B2" and "book_keys B1"
  shows "bk_trades B2 = bk_trades B1" "bk_allocations B2 = bk_allocations B1"
    "bk_actions B2 = bk_actions B1" "bk_dirty B2 = []" "bk_market B2 = bk_market B1"
proof -
  have B2: "B2 = B1\<lparr>bk_counts := bk_counts B2, bk_dirty := []\<rparr>" using settle_facts [OF assms] by blast
  show "bk_trades B2 = bk_trades B1" "bk_allocations B2 = bk_allocations B1"
    "bk_actions B2 = bk_actions B1" "bk_dirty B2 = []" "bk_market B2 = bk_market B1"
    by (subst B2, simp)+
qed

text \<open>C8: once a write has been settled nothing is left to recompute; in every listing the write
  marked, each sale still fits the parcel it draws on and each cash-in-lieu payment still sells the
  fraction its parcel carries; every listing it did not mark keeps its splits, counts included;
  and no trade or allocation is changed by settling.\<close>

theorem settled_write_fits:
  assumes "db_settle D B = Inr B'" and "book_keys B"
  shows "bk_dirty B' = [] \<and> bk_trades B' = bk_trades B \<and> bk_allocations B' = bk_allocations B
    \<and> (\<forall>l \<in> set (bk_dirty B). allocations_fit_parcels D l B' \<and> db_moved_payment D l B' = None)
    \<and> (\<forall>m. m \<notin> set (bk_dirty B) \<longrightarrow> db_splits_for_listing B' m = db_splits_for_listing B m)"
proof -
  note f = settle_facts [OF assms]
  show ?thesis using f settle_rows [OF assms] same_splits [of _ B B'] assms(2) by (simp add: listing_settled_def)
qed

definition example_before :: "rat parcel_before" where
  "example_before = \<lparr>pb_trade_id = 1, pb_acquired = 100, pb_units = 3,
     pb_exact = Some \<lparr>fr_num = 3, fr_den = 1\<rparr>, pb_prior = None\<rparr>"

definition example_count :: "rat parcel_count" where
  "example_count = \<lparr>pc_trade_id = 1, pc_before = 3, pc_after = 4, pc_in_lieu = 0\<rparr>"

lemma example_rounded: "round_holding ref_dec [example_before] 3 2 0 Down None = Inr [example_count]"
proof -
  have floors: "floor_on_grid ref_dec 9 2 0 = Some (4, 1)" by (rule two_parcels_floors)
  have "dec_euclid ref_dec 1 1 = Some 1" using ref.dec_euclid_int [of 1 1] by simp
  then have "dlcm ref_dec 1 1 = Some 1" by (simp add: dlcm_def rounding_eval)
  then have units: "exact_units ref_dec [example_before] = ([3], 1)"
    by (simp add: exact_units_def example_before_def over_common_denominator_def rounding_eval)
  have shares: "shares_of ref_dec [3] 3 2 0 = Inr [(4, 1)]"
    by (simp add: shares_of_def floors rounding_eval)
  have kept: "try_map (\<lambda>(p, share). kept_count ref_dec 0 p share) (zip [example_before] [(4, 1)]) = Inr [None]"
    by (simp add: example_before_def kept_count_def rounding_eval)
  have rel: "release_order [example_before] [None] = []"
    by (simp add: release_order_def sort_desc_def)
  have settled: "settle ref_dec 1 [example_before] [(4, 1)] 4 [None] [] = Inr (4, [None])"
    by (simp add: settle.simps kept_sum_def free_range_def free_indices_def emptied_def rounding_eval)
  have order: "extra_order [example_before] [(4, 1)] = [0]"
    by (simp add: extra_order_def sort_desc_def)
  have dist: "distribute ref_dec [example_before] [3] 4 (3, 2) 0 None = Inr [example_count]"
    unfolding distribute_def Let_def fst_conv snd_conv shares and_then.simps kept rel order
    by (simp add: settled order)
      (simp add: initial_counts_def example_before_def example_count_def free_indices_def add_steps_def
        add_in_lieu_def rounding_eval)
  have "rounded_total ref_dec 3 3 2 0 Down = Inr 4"
    by (simp add: rounded_total_def floors rounding_eval)
  moreover have "opt_foldl (checked_add ref_dec) 0 [3] = Some 3" "checked_mul ref_dec 2 1 = Some 2"
    by (simp_all add: rounding_eval)
  moreover have "map pb_units [example_before] = [3]" by (simp add: example_before_def)
  ultimately show ?thesis
    using dist by (simp add: round_holding_def units in_lieu_fraction_def overflow_def)
qed

lemma ref_scale_whole: "ref_scale (of_int k) = 0"
proof -
  have "[0..<29] = 0 # [1..<29]" by (simp add: upt_rec [of 0])
  then show ?thesis unfolding ref_scale_def by simp
qed

lemma example_terms: "lowest_terms ref_dec 3 1 = (3, 1)" "lowest_terms ref_dec 1 1 = (1, 1)"
proof -
  have s: "ref_scale 3 = 0" "ref_scale 1 = 0" using ref_scale_whole [of 3] ref_scale_whole [of 1] by simp_all
  have e: "euclid 3 1 = 1" "euclid 1 1 = 1" by (simp_all add: euclid.simps)
  have a: "align ref_dec 0 3 = Some 3" "align ref_dec 0 1 = Some 1" by (simp_all add: align_def s)
  have "dgcd ref_dec 3 1 = Some 1" "dgcd ref_dec 1 1 = Some 1"
    by (simp_all add: dgcd_def s e [simplified] a)
  then show "lowest_terms ref_dec 3 1 = (3, 1)" "lowest_terms ref_dec 1 1 = (1, 1)"
    by (simp_all add: lowest_terms_def)
qed

definition example_split :: "rat split_action" where
  "example_split = \<lparr>sa_id = 4, sa_listing_id = 7, sa_date = 200, sa_record_date = None,
     sa_terms = ShareSplitAction 3 2, sa_fraction_rule = Some RuleDown\<rparr>"

lemma example_before_action:
  assumes "priors (4, 1) = None"
  shows "parcel_before_action ref_dec (rebase_action_of example_split) [] [] priors
     \<lparr>pp_id = 1, pp_date = 100, pp_settled = 102, pp_quantity = au_new 3, pp_account = 3\<rparr> = example_before"
proof -
  have left: "au_sub ref_dec (au_new 3) au_zero = au_new 3"
    by (simp add: au_sub_def au_combine_def au_common_def au_new_def au_zero_def au_fraction_def rounding_eval)
  have pos: "au_less ref_dec au_zero (au_new 3)" by (simp add: au_less_def au_key_def au_common_def au_new_def au_zero_def)
  have r: "split_ratio ref_dec [] 100 None = \<lparr>sr_new = 1, sr_old = 1\<rparr>" by (simp add: split_ratio_def)
  have t: "times_ratio ref_dec \<lparr>fr_num = 3, fr_den = 1\<rparr> \<lparr>sr_new = 1, sr_old = 1\<rparr> = Some \<lparr>fr_num = 3, fr_den = 1\<rparr>"
    by (simp add: times_ratio_def example_terms rounding_eval)
  have "au_get (au_new (3 :: rat)) = 3" "au_parts (au_new (3 :: rat)) = \<lparr>fr_num = 3, fr_den = 1\<rparr>"
    by (simp_all add: au_get_def au_new_def au_parts_def)
  then show ?thesis using assms
    by (simp add: parcel_before_action_def example_before_def sold_in_acquired_units_def
        acquired_units_of_sales_def au_sum_def left pos split_adjusted_quantity_def split_adjusted_fraction_def
        r t rebase_action_of_def example_split_def)
qed

definition example_book :: "rat book" where
  "example_book =
     \<lparr>bk_trades = [example_trade\<lparr>st_quantity := 3, st_date := 100, st_settlement_date := 102\<rparr>],
      bk_allocations = [], bk_actions = [example_split],
      bk_counts = [\<lparr>cr_action_id = 4, cr_trade_id = 9, cr_units_before = 1, cr_units_after = 2, cr_in_lieu_units = 0\<rparr>],
      bk_overrides = [], bk_accounts = [(3, Some 0)], bk_unit_scales = [], bk_market = example_tables,
      bk_capital_returns = [], bk_currencies = [''AUD''], bk_fee_sales = [], bk_income_links = [], bk_amit_adjustments = [], bk_rights_allocations = [],
      bk_dirty = [7]\<rparr>"

lemma example_book_simps:
  "listing_actions example_book 7 = [example_split]"
  "db_parcels example_book 7
     = [\<lparr>pp_id = 1, pp_date = 100, pp_settled = 102, pp_quantity = au_new 3, pp_account = 3\<rparr>]"
  "db_sales example_book 7 p = []"
  "db_priors example_book 7 (4, 1) = None"
  "db_unit_scale example_book 3 7 = Some 0"
  "db_overrides example_book 7 k = None"
  by (simp_all add: example_book_def listing_actions_def example_split_def db_parcels_def example_trade_def
      db_sales_def joined_allocations_def db_priors_def db_unit_scale_def db_overrides_def)

lemma example_round_action:
  "round_action ref_dec example_book 7 [] Map.empty (rebase_action_of example_split) Down = Inr [example_count]"
proof -
  have date: "ra_date (rebase_action_of example_split) = 200" "ra_record_date (rebase_action_of example_split) = None"
    "ra_id (rebase_action_of example_split) = 4"
    "ra_event (rebase_action_of example_split) = share_split 200 3 2"
    by (simp_all add: rebase_action_of_def example_split_def)
  have u: "0 < pb_units example_before" by (simp add: example_before_def)
  show ?thesis
    by (simp add: round_action_def example_book_simps date sold_before_def prior_events_def registered_def
        example_before_action u round_account_def share_split_def example_rounded)
qed

lemma example_keys: "book_keys example_book"
  by (simp add: book_keys_def example_book_def)

lemma example_pass: "pass_counts ref_dec 7 example_book = Inr [((4, 1), example_count)]"
proof -
  have rule: "ra_rule (rebase_action_of example_split) = RuleDown" "ra_id (rebase_action_of example_split) = 4"
    by (simp_all add: rebase_action_of_def example_split_def)
  show ?thesis
    by (simp add: pass_counts_def example_book_simps rule example_round_action desire_def example_count_def)
qed

definition example_settled :: "rat book" where
  "example_settled = example_book\<lparr>bk_counts := [count_row_of 4 example_count]\<rparr>"

lemma example_recomputed: "db_recompute_listing ref_dec 7 example_book = Inr example_settled"
proof -
  have "ra_id (rebase_action_of example_split) = 4" by (simp add: rebase_action_of_def example_split_def)
  then have "reconcile [rebase_action_of example_split] [((4, 1), example_count)] (bk_counts example_book)
      = [count_row_of 4 example_count]"
    by (simp add: reconcile_def reconcile_row_def example_book_def count_key_def)
  then show ?thesis
    using example_pass by (simp add: db_recompute_listing_def pass_counts_def Let_def example_settled_def
        example_book_simps)
qed

text \<open>Three units of a three-for-two split rounded down are four; a stale count goes.\<close>

theorem recompute_stores_the_pass_witness:
  "\<exists>B'. db_recompute_listing ref_dec 7 example_book = Inr B'
     \<and> count_get (bk_counts B') (4, 1) = Some (count_row_of 4 example_count)
     \<and> count_get (bk_counts B') (4, 9) = None"
proof -
  obtain desired where d: "pass_counts ref_dec 7 example_book = Inr desired"
    "\<forall>k. count_get (bk_counts example_settled) k =
         (if of_listing example_book 7 (fst k) then map_option (count_row_of (fst k)) (map_of desired k)
          else count_get (bk_counts example_book) k)"
    using recompute_stores_the_pass [OF example_recomputed example_keys] by blast
  have "of_listing example_book 7 4" by (simp add: of_listing_def example_book_def example_split_def)
  moreover have "desired = [((4, 1), example_count)]" using d(1) example_pass by simp
  ultimately have "count_get (bk_counts example_settled) (4, 1) = Some (count_row_of 4 example_count)
     \<and> count_get (bk_counts example_settled) (4, 9) = None"
    using d(2) by simp
  with example_recomputed show ?thesis by blast
qed

theorem split_loaders_agree_witness:
  "(case db_share_split_events example_settled 7 of None \<Rightarrow> [] | Some s \<Rightarrow> s) = db_splits_for_listing example_settled 7
   \<and> map se_new_units (for_parcel (db_splits_for_listing example_settled 7) 1) = [4]"
proof
  show "(case db_share_split_events example_settled 7 of None \<Rightarrow> [] | Some s \<Rightarrow> s) = db_splits_for_listing example_settled 7"
    by (rule split_loaders_agree) (simp_all add: example_settled_def example_book_def)
  have "db_splits_for_listing example_settled 7 = [split_of example_settled example_split]"
    using splits_for_listing [of example_settled 7] example_book_simps(1)
    by (simp add: example_settled_def example_book_def listing_actions_def)
  then show "map se_new_units (for_parcel (db_splits_for_listing example_settled 7) 1) = [4]"
    by (simp add: for_parcel_def split_of_def example_settled_def count_row_of_def example_split_def
        share_split_def example_count_def count_get_def count_key_def stored_value_def)
qed

theorem settled_write_fits_witness:
  "\<exists>B'. db_settle ref_dec example_book = Inr B' \<and> bk_dirty B' = [] \<and> allocations_fit_parcels ref_dec 7 B'"
proof -
  have dirty: "bk_dirty example_book = [7]" by (simp add: example_book_def)
  have rest: "bk_allocations example_settled = []" "bk_trades example_settled
      = [example_trade\<lparr>st_quantity := 3, st_date := 100, st_settlement_date := 102\<rparr>]"
    by (simp_all add: example_settled_def example_book_def)
  have range: "rebased_quantity_beyond_range ref_dec 7 example_settled = None"
  proof -
    have "db_splits_for_listing example_settled 7 = [split_of example_settled example_split]"
      using splits_for_listing [of example_settled 7] example_book_simps(1)
      by (simp add: example_settled_def example_book_def listing_actions_def)
    moreover have "announced [split_of example_settled example_split] = [share_split 200 3 2]"
      by (simp add: announced_def split_of_def example_split_def share_split_def)
    ultimately show ?thesis
      by (simp add: rebased_quantity_beyond_range_def rest example_trade_def share_split_def
          checked_rebased_quantity_def rounding_eval joined_allocations_def)
  qed
  have fits: "allocations_fit_parcels ref_dec 7 example_settled"
    by (simp add: allocations_fit_parcels_def Let_def rest sales_of_parcel_def)
  have pay: "db_moved_payment ref_dec 7 example_settled = None"
    by (simp add: db_moved_payment_def Let_def rest example_trade_def)
  have "settle_listing ref_dec example_book 7 = Inr example_settled"
    by (simp add: settle_listing_def example_recomputed range fits pay)
  then have s: "db_settle ref_dec example_book = Inr (example_settled\<lparr>bk_dirty := []\<rparr>)"
    by (simp add: db_settle_def dirty)
  with settled_write_fits [OF s example_keys] dirty show ?thesis by auto
qed

end
