(* ===== verification/Sells.thy ===== *)
theory Sells
  imports StoredCounts
begin

text \<open>
  \<open>src/src/entities/sell.rs\<close>: writing and deleting a Sell with its parcel allocations, each in
  one transaction. A write returns the book it leaves; a refusal leaves the book as it was. The
  ids the database would assign to new rows are parameters.
\<close>

section \<open>What a Sell states\<close>

record 'd sell_body =
  sb_date :: date
  sb_settlement_date :: "date option"
  sb_listing_id :: listing_id
  sb_average_price :: 'd
  sb_quantity :: 'd
  sb_currency :: currency_code
  sb_brokerage :: 'd
  sb_gst_on_brokerage :: 'd
  sb_brokerage_includes_gst :: bool
  sb_brokerage_currency :: currency_code
  sb_fx_rate :: 'd
  sb_spot_fx_rate :: "'d option"
  sb_contract_note_ref :: "string option"
  sb_statement_total :: "'d option"
  sb_holding_account_id :: account_id
  sb_allocations :: "(trade_id \<times> 'd) list"

datatype sell_provenance =
    BuybackAction int
  | ScripAction int
  | DemergerAction int
  | TransferLink int
  | WorthlessAction int
  | CashInLieuAction int

record provenance_columns =
  pv_buyback_action_id :: "int option"
  pv_scrip_action_id :: "int option"
  pv_demerger_action_id :: "int option"
  pv_transfer_id :: "int option"
  pv_worthless_action_id :: "int option"
  pv_cash_in_lieu_action_id :: "int option"

definition no_columns :: provenance_columns where
  "no_columns = \<lparr>pv_buyback_action_id = None, pv_scrip_action_id = None, pv_demerger_action_id = None,
     pv_transfer_id = None, pv_worthless_action_id = None, pv_cash_in_lieu_action_id = None\<rparr>"

fun columns_of :: "sell_provenance \<Rightarrow> provenance_columns" where
  "columns_of (BuybackAction i) = no_columns\<lparr>pv_buyback_action_id := Some i\<rparr>"
| "columns_of (ScripAction i) = no_columns\<lparr>pv_scrip_action_id := Some i\<rparr>"
| "columns_of (DemergerAction i) = no_columns\<lparr>pv_demerger_action_id := Some i\<rparr>"
| "columns_of (TransferLink i) = no_columns\<lparr>pv_transfer_id := Some i\<rparr>"
| "columns_of (WorthlessAction i) = no_columns\<lparr>pv_worthless_action_id := Some i\<rparr>"
| "columns_of (CashInLieuAction i) = no_columns\<lparr>pv_cash_in_lieu_action_id := Some i\<rparr>"

fun closes_whole_holding :: "sell_provenance \<Rightarrow> bool" where
  "closes_whole_holding (ScripAction _) = True"
| "closes_whole_holding (DemergerAction _) = True"
| "closes_whole_holding (WorthlessAction _) = True"
| "closes_whole_holding _ = False"

definition computes_quantity :: "sell_provenance \<Rightarrow> bool" where
  "computes_quantity p \<longleftrightarrow>
     closes_whole_holding p \<or> (case p of CashInLieuAction _ \<Rightarrow> True | _ \<Rightarrow> False)"

datatype 'd sell_error =
    SellSettle "'d settle_error"
  | SellSettlement settlement_failure
  | SellForeignKey
  | AllocationMismatch 'd 'd
  | PurchaseParcelMissing
  | PurchaseTradeNotBuyOrDrp
  | PurchaseQuantityExceeded
  | PurchaseListingMismatch
  | PurchaseAfterSale
  | BuyBackSell
  | ScripExchangeSell
  | DemergerSell
  | TransferSell
  | PurchaseInDifferentAccount
  | WorthlessSell
  | CashInLieuSell
  | NotASell trade_id trade_type
  | SellStatementTotal "'d statement_total_error"
  | SellSpotFxRate spot_fx_rate_error
  | SellAmounts "'d amounts_error"
  | SellCurrencyNotListings currency_code currency_code
  | AllocationNotPositive
  | SellNonTradingDay non_trading
  | SellUnitScale "'d too_fine"

definition refuse :: "bool \<Rightarrow> 'e \<Rightarrow> 'e + unit" where
  "refuse refused e = (if refused then Inl e else Inr ())"

definition refuse_some :: "('a \<Rightarrow> 'e) \<Rightarrow> 'a option \<Rightarrow> 'e + unit" where
  "refuse_some f r = (case r of None \<Rightarrow> Inr () | Some x \<Rightarrow> Inl (f x))"

section \<open>The row written\<close>

definition listing_currency_mismatch ::
    "'d book \<Rightarrow> listing_id \<Rightarrow> currency_code \<Rightarrow> currency_code option" where
  "listing_currency_mismatch B listing currency =
     (case listing_get (bk_market B) listing of
        None \<Rightarrow> None
      | Some li \<Rightarrow> if li_currency li \<noteq> currency then Some (li_currency li) else None)"

text \<open>What the foreign keys of the insert demand of a row; the provenance ids are those of rows
  their operations read in the same transaction.\<close>

definition foreign_keys_hold :: "'d book \<Rightarrow> listing_id \<Rightarrow> account_id \<Rightarrow> currency_code \<Rightarrow> currency_code \<Rightarrow> bool" where
  "foreign_keys_hold B listing account currency brokerage_currency \<longleftrightarrow>
     listing_get (bk_market B) listing \<noteq> None \<and> account \<in> set (map fst (bk_accounts B))
     \<and> currency \<in> set (bk_currencies B) \<and> brokerage_currency \<in> set (bk_currencies B)"

definition sell_row ::
    "('d::zero) sell_body \<Rightarrow> settlement \<Rightarrow> provenance_columns \<Rightarrow> 'd \<times> 'd \<Rightarrow> trade_id \<Rightarrow> 'd stored_trade"
  where
  "sell_row body settles columns costs i =
     \<lparr>st_id = i, st_trade_type = Sell, st_date = sb_date body, st_settlement_date = se_settles settles,
      st_settlement_date_source = se_source settles, st_listing_id = sb_listing_id body,
      st_average_price = sb_average_price body, st_quantity = sb_quantity body,
      st_currency = sb_currency body, st_brokerage = fst costs, st_gst_on_brokerage = snd costs,
      st_brokerage_includes_gst = sb_brokerage_includes_gst body,
      st_brokerage_currency = sb_brokerage_currency body, st_fx_rate = sb_fx_rate body,
      st_spot_fx_rate = sb_spot_fx_rate body, st_contract_note_ref = sb_contract_note_ref body,
      st_statement_total = sb_statement_total body, st_residual_brought_forward = 0,
      st_residual_carried_forward = 0, st_residual_paid_out = 0, st_rights_action_id = None,
      st_buyback_action_id = pv_buyback_action_id columns, st_scrip_action_id = pv_scrip_action_id columns,
      st_demerger_action_id = pv_demerger_action_id columns, st_deemed_acquisition_date = None,
      st_holding_account_id = sb_holding_account_id body, st_transfer_id = pv_transfer_id columns,
      st_ess_statement_id = None, st_worthless_action_id = pv_worthless_action_id columns,
      st_cash_in_lieu_action_id = pv_cash_in_lieu_action_id columns, st_inheritance_id = None\<rparr>"

text \<open>\<open>ON CONFLICT(id) DO UPDATE\<close>: the columns the statement does not name keep their values.\<close>

definition sell_row_over :: "'d stored_trade \<Rightarrow> 'd stored_trade \<Rightarrow> 'd stored_trade" where
  "sell_row_over old t =
     t\<lparr>st_id := st_id old, st_residual_brought_forward := st_residual_brought_forward old,
       st_residual_carried_forward := st_residual_carried_forward old,
       st_residual_paid_out := st_residual_paid_out old, st_rights_action_id := st_rights_action_id old,
       st_deemed_acquisition_date := st_deemed_acquisition_date old, st_transfer_id := st_transfer_id old,
       st_ess_statement_id := st_ess_statement_id old, st_inheritance_id := st_inheritance_id old\<rparr>"

definition put_sell_row :: "'d stored_trade \<Rightarrow> 'd book \<Rightarrow> 'd book" where
  "put_sell_row t B =
     (case trade_get B (st_id t) of
        None \<Rightarrow> insert_trade t B
      | Some old \<Rightarrow> update_trade old (sell_row_over old t) B)"

section \<open>Writing the allocations\<close>

text \<open>One allocation: every refusal of the loop's body, in its order, then the row and the check
  that the parcel is not oversold.\<close>

definition allocate_one ::
    "'d::{zero,one,plus,minus,times,inverse,linorder} decimal_api \<Rightarrow> 'd sell_body \<Rightarrow>
     sell_provenance option \<Rightarrow> bool \<Rightarrow> trade_id \<Rightarrow> int \<Rightarrow> 'd book \<Rightarrow> trade_id \<times> 'd \<Rightarrow>
     'd sell_error + 'd book" where
  "allocate_one D body provenance stated i al B alloc =
     (let (purchase, quantity) = alloc in
      case trade_get B purchase of
        None \<Rightarrow> Inl PurchaseParcelMissing
      | Some p \<Rightarrow>
          and_then (refuse (\<not> is_acquisition (st_trade_type p)) PurchaseTradeNotBuyOrDrp) (\<lambda>_.
          and_then (refuse ((\<forall>pv. provenance = Some pv \<longrightarrow> \<not> closes_whole_holding pv)
                       \<and> st_holding_account_id p \<noteq> sb_holding_account_id body) PurchaseInDifferentAccount) (\<lambda>_.
          and_then (refuse (st_listing_id p \<noteq> sb_listing_id body) PurchaseListingMismatch) (\<lambda>_.
          and_then (refuse (sb_date body < st_date p) PurchaseAfterSale) (\<lambda>_.
          and_then (if stated
                    then refuse_some SellUnitScale
                           (db_too_fine D B (st_holding_account_id p) (st_listing_id p) quantity)
                    else Inr ()) (\<lambda>_.
            let B' = insert_allocation \<lparr>al_id = al, al_sale_trade_id = i,
                       al_purchase_trade_id = purchase, al_quantity_allocated = quantity\<rparr> B
            in if parcel_fits D B' (db_splits_for_listing B' (st_listing_id p)) p
               then Inr B' else Inl PurchaseQuantityExceeded))))))"

fun allocate ::
    "'d::{zero,one,plus,minus,times,inverse,linorder} decimal_api \<Rightarrow> 'd sell_body \<Rightarrow>
     sell_provenance option \<Rightarrow> bool \<Rightarrow> trade_id \<Rightarrow> int \<Rightarrow> 'd book \<Rightarrow> (trade_id \<times> 'd) list \<Rightarrow>
     'd sell_error + 'd book" where
  "allocate D body provenance stated i al B [] = Inr B"
| "allocate D body provenance stated i al B (alloc # allocs) =
     and_then (allocate_one D body provenance stated i al B alloc)
       (\<lambda>B'. allocate D body provenance stated i (al + 1) B' allocs)"

record fresh_ids =
  fi_trade :: trade_id
  fi_allocation :: int

definition sell_amounts ::
    "'d sell_body \<Rightarrow> settlement \<Rightarrow> 'd \<times> 'd \<Rightarrow> 'd amounts_check" where
  "sell_amounts body settles costs =
     \<lparr>ac_quantity = sb_quantity body, ac_average_price = sb_average_price body,
      ac_brokerage = fst costs, ac_gst_on_brokerage = snd costs, ac_fx_rate = sb_fx_rate body,
      ac_date = sb_date body, ac_settlement_date = se_settles settles,
      ac_currency = sb_currency body, ac_brokerage_currency = sb_brokerage_currency body\<rparr>"

definition upsert_sell_in_tx ::
    "'d::{zero,one,plus,minus,times,inverse,linorder} decimal_api \<Rightarrow> chrono_api \<Rightarrow> date \<Rightarrow> fresh_ids \<Rightarrow>
     trade_id option \<Rightarrow> 'd sell_body \<Rightarrow> settlement \<Rightarrow> sell_provenance option \<Rightarrow> 'd book \<Rightarrow>
     'd sell_error + (trade_id \<times> 'd book)" where
  "upsert_sell_in_tx D C today fresh id' body settles provenance B =
     (let columns = (case provenance of None \<Rightarrow> no_columns | Some p \<Rightarrow> columns_of p);
          allocated = dsum (map snd (sb_allocations body));
          costs = resolve_brokerage D (sb_brokerage_includes_gst body) (sb_brokerage body)
                    (sb_gst_on_brokerage body);
          stated = (\<forall>p. provenance = Some p \<longrightarrow> \<not> computes_quantity p)
      in and_then (refuse (list_ex (\<lambda>(_, q). q \<le> 0) (sb_allocations body)) AllocationNotPositive) (\<lambda>_.
         and_then (refuse (allocated \<noteq> sb_quantity body) (AllocationMismatch allocated (sb_quantity body))) (\<lambda>_.
         and_then (map_error SellAmounts (trade_check_amounts D C today (sell_amounts body settles costs))) (\<lambda>_.
         and_then (map_error SellStatementTotal (check_statement_total D (sb_statement_total body)
             \<lparr>ta_trade_type = Sell, ta_quantity = sb_quantity body, ta_average_price = sb_average_price body,
              ta_brokerage = fst costs, ta_gst_on_brokerage = snd costs\<rparr>)) (\<lambda>_.
         and_then (map_error SellSpotFxRate
             (validate_spot_fx_rate (sb_currency body) (sb_spot_fx_rate body))) (\<lambda>_.
         and_then (refuse (\<not> foreign_keys_hold B (sb_listing_id body) (sb_holding_account_id body)
             (sb_currency body) (sb_brokerage_currency body)) SellForeignKey) (\<lambda>_.
           let i = (case id' of Some i \<Rightarrow> i | None \<Rightarrow> fi_trade fresh);
               B1 = put_sell_row (sell_row body settles columns costs i) B
           in and_then (refuse_some (SellCurrencyNotListings (sb_currency body))
                (listing_currency_mismatch B1 (sb_listing_id body) (sb_currency body))) (\<lambda>_.
              and_then (if stated
                 then refuse_some SellUnitScale (db_too_fine D B1 (sb_holding_account_id body)
                        (sb_listing_id body) (sb_quantity body))
                 else Inr ()) (\<lambda>_.
              and_then (allocate D body provenance stated i (fi_allocation fresh)
                 (delete_allocations i B1) (sb_allocations body)) (\<lambda>B2.
                Inr (i, B2)))))))))))"

section \<open>The endpoints\<close>

datatype write_mode = Commit | DryRun

definition finish :: "write_mode \<Rightarrow> 'd book \<Rightarrow> 'd book \<Rightarrow> 'd book" where
  "finish mode before after = (case mode of Commit \<Rightarrow> after | DryRun \<Rightarrow> before)"

definition is_transfer_fee_sale :: "'d book \<Rightarrow> trade_id \<Rightarrow> bool" where
  "is_transfer_fee_sale B i \<longleftrightarrow> i \<in> set (bk_fee_sales B)"

definition check_editable :: "'d book \<Rightarrow> trade_id \<Rightarrow> 'd sell_error + unit" where
  "check_editable B i =
     and_then (case trade_get B i of
         None \<Rightarrow> Inr ()
       | Some p \<Rightarrow>
           if st_trade_type p \<noteq> Sell then Inl (NotASell i (st_trade_type p))
           else if st_buyback_action_id p \<noteq> None then Inl BuyBackSell
           else if st_scrip_action_id p \<noteq> None then Inl ScripExchangeSell
           else if st_demerger_action_id p \<noteq> None then Inl DemergerSell
           else if st_transfer_id p \<noteq> None then Inl TransferSell
           else if st_worthless_action_id p \<noteq> None then Inl WorthlessSell
           else if st_cash_in_lieu_action_id p \<noteq> None then Inl CashInLieuSell
           else Inr ()) (\<lambda>_.
       refuse (is_transfer_fee_sale B i) TransferSell)"

definition write_sell ::
    "'d::{zero,one,plus,minus,times,inverse,linorder} decimal_api \<Rightarrow> chrono_api \<Rightarrow> date \<Rightarrow> fresh_ids \<Rightarrow>
     trade_id option \<Rightarrow> 'd sell_body \<Rightarrow> write_mode \<Rightarrow> 'd book \<Rightarrow> 'd sell_error + (trade_id \<times> 'd book)" where
  "write_sell D C today fresh id' body mode B =
     and_then (map_error SellSettlement (resolve_on C (market_calendars (bk_market B)) (bk_trades B) id'
         (sb_listing_id body) (sb_date body) (sb_settlement_date body))) (\<lambda>settles.
     and_then (case id' of None \<Rightarrow> Inr () | Some i \<Rightarrow> check_editable B i) (\<lambda>_.
     and_then (upsert_sell_in_tx D C today fresh id' body settles None B) (\<lambda>(written, B1).
     and_then (refuse_some SellNonTradingDay
         (db_non_trading_day C (bk_market B1) (sb_listing_id body) (sb_date body))) (\<lambda>_.
     and_then (map_error SellSettle (db_settle D B1)) (\<lambda>B2.
       Inr (written, finish mode B B2))))))"

section \<open>Deleting a Sell\<close>

datatype sell_deletion = Deleted | NotFound | DeleteNotASell | ReplacementReferenced | DeleteTransferSell

datatype 'd delete_error = DeleteSettle "'d settle_error" | DeleteForeignKey

text \<open>The replacement trades of a scrip exchange or demerger closing Sell.\<close>

definition group_members :: "'d book \<Rightarrow> 'd stored_trade \<Rightarrow> 'd stored_trade list" where
  "group_members B t =
     (case st_scrip_action_id t of
        Some a \<Rightarrow> filter (\<lambda>r. st_scrip_action_id r = Some a \<and> st_id r \<noteq> st_id t) (bk_trades B)
      | None \<Rightarrow>
          (case st_demerger_action_id t of
             Some a \<Rightarrow> filter (\<lambda>r. st_demerger_action_id r = Some a \<and> st_id r \<noteq> st_id t) (bk_trades B)
           | None \<Rightarrow> []))"

definition trade_referenced :: "'d book \<Rightarrow> trade_id \<Rightarrow> bool" where
  "trade_referenced B i \<longleftrightarrow>
     list_ex (\<lambda>a. al_purchase_trade_id a = i \<or> al_sale_trade_id a = i) (bk_allocations B)
     \<or> list_ex (\<lambda>a. aa_trade_id a = i) (bk_amit_adjustments B)
     \<or> list_ex (\<lambda>n. in_reinvestment_trade_id n = Some i \<or> in_buyback_trade_id n = Some i) (bk_income_links B)"

text \<open>A row the foreign keys of another table still point to cannot go.\<close>

definition delete_blocked :: "'d book \<Rightarrow> trade_id \<Rightarrow> bool" where
  "delete_blocked B i \<longleftrightarrow> trade_referenced B i \<or> i \<in> set (bk_rights_allocations B) \<or> i \<in> set (bk_fee_sales B)"

definition delete_rows :: "'d stored_trade list \<Rightarrow> 'd book \<Rightarrow> 'd delete_error + 'd book" where
  "delete_rows ts B =
     (if list_ex (\<lambda>t. delete_blocked B (st_id t)) ts then Inl DeleteForeignKey
      else Inr (foldl (\<lambda>B t. delete_trade t B) B ts))"

definition delete_buyback_income :: "trade_id \<Rightarrow> 'd book \<Rightarrow> 'd book" where
  "delete_buyback_income i B =
     B\<lparr>bk_income_links := filter (\<lambda>n. in_buyback_trade_id n \<noteq> Some i) (bk_income_links B)\<rparr>"

definition db_delete_sell ::
    "'d::{zero,one,plus,minus,times,inverse,linorder} decimal_api \<Rightarrow> trade_id \<Rightarrow> 'd book \<Rightarrow>
     'd delete_error + (sell_deletion \<times> 'd book)" where
  "db_delete_sell D i B =
     (case trade_get B i of
        None \<Rightarrow> Inr (NotFound, B)
      | Some t \<Rightarrow>
          if st_trade_type t \<noteq> Sell then Inr (DeleteNotASell, B)
          else if st_transfer_id t \<noteq> None then Inr (DeleteTransferSell, B)
          else if is_transfer_fee_sale B i then Inr (DeleteTransferSell, B)
          else if list_ex (\<lambda>r. trade_referenced B (st_id r)) (group_members B t)
            then Inr (ReplacementReferenced, B)
          else
            and_then (delete_rows (group_members B t) B) (\<lambda>B1.
            and_then (delete_rows [t] (delete_allocations i (delete_buyback_income i B1))) (\<lambda>B2.
              map_error DeleteSettle (map_result (Pair Deleted) (db_settle D B2)))))"

section \<open>Lemmas\<close>

lemma refuse_Inr [result_simps]: "refuse b e = Inr u \<longleftrightarrow> \<not> b"
  by (simp add: refuse_def)

lemma refuse_some_Inr [result_simps]: "refuse_some f r = Inr u \<longleftrightarrow> r = None"
  by (simp add: refuse_some_def split: option.split)

subsection \<open>The rows of a book\<close>

lemma trade_get_Some: "trade_get B i = Some t \<Longrightarrow> t \<in> set (bk_trades B) \<and> st_id t = i"
  using find_SomeD [of "\<lambda>t. st_id t = i" "bk_trades B" t] by (simp add: trade_get_def)

lemma trade_get_None: "trade_get B i = None \<longleftrightarrow> i \<notin> st_id ` set (bk_trades B)"
  by (auto simp: trade_get_def find_None_iff)

lemma trade_get_in:
  assumes "distinct (map st_id (bk_trades B))" and "t \<in> set (bk_trades B)"
  shows "trade_get B (st_id t) = Some t"
proof -
  have "find (\<lambda>r. st_id r = st_id t) ts = Some t" if "distinct (map st_id ts)" "t \<in> set ts" for ts
    using that by (induction ts) (auto simp: image_iff)
  then show ?thesis using assms by (simp add: trade_get_def)
qed

lemma filter_id:
  "distinct (map st_id ts) \<Longrightarrow> filter (\<lambda>t. st_id t = i) ts
     = (case find (\<lambda>t. st_id t = i) ts of None \<Rightarrow> [] | Some t \<Rightarrow> [t])"
proof (induction ts)
  case (Cons t ts)
  have "filter (\<lambda>t. st_id t = i) ts = []" if "st_id t = i"
    using Cons.prems that by (auto simp: filter_empty_conv image_iff)
  then show ?case using Cons by simp
qed simp

definition sale_units :: "'d book \<Rightarrow> 'd parcel_allocation \<Rightarrow> 'd units_at list" where
  "sale_units B a =
     (case trade_get B (al_sale_trade_id a) of
        None \<Rightarrow> [] | Some s \<Rightarrow> [units_at_new (al_quantity_allocated a) (st_date s)])"

lemma sales_of_parcel_get:
  "distinct (map st_id (bk_trades B)) \<Longrightarrow> sales_of_parcel B j
     = concat (map (sale_units B) (filter (\<lambda>a. al_purchase_trade_id a = j) (bk_allocations B)))"
  by (simp add: sales_of_parcel_def filter_id sale_units_def [abs_def] trade_get_def cong: option.case_cong)
    (intro arg_cong [where f = concat] map_cong; simp split: option.split)

text \<open>Marks never change anything else.\<close>

definition listing_marks :: "'d book \<Rightarrow> listing_id \<Rightarrow> listing_id list" where
  "listing_marks B l = (if rounded_listing B l then [l] else [])"

definition parcel_marks :: "'d book \<Rightarrow> trade_id \<Rightarrow> listing_id list" where
  "parcel_marks B j = (case trade_get B j of None \<Rightarrow> [] | Some p \<Rightarrow> listing_marks B (st_listing_id p))"

lemma mark_listing_marks: "mark_listing B l = B\<lparr>bk_dirty := bk_dirty B @ listing_marks B l\<rparr>"
  by (simp add: mark_listing_def listing_marks_def)

lemma marks_update [simp]:
  "listing_marks (B\<lparr>bk_dirty := d\<rparr>) = listing_marks B" "parcel_marks (B\<lparr>bk_dirty := d\<rparr>) = parcel_marks B"
  "listing_marks (B\<lparr>bk_allocations := al\<rparr>) = listing_marks B"
  "parcel_marks (B\<lparr>bk_allocations := al\<rparr>) = parcel_marks B"
  "listing_marks (B\<lparr>bk_trades := ts\<rparr>) = listing_marks B"
  "listing_marks (B\<lparr>bk_counts := cs\<rparr>) = listing_marks B"
  by (simp_all add: listing_marks_def rounded_listing_def parcel_marks_def trade_get_def fun_eq_iff
      cong: option.case_cong)

lemma mark_parcel_marks: "mark_parcel B j = B\<lparr>bk_dirty := bk_dirty B @ parcel_marks B j\<rparr>"
  by (simp add: mark_parcel_def parcel_marks_def mark_listing_marks split: option.split)

lemma mark_listings_marks:
  "foldl mark_listing B ls = B\<lparr>bk_dirty := bk_dirty B @ concat (map (listing_marks B) ls)\<rparr>"
  by (induction ls arbitrary: B) (simp_all add: mark_listing_marks)

lemma mark_parcels_marks:
  "foldl mark_parcel B js = B\<lparr>bk_dirty := bk_dirty B @ concat (map (parcel_marks B) js)\<rparr>"
  by (induction js arbitrary: B) (simp_all add: mark_parcel_marks)

lemma listing_marks_rounded: "l \<in> set (listing_marks B m) \<Longrightarrow> rounded_listing B l"
  by (simp add: listing_marks_def split: if_splits)

lemma parcel_marks_rounded: "l \<in> set (parcel_marks B j) \<Longrightarrow> rounded_listing B l"
  by (auto simp: parcel_marks_def listing_marks_rounded split: option.splits)

lemma insert_allocation_eq:
  "insert_allocation a B = B\<lparr>bk_allocations := bk_allocations B @ [a],
     bk_dirty := bk_dirty B @ parcel_marks B (al_purchase_trade_id a)\<rparr>"
  by (simp add: insert_allocation_def mark_parcel_marks)

lemma delete_allocations_eq:
  "delete_allocations i B = B\<lparr>bk_allocations := filter (\<lambda>a. al_sale_trade_id a \<noteq> i) (bk_allocations B),
     bk_dirty := bk_dirty B @ concat (map (\<lambda>a. parcel_marks B (al_purchase_trade_id a))
       (filter (\<lambda>a. al_sale_trade_id a = i) (bk_allocations B)))\<rparr>"
  by (simp add: delete_allocations_def mark_parcels_marks comp_def)

subsection \<open>The invariant of the books\<close>

fun terms_ok :: "('d::linordered_field) split_terms \<Rightarrow> bool" where
  "terms_ok (ShareSplitAction new old) \<longleftrightarrow> 0 < new \<and> 0 < old"
| "terms_ok (BonusIssueAction bonus held) \<longleftrightarrow> 0 < bonus \<and> 0 < held"

text \<open>An allocation is of a positive quantity, from a Sell, out of an acquisition of the same
  listing dated no later than the sale.\<close>

definition allocation_ok :: "('d::linordered_field) book \<Rightarrow> 'd parcel_allocation \<Rightarrow> bool" where
  "allocation_ok B a \<longleftrightarrow> 0 < al_quantity_allocated a
     \<and> (\<exists>s p. trade_get B (al_sale_trade_id a) = Some s \<and> st_trade_type s = Sell
          \<and> trade_get B (al_purchase_trade_id a) = Some p \<and> is_acquisition (st_trade_type p)
          \<and> st_listing_id p = st_listing_id s \<and> st_date p \<le> st_date s)"

definition allocated_of :: "('d::linordered_field) book \<Rightarrow> trade_id \<Rightarrow> 'd" where
  "allocated_of B i =
     sum_list (map al_quantity_allocated (filter (\<lambda>a. al_sale_trade_id a = i) (bk_allocations B)))"

definition allocations_of :: "'d book \<Rightarrow> trade_id \<Rightarrow> (trade_id \<times> 'd) list" where
  "allocations_of B i = map (\<lambda>a. (al_purchase_trade_id a, al_quantity_allocated a))
     (filter (\<lambda>a. al_sale_trade_id a = i) (bk_allocations B))"

definition counts_rounded :: "'d book \<Rightarrow> bool" where
  "counts_rounded B \<longleftrightarrow> (\<forall>r \<in> set (bk_counts B). \<forall>a \<in> set (bk_actions B).
     sa_id a = cr_action_id r \<longrightarrow> rounded_listing B (sa_listing_id a))"

text \<open>What holds of the rows at every point of a write, its marks included.\<close>

definition rows_ok :: "('d::linordered_field) book \<Rightarrow> bool" where
  "rows_ok B \<longleftrightarrow> book_keys B \<and> (\<forall>a \<in> set (bk_allocations B). allocation_ok B a)
     \<and> (\<forall>p \<in> set (bk_trades B). is_acquisition (st_trade_type p) \<longrightarrow> 0 \<le> st_quantity p)
     \<and> (\<forall>a \<in> set (bk_actions B). terms_ok (sa_terms a)) \<and> counts_rounded B
     \<and> (\<forall>l \<in> set (bk_dirty B). rounded_listing B l)"

definition fits_or_marked :: "('d::linordered_field) decimal_api \<Rightarrow> 'd book \<Rightarrow> bool" where
  "fits_or_marked D B \<longleftrightarrow> (\<forall>p \<in> set (bk_trades B). is_acquisition (st_trade_type p) \<longrightarrow>
     st_listing_id p \<in> set (bk_dirty B) \<or> parcel_fits D B (db_splits_for_listing B (st_listing_id p)) p)"

definition sells_allocated :: "('d::linordered_field) book \<Rightarrow> bool" where
  "sells_allocated B \<longleftrightarrow>
     (\<forall>s \<in> set (bk_trades B). st_trade_type s = Sell \<longrightarrow> allocated_of B (st_id s) = st_quantity s)"

definition book_ok :: "('d::linordered_field) decimal_api \<Rightarrow> 'd book \<Rightarrow> bool" where
  "book_ok D B \<longleftrightarrow> rows_ok B \<and> fits_or_marked D B \<and> sells_allocated B \<and> bk_dirty B = []"

text \<open>The splits as one parcel sees them: only its own counts matter.\<close>

definition event_for :: "('d::{plus,linorder}) book \<Rightarrow> trade_id \<Rightarrow> 'd split_action \<Rightarrow> 'd split_event" where
  "event_for B j a =
     (case count_get (bk_counts B) (sa_id a, j) of
        None \<Rightarrow> action_event (sa_date a) (sa_terms a)
      | Some r \<Rightarrow> (action_event (sa_date a) (sa_terms a))
                   \<lparr>se_new_units := cr_units_after r, se_old_units := cr_units_before r\<rparr>)"

lemma action_event_stored [simp]: "se_stored (action_event d t) = None"
  by (cases t) (simp_all add: share_split_def bonus_issue_def)

lemma for_parcel_events:
  assumes "book_keys B"
  shows "for_parcel (db_splits_for_listing B l) j = map (event_for B j) (listing_actions B l)"
proof -
  have s: "db_splits_for_listing B l = map (split_of B) (listing_actions B l)"
    using assms by (intro splits_for_listing) (simp_all add: book_keys_def)
  have bare: "e\<lparr>se_stored := None\<rparr> = e" if "se_stored e = None" for e :: "'a split_event"
    using that by simp
  have none: "event_for B j a = split_of B a" if "se_stored (split_of B a) = None" for a
  proof -
    have "count_get (bk_counts B) (sa_id a, j) = None"
      using that by (auto simp: split_of_def count_get_None count_key_def split: if_splits)
    then show ?thesis using that by (simp add: event_for_def split_of_def split: if_splits)
  qed
  have all: "(let resolved = (split_of B a)\<lparr>se_stored := None\<rparr> in
        (case se_stored (split_of B a) of
           None \<Rightarrow> resolved
         | Some s \<Rightarrow>
             (case s j of
                None \<Rightarrow> resolved
              | Some c \<Rightarrow> resolved\<lparr>se_new_units := sc_after c, se_old_units := sc_before c\<rparr>))) = event_for B j a" for a
  proof (cases "se_stored (split_of B a)")
    case None
    then show ?thesis using none [OF None] bare by simp
  next
    case (Some m)
    then have "m = (\<lambda>t. map_option stored_value (count_get (bk_counts B) (sa_id a, t)))"
      by (simp add: split_of_def split: if_splits)
    moreover have "(split_of B a)\<lparr>se_stored := None\<rparr> = action_event (sa_date a) (sa_terms a)"
      by (simp add: split_of_def)
    ultimately show ?thesis using Some
      by (simp add: event_for_def Let_def stored_value_def split: option.split)
  qed
  show ?thesis
  proof (cases "list_all (\<lambda>e. se_stored e = None) (db_splits_for_listing B l)")
    case True
    then show ?thesis using none by (auto simp: for_parcel_def s list_all_iff)
  next
    case False
    then show ?thesis using all by (simp add: for_parcel_def s Let_def comp_def)
  qed
qed

lemma unrounded_event:
  assumes "rows_ok B" and "\<not> rounded_listing B l" and "a \<in> set (listing_actions B l)"
  shows "event_for B j a = action_event (sa_date a) (sa_terms a)"
proof -
  have "count_get (bk_counts B) (sa_id a, j) = None"
    using assms by (auto simp: rows_ok_def counts_rounded_def count_get_None count_key_def)
  then show ?thesis by (simp add: event_for_def)
qed

lemma terms_event_ok: "terms_ok t \<Longrightarrow> 0 < se_new_units (action_event d t) \<and> 0 < se_old_units (action_event d t)"
  by (cases t) (simp_all add: share_split_def bonus_issue_def add_pos_pos)

lemma unrounded_splits_ok:
  fixes B :: "('d::linordered_field) book"
  assumes "rows_ok B" and "\<not> rounded_listing B l"
  shows "splits_ok (for_parcel (db_splits_for_listing B l) j)"
proof -
  have "0 < se_new_units (event_for B j a) \<and> 0 < se_old_units (event_for B j a)"
    if "a \<in> set (listing_actions B l)" for a
    using unrounded_event [OF assms that] that assms(1) terms_event_ok [of "sa_terms a" "sa_date a"]
    by (simp add: rows_ok_def)
  then show ?thesis
    using assms(1) by (simp add: for_parcel_events rows_ok_def splits_ok_def)
qed

lemma parcel_fits_val:
  assumes D: "decimal_laws D" and ok: "splits_ok (for_parcel splits (st_id p))"
  shows "parcel_fits D B splits p \<longleftrightarrow>
    sum_list (map (sale_val (for_parcel splits (st_id p)) (st_date p)) (sales_of_parcel B (st_id p))) \<le> st_quantity p"
proof -
  have q: "au_ok (au_new (st_quantity p))" "au_val (au_new (st_quantity p)) = st_quantity p"
    by (simp_all add: units_simps)
  note v = decimal_laws.sold_in_acquired_val [OF D ok q(1), of "sales_of_parcel B (st_id p)" "st_date p"]
  show ?thesis
    using decimal_laws.au_less_val [OF D q(1) v(2)] v(1) q(2) by (auto simp: parcel_fits_def not_less)
qed

lemma sale_val_nonneg: "splits_ok splits \<Longrightarrow> 0 \<le> ua_quantity u \<Longrightarrow> 0 \<le> sale_val splits acquired u"
  using cum_factor_pos [of splits "Some acquired"] cum_factor_pos [of splits "ua_basis u"]
  by (simp add: sale_val_def zero_le_mult_iff)

text \<open>Dropping allocations never oversells a parcel.\<close>

lemma dropped_sum_le:
  fixes f :: "'a \<Rightarrow> 'b list" and g :: "'b \<Rightarrow> 'd::linordered_field"
  assumes "\<And>a x. a \<in> set as \<Longrightarrow> x \<in> set (f a) \<Longrightarrow> 0 \<le> g x"
  shows "sum_list (map g (concat (map f (filter keep as)))) \<le> sum_list (map g (concat (map f as)))"
  using assms
proof (induction as)
  case (Cons a as)
  have "0 \<le> sum_list (map g (f a))" by (rule sum_list_nonneg) (use Cons.prems in auto)
  moreover have "sum_list (map g (concat (map f (filter keep as)))) \<le> sum_list (map g (concat (map f as)))"
    by (rule Cons.IH) (use Cons.prems in auto)
  ultimately show ?case by simp
qed simp

text \<open>
  A parcel untouched by new allocations still fits, or its listing is marked: where counts are
  stored every dropped allocation marks the listing, and elsewhere fewer sales draw less.
\<close>

lemma fits_kept:
  assumes D: "decimal_laws D" and B: "rows_ok B" "fits_or_marked D B"
    and keys: "book_keys B1" and acts: "bk_actions B1 = bk_actions B"
    and counts: "\<And>i. count_get (bk_counts B1) (i, st_id p) = count_get (bk_counts B) (i, st_id p)"
    and p: "p \<in> set (bk_trades B)" "is_acquisition (st_trade_type p)"
    and sales: "sales_of_parcel B1 (st_id p) = concat (map (sale_units B)
        (filter (\<lambda>a. al_purchase_trade_id a = st_id p \<and> keep a) (bk_allocations B)))"
    and marked: "\<And>a. a \<in> set (bk_allocations B) \<Longrightarrow> al_purchase_trade_id a = st_id p \<Longrightarrow> \<not> keep a \<Longrightarrow>
        rounded_listing B (st_listing_id p) \<Longrightarrow> st_listing_id p \<in> set (bk_dirty B1)"
    and dirty: "set (bk_dirty B) \<subseteq> set (bk_dirty B1)"
  shows "st_listing_id p \<in> set (bk_dirty B1)
    \<or> parcel_fits D B1 (db_splits_for_listing B1 (st_listing_id p)) p"
proof (cases "st_listing_id p \<in> set (bk_dirty B1)")
  case False
  let ?l = "st_listing_id p"
  have keysB: "book_keys B" using B(1) by (simp add: rows_ok_def)
  have "event_for B1 (st_id p) a = event_for B (st_id p) a" for a by (simp add: event_for_def counts)
  moreover have "listing_actions B1 ?l = listing_actions B ?l" by (simp add: listing_actions_def acts)
  ultimately have splits: "for_parcel (db_splits_for_listing B1 ?l) (st_id p) = for_parcel (db_splits_for_listing B ?l) (st_id p)"
    using for_parcel_events [OF keys] for_parcel_events [OF keysB] by simp
  have ids: "distinct (map st_id (bk_trades B))" using keysB by (simp add: book_keys_def)
  have fits: "parcel_fits D B (db_splits_for_listing B ?l) p"
    using B(2) p False dirty by (auto simp: fits_or_marked_def)
  show ?thesis
  proof (cases "rounded_listing B ?l")
    case True
    then have "filter (\<lambda>a. al_purchase_trade_id a = st_id p \<and> keep a) (bk_allocations B)
        = filter (\<lambda>a. al_purchase_trade_id a = st_id p) (bk_allocations B)"
      using marked False by (intro filter_cong) auto
    then have "sales_of_parcel B1 (st_id p) = sales_of_parcel B (st_id p)"
      by (simp add: sales sales_of_parcel_get [OF ids])
    then show ?thesis using fits splits by (simp add: parcel_fits_def)
  next
    case unrounded: False
    have ok: "splits_ok (for_parcel (db_splits_for_listing B ?l) (st_id p))"
      by (rule unrounded_splits_ok [OF B(1) unrounded])
    have nn: "0 \<le> sale_val (for_parcel (db_splits_for_listing B ?l) (st_id p)) (st_date p) u"
      if "a \<in> set (bk_allocations B)" "u \<in> set (sale_units B a)" for a u
    proof (rule sale_val_nonneg [OF ok])
      have "0 < al_quantity_allocated a" using B(1) that(1) by (auto simp: rows_ok_def allocation_ok_def)
      then show "0 \<le> ua_quantity u" using that(2)
        by (auto simp: sale_units_def units_at_new_def split: option.splits)
    qed
    have "sum_list (map (sale_val (for_parcel (db_splits_for_listing B ?l) (st_id p)) (st_date p))
        (concat (map (sale_units B) (filter keep (filter (\<lambda>a. al_purchase_trade_id a = st_id p) (bk_allocations B))))))
      \<le> sum_list (map (sale_val (for_parcel (db_splits_for_listing B ?l) (st_id p)) (st_date p)) (sales_of_parcel B (st_id p)))"
      unfolding sales_of_parcel_get [OF ids] by (rule dropped_sum_le) (use nn in auto)
    also have "\<dots> \<le> st_quantity p" using fits parcel_fits_val [OF D ok, of B] by simp
    finally have "parcel_fits D B1 (db_splits_for_listing B1 ?l) p"
      using parcel_fits_val [OF D, of "db_splits_for_listing B1 ?l" p B1] ok
      by (simp add: splits sales conj_commute)
    then show ?thesis by simp
  qed
qed simp

text \<open>Settling clears the marks.\<close>

lemma settled_ok:
  assumes s: "db_settle D B1 = Inr B2" and rows: "rows_ok B1" and fits: "fits_or_marked D B1"
    and sells: "sells_allocated B1"
  shows "book_ok D B2"
proof -
  have keys: "book_keys B1" using rows by (simp add: rows_ok_def)
  note f = settle_facts [OF s keys]
  note same = settle_rows [OF s keys]
  have keys2: "book_keys B2" using f by blast
  have kept: "\<forall>k. (\<forall>l \<in> set (bk_dirty B1). \<not> of_listing B1 l (fst k)) \<longrightarrow>
      count_get (bk_counts B2) k = count_get (bk_counts B1) k" using f by blast
  have get: "trade_get B2 = trade_get B1" by (simp add: trade_get_def fun_eq_iff same)
  have rounded: "rounded_listing B2 = rounded_listing B1" by (simp add: rounded_listing_def fun_eq_iff same)
  have "parcel_fits D B2 (db_splits_for_listing B2 (st_listing_id p)) p"
    if p: "p \<in> set (bk_trades B2)" "is_acquisition (st_trade_type p)" for p
  proof (cases "st_listing_id p \<in> set (bk_dirty B1)")
    case True
    then have "allocations_fit_parcels D (st_listing_id p) B2" using f by (auto simp: listing_settled_def)
    moreover have "parcel_fits D B2 (db_splits_for_listing B2 (st_listing_id p)) p" if "sales_of_parcel B2 (st_id p) = []"
    proof -
      have "0 \<le> st_quantity p" using rows p same by (simp add: rows_ok_def)
      then show ?thesis
        by (simp add: parcel_fits_def that sold_in_acquired_units_def acquired_units_of_sales_def au_sum_def
            au_less_def au_key_def au_common_def au_new_def au_zero_def)
    qed
    ultimately show ?thesis using p by (auto simp: allocations_fit_parcels_def Let_def list_all_iff)
  next
    case False
    then have sl: "same_listing (st_listing_id p) B1 B2" using f by blast
    have "parcel_fits D B1 (db_splits_for_listing B1 (st_listing_id p)) p"
      using fits p False unfolding fits_or_marked_def same by blast
    then show ?thesis using same_splits [OF sl keys keys2] same_sales [OF sl] by (simp add: parcel_fits_def)
  qed
  moreover have "counts_rounded B2"
    unfolding counts_rounded_def
  proof (intro ballI impI)
    fix r a
    assume ra: "r \<in> set (bk_counts B2)" "a \<in> set (bk_actions B2)" "sa_id a = cr_action_id r"
    show "rounded_listing B2 (sa_listing_id a)"
    proof (cases "sa_listing_id a \<in> set (bk_dirty B1)")
      case True
      then show ?thesis using rows rounded by (simp add: rows_ok_def)
    next
      case False
      have "\<not> of_listing B1 l (cr_action_id r)" if "l \<in> set (bk_dirty B1)" for l
      proof
        assume "of_listing B1 l (cr_action_id r)"
        then obtain b where b: "b \<in> set (bk_actions B1)" "sa_id b = cr_action_id r" "sa_listing_id b = l"
          unfolding of_listing_def by blast
        have "inj_on sa_id (set (bk_actions B1))" using keys by (simp add: book_keys_def distinct_map)
        then have "b = a" using b ra same(3) by (metis inj_onD)
        with b(3) that False show False by simp
      qed
      then have "count_get (bk_counts B1) (count_key r) = count_get (bk_counts B2) (count_key r)"
        using kept [rule_format, of "count_key r"] by (simp add: count_key_def)
      then obtain r' where "r' \<in> set (bk_counts B1)" "count_key r' = count_key r"
        using ra(1) count_get_None [of "bk_counts B1" "count_key r"] count_get_None [of "bk_counts B2" "count_key r"]
        by (auto simp: image_iff)
      then show ?thesis using rows ra same rounded by (auto simp: rows_ok_def counts_rounded_def count_key_def)
    qed
  qed
  ultimately show ?thesis
    using rows sells keys2 by (simp add: book_ok_def rows_ok_def fits_or_marked_def sells_allocated_def
        allocated_of_def allocation_ok_def same get)
qed

subsection \<open>Writing a Sell\<close>

lemma trades_get_iff:
  "distinct (map st_id (bk_trades B)) \<Longrightarrow> t \<in> set (bk_trades B) \<longleftrightarrow> trade_get B (st_id t) = Some t"
  using trade_get_in [of B t] trade_get_Some [of B "st_id t" t] by blast

lemma trade_get_append:
  "trade_get (B\<lparr>bk_trades := ts @ [t], bk_dirty := d\<rparr>) j
     = (case find (\<lambda>r. st_id r = j) ts of Some r \<Rightarrow> Some r | None \<Rightarrow> if st_id t = j then Some t else None)"
  unfolding trade_get_def by (simp, induction ts) auto

lemma trade_get_replace:
  assumes "st_id t = i"
  shows "find (\<lambda>r. st_id r = j) (map (\<lambda>r. if st_id r = i then t else r) ts)
     = (case find (\<lambda>r. st_id r = j) ts of None \<Rightarrow> None | Some r \<Rightarrow> if j = i then Some t else Some r)"
  using assms by (induction ts) auto

lemma insert_trade_facts:
  assumes "distinct (map st_id (bk_trades B))" and "trade_get B (st_id t) = None"
  shows "\<exists>ts d. insert_trade t B = B\<lparr>bk_trades := ts, bk_dirty := bk_dirty B @ d\<rparr>
    \<and> (\<forall>l \<in> set d. rounded_listing B l) \<and> distinct (map st_id ts)
    \<and> trade_get (insert_trade t B) = (trade_get B)(st_id t \<mapsto> t)"
proof -
  have eq: "insert_trade t B = B\<lparr>bk_trades := bk_trades B @ [t], bk_dirty := bk_dirty B @ listing_marks B (st_listing_id t)\<rparr>"
    by (simp add: insert_trade_def mark_listing_marks)
  have "trade_get (insert_trade t B) = (trade_get B)(st_id t \<mapsto> t)"
    using assms(2) unfolding eq trade_get_append [abs_def] by (auto simp: fun_eq_iff trade_get_def split: option.split)
  then show ?thesis using eq assms listing_marks_rounded [of _ B]
    by (intro exI [of _ "bk_trades B @ [t]"] exI [of _ "listing_marks B (st_listing_id t)"] conjI)
      (auto simp: trade_get_None)
qed

lemma update_trade_facts:
  assumes ids: "distinct (map st_id (bk_trades B))" and old: "trade_get B i = Some old" and new: "st_id t = i"
  shows "\<exists>ts d. update_trade old t B = B\<lparr>bk_trades := ts, bk_dirty := bk_dirty B @ d\<rparr>
    \<and> (\<forall>l \<in> set d. rounded_listing B l) \<and> distinct (map st_id ts)
    \<and> trade_get (update_trade old t B) = (trade_get B)(i \<mapsto> t)"
proof -
  have oi: "st_id old = i" using trade_get_Some [OF old] by simp
  let ?ts = "map (\<lambda>r. if st_id r = i then t else r) (bk_trades B)"
  let ?d = "if moves_counts old t then concat (map (listing_marks B) (remdups [st_listing_id old, st_listing_id t])) else []"
  have eq: "update_trade old t B = B\<lparr>bk_trades := ?ts, bk_dirty := bk_dirty B @ ?d\<rparr>"
    by (simp add: update_trade_def Let_def mark_listings_marks oi)
  have "map st_id ?ts = map st_id (bk_trades B)" using new by auto
  then have "distinct (map st_id ?ts)" using ids by (simp only:)
  moreover have "trade_get (update_trade old t B) = (trade_get B)(i \<mapsto> t)"
  proof
    fix j
    show "trade_get (update_trade old t B) j = ((trade_get B)(i \<mapsto> t)) j"
      using trade_get_replace [OF new, of j "bk_trades B"] old
      unfolding eq by (auto simp: trade_get_def split: option.splits)
  qed
  moreover have "\<forall>l \<in> set ?d. rounded_listing B l" using listing_marks_rounded [of _ B] by auto
  ultimately show ?thesis using eq by (intro exI conjI)
qed

text \<open>The Sell row as stored carries what the body states.\<close>

definition sell_like :: "'d stored_trade \<Rightarrow> 'd stored_trade \<Rightarrow> bool" where
  "sell_like t t' \<longleftrightarrow> st_id t' = st_id t \<and> st_trade_type t' = Sell \<and> st_date t' = st_date t
     \<and> st_listing_id t' = st_listing_id t \<and> st_quantity t' = st_quantity t"

lemma put_sell_row_facts:
  assumes "distinct (map st_id (bk_trades B))" and "st_trade_type t = Sell"
  shows "\<exists>ts d t'. put_sell_row t B = B\<lparr>bk_trades := ts, bk_dirty := bk_dirty B @ d\<rparr>
    \<and> (\<forall>l \<in> set d. rounded_listing B l) \<and> distinct (map st_id ts) \<and> sell_like t t'
    \<and> trade_get (put_sell_row t B) = (trade_get B)(st_id t \<mapsto> t')"
proof (cases "trade_get B (st_id t)")
  case None
  have "sell_like t t" using assms(2) by (simp add: sell_like_def)
  then show ?thesis using insert_trade_facts [OF assms(1) None] by (simp add: put_sell_row_def None) blast
next
  case (Some old)
  have "st_id (sell_row_over old t) = st_id t" "sell_like t (sell_row_over old t)"
    using trade_get_Some [OF Some] assms(2) by (simp_all add: sell_row_over_def sell_like_def)
  then show ?thesis using update_trade_facts [OF assms(1) Some] by (simp add: put_sell_row_def Some) blast
qed

lemma sell_base:
  assumes D: "decimal_laws D" and B: "rows_ok B" "fits_or_marked D B"
    and t: "st_trade_type t = Sell" and old: "\<And>o'. trade_get B (st_id t) = Some o' \<Longrightarrow> st_trade_type o' = Sell"
    and B2: "B2 = delete_allocations (st_id t) (put_sell_row t B)"
  shows "rows_ok B2 \<and> fits_or_marked D B2
    \<and> bk_allocations B2 = filter (\<lambda>a. al_sale_trade_id a \<noteq> st_id t) (bk_allocations B)
    \<and> (\<exists>t'. sell_like t t' \<and> trade_get B2 = (trade_get B)(st_id t \<mapsto> t'))
    \<and> bk_market B2 = bk_market B"
proof -
  let ?i = "st_id t"
  have keys: "book_keys B" and ids: "distinct (map st_id (bk_trades B))" using B(1) by (simp_all add: rows_ok_def book_keys_def)
  obtain ts d t' where put: "put_sell_row t B = B\<lparr>bk_trades := ts, bk_dirty := bk_dirty B @ d\<rparr>"
    and d: "\<forall>l \<in> set d. rounded_listing B l" and ts: "distinct (map st_id ts)" and like: "sell_like t t'"
    and get1: "trade_get (put_sell_row t B) = (trade_get B)(?i \<mapsto> t')"
    using put_sell_row_facts [OF ids t] by blast
  let ?gone = "filter (\<lambda>a. al_sale_trade_id a = ?i) (bk_allocations B)"
  let ?B1 = "put_sell_row t B"
  let ?marks = "concat (map (\<lambda>a. parcel_marks ?B1 (al_purchase_trade_id a)) ?gone)"
  have eq: "B2 = B\<lparr>bk_trades := ts, bk_allocations := filter (\<lambda>a. al_sale_trade_id a \<noteq> ?i) (bk_allocations B),
      bk_dirty := bk_dirty B @ d @ ?marks\<rparr>"
    unfolding B2 delete_allocations_eq by (simp add: put)
  have same: "bk_trades B2 = ts" "bk_actions B2 = bk_actions B" "bk_counts B2 = bk_counts B"
    "bk_allocations B2 = filter (\<lambda>a. al_sale_trade_id a \<noteq> ?i) (bk_allocations B)"
    "bk_dirty B2 = bk_dirty B @ d @ ?marks" "bk_market B2 = bk_market B"
    by (simp_all add: eq)
  have get: "trade_get B2 = (trade_get B)(?i \<mapsto> t')"
    using get1 by (simp add: eq put trade_get_def [abs_def])
  have rounded1: "rounded_listing ?B1 = rounded_listing B" "rounded_listing B2 = rounded_listing B"
    by (simp_all add: put eq rounded_listing_def fun_eq_iff)
  have keys2: "book_keys B2" using keys ts by (simp add: book_keys_def same)
  have acq: "trade_get B j = Some p" if "trade_get B2 j = Some p" "is_acquisition (st_trade_type p)" for j p
    using that like by (auto simp: get sell_like_def is_acquisition_def split: if_splits)
  have not_i: "j \<noteq> ?i" if "trade_get B j = Some p" "is_acquisition (st_trade_type p)" for j p
    using that old [of p] by (auto simp: is_acquisition_def)
  have allocs: "allocation_ok B2 a" if "a \<in> set (bk_allocations B2)" for a
  proof -
    have a: "a \<in> set (bk_allocations B)" "al_sale_trade_id a \<noteq> ?i" using that by (auto simp: same)
    then obtain s p where "0 < al_quantity_allocated a" "trade_get B (al_sale_trade_id a) = Some s" "st_trade_type s = Sell"
      "trade_get B (al_purchase_trade_id a) = Some p" "is_acquisition (st_trade_type p)"
      "st_listing_id p = st_listing_id s" "st_date p \<le> st_date s"
      using B(1) by (auto simp: rows_ok_def allocation_ok_def)
    moreover have "al_purchase_trade_id a \<noteq> ?i" by (rule not_i) fact+
    ultimately show ?thesis using a(2) by (simp add: allocation_ok_def get)
  qed
  have marks: "rounded_listing B l" if "l \<in> set ?marks" for l
    using that parcel_marks_rounded [of l ?B1] by (auto simp: rounded1)
  have "st_listing_id p \<in> set (bk_dirty B2) \<or> parcel_fits D B2 (db_splits_for_listing B2 (st_listing_id p)) p"
    if "p \<in> set (bk_trades B2)" and pa: "is_acquisition (st_trade_type p)" for p
  proof -
    have p: "trade_get B (st_id p) = Some p"
      using that trades_get_iff [of B2 p] ts acq [of "st_id p" p] by (simp add: same(1))
    have pB: "p \<in> set (bk_trades B)" using trade_get_Some [OF p] by blast
    have units: "sale_units B2 a = sale_units B a" if "al_sale_trade_id a \<noteq> ?i" for a
      using that by (simp add: sale_units_def get)
    have sales: "sales_of_parcel B2 (st_id p) = concat (map (sale_units B)
        (filter (\<lambda>a. al_purchase_trade_id a = st_id p \<and> al_sale_trade_id a \<noteq> ?i) (bk_allocations B)))"
      using units ts by (subst sales_of_parcel_get) (auto simp: same conj_commute intro!: arg_cong [where f = concat] map_cong)
    have marked: "st_listing_id p \<in> set (bk_dirty B2)"
      if a: "a \<in> set (bk_allocations B)" "al_purchase_trade_id a = st_id p" "\<not> al_sale_trade_id a \<noteq> ?i"
        "rounded_listing B (st_listing_id p)" for a
    proof -
      have "trade_get ?B1 (st_id p) = Some p" using p not_i [OF p pa] by (simp add: get1)
      then have "parcel_marks ?B1 (al_purchase_trade_id a) = [st_listing_id p]"
        using a by (simp add: parcel_marks_def listing_marks_def rounded1)
      moreover have "a \<in> set ?gone" using a by simp
      ultimately have "st_listing_id p \<in> set ?marks" by (auto intro!: bexI [of _ a])
      then show ?thesis by (simp only: same set_append Un_iff) simp
    qed
    show ?thesis
      by (rule fits_kept [OF D B keys2 same(2) _ pB pa sales marked]) (simp_all add: same)
  qed
  then have "fits_or_marked D B2" by (simp add: fits_or_marked_def)
  moreover have "rows_ok B2"
  proof -
    have "\<forall>p \<in> set (bk_trades B2). is_acquisition (st_trade_type p) \<longrightarrow> 0 \<le> st_quantity p"
    proof (intro ballI impI)
      fix p
      assume "p \<in> set (bk_trades B2)" and a: "is_acquisition (st_trade_type p)"
      then have "trade_get B2 (st_id p) = Some p" using trades_get_iff [of B2 p] ts by (simp add: same(1))
      then have "p \<in> set (bk_trades B)" using acq a trade_get_Some by blast
      then show "0 \<le> st_quantity p" using B(1) a by (simp add: rows_ok_def)
    qed
    moreover have "\<forall>l \<in> set (bk_dirty B2). rounded_listing B2 l"
      using B(1) d marks by (auto simp: same(5) rounded1 rows_ok_def simp del: set_concat)
    ultimately show ?thesis using keys2 allocs B(1) by (simp add: rows_ok_def counts_rounded_def rounded1 same(2,3))
  qed
  ultimately show ?thesis using same(4,6) like get by blast
qed

text \<open>One allocation keeps the rows sound: its own parcel is checked, no other is drawn on.\<close>

lemma allocate_one_ok:
  assumes r: "allocate_one D body provenance stated i al B (j, q) = Inr B'" and "0 < q"
    and B: "rows_ok B" "fits_or_marked D B"
    and t: "trade_get B i = Some t" "st_trade_type t = Sell" "st_listing_id t = sb_listing_id body" "st_date t = sb_date body"
  shows "rows_ok B' \<and> fits_or_marked D B' \<and> bk_trades B' = bk_trades B \<and> bk_market B' = bk_market B
    \<and> bk_allocations B' = bk_allocations B @ [\<lparr>al_id = al, al_sale_trade_id = i, al_purchase_trade_id = j,
        al_quantity_allocated = q\<rparr>]"
proof -
  let ?a = "\<lparr>al_id = al, al_sale_trade_id = i, al_purchase_trade_id = j, al_quantity_allocated = q\<rparr>"
  obtain p where p: "trade_get B j = Some p" "is_acquisition (st_trade_type p)" "st_listing_id p = sb_listing_id body"
      "st_date p \<le> sb_date body"
    and fit: "parcel_fits D (insert_allocation ?a B) (db_splits_for_listing (insert_allocation ?a B) (st_listing_id p)) p"
    and B': "B' = insert_allocation ?a B"
  proof (cases "trade_get B j")
    case None
    then show ?thesis using r by (simp add: allocate_one_def)
  next
    case (Some p)
    have c: "is_acquisition (st_trade_type p)" "st_listing_id p = sb_listing_id body" "\<not> sb_date body < st_date p"
      and f: "(if parcel_fits D (insert_allocation ?a B) (db_splits_for_listing (insert_allocation ?a B) (st_listing_id p)) p
          then Inr (insert_allocation ?a B) else Inl (PurchaseQuantityExceeded :: 'a sell_error)) = Inr B'"
      using r unfolding allocate_one_def Let_def unfolding Some prod.case option.case result_simps not_not by blast+
    have f': "parcel_fits D (insert_allocation ?a B) (db_splits_for_listing (insert_allocation ?a B) (st_listing_id p)) p"
    proof (rule ccontr)
      assume "\<not> ?thesis"
      with f show False by simp
    qed
    then have "B' = insert_allocation ?a B" using f by simp
    moreover have "st_date p \<le> sb_date body" using c(3) by simp
    ultimately show ?thesis using that Some c f' by blast
  qed
  have eq: "B' = B\<lparr>bk_allocations := bk_allocations B @ [?a], bk_dirty := bk_dirty B @ parcel_marks B j\<rparr>"
    by (simp add: B' insert_allocation_eq)
  have same: "bk_trades B' = bk_trades B" "bk_actions B' = bk_actions B" "bk_counts B' = bk_counts B"
    "bk_market B' = bk_market B" "bk_allocations B' = bk_allocations B @ [?a]"
    "bk_dirty B' = bk_dirty B @ parcel_marks B j" by (simp_all add: eq)
  have get: "trade_get B' = trade_get B" and rounded: "rounded_listing B' = rounded_listing B"
    by (simp_all add: trade_get_def [abs_def] rounded_listing_def [abs_def] same)
  have ids: "distinct (map st_id (bk_trades B))" using B(1) by (simp add: rows_ok_def book_keys_def)
  have splits: "db_splits_for_listing B' = db_splits_for_listing B"
    by (simp add: db_splits_for_listing_def [abs_def] listing_actions_def db_stored_counts_def same)
  have "st_listing_id r \<in> set (bk_dirty B') \<or> parcel_fits D B' (db_splits_for_listing B' (st_listing_id r)) r"
    if r: "r \<in> set (bk_trades B)" "is_acquisition (st_trade_type r)" for r
  proof (cases "st_id r = j")
    case True
    then have "r = p" using trade_get_in [OF ids r(1)] p(1) by simp
    then show ?thesis using fit by (simp add: B')
  next
    case False
    have "sale_units B' = sale_units B" by (simp add: sale_units_def [abs_def] get)
    then have "sales_of_parcel B' (st_id r) = sales_of_parcel B (st_id r)"
      using False ids by (simp add: sales_of_parcel_get same)
    moreover have "st_listing_id r \<in> set (bk_dirty B) \<or> parcel_fits D B (db_splits_for_listing B (st_listing_id r)) r"
      using B(2) r by (simp add: fits_or_marked_def)
    ultimately show ?thesis by (auto simp: parcel_fits_def splits same)
  qed
  then have "fits_or_marked D B'" by (simp add: fits_or_marked_def same(1))
  moreover have "allocation_ok B' ?a" using p t \<open>0 < q\<close> by (simp add: allocation_ok_def get)
  ultimately show ?thesis
    using B(1) parcel_marks_rounded [of _ B j] same
    by (auto simp: rows_ok_def book_keys_def counts_rounded_def rounded allocation_ok_def get)
qed

lemma allocate_ok:
  assumes "allocate D body provenance stated i al B allocs = Inr B'" and "\<forall>(j, q) \<in> set allocs. 0 < q"
    and "rows_ok B" and "fits_or_marked D B" and "trade_get B i = Some t" and "st_trade_type t = Sell"
    and "st_listing_id t = sb_listing_id body" and "st_date t = sb_date body"
  shows "rows_ok B' \<and> fits_or_marked D B' \<and> bk_trades B' = bk_trades B \<and> bk_market B' = bk_market B
    \<and> (\<forall>s. s \<noteq> i \<longrightarrow> allocated_of B' s = allocated_of B s)
    \<and> allocated_of B' i = allocated_of B i + sum_list (map snd allocs)
    \<and> (\<forall>s. s \<noteq> i \<longrightarrow> allocations_of B' s = allocations_of B s)
    \<and> allocations_of B' i
      = allocations_of B i @ allocs"
  using assms
proof (induction allocs arbitrary: al B)
  case (Cons alloc allocs)
  obtain j q where jq: "alloc = (j, q)" by (cases alloc)
  obtain B1 where one: "allocate_one D body provenance stated i al B (j, q) = Inr B1"
    and rest: "allocate D body provenance stated i (al + 1) B1 allocs = Inr B'"
    using Cons.prems(1) by (auto simp: jq result_simps)
  have "0 < q" using Cons.prems(2) by (simp add: jq)
  note s = allocate_one_ok [OF one this Cons.prems(3-8)]
  then have "trade_get B1 i = Some t" using Cons.prems(5) by (simp add: trade_get_def)
  note IH = Cons.IH [OF rest _ _ _ this Cons.prems(6-8)]
  show ?case using IH s Cons.prems(2) by (auto simp: jq allocated_of_def allocations_of_def algebra_simps)
qed simp

lemma upsert_ok:
  assumes D: "decimal_laws D" and B: "book_ok D B"
    and w: "upsert_sell_in_tx D C today fresh id' body settles provenance B = Inr (i, B')"
    and fresh: "id' = None \<longrightarrow> trade_get B (fi_trade fresh) = None"
    and old: "\<forall>j o'. id' = Some j \<longrightarrow> trade_get B j = Some o' \<longrightarrow> st_trade_type o' = Sell"
  shows "rows_ok B' \<and> fits_or_marked D B' \<and> sells_allocated B' \<and> bk_market B' = bk_market B
    \<and> i = (case id' of Some j \<Rightarrow> j | None \<Rightarrow> fi_trade fresh)
    \<and> (\<forall>j. j \<noteq> i \<longrightarrow> trade_get B' j = trade_get B j \<and> allocations_of B' j = allocations_of B j)
    \<and> (\<exists>t. trade_get B' i = Some t \<and> st_trade_type t = Sell \<and> st_date t = sb_date body
         \<and> st_listing_id t = sb_listing_id body \<and> st_quantity t = sb_quantity body)
    \<and> allocations_of B' i = sb_allocations body"
proof -
  let ?columns = "case provenance of None \<Rightarrow> no_columns | Some p \<Rightarrow> columns_of p"
  let ?costs = "resolve_brokerage D (sb_brokerage_includes_gst body) (sb_brokerage body) (sb_gst_on_brokerage body)"
  let ?t = "sell_row body settles ?columns ?costs i"
  let ?B2 = "delete_allocations i (put_sell_row ?t B)"
  have pos: "\<forall>(j, q) \<in> set (sb_allocations body). 0 < q"
    and sum: "dsum (map snd (sb_allocations body)) = sb_quantity body"
    and i: "i = (case id' of Some j \<Rightarrow> j | None \<Rightarrow> fi_trade fresh)"
    and loop: "\<exists>stated. allocate D body provenance stated i (fi_allocation fresh) ?B2 (sb_allocations body) = Inr B'"
    using w by (auto simp: upsert_sell_in_tx_def Let_def result_simps list_ex_iff not_le)
  have rows: "rows_ok B" "fits_or_marked D B" and sells: "sells_allocated B" and clean: "bk_dirty B = []"
    using B by (simp_all add: book_ok_def)
  have tt: "st_trade_type ?t = Sell" "st_id ?t = i" by (simp_all add: sell_row_def)
  have oldS: "st_trade_type o' = Sell" if "trade_get B (st_id ?t) = Some o'" for o'
  proof -
    have got: "trade_get B i = Some o'" using that by (simp only: tt(2))
    show ?thesis
    proof (cases id')
      case None
      then show ?thesis using got fresh by (simp add: i)
    next
      case (Some j)
      then show ?thesis using got old by (simp add: i)
    qed
  qed
  have "?B2 = delete_allocations (st_id ?t) (put_sell_row ?t B)" by (simp add: tt)
  note base = sell_base [OF D rows tt(1) oldS this, unfolded tt(2)]
  then obtain t' where t': "sell_like ?t t'" and get: "trade_get ?B2 = (trade_get B)(i \<mapsto> t')" by blast
  obtain stated where loop': "allocate D body provenance stated i (fi_allocation fresh) ?B2 (sb_allocations body) = Inr B'"
    using loop by blast
  have fields: "trade_get ?B2 i = Some t'" "st_trade_type t' = Sell" "st_listing_id t' = sb_listing_id body"
    "st_date t' = sb_date body" "st_quantity t' = sb_quantity body"
    using t' get by (simp_all add: sell_like_def sell_row_def)
  note all = allocate_ok [OF loop' pos base [THEN conjunct1] base [THEN conjunct2, THEN conjunct1] fields(1-4)]
  have trades': "bk_trades B' = bk_trades ?B2" and market': "bk_market B' = bk_market ?B2"
    and allocated: "allocated_of B' i = allocated_of ?B2 i + sum_list (map snd (sb_allocations body))"
    and others: "\<And>s. s \<noteq> i \<Longrightarrow> allocated_of B' s = allocated_of ?B2 s"
    and sound: "rows_ok B'" "fits_or_marked D B'" using all by blast+
  have distinct': "distinct (map st_id (bk_trades B'))" using sound(1) by (simp add: rows_ok_def book_keys_def)
  have allocs2: "bk_allocations ?B2 = filter (\<lambda>a. al_sale_trade_id a \<noteq> i) (bk_allocations B)" using base by blast
  have none: "filter (\<lambda>a. al_sale_trade_id a = i) (bk_allocations ?B2) = []"
    unfolding allocs2 by (simp add: filter_empty_conv)
  have getB': "trade_get B' = trade_get ?B2" by (simp add: trade_get_def [abs_def] trades')
  have "allocated_of B' (st_id s) = st_quantity s" if s: "s \<in> set (bk_trades B')" "st_trade_type s = Sell" for s
  proof (cases "st_id s = i")
    case True
    have "s = t'" using trade_get_in [OF distinct' s(1)] True fields(1) by (simp only: getB') simp
    then show ?thesis using allocated none fields(5) sum True by (simp add: allocated_of_def [of ?B2] dsum_sum_list)
  next
    case False
    have "trade_get B (st_id s) = Some s" using trade_get_in [OF distinct' s(1)] False by (simp only: getB' get) simp
    then have "allocated_of B (st_id s) = st_quantity s"
      using sells s(2) trade_get_Some [of B "st_id s" s] by (simp add: sells_allocated_def)
    moreover have "allocated_of ?B2 (st_id s) = allocated_of B (st_id s)"
    proof -
      have "filter (\<lambda>a. al_sale_trade_id a \<noteq> i \<and> al_sale_trade_id a = st_id s) (bk_allocations B)
          = filter (\<lambda>a. al_sale_trade_id a = st_id s) (bk_allocations B)"
        using False by (intro filter_cong) auto
      then show ?thesis by (simp only: allocated_of_def allocs2 filter_filter)
    qed
    ultimately show ?thesis using others [OF False] by simp
  qed
  then have "sells_allocated B'" by (simp add: sells_allocated_def)
  moreover have "allocations_of B' j = allocations_of B j" if "j \<noteq> i" for j
  proof -
    have "filter (\<lambda>a. al_sale_trade_id a \<noteq> i \<and> al_sale_trade_id a = j) (bk_allocations B)
        = filter (\<lambda>a. al_sale_trade_id a = j) (bk_allocations B)"
      using that by (intro filter_cong) auto
    then have "allocations_of ?B2 j = allocations_of B j" by (simp only: allocations_of_def allocs2 filter_filter)
    then show ?thesis using all that by simp
  qed
  moreover have "allocations_of ?B2 i = []" using none by (simp add: allocations_of_def)
  ultimately show ?thesis using all base fields getB' get i by auto
qed

text \<open>An accepted write keeps the books sound and stores exactly what the body states.\<close>

lemma write_sell_ok:
  assumes D: "decimal_laws D" and B: "book_ok D B"
    and fresh: "id' = None \<longrightarrow> trade_get B (fi_trade fresh) = None"
    and w: "write_sell D C today fresh id' body Commit B = Inr (i, B')"
  shows "book_ok D B' \<and> i = (case id' of Some j \<Rightarrow> j | None \<Rightarrow> fi_trade fresh)
    \<and> (\<forall>j. j \<noteq> i \<longrightarrow> trade_get B' j = trade_get B j \<and> allocations_of B' j = allocations_of B j)
    \<and> (\<exists>t. trade_get B' i = Some t \<and> st_trade_type t = Sell \<and> st_date t = sb_date body
         \<and> st_listing_id t = sb_listing_id body \<and> st_quantity t = sb_quantity body)
    \<and> allocations_of B' i = sb_allocations body"
proof -
  obtain settles B1 where up: "upsert_sell_in_tx D C today fresh id' body settles None B = Inr (i, B1)"
    and edit: "\<And>j. id' = Some j \<Longrightarrow> check_editable B j = Inr ()"
    and settle: "db_settle D B1 = Inr B'"
    using w by (auto simp: write_sell_def result_simps finish_def split: option.splits)
  have old: "\<forall>j o'. id' = Some j \<longrightarrow> trade_get B j = Some o' \<longrightarrow> st_trade_type o' = Sell"
    using edit by (auto simp: check_editable_def result_simps split: if_splits)
  note u = upsert_ok [OF D B up fresh old]
  then have "rows_ok B1" "fits_or_marked D B1" "sells_allocated B1" by blast+
  note ok = settled_ok [OF settle this]
  have "book_keys B1" using u by (simp add: rows_ok_def)
  then have "trade_get B' = trade_get B1" "allocations_of B' = allocations_of B1"
    using settle_rows [OF settle] by (simp_all add: trade_get_def [abs_def] allocations_of_def [abs_def])
  with u ok show ?thesis by (metis (no_types))
qed

subsection \<open>Deleting a Sell keeps the books sound\<close>

lemma find_filter_same: "(\<And>x. P x \<Longrightarrow> Q x) \<Longrightarrow> find P (filter Q xs) = find P xs"
  by (induction xs) auto

lemma delete_trade_eq:
  "delete_trade t B = B\<lparr>bk_trades := filter (\<lambda>r. st_id r \<noteq> st_id t) (bk_trades B),
     bk_counts := filter (\<lambda>c. cr_trade_id c \<noteq> st_id t) (bk_counts B),
     bk_dirty := bk_dirty B @ listing_marks B (st_listing_id t)\<rparr>"
  by (simp add: delete_trade_def mark_listing_marks)

lemma delete_trades_eq:
  "\<exists>d. foldl (\<lambda>B t. delete_trade t B) B ts = B\<lparr>bk_trades := filter (\<lambda>r. st_id r \<notin> st_id ` set ts) (bk_trades B),
     bk_counts := filter (\<lambda>c. cr_trade_id c \<notin> st_id ` set ts) (bk_counts B), bk_dirty := bk_dirty B @ d\<rparr>
     \<and> (\<forall>l \<in> set d. rounded_listing B l)"
proof (induction ts arbitrary: B)
  case Nil
  show ?case by (intro exI [of _ "[]"]) simp
next
  case (Cons t ts)
  obtain d where d: "foldl (\<lambda>B t. delete_trade t B) (delete_trade t B) ts
      = (delete_trade t B)\<lparr>bk_trades := filter (\<lambda>r. st_id r \<notin> st_id ` set ts) (bk_trades (delete_trade t B)),
          bk_counts := filter (\<lambda>c. cr_trade_id c \<notin> st_id ` set ts) (bk_counts (delete_trade t B)),
          bk_dirty := bk_dirty (delete_trade t B) @ d\<rparr>" "\<forall>l \<in> set d. rounded_listing (delete_trade t B) l"
    using Cons.IH [of "delete_trade t B"] by blast
  show ?case using d listing_marks_rounded [of _ B "st_listing_id t"]
    by (intro exI [of _ "listing_marks B (st_listing_id t) @ d"])
      (auto simp: delete_trade_eq rounded_listing_def conj_commute)
qed

lemma delete_blocked_rows:
  assumes "allocation_ok B a" "a \<in> set (bk_allocations B)" "\<not> trade_referenced B j"
  shows "al_sale_trade_id a \<noteq> j \<and> al_purchase_trade_id a \<noteq> j"
  using assms by (auto simp: trade_referenced_def list_ex_iff)

text \<open>
  What a delete leaves: the rows of the ids \<open>gone\<close> and the allocations of the sale removed, and
  no kept allocation pointing at a removed row.
\<close>

lemma delete_rows_ok:
  assumes D: "decimal_laws D" and B: "rows_ok B" "fits_or_marked D B" "sells_allocated B"
    and B2: "bk_trades B2 = filter (\<lambda>r. st_id r \<notin> gone) (bk_trades B)"
      "bk_counts B2 = filter (\<lambda>c. cr_trade_id c \<notin> gone) (bk_counts B)"
      "bk_allocations B2 = filter (\<lambda>a. al_sale_trade_id a \<noteq> i) (bk_allocations B)"
      "bk_actions B2 = bk_actions B" "bk_dirty B2 = bk_dirty B @ d"
    and i: "i \<in> gone" and d: "\<forall>l \<in> set d. rounded_listing B l"
    and apart: "\<And>a. a \<in> set (bk_allocations B2) \<Longrightarrow> al_sale_trade_id a \<notin> gone \<and> al_purchase_trade_id a \<notin> gone"
    and marked: "\<And>a p. a \<in> set (bk_allocations B) \<Longrightarrow> al_sale_trade_id a = i \<Longrightarrow>
        trade_get B2 (al_purchase_trade_id a) = Some p \<Longrightarrow> rounded_listing B (st_listing_id p) \<Longrightarrow>
        st_listing_id p \<in> set (bk_dirty B2)"
  shows "rows_ok B2 \<and> fits_or_marked D B2 \<and> sells_allocated B2"
proof -
  have keysB: "book_keys B" using B(1) by (simp add: rows_ok_def)
  then have ids: "distinct (map st_id (bk_trades B))" by (simp add: book_keys_def)
  have keys: "book_keys B2" using keysB by (simp add: book_keys_def B2 distinct_map_filter)
  then have ids2: "distinct (map st_id (bk_trades B2))" by (simp add: book_keys_def)
  have sub: "set (bk_trades B2) \<subseteq> set (bk_trades B)" by (auto simp: B2(1))
  have kept: "trade_get B2 j = trade_get B j" if "j \<notin> gone" for j
    unfolding trade_get_def B2(1) by (rule find_filter_same) (use that in simp)
  have rounded: "rounded_listing B2 = rounded_listing B" by (simp add: rounded_listing_def fun_eq_iff B2(4))
  have subA: "set (bk_allocations B2) \<subseteq> set (bk_allocations B)" by (auto simp: B2(3))
  have allocs: "\<forall>a \<in> set (bk_allocations B2). allocation_ok B2 a"
    using B(1) subA apart by (auto simp: rows_ok_def allocation_ok_def kept)
  have "st_listing_id p \<in> set (bk_dirty B2) \<or> parcel_fits D B2 (db_splits_for_listing B2 (st_listing_id p)) p"
    if p2: "p \<in> set (bk_trades B2)" and pa: "is_acquisition (st_trade_type p)" for p
  proof -
    have pB: "p \<in> set (bk_trades B)" and notgone: "st_id p \<notin> gone" using p2 by (auto simp: B2(1))
    have p: "trade_get B2 (st_id p) = Some p" by (rule trade_get_in [OF ids2 p2])
    have counts: "count_get (bk_counts B2) (k, st_id p) = count_get (bk_counts B) (k, st_id p)" for k
      unfolding B2(2) by (rule count_get_filter) (use notgone in \<open>auto simp: count_key_def\<close>)
    have sales: "sales_of_parcel B2 (st_id p) = concat (map (sale_units B)
        (filter (\<lambda>a. al_purchase_trade_id a = st_id p \<and> al_sale_trade_id a \<noteq> i) (bk_allocations B)))"
    proof -
      have "sale_units B2 a = sale_units B a" if "a \<in> set (bk_allocations B2)" for a
        using kept apart [OF that] by (simp add: sale_units_def)
      then show ?thesis using ids2
        by (subst sales_of_parcel_get) (auto simp: B2(3) conj_commute intro!: arg_cong [where f = concat] map_cong)
    qed
    have mk: "st_listing_id p \<in> set (bk_dirty B2)"
      if "a \<in> set (bk_allocations B)" "al_purchase_trade_id a = st_id p" "\<not> al_sale_trade_id a \<noteq> i"
        "rounded_listing B (st_listing_id p)" for a
      using marked [of a p] that p by simp
    show ?thesis
      by (rule fits_kept [OF D B(1,2) keys B2(4) counts pB pa sales mk]) (simp_all add: B2(5))
  qed
  then have "fits_or_marked D B2" by (simp add: fits_or_marked_def)
  moreover have "rows_ok B2"
    using B(1) keys allocs sub d by (auto simp: rows_ok_def counts_rounded_def rounded B2(2,4,5))
  moreover have "sells_allocated B2"
    unfolding sells_allocated_def
  proof (intro ballI impI)
    fix s
    assume s: "s \<in> set (bk_trades B2)" "st_trade_type s = Sell"
    then have "st_id s \<noteq> i" using i by (auto simp: B2(1))
    then have "filter (\<lambda>a. al_sale_trade_id a \<noteq> i \<and> al_sale_trade_id a = st_id s) (bk_allocations B)
        = filter (\<lambda>a. al_sale_trade_id a = st_id s) (bk_allocations B)" by (intro filter_cong) auto
    then have "allocated_of B2 (st_id s) = allocated_of B (st_id s)"
      by (simp only: allocated_of_def B2(3) filter_filter)
    then show "allocated_of B2 (st_id s) = st_quantity s" using B(3) s sub by (auto simp: sells_allocated_def)
  qed
  ultimately show ?thesis by blast
qed

lemma rows_deleted:
  assumes "delete_rows ts B = Inr B'"
  shows "(\<forall>t \<in> set ts. \<not> delete_blocked B (st_id t)) \<and> (\<exists>d. B' = B\<lparr>bk_trades := filter (\<lambda>r. st_id r \<notin> st_id ` set ts) (bk_trades B),
     bk_counts := filter (\<lambda>c. cr_trade_id c \<notin> st_id ` set ts) (bk_counts B), bk_dirty := bk_dirty B @ d\<rparr>
     \<and> (\<forall>l \<in> set d. rounded_listing B l))"
proof -
  have "\<forall>t \<in> set ts. \<not> delete_blocked B (st_id t)" and "B' = foldl (\<lambda>B t. delete_trade t B) B ts"
    using assms by (auto simp: delete_rows_def list_ex_iff split: if_splits)
  then show ?thesis using delete_trades_eq [of B ts] by simp
qed

lemma sale_not_purchase:
  assumes "rows_ok B" and "a \<in> set (bk_allocations B)" and "trade_get B i = Some t" and "st_trade_type t = Sell"
  shows "al_purchase_trade_id a \<noteq> i"
  using assms by (auto simp: rows_ok_def allocation_ok_def is_acquisition_def)

lemma delete_sell_rows:
  assumes B: "rows_ok B" and t: "trade_get B i = Some t" "st_trade_type t = Sell"
    and r1: "delete_rows ms B = Inr B1"
    and r2: "delete_rows [t] (delete_allocations i (delete_buyback_income i B1)) = Inr B2"
  defines "gone \<equiv> st_id ` set ms \<union> {i}"
  shows "bk_trades B2 = filter (\<lambda>r. st_id r \<notin> gone) (bk_trades B)"
    "bk_counts B2 = filter (\<lambda>c. cr_trade_id c \<notin> gone) (bk_counts B)"
    "bk_allocations B2 = filter (\<lambda>a. al_sale_trade_id a \<noteq> i) (bk_allocations B)"
    "bk_actions B2 = bk_actions B"
    "\<exists>d. bk_dirty B2 = bk_dirty B @ d \<and> (\<forall>l \<in> set d. rounded_listing B l)
      \<and> (\<forall>a \<in> set (bk_allocations B). al_sale_trade_id a = i \<longrightarrow> set (parcel_marks B1 (al_purchase_trade_id a)) \<subseteq> set d)"
    "\<forall>m \<in> set ms. \<not> trade_referenced B (st_id m)"
proof -
  have it: "st_id t = i" using trade_get_Some [OF t(1)] by simp
  obtain d1 where B1: "B1 = B\<lparr>bk_trades := filter (\<lambda>r. st_id r \<notin> st_id ` set ms) (bk_trades B),
     bk_counts := filter (\<lambda>c. cr_trade_id c \<notin> st_id ` set ms) (bk_counts B), bk_dirty := bk_dirty B @ d1\<rparr>"
    and d1: "\<forall>l \<in> set d1. rounded_listing B l" and free: "\<forall>m \<in> set ms. \<not> delete_blocked B (st_id m)"
    using rows_deleted [OF r1] by blast
  let ?B = "delete_buyback_income i B1"
  let ?gone = "filter (\<lambda>a. al_sale_trade_id a = i) (bk_allocations ?B)"
  let ?marks = "concat (map (\<lambda>a. parcel_marks ?B (al_purchase_trade_id a)) ?gone)"
  obtain d2 where B2: "B2 = (delete_allocations i ?B)\<lparr>bk_trades := filter (\<lambda>r. st_id r \<notin> st_id ` set [t]) (bk_trades (delete_allocations i ?B)),
     bk_counts := filter (\<lambda>c. cr_trade_id c \<notin> st_id ` set [t]) (bk_counts (delete_allocations i ?B)),
     bk_dirty := bk_dirty (delete_allocations i ?B) @ d2\<rparr>"
    and d2: "\<forall>l \<in> set d2. rounded_listing (delete_allocations i ?B) l"
    using rows_deleted [OF r2] by blast
  show "bk_trades B2 = filter (\<lambda>r. st_id r \<notin> gone) (bk_trades B)"
    "bk_counts B2 = filter (\<lambda>c. cr_trade_id c \<notin> gone) (bk_counts B)"
    "bk_allocations B2 = filter (\<lambda>a. al_sale_trade_id a \<noteq> i) (bk_allocations B)"
    "bk_actions B2 = bk_actions B"
    by (simp_all add: B2 delete_allocations_eq delete_buyback_income_def B1 gone_def it conj_commute)
  have rounded: "rounded_listing ?B = rounded_listing B" "rounded_listing (delete_allocations i ?B) = rounded_listing B"
    by (simp_all add: delete_allocations_eq delete_buyback_income_def B1 rounded_listing_def fun_eq_iff)
  have marks: "parcel_marks ?B = parcel_marks B1"
    by (simp add: fun_eq_iff parcel_marks_def listing_marks_def delete_buyback_income_def trade_get_def rounded_listing_def
        cong: option.case_cong)
  show "\<exists>d. bk_dirty B2 = bk_dirty B @ d \<and> (\<forall>l \<in> set d. rounded_listing B l)
      \<and> (\<forall>a \<in> set (bk_allocations B). al_sale_trade_id a = i \<longrightarrow> set (parcel_marks B1 (al_purchase_trade_id a)) \<subseteq> set d)"
  proof (intro exI conjI)
    show "bk_dirty B2 = bk_dirty B @ (d1 @ ?marks @ d2)"
      by (simp add: B2 delete_allocations_eq delete_buyback_income_def B1)
    show "\<forall>l \<in> set (d1 @ ?marks @ d2). rounded_listing B l"
      using d1 d2 parcel_marks_rounded [of _ ?B] by (auto simp: rounded)
    have "bk_allocations ?B = bk_allocations B" by (simp add: delete_buyback_income_def B1)
    then show "\<forall>a \<in> set (bk_allocations B). al_sale_trade_id a = i \<longrightarrow>
        set (parcel_marks B1 (al_purchase_trade_id a)) \<subseteq> set (d1 @ ?marks @ d2)"
      by (auto simp: marks)
  qed
  show "\<forall>m \<in> set ms. \<not> trade_referenced B (st_id m)" using free by (simp add: delete_blocked_def)
qed

lemma db_delete_sell_ok:
  assumes D: "decimal_laws D" and B: "book_ok D B" and r: "db_delete_sell D i B = Inr (outcome, B')"
  shows "book_ok D B' \<and> (outcome \<noteq> Deleted \<longrightarrow> B' = B)
    \<and> (outcome = Deleted \<longrightarrow> trade_get B' i = None
         \<and> bk_allocations B' = filter (\<lambda>a. al_sale_trade_id a \<noteq> i) (bk_allocations B))"
proof (cases "outcome = Deleted")
  case False
  then have "B' = B" using r
    by (auto simp: db_delete_sell_def result_simps split: option.splits if_splits)
  then show ?thesis using B False by simp
next
  case True
  obtain t B1 B2 where t: "trade_get B i = Some t" "st_trade_type t = Sell"
    and r1: "delete_rows (group_members B t) B = Inr B1"
    and r2: "delete_rows [t] (delete_allocations i (delete_buyback_income i B1)) = Inr B2"
    and settle: "db_settle D B2 = Inr B'"
    using r True by (auto simp: db_delete_sell_def result_simps split: option.splits if_splits)
  have rows: "rows_ok B" "fits_or_marked D B" "sells_allocated B" and clean: "bk_dirty B = []"
    using B by (simp_all add: book_ok_def)
  let ?gone = "st_id ` set (group_members B t) \<union> {i}"
  note f = delete_sell_rows [OF rows(1) t r1 r2]
  obtain d where d: "bk_dirty B2 = bk_dirty B @ d" "\<forall>l \<in> set d. rounded_listing B l"
    and marks: "\<forall>a \<in> set (bk_allocations B). al_sale_trade_id a = i \<longrightarrow> set (parcel_marks B1 (al_purchase_trade_id a)) \<subseteq> set d"
    using f(5) by blast
  have apart: "al_sale_trade_id a \<notin> ?gone \<and> al_purchase_trade_id a \<notin> ?gone" if "a \<in> set (bk_allocations B2)" for a
    using that f(6) sale_not_purchase [OF rows(1) _ t, of a] by (auto simp: f(3) trade_referenced_def list_ex_iff)
  have marked: "st_listing_id p \<in> set (bk_dirty B2)"
    if a: "a \<in> set (bk_allocations B)" "al_sale_trade_id a = i" and p: "trade_get B2 (al_purchase_trade_id a) = Some p"
      and l: "rounded_listing B (st_listing_id p)" for a p
  proof -
    have "trade_get B1 (al_purchase_trade_id a) = Some p"
    proof -
      have j: "al_purchase_trade_id a \<notin> st_id ` set (group_members B t)"
        using f(6) a(1) by (auto simp: trade_referenced_def list_ex_iff)
      obtain d1 where B1: "B1 = B\<lparr>bk_trades := filter (\<lambda>r. st_id r \<notin> st_id ` set (group_members B t)) (bk_trades B),
          bk_counts := filter (\<lambda>c. cr_trade_id c \<notin> st_id ` set (group_members B t)) (bk_counts B), bk_dirty := bk_dirty B @ d1\<rparr>"
        using rows_deleted [OF r1] by blast
      have "trade_get B1 (al_purchase_trade_id a) = trade_get B (al_purchase_trade_id a)"
        unfolding trade_get_def B1 by (simp, rule find_filter_same) (use j in auto)
      moreover have "trade_get B2 (al_purchase_trade_id a) = trade_get B (al_purchase_trade_id a)"
        unfolding trade_get_def f(1) by (rule find_filter_same) (use j sale_not_purchase [OF rows(1) a(1) t] in auto)
      ultimately show ?thesis using p by simp
    qed
    moreover have "rounded_listing B1 = rounded_listing B"
      using rows_deleted [OF r1] by (auto simp: rounded_listing_def fun_eq_iff)
    ultimately have "set (parcel_marks B1 (al_purchase_trade_id a)) = {st_listing_id p}"
      using l by (simp add: parcel_marks_def listing_marks_def)
    then show ?thesis using marks a by (auto simp: d(1))
  qed
  have i_gone: "i \<in> ?gone" by simp
  have ok: "rows_ok B2 \<and> fits_or_marked D B2 \<and> sells_allocated B2"
    by (rule delete_rows_ok [OF D rows f(1-4) d(1) i_gone d(2)]) (fact apart, fact marked)
  have settled: "book_ok D B'" by (rule settled_ok [OF settle]) (use ok in blast)+
  have "book_keys B2" using ok by (simp add: rows_ok_def)
  note same = settle_rows [OF settle this]
  have "trade_get B' i = None" by (auto simp: trade_get_None same(1) f(1))
  then show ?thesis using settled True same(2) f(3) by simp
qed

section \<open>Properties\<close>

text \<open>
  What a book records of its Sells: the date, listing and quantity of each, and the parcels it
  draws on, in order.
\<close>

definition sells :: "'d book \<Rightarrow> trade_id \<rightharpoonup> date \<times> listing_id \<times> 'd \<times> (trade_id \<times> 'd) list" where
  "sells B i = (case trade_get B i of None \<Rightarrow> None
     | Some t \<Rightarrow> if st_trade_type t = Sell
         then Some (st_date t, st_listing_id t, st_quantity t, allocations_of B i) else None)"

lemma sells_same:
  "trade_get B' j = trade_get B j \<Longrightarrow> allocations_of B' j = allocations_of B j \<Longrightarrow> sells B' j = sells B j"
  by (simp only: sells_def)

text \<open>C9: writing a Sell implements a map update. On sound books an accepted write, of a new row
  or over an existing Sell, leaves the date, listing, quantity and allocations the body states under
  the written id and every other Sell as it was; trades of other types are not touched.\<close>

theorem write_sell_refines_update:
  assumes "decimal_laws D" and "book_ok D B" and "id' = None \<longrightarrow> trade_get B (fi_trade fresh) = None"
    and "write_sell D C today fresh id' body Commit B = Inr (i, B')"
  shows "sells B' = (sells B)(i \<mapsto> (sb_date body, sb_listing_id body, sb_quantity body, sb_allocations body))
    \<and> (\<forall>j. j \<noteq> i \<longrightarrow> trade_get B' j = trade_get B j)"
proof -
  note w = write_sell_ok [OF assms]
  have others: "\<forall>j. j \<noteq> i \<longrightarrow> trade_get B' j = trade_get B j \<and> allocations_of B' j = allocations_of B j"
    using w by blast
  then have "sells B' j = sells B j" if "j \<noteq> i" for j using that by (intro sells_same) auto
  moreover obtain t where "trade_get B' i = Some t" "st_trade_type t = Sell" "st_date t = sb_date body"
    "st_listing_id t = sb_listing_id body" "st_quantity t = sb_quantity body" using w by blast
  moreover have "allocations_of B' i = sb_allocations body" using w by blast
  ultimately have "sells B' = (sells B)(i \<mapsto> (sb_date body, sb_listing_id body, sb_quantity body, sb_allocations body))"
    by (auto simp: fun_eq_iff sells_def)
  then show ?thesis using others by blast
qed

text \<open>C10: deleting a Sell implements a map removal. Deleting on sound books removes the Sell, its
  allocations and the replacement trades of its exchange, and keeps every other Sell with its
  allocations; every other outcome leaves the books exactly as they were.\<close>

theorem delete_sell_refines_removal:
  assumes "decimal_laws D" and "book_ok D B" and "db_delete_sell D i B = Inr (outcome, B')"
  shows "if outcome = Deleted
    then \<exists>t. trade_get B i = Some t \<and> sells B' = sells B |` (- insert i (st_id ` set (group_members B t)))
    else B' = B"
proof (cases "outcome = Deleted")
  case False
  then show ?thesis using db_delete_sell_ok [OF assms] by simp
next
  case True
  obtain t B1 B2 where t: "trade_get B i = Some t" "st_trade_type t = Sell"
    and r1: "delete_rows (group_members B t) B = Inr B1"
    and r2: "delete_rows [t] (delete_allocations i (delete_buyback_income i B1)) = Inr B2"
    and settle: "db_settle D B2 = Inr B'"
    using assms(3) True by (auto simp: db_delete_sell_def result_simps split: option.splits if_splits)
  have rows: "rows_ok B" using assms(2) by (simp add: book_ok_def)
  let ?gone = "st_id ` set (group_members B t) \<union> {i}"
  note f = delete_sell_rows [OF rows t r1 r2]
  have keys2: "book_keys B2" using rows by (simp add: rows_ok_def book_keys_def f distinct_map_filter)
  note same = settle_rows [OF settle this]
  have "sells B' j = (sells B |` (- insert i (st_id ` set (group_members B t)))) j" for j
  proof (cases "j \<in> ?gone")
    case True
    then have "trade_get B' j = None" by (auto simp: trade_get_None same(1) f(1))
    then show ?thesis using True by (auto simp: sells_def restrict_map_def)
  next
    case False
    then have "trade_get B' j = trade_get B j"
      unfolding trade_get_def same(1) f(1) by (intro find_filter_same) auto
    moreover have "allocations_of B' j = allocations_of B j"
    proof -
      have "filter (\<lambda>a. al_sale_trade_id a \<noteq> i \<and> al_sale_trade_id a = j) (bk_allocations B)
          = filter (\<lambda>a. al_sale_trade_id a = j) (bk_allocations B)"
        using False by (intro filter_cong) auto
      then show ?thesis by (simp only: allocations_of_def same(2) f(3) filter_filter)
    qed
    ultimately show ?thesis using False sells_same [of B' j B] by (simp add: restrict_map_def)
  qed
  then show ?thesis using True t by auto
qed

lemma map_result_and_then: "map_result f (and_then r g) = and_then r (\<lambda>a. map_result f (g a))"
  by (cases r) simp_all

text \<open>A dry run answers exactly as the write it previews, with the same id and the same
  refusal, and leaves the books as they were.\<close>

theorem dry_run_previews_write:
  "write_sell D C today fresh id' body DryRun B
     = map_result (\<lambda>(i, _). (i, B)) (write_sell D C today fresh id' body Commit B)"
  by (simp add: write_sell_def map_result_and_then finish_def case_prod_unfold)

text \<open>A request accepted by one of the endpoints; the database draws an unused id for a new row.\<close>

inductive book_step ::
    "('d::linordered_field) decimal_api \<Rightarrow> chrono_api \<Rightarrow> 'd book \<Rightarrow> 'd book \<Rightarrow> bool" for D C where
  written: "write_sell D C today fresh id' body mode B = Inr (i, B') \<Longrightarrow>
    id' = None \<longrightarrow> trade_get B (fi_trade fresh) = None \<Longrightarrow> book_step D C B B'"
| deleted: "db_delete_sell D i B = Inr (outcome, B') \<Longrightarrow> book_step D C B B'"

inductive_cases book_stepE: "book_step D C B B'"

lemma write_sell_mode:
  "write_sell D C today fresh id' body mode B = Inr (i, B') \<Longrightarrow>
   mode = Commit \<and> write_sell D C today fresh id' body Commit B = Inr (i, B') \<or> B' = B"
  by (cases mode) (auto simp: write_sell_def finish_def result_simps)

lemma book_step_ok: "decimal_laws D \<Longrightarrow> book_step D C B B' \<Longrightarrow> book_ok D B \<Longrightarrow> book_ok D B'"
  by (elim book_stepE) (metis write_sell_mode write_sell_ok, metis db_delete_sell_ok)

lemma book_steps_ok: "(book_step D C)\<^sup>*\<^sup>* B B' \<Longrightarrow> decimal_laws D \<Longrightarrow> book_ok D B \<Longrightarrow> book_ok D B'"
  by (induction rule: rtranclp_induct) (auto intro: book_step_ok)

text \<open>What sound books promise: no parcel is oversold.\<close>

lemma book_ok_sound:
  assumes D: "decimal_laws D" and B: "book_ok D B"
  shows "(\<forall>s \<in> set (bk_trades B). st_trade_type s = Sell \<longrightarrow> allocated_of B (st_id s) = st_quantity s)
    \<and> (\<forall>a \<in> set (bk_allocations B). allocation_ok B a)
    \<and> (\<forall>p \<in> set (bk_trades B). is_acquisition (st_trade_type p) \<and> \<not> rounded_listing B (st_listing_id p) \<longrightarrow>
         sum_list (map (sale_val (for_parcel (db_splits_for_listing B (st_listing_id p)) (st_id p)) (st_date p))
           (sales_of_parcel B (st_id p))) \<le> st_quantity p)
    \<and> bk_dirty B = []"
proof -
  have ok: "rows_ok B" "fits_or_marked D B" "sells_allocated B" "bk_dirty B = []" using B by (simp_all add: book_ok_def)
  have "sum_list (map (sale_val (for_parcel (db_splits_for_listing B (st_listing_id p)) (st_id p)) (st_date p))
        (sales_of_parcel B (st_id p))) \<le> st_quantity p"
    if p: "p \<in> set (bk_trades B)" "is_acquisition (st_trade_type p)" "\<not> rounded_listing B (st_listing_id p)" for p
  proof -
    have "parcel_fits D B (db_splits_for_listing B (st_listing_id p)) p"
      using ok(2,4) p(1,2) by (simp add: fits_or_marked_def)
    then show ?thesis by (simp only: parcel_fits_val [OF D unrounded_splits_ok [OF ok(1) p(3)]])
  qed
  then show ?thesis using ok(1,3,4) by (simp add: rows_ok_def sells_allocated_def)
qed

lemma allocate_rows:
  assumes "allocate D body provenance stated i al B allocs = Inr B'"
  shows "bk_trades B' = bk_trades B
    \<and> filter (\<lambda>a. al_sale_trade_id a \<noteq> i) (bk_allocations B') = filter (\<lambda>a. al_sale_trade_id a \<noteq> i) (bk_allocations B)"
  using assms
proof (induction allocs arbitrary: al B)
  case (Cons alloc allocs)
  obtain B1 where one: "allocate_one D body provenance stated i al B alloc = Inr B1"
    and rest: "allocate D body provenance stated i (al + 1) B1 allocs = Inr B'"
    using Cons.prems by (auto simp: result_simps)
  obtain a where "B1 = insert_allocation a B" "al_sale_trade_id a = i"
    using one unfolding allocate_one_def Let_def
    by (auto simp: result_simps simp del: insert_allocation_eq split: prod.splits option.splits if_splits)
  then show ?case using Cons.IH [OF rest] by (simp add: insert_allocation_eq)
qed simp

text \<open>C31: a new Sell written and then deleted leaves the trades and allocations exactly as they
  were before it.\<close>

theorem write_then_delete:
  assumes D: "decimal_laws D" and B: "book_ok D B" and fresh: "trade_get B (fi_trade fresh) = None"
    and w: "write_sell D C today fresh None body Commit B = Inr (i, B1)"
    and d: "db_delete_sell D i B1 = Inr (Deleted, B2)"
  shows "bk_trades B2 = bk_trades B \<and> bk_allocations B2 = bk_allocations B"
proof -
  have ok1: "book_ok D B1" using write_sell_ok [OF D B _ w] fresh by blast
  obtain settles U where up: "upsert_sell_in_tx D C today fresh None body settles None B = Inr (i, U)"
    and settle: "db_settle D U = Inr B1"
    using w by (auto simp: write_sell_def result_simps finish_def split: option.splits)
  let ?t = "sell_row body settles no_columns (resolve_brokerage D (sb_brokerage_includes_gst body) (sb_brokerage body)
    (sb_gst_on_brokerage body)) i"
  obtain stated where i: "i = fi_trade fresh"
    and loop: "allocate D body None stated i (fi_allocation fresh) (delete_allocations i (put_sell_row ?t B))
      (sb_allocations body) = Inr U"
    using up by (auto simp: upsert_sell_in_tx_def Let_def result_simps)
  have new: "i \<notin> st_id ` set (bk_trades B)" using fresh by (simp add: i trade_get_None)
  have t: "st_id ?t = i" "st_trade_type ?t = Sell" "st_scrip_action_id ?t = None" "st_demerger_action_id ?t = None"
    by (simp_all add: sell_row_def no_columns_def)
  have rows: "rows_ok B" using B by (simp add: book_ok_def)
  have unused: "filter (\<lambda>a. al_sale_trade_id a \<noteq> i) (bk_allocations B) = bk_allocations B"
    using rows fresh by (auto simp: filter_id_conv rows_ok_def allocation_ok_def i)
  have "put_sell_row ?t B = insert_trade ?t B" using fresh by (simp add: put_sell_row_def t i [symmetric])
  then have U: "bk_trades U = bk_trades B @ [?t]"
    "filter (\<lambda>a. al_sale_trade_id a \<noteq> i) (bk_allocations U) = bk_allocations B"
    using allocate_rows [OF loop] unused by (simp_all add: delete_allocations_eq insert_trade_def mark_listing_marks)
  have keysU: "book_keys U"
    using upsert_ok [OF D B up] fresh by (simp add: rows_ok_def)
  note same = settle_rows [OF settle keysU]
  have got: "trade_get B1 i = Some ?t"
    using trade_get_in [of B1 ?t] keysU by (simp add: same(1) U(1) t book_keys_def)
  obtain t' V1 V2 where t': "trade_get B1 i = Some t'" "st_trade_type t' = Sell"
    and r1: "delete_rows (group_members B1 t') B1 = Inr V1"
    and r2: "delete_rows [t'] (delete_allocations i (delete_buyback_income i V1)) = Inr V2"
    and settle2: "db_settle D V2 = Inr B2"
    using d by (auto simp: db_delete_sell_def result_simps split: option.splits if_splits)
  have "t' = ?t" using t'(1) got by simp
  then have none: "group_members B1 t' = []" by (simp only: group_members_def t(3,4) option.case)
  have rows1: "rows_ok B1" using ok1 by (simp add: book_ok_def)
  note f = delete_sell_rows [OF rows1 t' r1 r2, unfolded none]
  have "book_keys V2" using rows1 by (simp add: rows_ok_def book_keys_def f distinct_map_filter)
  note same2 = settle_rows [OF settle2 this]
  have "filter (\<lambda>r. st_id r \<noteq> i) (bk_trades B) = bk_trades B" using new by (auto simp: filter_id_conv)
  then show ?thesis using U by (simp add: same2 f same t)
qed

section \<open>An example\<close>

text \<open>One account holds a parcel of a hundred units; forty are sold at six dollars.\<close>

definition example_parcel :: "rat stored_trade" where
  "example_parcel = example_trade\<lparr>st_settlement_date_source := Stated\<rparr>"

definition example_holding :: "rat book" where
  "example_holding = example_book\<lparr>bk_trades := [example_parcel], bk_actions := [], bk_counts := [], bk_dirty := []\<rparr>"

definition forty_sale :: "rat sell_body" where
  "forty_sale =
     \<lparr>sb_date = 739078, sb_settlement_date = Some 739080, sb_listing_id = 7, sb_average_price = 6,
      sb_quantity = 40, sb_currency = ''AUD'', sb_brokerage = 0, sb_gst_on_brokerage = 0,
      sb_brokerage_includes_gst = False, sb_brokerage_currency = ''AUD'', sb_fx_rate = 1,
      sb_spot_fx_rate = None, sb_contract_note_ref = None, sb_statement_total = None,
      sb_holding_account_id = 3, sb_allocations = [(1, 40)]\<rparr>"

definition example_ids :: fresh_ids where
  "example_ids = \<lparr>fi_trade = 2, fi_allocation = 1\<rparr>"

definition example_sold :: "rat book" where
  "example_sold = example_holding\<lparr>
     bk_trades := [example_parcel, sell_row forty_sale (settlement_stated 739080) no_columns (0, 0) 2],
     bk_allocations := [\<lparr>al_id = 1, al_sale_trade_id = 2, al_purchase_trade_id = 1, al_quantity_allocated = 40\<rparr>]\<rparr>"

lemma example_holding_fields [simp]:
  "bk_trades example_holding = [example_parcel]" "bk_allocations example_holding = []"
  "bk_actions example_holding = []" "bk_counts example_holding = []" "bk_dirty example_holding = []"
  "bk_accounts example_holding = [(3, Some 0)]" "bk_unit_scales example_holding = []"
  "bk_market example_holding = example_tables" "bk_currencies example_holding = [''AUD'']" "bk_capital_returns example_holding = []" "bk_fee_sales example_holding = []"
  "bk_income_links example_holding = []" "bk_amit_adjustments example_holding = []"
  "bk_rights_allocations example_holding = []"
  by (simp_all add: example_holding_def example_book_def)

lemma example_parcel_fields [simp]:
  "st_id example_parcel = 1" "st_trade_type example_parcel = Buy" "st_date example_parcel = 739071"
  "st_listing_id example_parcel = 7" "st_quantity example_parcel = 100" "st_holding_account_id example_parcel = 3"
  by (simp_all add: example_parcel_def example_trade_def)

lemma example_book_ok: "book_ok ref_dec example_holding"
  by (simp add: book_ok_def rows_ok_def book_keys_def counts_rounded_def fits_or_marked_def sells_allocated_def
      parcel_fits_def sales_of_parcel_def sold_in_acquired_units_def acquired_units_of_sales_def au_sum_def
      au_less_def au_key_def au_common_def au_new_def au_zero_def)

lemma forty_check:
  "trade_check_amounts ref_dec gregorian 739080 (sell_amounts forty_sale (settlement_stated 739080) (0, 0)) = Inr ()"
proof -
  have start: "cgt_start gregorian \<le> 739078" by code_simp
  have aud: "eq_ignore_ascii_case ''AUD'' ''AUD''" by code_simp
  have cost: "checked_cost_base ref_dec
      [CostProduct (''average_price'', 6) (''quantity'', 40), CostAmount ''brokerage'' 0,
       CostAmount ''gst_on_brokerage'' 0] = Inr 240"
    by (simp add: checked_cost_base_def ref_checked_def decimal_max_def)
  show ?thesis
    using start aud cost by (simp add: trade_check_amounts_def sell_amounts_def forty_sale_def settlement_stated_def)
qed

lemma forty_row:
  "put_sell_row (sell_row forty_sale (settlement_stated 739080) no_columns (0, 0) 2) example_holding
     = example_sold\<lparr>bk_allocations := []\<rparr>"
  by (simp add: put_sell_row_def trade_get_def insert_trade_def mark_listing_def rounded_listing_def example_sold_def
      sell_row_def)

lemma example_no_splits: "bk_actions B = [] \<Longrightarrow> for_parcel (db_splits_for_listing B l) j = []"
  by (simp add: db_splits_for_listing_def listing_actions_def for_parcel_def db_stored_counts_def)

lemma example_places: "places ref_dec 40 = 0"
  using ref_scale_whole [of 40] by (simp add: places_def ref_dec_def)

lemma example_allocated:
  "allocate ref_dec forty_sale None True 2 1 (example_sold\<lparr>bk_allocations := []\<rparr>) [(1, 40)] = Inr example_sold"
proof -
  have "parcel_fits ref_dec example_sold (db_splits_for_listing example_sold 7) example_parcel"
    using parcel_fits_val [OF ref.decimal_laws_axioms, of "db_splits_for_listing example_sold 7" example_parcel example_sold]
    by (simp add: example_no_splits splits_ok_def sale_val_def cum_factor_def sales_of_parcel_def units_at_new_def example_sold_def
        sell_row_def forty_sale_def)
  moreover have "insert_allocation \<lparr>al_id = 1, al_sale_trade_id = 2, al_purchase_trade_id = 1, al_quantity_allocated = 40\<rparr>
      (example_sold\<lparr>bk_allocations := []\<rparr>) = example_sold"
    by (simp add: insert_allocation_eq parcel_marks_def listing_marks_def rounded_listing_def trade_get_def example_sold_def
        example_holding_def)
  moreover have "trade_get (example_sold\<lparr>bk_allocations := []\<rparr>) 1 = Some example_parcel"
    "bk_accounts (example_sold\<lparr>bk_allocations := []\<rparr>) = [(3, Some 0)]" "bk_unit_scales (example_sold\<lparr>bk_allocations := []\<rparr>) = []"
    "bk_market (example_sold\<lparr>bk_allocations := []\<rparr>) = example_tables"
    by (simp_all add: trade_get_def example_sold_def)
  moreover have "sb_date forty_sale = 739078" "sb_listing_id forty_sale = 7" "sb_holding_account_id forty_sale = 3"
    by (simp_all add: forty_sale_def)
  ultimately show ?thesis
    by (simp add: allocate_one_def refuse_def refuse_some_def db_too_fine_def example_places is_acquisition_def
        Let_def listing_get_def example_tables_def)
qed

lemma forty_written:
  "write_sell ref_dec gregorian 739080 example_ids None forty_sale Commit example_holding = Inr (2, example_sold)"
proof -
  have costs: "resolve_brokerage ref_dec (sb_brokerage_includes_gst forty_sale) (sb_brokerage forty_sale)
      (sb_gst_on_brokerage forty_sale) = (0, 0)"
    by (simp add: forty_sale_def resolve_brokerage_def)
  have settles: "resolve_on gregorian (market_calendars example_tables) [example_parcel] None 7 739078 (Some 739080)
      = Inr (settlement_stated 739080)"
    by (simp add: resolve_on_def)
  have fields: "sb_date forty_sale = 739078" "sb_settlement_date forty_sale = Some 739080"
    "sb_listing_id forty_sale = 7" "sb_allocations forty_sale = [(1, 40)]" "sb_quantity forty_sale = 40"
    "sb_statement_total forty_sale = None" "sb_spot_fx_rate forty_sale = None"
    "sb_holding_account_id forty_sale = 3" "sb_currency forty_sale = ''AUD''" "sb_brokerage_currency forty_sale = ''AUD''"
    by (simp_all add: forty_sale_def)
  have emptied: "delete_allocations 2 (example_sold\<lparr>bk_allocations := []\<rparr>) = example_sold\<lparr>bk_allocations := []\<rparr>"
    by (simp add: delete_allocations_def)
  have market: "bk_market (example_sold\<lparr>bk_allocations := []\<rparr>) = example_tables"
    "bk_accounts (example_sold\<lparr>bk_allocations := []\<rparr>) = [(3, Some 0)]"
    "bk_unit_scales (example_sold\<lparr>bk_allocations := []\<rparr>) = []" "bk_market example_sold = example_tables"
    "bk_dirty example_sold = []"
    by (simp_all add: example_sold_def)
  have listing: "listing_get example_tables 7 = Some \<lparr>li_id = 7, li_exchange_mic = Some ''XASX'', li_ticker = ''NEW'', li_currency = ''AUD''\<rparr>"
    by (simp add: listing_get_def example_tables_def)
  have trading: "non_trading_day gregorian example_market 739078 = None" by code_simp
  have "upsert_sell_in_tx ref_dec gregorian 739080 example_ids None forty_sale (settlement_stated 739080) None example_holding
      = Inr (2, example_sold)"
    using forty_check forty_row emptied example_allocated
    by (simp add: upsert_sell_in_tx_def costs fields dsum_sum_list check_statement_total_def validate_spot_fx_rate_def
        foreign_keys_hold_def listing example_ids_def listing_currency_mismatch_def market refuse_def refuse_some_def
        db_too_fine_def example_places)
  moreover have "db_settle ref_dec example_sold = Inr example_sold"
    by (simp add: db_settle_def market)
  ultimately show ?thesis
    by (simp add: write_sell_def fields settles db_non_trading_day_def market example_loads trading refuse_some_def finish_def)
qed

lemma example_delete: "db_delete_sell ref_dec 2 example_sold = Inr (Deleted, example_holding)"
proof -
  let ?t = "sell_row forty_sale (settlement_stated 739080) no_columns (0, 0) 2"
  have t: "st_id ?t = 2" "st_trade_type ?t = Sell" "st_transfer_id ?t = None" "st_scrip_action_id ?t = None"
    "st_demerger_action_id ?t = None" by (simp_all add: sell_row_def no_columns_def)
  have got: "trade_get example_sold 2 = Some ?t" by (simp add: trade_get_def example_sold_def t)
  have fee: "\<not> is_transfer_fee_sale example_sold 2" by (simp add: is_transfer_fee_sale_def example_sold_def)
  have ms: "group_members example_sold ?t = []" by (simp add: group_members_def t)
  have "delete_rows [?t] (delete_allocations 2 (delete_buyback_income 2 example_sold)) = Inr example_holding"
    by (simp add: delete_rows_def delete_blocked_def trade_referenced_def delete_allocations_eq delete_buyback_income_def
        example_sold_def t delete_trade_eq parcel_marks_def listing_marks_def rounded_listing_def trade_get_def)
  moreover have "db_settle ref_dec example_holding = Inr example_holding"
    by (simp add: db_settle_def)
  ultimately show ?thesis
    by (simp add: db_delete_sell_def got t fee ms delete_rows_def [of "[]"])
qed

theorem write_sell_refines_update_witness:
  "write_sell ref_dec gregorian 739080 example_ids None forty_sale Commit example_holding = Inr (2, example_sold)
   \<and> sells example_sold = Map.empty(2 \<mapsto> (739078, 7, 40, [(1, 40)]))"
proof -
  have "sells example_holding = Map.empty" by (simp add: sells_def trade_get_def fun_eq_iff)
  then show ?thesis
    using write_sell_refines_update [OF ref.decimal_laws_axioms example_book_ok _ forty_written] forty_written
    by (simp add: trade_get_def example_ids_def forty_sale_def)
qed

lemma example_sold_ok: "book_ok ref_dec example_sold"
  using write_sell_ok [OF ref.decimal_laws_axioms example_book_ok _ forty_written] by (simp add: trade_get_def example_ids_def)

theorem delete_sell_refines_removal_witness:
  "db_delete_sell ref_dec 2 example_sold = Inr (Deleted, example_holding)
   \<and> (\<exists>t. trade_get example_sold 2 = Some t
        \<and> sells example_holding = sells example_sold |` (- insert 2 (st_id ` set (group_members example_sold t))))"
  using delete_sell_refines_removal [OF ref.decimal_laws_axioms example_sold_ok example_delete] example_delete by simp

theorem write_then_delete_witness:
  "\<exists>B. db_delete_sell ref_dec 2 example_sold = Inr (Deleted, B) \<and> bk_trades B = bk_trades example_holding
     \<and> bk_allocations B = bk_allocations example_holding"
  using write_then_delete [OF ref.decimal_laws_axioms example_book_ok _ forty_written example_delete] example_delete
  by (simp add: trade_get_def example_ids_def)

end
