(* ===== verification/TradeWrites.thy ===== *)
theory TradeWrites
  imports Sells
begin

text \<open>
  \<open>src/src/entities/trade/db.rs\<close> and the body conversion of \<open>http.rs\<close> beside it: writing and
  deleting a trade that is not a Sell, with the whole-holding guard of
  \<open>src/src/domain/whole_holding.rs\<close>, the payment-currency guard of
  \<open>src/src/domain/adjustments.rs\<close>, and the settlement recompute job (\<open>settlement.rs\<close>) to its end.
  Each is one transaction over the same books as \<open>Sells\<close>.
\<close>

section \<open>Whole-holding operations\<close>

datatype whole_holding_kind = ScripForScrip | Demerger | WorthlessShares

record whole_holding =
  wh_kind :: whole_holding_kind
  wh_action_id :: action_id
  wh_date :: date
  wh_sell_trade_id :: trade_id

text \<open>The first of the three columns a closing Sell carries.\<close>

definition kind_of :: "'d stored_trade \<Rightarrow> (whole_holding_kind \<times> action_id) option" where
  "kind_of t =
     (case st_scrip_action_id t of
        Some a \<Rightarrow> Some (ScripForScrip, a)
      | None \<Rightarrow>
          (case st_demerger_action_id t of
             Some a \<Rightarrow> Some (Demerger, a)
           | None \<Rightarrow> map_option (Pair WorthlessShares) (st_worthless_action_id t)))"

definition executed_from_row :: "'d stored_trade \<Rightarrow> whole_holding option" where
  "executed_from_row t =
     map_option (\<lambda>(kind, action).
        \<lparr>wh_kind = kind, wh_action_id = action, wh_date = st_date t, wh_sell_trade_id = st_id t\<rparr>) (kind_of t)"

definition db_executed_from :: "'d book \<Rightarrow> listing_id \<Rightarrow> date \<Rightarrow> whole_holding list" where
  "db_executed_from B listing d =
     List.map_filter executed_from_row (rev (sort_key (\<lambda>t. (st_date t, st_id t))
       (filter (\<lambda>t. st_listing_id t = listing \<and> st_trade_type t = Sell \<and> d \<le> st_date t) (bk_trades B))))"

text \<open>A stored parcel already behind an operation is not newly stranded by an edit.\<close>

definition db_back_dated_parcel ::
    "'d book \<Rightarrow> listing_id \<Rightarrow> date \<Rightarrow> (listing_id \<times> date) option \<Rightarrow> whole_holding list option" where
  "db_back_dated_parcel B listing d stored =
     (let operations = db_executed_from B listing d
      in if operations = [] then None
         else case stored of
           Some (l, sd) \<Rightarrow> if db_executed_from B l sd \<noteq> [] then None else Some operations
         | None \<Rightarrow> Some operations)"

section \<open>Payments in another currency\<close>

record currency_conflict =
  cc_payment_date :: date
  cc_payment_currency :: currency_code
  cc_parcel_currency :: currency_code

text \<open>The parcels a payment reduces, by payment and parcel in date order; the first pair whose
  currencies differ, up to case.\<close>

definition db_payment_currency_conflict :: "'d book \<Rightarrow> listing_id \<Rightarrow> currency_conflict option" where
  "db_payment_currency_conflict B listing =
     first_some (\<lambda>(p, t).
         if is_acquisition (st_trade_type t)
            \<and> st_settlement_date t \<le> (case cp_record_date p of None \<Rightarrow> cp_date p | Some d \<Rightarrow> d)
            \<and> \<not> eq_ignore_ascii_case (st_currency t) (cp_currency p)
         then Some \<lparr>cc_payment_date = cp_date p, cc_payment_currency = cp_currency p,
                    cc_parcel_currency = st_currency t\<rparr>
         else None)
       (concat (map (\<lambda>p. map (Pair p) (sort_key (\<lambda>t. (st_date t, st_id t))
            (filter (\<lambda>t. st_listing_id t = listing) (bk_trades B))))
          (sort_key (\<lambda>p. (cp_date p, cp_id p)) (filter (\<lambda>p. cp_listing_id p = listing) (bk_capital_returns B)))))"

section \<open>The body of a request\<close>

record 'd trade_body =
  tb_trade_type :: trade_type
  tb_date :: date
  tb_settlement_date :: "date option"
  tb_listing_id :: listing_id
  tb_average_price :: 'd
  tb_quantity :: 'd
  tb_currency :: currency_code
  tb_brokerage :: 'd
  tb_gst_on_brokerage :: 'd
  tb_brokerage_includes_gst :: bool
  tb_brokerage_currency :: currency_code
  tb_fx_rate :: 'd
  tb_spot_fx_rate :: "'d option"
  tb_contract_note_ref :: "string option"
  tb_statement_total :: "'d option"
  tb_residual_brought_forward :: 'd
  tb_residual_carried_forward :: 'd
  tb_residual_paid_out :: 'd
  tb_holding_account_id :: account_id

datatype 'd trade_error =
    SellThroughTrades
  | DrpThroughTrades
  | WriteAmounts "'d amounts_error"
  | WriteStatementTotal "'d statement_total_error"
  | WriteSpotFxRate spot_fx_rate_error
  | WriteSettlement settlement_failure
  | WriteRefused edit_refusal
  | RightsAnchorParcel
  | ReinvestmentTrade
  | TradeTypeChange trade_id trade_type trade_type
  | ListingChangeReferenced
  | AccountChangeReferenced
  | DateAfterAllocatedSale
  | QuantityBelowAllocated
  | QuantityBelowAmitAdjustment
  | WriteForeignKey
  | CurrencyNotListings currency_code currency_code
  | WriteNonTradingDay non_trading
  | WriteUnitScale "'d too_fine"
  | BackDatedOverWholeHolding "whole_holding list"
  | UnrepresentableRebasedQuantity "'d unrepresentable_quantity"
  | PaymentCurrencyMismatch currency_conflict
  | WriteSettle "'d settle_error"

definition trade_from_body ::
    "'d::{zero,minus,inverse} decimal_api \<Rightarrow> trade_id \<Rightarrow> 'd trade_body \<Rightarrow> 'd trade_error + 'd stored_trade" where
  "trade_from_body D i body =
     (if tb_trade_type body = Sell then Inl SellThroughTrades
      else if tb_trade_type body = DRP then Inl DrpThroughTrades
      else
        let (brokerage, gst) = resolve_brokerage D (tb_brokerage_includes_gst body) (tb_brokerage body)
              (tb_gst_on_brokerage body)
        in Inr \<lparr>st_id = i, st_trade_type = tb_trade_type body, st_date = tb_date body,
             st_settlement_date = (case tb_settlement_date body of None \<Rightarrow> tb_date body | Some d \<Rightarrow> d),
             st_settlement_date_source = Stated, st_listing_id = tb_listing_id body,
             st_average_price = tb_average_price body, st_quantity = tb_quantity body,
             st_currency = tb_currency body, st_brokerage = brokerage, st_gst_on_brokerage = gst,
             st_brokerage_includes_gst = tb_brokerage_includes_gst body,
             st_brokerage_currency = tb_brokerage_currency body, st_fx_rate = tb_fx_rate body,
             st_spot_fx_rate = tb_spot_fx_rate body, st_contract_note_ref = tb_contract_note_ref body,
             st_statement_total = tb_statement_total body,
             st_residual_brought_forward = tb_residual_brought_forward body,
             st_residual_carried_forward = tb_residual_carried_forward body,
             st_residual_paid_out = tb_residual_paid_out body, st_rights_action_id = None,
             st_buyback_action_id = None, st_scrip_action_id = None, st_demerger_action_id = None,
             st_deemed_acquisition_date = None, st_holding_account_id = tb_holding_account_id body,
             st_transfer_id = None, st_ess_statement_id = None, st_worthless_action_id = None,
             st_cash_in_lieu_action_id = None, st_inheritance_id = None\<rparr>)"

section \<open>Writing a trade\<close>

definition row_amounts :: "'d stored_trade \<Rightarrow> 'd amounts_check" where
  "row_amounts t =
     \<lparr>ac_quantity = st_quantity t, ac_average_price = st_average_price t,
      ac_brokerage = st_brokerage t, ac_gst_on_brokerage = st_gst_on_brokerage t, ac_fx_rate = st_fx_rate t,
      ac_date = st_date t, ac_settlement_date = st_settlement_date t,
      ac_currency = st_currency t, ac_brokerage_currency = st_brokerage_currency t\<rparr>"

definition drawn_on :: "'d book \<Rightarrow> trade_id \<Rightarrow> bool" where
  "drawn_on B i \<longleftrightarrow> list_ex (\<lambda>a. al_purchase_trade_id a = i) (bk_allocations B)
     \<or> list_ex (\<lambda>a. aa_trade_id a = i) (bk_amit_adjustments B)"

text \<open>The dates of the sales that draw on a parcel.\<close>

definition sale_dates :: "'d book \<Rightarrow> trade_id \<Rightarrow> date list" where
  "sale_dates B i = concat (map (\<lambda>a. map st_date (filter (\<lambda>s. st_id s = al_sale_trade_id a) (bk_trades B)))
     (filter (\<lambda>a. al_purchase_trade_id a = i) (bk_allocations B)))"

text \<open>The guards on the stored row, in their order; a create binds no id and passes them all.\<close>

definition check_owned :: "'d book \<Rightarrow> trade_id \<Rightarrow> 'd stored_trade option \<Rightarrow> 'd trade_error + unit" where
  "check_owned B i existing =
     and_then (refuse_some WriteRefused
        (Option.bind existing (\<lambda>e. Option.bind (provenance_column e) (\<lambda>c.
           Option.bind (provenance_named c) tp_edit_refusal)))) (\<lambda>_.
     and_then (refuse (i \<in> set (bk_rights_allocations B)) RightsAnchorParcel) (\<lambda>_.
     and_then (refuse (is_transfer_fee_sale B i) (WriteRefused TransferTrade)) (\<lambda>_.
       refuse (list_ex (\<lambda>n. in_reinvestment_trade_id n = Some i) (bk_income_links B)) ReinvestmentTrade)))"

definition check_change ::
    "'d book \<Rightarrow> trade_id \<Rightarrow> 'd stored_trade option \<Rightarrow> 'd stored_trade \<Rightarrow> 'd trade_error + unit" where
  "check_change B i existing t =
     (case existing of
        None \<Rightarrow> Inr ()
      | Some e \<Rightarrow>
          and_then (refuse (st_trade_type e \<noteq> st_trade_type t)
             (TradeTypeChange (st_id t) (st_trade_type e) (st_trade_type t))) (\<lambda>_.
          and_then (refuse (st_listing_id e \<noteq> st_listing_id t \<and> drawn_on B i) ListingChangeReferenced) (\<lambda>_.
          and_then (refuse (st_holding_account_id e \<noteq> st_holding_account_id t \<and> drawn_on B i)
             AccountChangeReferenced) (\<lambda>_.
            refuse (st_date e < st_date t \<and> sale_dates B i \<noteq> [] \<and> Min (set (sale_dates B i)) < st_date t)
              DateAfterAllocatedSale))))"

definition check_capacity ::
    "'d::{zero,one,plus,minus,times,inverse,linorder} decimal_api \<Rightarrow> 'd book \<Rightarrow> trade_id \<Rightarrow>
     'd stored_trade \<Rightarrow> 'd trade_error + unit" where
  "check_capacity D B i t =
     and_then (refuse (\<not> parcel_fits D B (db_splits_for_listing B (st_listing_id t)) (t\<lparr>st_id := i\<rparr>))
        QuantityBelowAllocated) (\<lambda>_.
       refuse (list_ex (\<lambda>a. aa_trade_id a = i \<and> st_quantity t < aa_quantity a) (bk_amit_adjustments B))
         QuantityBelowAmitAdjustment)"

text \<open>The columns the update does not name keep their values.\<close>

definition trade_row_over :: "'d stored_trade \<Rightarrow> 'd stored_trade \<Rightarrow> 'd stored_trade" where
  "trade_row_over old t =
     t\<lparr>st_id := st_id old, st_rights_action_id := st_rights_action_id old,
       st_buyback_action_id := st_buyback_action_id old, st_scrip_action_id := st_scrip_action_id old,
       st_demerger_action_id := st_demerger_action_id old,
       st_deemed_acquisition_date := st_deemed_acquisition_date old, st_transfer_id := st_transfer_id old,
       st_ess_statement_id := st_ess_statement_id old, st_worthless_action_id := st_worthless_action_id old,
       st_cash_in_lieu_action_id := st_cash_in_lieu_action_id old, st_inheritance_id := st_inheritance_id old\<rparr>"

definition put_trade_row :: "'d stored_trade \<Rightarrow> 'd book \<Rightarrow> 'd book" where
  "put_trade_row t B =
     (case trade_get B (st_id t) of
        None \<Rightarrow> insert_trade t B
      | Some old \<Rightarrow> update_trade old (trade_row_over old t) B)"

text \<open>The checks over the state the insert leaves.\<close>

definition check_written ::
    "'d::{zero,one,plus,times,inverse,linorder} decimal_api \<Rightarrow> chrono_api \<Rightarrow> 'd stored_trade option \<Rightarrow>
     'd stored_trade \<Rightarrow> 'd book \<Rightarrow> 'd trade_error + unit" where
  "check_written D C existing t B =
     and_then (refuse_some (CurrencyNotListings (st_currency t))
        (listing_currency_mismatch B (st_listing_id t) (st_currency t))) (\<lambda>_.
     and_then (refuse_some WriteNonTradingDay
        (db_non_trading_day C (bk_market B) (st_listing_id t) (st_date t))) (\<lambda>_.
     and_then (refuse_some WriteUnitScale
        (db_too_fine D B (st_holding_account_id t) (st_listing_id t) (st_quantity t))) (\<lambda>_.
     if st_trade_type t = Sell then Inr ()
     else
       and_then (refuse_some BackDatedOverWholeHolding
          (db_back_dated_parcel B (st_listing_id t) (st_date t)
            (map_option (\<lambda>e. (st_listing_id e, st_date e)) existing))) (\<lambda>_.
       and_then (refuse_some UnrepresentableRebasedQuantity
          (rebased_quantity_beyond_range D (st_listing_id t) B)) (\<lambda>_.
         refuse_some PaymentCurrencyMismatch (db_payment_currency_conflict B (st_listing_id t)))))))"

definition write_trade ::
    "'d::{zero,one,plus,minus,times,inverse,linorder} decimal_api \<Rightarrow> chrono_api \<Rightarrow> date \<Rightarrow> trade_id \<Rightarrow>
     trade_id option \<Rightarrow> 'd stored_trade \<Rightarrow> date option option \<Rightarrow> 'd book \<Rightarrow>
     'd trade_error + (trade_id \<times> 'd book)" where
  "write_trade D C today fresh id' t settlement_write B =
     and_then (map_error WriteAmounts (trade_check_amounts D C today (row_amounts t))) (\<lambda>_.
     and_then (map_error WriteStatementTotal (check_statement_total D (st_statement_total t) (st_amounts t))) (\<lambda>_.
     and_then (map_error WriteSpotFxRate (validate_spot_fx_rate (st_currency t) (st_spot_fx_rate t))) (\<lambda>_.
     and_then (case settlement_write of
         None \<Rightarrow> Inr \<lparr>se_settles = st_settlement_date t, se_source = st_settlement_date_source t\<rparr>
       | Some supplied \<Rightarrow> map_error WriteSettlement (resolve_on C (market_calendars (bk_market B)) (bk_trades B)
           id' (st_listing_id t) (st_date t) supplied)) (\<lambda>settles.
     let existing = Option.bind id' (trade_get B)
     in and_then (case id' of
           None \<Rightarrow> Inr ()
         | Some i \<Rightarrow>
             and_then (check_owned B i existing) (\<lambda>_.
             and_then (check_change B i existing t) (\<lambda>_. check_capacity D B i t))) (\<lambda>_.
        and_then (refuse (\<not> foreign_keys_hold B (st_listing_id t) (st_holding_account_id t)
            (st_currency t) (st_brokerage_currency t)) WriteForeignKey) (\<lambda>_.
          let i = (case id' of Some i \<Rightarrow> i | None \<Rightarrow> fresh);
              B1 = put_trade_row (t\<lparr>st_id := i, st_settlement_date := se_settles settles,
                     st_settlement_date_source := se_source settles\<rparr>) B
          in and_then (check_written D C existing t B1) (\<lambda>_.
             and_then (map_error WriteSettle (db_settle D B1)) (\<lambda>B2.
               Inr (i, B2)))))))))"

text \<open>\<open>PUT /trades/:id\<close> and \<open>POST /trades\<close>.\<close>

definition trade_upsert ::
    "'d::{zero,one,plus,minus,times,inverse,linorder} decimal_api \<Rightarrow> chrono_api \<Rightarrow> date \<Rightarrow> trade_id \<Rightarrow>
     trade_id option \<Rightarrow> 'd trade_body \<Rightarrow> 'd book \<Rightarrow> 'd trade_error + (trade_id \<times> 'd book)" where
  "trade_upsert D C today fresh id' body B =
     and_then (trade_from_body D (case id' of Some i \<Rightarrow> i | None \<Rightarrow> 0) body)
       (\<lambda>t. write_trade D C today fresh id' t (Some (tb_settlement_date body)) B)"

section \<open>Deleting a trade\<close>

datatype trade_deletion = TradeDeleted | TradeNotFound | TradeReferenced

definition trade_delete ::
    "'d::{zero,one,plus,minus,times,inverse,linorder} decimal_api \<Rightarrow> trade_id \<Rightarrow> 'd book \<Rightarrow>
     'd delete_error + (trade_deletion \<times> 'd book)" where
  "trade_delete D i B =
     (case trade_get B i of
        None \<Rightarrow> Inr (TradeNotFound, B)
      | Some t \<Rightarrow>
          if (case Option.bind (provenance_column t) provenance_named of
                None \<Rightarrow> False | Some p \<Rightarrow> \<not> tp_deleted_alone p)
            then Inr (TradeReferenced, B)
          else if trade_referenced B i \<or> i \<in> set (bk_rights_allocations B)
            then Inr (TradeReferenced, B)
          else
            and_then (delete_rows [t] B) (\<lambda>B1.
              map_error DeleteSettle (map_result (Pair TradeDeleted) (db_settle D B1))))"

section \<open>The settlement recompute job\<close>

definition redate_row ::
    "chrono_api \<Rightarrow> 'd book \<Rightarrow> 'd stored_trade \<Rightarrow> settlement_failure + 'd book" where
  "redate_row C B t =
     and_then (auto_settlement_date_on C (market_calendars (bk_market B)) (st_listing_id t) (st_date t))
       (\<lambda>wanted. Inr (if wanted = st_settlement_date t then B
          else case trade_get B (st_id t) of
                 None \<Rightarrow> B
               | Some r \<Rightarrow> update_trade r (r\<lparr>st_settlement_date := wanted\<rparr>) B))"

datatype 'd recompute_failure = RecomputeSettlement settlement_failure | RecomputeSettle "'d settle_error"

definition run_recompute ::
    "'d::{zero,one,plus,minus,times,inverse,linorder} decimal_api \<Rightarrow> chrono_api \<Rightarrow> 'd book \<Rightarrow>
     'd recompute_failure + 'd book" where
  "run_recompute D C B =
     and_then (map_error RecomputeSettlement (try_foldl (redate_row C) B
        (filter (is_recomputable \<circ> st_settlement_date_source) (sort_key st_id (bk_trades B)))))
       (\<lambda>B1. map_error RecomputeSettle (db_settle D B1))"

section \<open>Lemmas\<close>

text \<open>
  The contract every write of a trade has with settling: whatever it does to the rows, sound books
  stay sound but for the marks, which settling then clears.
\<close>

locale settled_write =
  fixes w :: "('d::linordered_field) decimal_api \<Rightarrow> 'd book \<Rightarrow> 'd book \<Rightarrow> bool"
  assumes keeps: "decimal_laws D \<Longrightarrow> book_ok D B \<Longrightarrow> w D B B1 \<Longrightarrow>
    rows_ok B1 \<and> fits_or_marked D B1 \<and> sells_allocated B1"
begin

lemma settled: "decimal_laws D \<Longrightarrow> book_ok D B \<Longrightarrow> w D B B1 \<Longrightarrow> db_settle D B1 = Inr B2 \<Longrightarrow> book_ok D B2"
  using keeps settled_ok by blast

end

lemma splits_same:
  "bk_actions B' = bk_actions B \<Longrightarrow> bk_counts B' = bk_counts B \<Longrightarrow> db_splits_for_listing B' = db_splits_for_listing B"
  by (simp add: db_splits_for_listing_def [abs_def] listing_actions_def db_stored_counts_def)

text \<open>A parcel written over a parcel, or as a new one.\<close>

lemma parcel_put_ok:
  assumes D: "decimal_laws D" and B: "rows_ok B" "fits_or_marked D B" "sells_allocated B"
    and same: "bk_actions B2 = bk_actions B" "bk_counts B2 = bk_counts B" "bk_allocations B2 = bk_allocations B"
      "bk_dirty B2 = bk_dirty B @ d" and d: "\<forall>l \<in> set d. rounded_listing B l"
    and ids2: "distinct (map st_id (bk_trades B2))" and get: "trade_get B2 = (trade_get B)(i \<mapsto> t)"
    and t: "is_acquisition (st_trade_type t)" "0 \<le> st_quantity t"
    and old: "\<forall>e. trade_get B i = Some e \<longrightarrow> is_acquisition (st_trade_type e)"
    and drawn: "\<And>a e s. a \<in> set (bk_allocations B) \<Longrightarrow> al_purchase_trade_id a = i \<Longrightarrow> trade_get B i = Some e \<Longrightarrow>
        trade_get B (al_sale_trade_id a) = Some s \<Longrightarrow> st_listing_id t = st_listing_id e \<and> st_date t \<le> st_date s"
    and fits: "parcel_fits D B (db_splits_for_listing B (st_listing_id t)) t"
  shows "rows_ok B2 \<and> fits_or_marked D B2 \<and> sells_allocated B2"
proof -
  have keys: "book_keys B" using B(1) by (simp add: rows_ok_def)
  then have ids: "distinct (map st_id (bk_trades B))" by (simp add: book_keys_def)
  have keys2: "book_keys B2" using keys ids2 by (simp add: book_keys_def same)
  have ti: "st_id t = i" using trade_get_Some [of B2 i t] get by simp
  have ok: "allocation_ok B a" if "a \<in> set (bk_allocations B)" for a using B(1) that by (simp add: rows_ok_def)
  have sale: "al_sale_trade_id a \<noteq> i" if "a \<in> set (bk_allocations B)" for a
    using ok [OF that] old by (auto simp: allocation_ok_def is_acquisition_def)
  have in2: "p = t \<or> p \<in> set (bk_trades B) \<and> st_id p \<noteq> i" if "p \<in> set (bk_trades B2)" for p
    using trade_get_in [OF ids2 that] trade_get_Some [of B "st_id p" p] by (auto simp: get split: if_splits)
  have splits: "db_splits_for_listing B2 = db_splits_for_listing B" by (rule splits_same [OF same(1,2)])
  have sales: "sales_of_parcel B2 j = sales_of_parcel B j" for j
    unfolding sales_of_parcel_get [OF ids2] sales_of_parcel_get [OF ids] same(3)
    using sale by (auto simp: sale_units_def get intro!: arg_cong [where f = concat] map_cong)
  have rounded: "rounded_listing B2 = rounded_listing B" by (simp add: rounded_listing_def fun_eq_iff same)
  have "st_listing_id p \<in> set (bk_dirty B2) \<or> parcel_fits D B2 (db_splits_for_listing B2 (st_listing_id p)) p"
    if "p \<in> set (bk_trades B2)" "is_acquisition (st_trade_type p)" for p
    using in2 [OF that(1)] that(2) fits B(2) by (auto simp: fits_or_marked_def parcel_fits_def splits sales same(4))
  moreover have "allocation_ok B2 a" if a: "a \<in> set (bk_allocations B)" for a
  proof -
    obtain s p where sp: "0 < al_quantity_allocated a" "trade_get B (al_sale_trade_id a) = Some s" "st_trade_type s = Sell"
      "trade_get B (al_purchase_trade_id a) = Some p" "is_acquisition (st_trade_type p)"
      "st_listing_id p = st_listing_id s" "st_date p \<le> st_date s"
      using ok [OF a] by (auto simp: allocation_ok_def)
    show ?thesis
    proof (cases "al_purchase_trade_id a = i")
      case True
      then have "st_listing_id t = st_listing_id p" "st_date t \<le> st_date s" using drawn [OF a True _ sp(2)] sp(4) by auto
      then show ?thesis using sp sale [OF a] t(1) True by (simp add: allocation_ok_def get)
    next
      case False
      then show ?thesis using sp sale [OF a] by (simp add: allocation_ok_def get)
    qed
  qed
  moreover have "0 \<le> st_quantity p" if "p \<in> set (bk_trades B2)" "is_acquisition (st_trade_type p)" for p
    using in2 [OF that(1)] that(2) t(2) B(1) by (auto simp: rows_ok_def)
  moreover have "allocated_of B2 (st_id s) = st_quantity s" if "s \<in> set (bk_trades B2)" "st_trade_type s = Sell" for s
    using in2 [OF that(1)] that(2) t(1) B(3) by (auto simp: sells_allocated_def allocated_of_def same is_acquisition_def)
  ultimately show ?thesis
    using B(1) d keys2 by (auto simp: rows_ok_def fits_or_marked_def sells_allocated_def counts_rounded_def rounded same)
qed

text \<open>The row as stored carries what the request states.\<close>

definition trade_like :: "'d stored_trade \<Rightarrow> 'd stored_trade \<Rightarrow> bool" where
  "trade_like t t' \<longleftrightarrow> st_id t' = st_id t \<and> st_trade_type t' = st_trade_type t \<and> st_date t' = st_date t
     \<and> st_listing_id t' = st_listing_id t \<and> st_quantity t' = st_quantity t"

lemma put_trade_row_facts:
  assumes "distinct (map st_id (bk_trades B))"
  shows "\<exists>ts d t'. put_trade_row t B = B\<lparr>bk_trades := ts, bk_dirty := bk_dirty B @ d\<rparr>
    \<and> (\<forall>l \<in> set d. rounded_listing B l) \<and> distinct (map st_id ts) \<and> trade_like t t'
    \<and> trade_get (put_trade_row t B) = (trade_get B)(st_id t \<mapsto> t')"
proof (cases "trade_get B (st_id t)")
  case None
  have "trade_like t t" by (simp add: trade_like_def)
  then show ?thesis using insert_trade_facts [OF assms None] by (simp add: put_trade_row_def None) blast
next
  case (Some old)
  have "st_id (trade_row_over old t) = st_id t" "trade_like t (trade_row_over old t)"
    using trade_get_Some [OF Some] by (simp_all add: trade_row_over_def trade_like_def)
  then show ?thesis using update_trade_facts [OF assms Some] by (simp add: put_trade_row_def Some) blast
qed

lemma parcel_fits_like:
  "trade_like t t' \<Longrightarrow> parcel_fits D B splits t' = parcel_fits D B splits t"
  by (simp add: trade_like_def parcel_fits_def)

lemma unsold_fits:
  "0 \<le> st_quantity t \<Longrightarrow> sales_of_parcel B (st_id t) = [] \<Longrightarrow> parcel_fits D B splits t"
  by (simp add: parcel_fits_def sold_in_acquired_units_def acquired_units_of_sales_def au_sum_def
      au_less_def au_key_def au_common_def au_new_def au_zero_def)

text \<open>What the write has established by the time the row is put.\<close>

definition trade_put :: "('d::linordered_field) decimal_api \<Rightarrow> 'd book \<Rightarrow> 'd book \<Rightarrow> bool" where
  "trade_put D B B1 \<longleftrightarrow> (\<exists>t i id' sd src. st_trade_type t = Buy \<and> 0 < st_quantity t
     \<and> B1 = put_trade_row (t\<lparr>st_id := i, st_settlement_date := sd, st_settlement_date_source := src\<rparr>) B
     \<and> (case id' of None \<Rightarrow> trade_get B i = None
        | Some j \<Rightarrow> j = i \<and> check_change B i (trade_get B i) t = Inr () \<and> check_capacity D B i t = Inr ()))"

lemma sale_dates_le:
  assumes "check_change B i (Some e) t = Inr ()" and "a \<in> set (bk_allocations B)" and "al_purchase_trade_id a = i"
    and "trade_get B (al_sale_trade_id a) = Some s" and "st_date e \<le> st_date s"
  shows "st_listing_id t = st_listing_id e \<and> st_date t \<le> st_date s"
proof -
  have s: "s \<in> set (bk_trades B)" "st_id s = al_sale_trade_id a" using trade_get_Some [OF assms(4)] by auto
  then have mem: "st_date s \<in> set (sale_dates B i)" using assms(2,3) by (auto simp: sale_dates_def)
  then have least: "Min (set (sale_dates B i)) \<le> st_date s" by simp
  have "drawn_on B i" using assms(2,3) by (auto simp: drawn_on_def list_ex_iff)
  then have "st_listing_id e = st_listing_id t"
    and "\<not> (st_date e < st_date t \<and> Min (set (sale_dates B i)) < st_date t)"
    using assms(1) mem by (auto simp: check_change_def result_simps)
  then show ?thesis using least assms(5) by linarith
qed

lemma trade_put_ok:
  assumes D: "decimal_laws D" and B: "book_ok D B" and put: "trade_put D B B1"
  shows "rows_ok B1 \<and> fits_or_marked D B1 \<and> sells_allocated B1"
proof -
  have rows: "rows_ok B" "fits_or_marked D B" "sells_allocated B" using B by (simp_all add: book_ok_def)
  have ids: "distinct (map st_id (bk_trades B))" using rows(1) by (simp add: rows_ok_def book_keys_def)
  obtain t i id' sd src where t: "st_trade_type t = Buy" "0 < st_quantity t"
    and B1: "B1 = put_trade_row (t\<lparr>st_id := i, st_settlement_date := sd, st_settlement_date_source := src\<rparr>) B"
    and ch: "case id' of None \<Rightarrow> trade_get B i = None
      | Some j \<Rightarrow> j = i \<and> check_change B i (trade_get B i) t = Inr () \<and> check_capacity D B i t = Inr ()"
    using put unfolding trade_put_def by blast
  let ?t = "t\<lparr>st_id := i, st_settlement_date := sd, st_settlement_date_source := src\<rparr>"
  obtain ts d t' where eq: "B1 = B\<lparr>bk_trades := ts, bk_dirty := bk_dirty B @ d\<rparr>"
    and d: "\<forall>l \<in> set d. rounded_listing B l" and ts: "distinct (map st_id ts)" and like: "trade_like ?t t'"
    and get: "trade_get B1 = (trade_get B)(i \<mapsto> t')"
    using put_trade_row_facts [OF ids, of ?t] unfolding B1 [symmetric] by auto
  have same: "bk_actions B1 = bk_actions B" "bk_counts B1 = bk_counts B" "bk_allocations B1 = bk_allocations B"
    "bk_dirty B1 = bk_dirty B @ d" "distinct (map st_id (bk_trades B1))" using ts by (simp_all add: eq)
  have f: "is_acquisition (st_trade_type t')" "0 \<le> st_quantity t'" "st_listing_id t' = st_listing_id t"
    "st_date t' = st_date t" "st_id t' = i" using like t by (simp_all add: trade_like_def is_acquisition_def)
  have old: "\<forall>e. trade_get B i = Some e \<longrightarrow> is_acquisition (st_trade_type e)"
    using ch t(1) by (auto simp: check_change_def result_simps is_acquisition_def split: option.splits)
  have drawn: "st_listing_id t' = st_listing_id e \<and> st_date t' \<le> st_date s"
    if a: "a \<in> set (bk_allocations B)" "al_purchase_trade_id a = i" and e: "trade_get B i = Some e"
      and s: "trade_get B (al_sale_trade_id a) = Some s" for a e s
  proof -
    have "check_change B i (Some e) t = Inr ()" using ch e by (auto split: option.splits)
    moreover have "st_date e \<le> st_date s" using rows(1) a e s by (auto simp: rows_ok_def allocation_ok_def)
    ultimately show ?thesis using sale_dates_le a s f(3,4) by metis
  qed
  have "parcel_fits D B (db_splits_for_listing B (st_listing_id t')) t'"
  proof (cases id')
    case None
    then have "trade_get B i = None" using ch by simp
    then have "filter (\<lambda>a. al_purchase_trade_id a = i) (bk_allocations B) = []"
      using rows(1) by (auto simp: filter_empty_conv rows_ok_def allocation_ok_def)
    then have "sales_of_parcel B i = []" by (simp add: sales_of_parcel_def)
    then show ?thesis using f(2,5) by (intro unsold_fits) simp_all
  next
    case (Some j)
    then have "parcel_fits D B (db_splits_for_listing B (st_listing_id t)) (t\<lparr>st_id := i\<rparr>)"
      using ch by (simp add: check_capacity_def result_simps)
    moreover have "trade_like (t\<lparr>st_id := i\<rparr>) t'" using like by (simp add: trade_like_def)
    ultimately show ?thesis using f(3) by (simp add: parcel_fits_like)
  qed
  note fits = this
  show ?thesis by (rule parcel_put_ok [OF D rows same(1-4) d same(5) get f(1,2) old _ fits]) (fact drawn)
qed

lemma trade_from_body_buy: "trade_from_body D i body = Inr t \<Longrightarrow> st_trade_type t = Buy \<and> st_id t = i"
  by (cases "tb_trade_type body") (auto simp: trade_from_body_def Let_def split: prod.splits)

lemma write_trade_checks:
  "write_trade D C today fresh (Some j) t sw B = Inr r \<Longrightarrow> check_owned B j (trade_get B j) = Inr ()
     \<and> check_change B j (trade_get B j) t = Inr () \<and> check_capacity D B j t = Inr ()"
  by (auto simp: write_trade_def Let_def result_simps)

lemma trade_upsert_put:
  assumes "trade_upsert D C today fresh id' body B = Inr (i, B2)"
    and "id' = None \<longrightarrow> trade_get B fresh = None"
  shows "\<exists>B1. trade_put D B B1 \<and> db_settle D B1 = Inr B2"
proof -
  obtain t where t: "trade_from_body D (case id' of Some i \<Rightarrow> i | None \<Rightarrow> 0) body = Inr t"
    and w: "write_trade D C today fresh id' t (Some (tb_settlement_date body)) B = Inr (i, B2)"
    using assms(1) by (auto simp: trade_upsert_def result_simps)
  have buy: "st_trade_type t = Buy" using trade_from_body_buy [OF t] by simp
  let ?i = "case id' of Some i \<Rightarrow> i | None \<Rightarrow> fresh"
  let ?row = "\<lambda>settles :: settlement. t\<lparr>st_id := ?i, st_settlement_date := se_settles settles,
        st_settlement_date_source := se_source settles\<rparr>"
  have "\<exists>settles. db_settle D (put_trade_row (?row settles) B) = Inr B2"
    using w unfolding write_trade_def Let_def result_simps sum.inject prod.inject by blast
  have amounts: "trade_check_amounts D C today (row_amounts t) = Inr ()"
    using w by (auto simp: write_trade_def result_simps)
  have ch: "case id' of None \<Rightarrow> True | Some j \<Rightarrow> check_change B j (trade_get B j) t = Inr () \<and> check_capacity D B j t = Inr ()"
  proof (cases id')
    case None
    then show ?thesis by simp
  next
    case (Some j)
    then show ?thesis using write_trade_checks [of D C today fresh j t "Some (tb_settlement_date body)" B "(i, B2)"] w
      by simp
  qed
  obtain settles B1 where B1: "B1 = put_trade_row (?row settles) B" and settle: "db_settle D B1 = Inr B2"
    using \<open>\<exists>settles. _ settles\<close> by blast
  have "0 < st_quantity t"
    using amounts by (auto simp: trade_check_amounts_def row_amounts_def not_le split: if_splits)
  then have "trade_put D B B1"
    unfolding trade_put_def using buy B1 ch assms(2)
    by (intro exI [of _ t] exI [of _ ?i] exI [of _ id'] exI [of _ "se_settles settles"] exI [of _ "se_source settles"])
      (auto split: option.splits)
  then show ?thesis using settle by blast
qed

subsection \<open>Deleting\<close>

definition trade_gone :: "('d::linordered_field) decimal_api \<Rightarrow> 'd book \<Rightarrow> 'd book \<Rightarrow> bool" where
  "trade_gone D B B1 \<longleftrightarrow> (\<exists>t. \<not> trade_referenced B (st_id t) \<and> delete_rows [t] B = Inr B1)"

lemma trade_gone_ok:
  assumes D: "decimal_laws D" and B: "book_ok D B" and gone: "trade_gone D B B1"
  shows "rows_ok B1 \<and> fits_or_marked D B1 \<and> sells_allocated B1"
proof -
  have rows: "rows_ok B" "fits_or_marked D B" "sells_allocated B" using B by (simp_all add: book_ok_def)
  obtain t where free: "\<not> trade_referenced B (st_id t)" and del: "delete_rows [t] B = Inr B1"
    using gone unfolding trade_gone_def by blast
  obtain d where eq: "B1 = B\<lparr>bk_trades := filter (\<lambda>r. st_id r \<notin> {st_id t}) (bk_trades B),
      bk_counts := filter (\<lambda>c. cr_trade_id c \<notin> {st_id t}) (bk_counts B), bk_dirty := bk_dirty B @ d\<rparr>"
    and d: "\<forall>l \<in> set d. rounded_listing B l"
    using rows_deleted [OF del] by auto
  have apart: "al_sale_trade_id a \<notin> {st_id t} \<and> al_purchase_trade_id a \<notin> {st_id t}" if "a \<in> set (bk_allocations B)" for a
    using free that by (auto simp: trade_referenced_def list_ex_iff)
  then have all: "filter (\<lambda>a. al_sale_trade_id a \<noteq> st_id t) (bk_allocations B) = bk_allocations B"
    by (simp add: filter_id_conv)
  show ?thesis
    by (rule delete_rows_ok [OF D rows, of _ "{st_id t}" "st_id t" d]) (use apart d in \<open>simp_all add: eq all\<close>)
qed

lemma trade_delete_gone:
  assumes "trade_delete D i B = Inr (outcome, B2)"
  shows "B2 = B \<and> outcome \<noteq> TradeDeleted \<or> outcome = TradeDeleted \<and> (\<exists>B1. trade_gone D B B1 \<and> db_settle D B1 = Inr B2)"
proof (cases "trade_get B i")
  case None
  then show ?thesis using assms by (simp add: trade_delete_def)
next
  case (Some t)
  then have "st_id t = i" using trade_get_Some by blast
  then show ?thesis using assms Some
    by (auto simp: trade_delete_def trade_gone_def result_simps split: if_splits option.splits)
qed

subsection \<open>The recompute job\<close>

text \<open>The rows of two books with the same trades but for what a settlement date is.\<close>

definition same_dealing :: "'d stored_trade \<Rightarrow> 'd stored_trade \<Rightarrow> bool" where
  "same_dealing t t' \<longleftrightarrow> st_trade_type t' = st_trade_type t \<and> st_date t' = st_date t
     \<and> st_listing_id t' = st_listing_id t \<and> st_quantity t' = st_quantity t"

definition books_dealing :: "('d::linordered_field) decimal_api \<Rightarrow> 'd book \<Rightarrow> 'd book \<Rightarrow> bool" where
  "books_dealing D B B1 \<longleftrightarrow> (\<exists>ts d. B1 = B\<lparr>bk_trades := ts, bk_dirty := bk_dirty B @ d\<rparr>
     \<and> (\<forall>l \<in> set d. rounded_listing B l) \<and> map st_id ts = map st_id (bk_trades B)
     \<and> list_all2 same_dealing (bk_trades B) ts)"

lemma same_dealing_rows:
  assumes "map st_id ts' = map st_id ts" and "list_all2 same_dealing ts ts'"
  shows "case find (\<lambda>t. st_id t = i) ts of None \<Rightarrow> find (\<lambda>t. st_id t = i) ts' = None
    | Some t \<Rightarrow> \<exists>t'. find (\<lambda>t. st_id t = i) ts' = Some t' \<and> same_dealing t t'"
  using assms(2,1) by (induction rule: list_all2_induct) (auto split: option.splits)

lemma books_dealing_ok:
  assumes D: "decimal_laws D" and B: "book_ok D B" and dealing: "books_dealing D B B1"
  shows "rows_ok B1 \<and> fits_or_marked D B1 \<and> sells_allocated B1"
proof -
  have rows: "rows_ok B" "fits_or_marked D B" "sells_allocated B" using B by (simp_all add: book_ok_def)
  then have ids: "distinct (map st_id (bk_trades B))" and keys: "book_keys B" by (simp_all add: rows_ok_def book_keys_def)
  obtain ts d where eq: "B1 = B\<lparr>bk_trades := ts, bk_dirty := bk_dirty B @ d\<rparr>"
    and d: "\<forall>l \<in> set d. rounded_listing B l" and same_ids: "map st_id ts = map st_id (bk_trades B)"
    and all: "list_all2 same_dealing (bk_trades B) ts"
    using dealing unfolding books_dealing_def by blast
  have same: "bk_actions B1 = bk_actions B" "bk_counts B1 = bk_counts B" "bk_allocations B1 = bk_allocations B"
    "bk_dirty B1 = bk_dirty B @ d" "bk_trades B1 = ts" by (simp_all add: eq)
  have ids1: "distinct (map st_id (bk_trades B1))" using ids same_ids by (simp add: same)
  have keys1: "book_keys B1" using keys ids1 by (simp add: book_keys_def same)
  have get: "case trade_get B i of None \<Rightarrow> trade_get B1 i = None
      | Some t \<Rightarrow> \<exists>t'. trade_get B1 i = Some t' \<and> same_dealing t t'" for i
    unfolding trade_get_def same by (rule same_dealing_rows [OF same_ids all])
  have fwd: "\<exists>t'. trade_get B1 i = Some t' \<and> same_dealing t t'" if "trade_get B i = Some t" for i t
    using get [of i] that by simp
  have bwd: "\<exists>t. trade_get B (st_id t') = Some t \<and> trade_like t t'" if "t' \<in> set (bk_trades B1)" for t'
  proof -
    have t': "trade_get B1 (st_id t') = Some t'" by (rule trade_get_in [OF ids1 that])
    then obtain t where t: "trade_get B (st_id t') = Some t" "same_dealing t t'"
      using get [of "st_id t'"] by (auto split: option.splits)
    then have "st_id t = st_id t'" using trade_get_Some by blast
    then show ?thesis using t by (auto simp: trade_like_def same_dealing_def)
  qed
  have units: "sale_units B1 = sale_units B"
  proof
    fix a
    show "sale_units B1 a = sale_units B a"
      using get [of "al_sale_trade_id a"] by (auto simp: sale_units_def same_dealing_def split: option.splits)
  qed
  have sales: "sales_of_parcel B1 j = sales_of_parcel B j" for j
    by (simp only: sales_of_parcel_get [OF ids1] sales_of_parcel_get [OF ids] same(3) units)
  have splits: "db_splits_for_listing B1 = db_splits_for_listing B" by (rule splits_same [OF same(1,2)])
  have rounded: "rounded_listing B1 = rounded_listing B" by (simp add: rounded_listing_def fun_eq_iff same)
  have "allocation_ok B1 a" if a: "a \<in> set (bk_allocations B)" for a
  proof -
    obtain s p where sp: "0 < al_quantity_allocated a" "trade_get B (al_sale_trade_id a) = Some s" "st_trade_type s = Sell"
      "trade_get B (al_purchase_trade_id a) = Some p" "is_acquisition (st_trade_type p)"
      "st_listing_id p = st_listing_id s" "st_date p \<le> st_date s"
      using rows(1) a unfolding rows_ok_def allocation_ok_def by blast
    show ?thesis using sp(1,3,5-7) fwd [OF sp(2)] fwd [OF sp(4)] by (auto simp: allocation_ok_def same_dealing_def)
  qed
  moreover have "st_listing_id p' \<in> set (bk_dirty B1) \<or> parcel_fits D B1 (db_splits_for_listing B1 (st_listing_id p')) p'"
    and "0 \<le> st_quantity p'" if p': "p' \<in> set (bk_trades B1)" "is_acquisition (st_trade_type p')" for p'
  proof -
    obtain p where p: "trade_get B (st_id p') = Some p" "trade_like p p'" using bwd [OF p'(1)] by blast
    then have f: "p \<in> set (bk_trades B)" "is_acquisition (st_trade_type p)" "st_listing_id p' = st_listing_id p"
      "st_quantity p' = st_quantity p" "st_id p' = st_id p"
      using trade_get_Some p'(2) by (auto simp: trade_like_def)
    then have "st_listing_id p \<in> set (bk_dirty B) \<or> parcel_fits D B (db_splits_for_listing B (st_listing_id p)) p"
      using rows(2) by (simp add: fits_or_marked_def)
    moreover have "parcel_fits D B1 (db_splits_for_listing B (st_listing_id p)) p'
        = parcel_fits D B (db_splits_for_listing B (st_listing_id p)) p"
      using parcel_fits_like [OF p(2)] by (simp add: parcel_fits_def sales)
    ultimately show "st_listing_id p' \<in> set (bk_dirty B1) \<or> parcel_fits D B1 (db_splits_for_listing B1 (st_listing_id p')) p'"
      by (auto simp: f(3) splits same(4))
    show "0 \<le> st_quantity p'" using rows(1) f by (simp add: rows_ok_def)
  qed
  moreover have "allocated_of B1 (st_id s') = st_quantity s'" if s': "s' \<in> set (bk_trades B1)" "st_trade_type s' = Sell" for s'
  proof -
    obtain s where s: "trade_get B (st_id s') = Some s" "trade_like s s'" using bwd [OF s'(1)] by blast
    then have "s \<in> set (bk_trades B)" using trade_get_Some by blast
    then show ?thesis using rows(3) s s' by (simp add: trade_like_def sells_allocated_def allocated_of_def same)
  qed
  ultimately show ?thesis
    using rows(1) d keys1 by (auto simp: rows_ok_def fits_or_marked_def sells_allocated_def counts_rounded_def rounded same)
qed

lemma books_dealing_refl: "books_dealing D B B"
  unfolding books_dealing_def
  by (intro exI [of _ "bk_trades B"] exI [of _ "[]"]) (simp add: same_dealing_def list_all2_refl)

lemma books_dealing_trans:
  assumes "books_dealing D B B1" and "books_dealing D B1 B2"
  shows "books_dealing D B B2"
proof -
  obtain ts d where 1: "B1 = B\<lparr>bk_trades := ts, bk_dirty := bk_dirty B @ d\<rparr>" "\<forall>l \<in> set d. rounded_listing B l"
    "map st_id ts = map st_id (bk_trades B)" "list_all2 same_dealing (bk_trades B) ts"
    using assms(1) unfolding books_dealing_def by blast
  obtain ts' d' where 2: "B2 = B1\<lparr>bk_trades := ts', bk_dirty := bk_dirty B1 @ d'\<rparr>" "\<forall>l \<in> set d'. rounded_listing B1 l"
    "map st_id ts' = map st_id (bk_trades B1)" "list_all2 same_dealing (bk_trades B1) ts'"
    using assms(2) unfolding books_dealing_def by blast
  have "list_all2 same_dealing (bk_trades B) ts'"
    using list_all2_trans [OF _ 1(4), of same_dealing same_dealing ts'] 2(4) by (auto simp: 1(1) same_dealing_def)
  moreover have "\<forall>l \<in> set (d @ d'). rounded_listing B l" using 1 2 by (auto simp: rounded_listing_def)
  ultimately show ?thesis unfolding books_dealing_def using 1 2
    by (intro exI [of _ ts'] exI [of _ "d @ d'"]) simp
qed

lemma redate_row_dealing:
  assumes r: "redate_row C B t = Inr B1" and ids: "distinct (map st_id (bk_trades B))"
  shows "books_dealing D B B1 \<and> recompute_step C (market_calendars (bk_market B)) (bk_trades B) t = Inr (bk_trades B1)"
proof -
  obtain wanted where w: "auto_settlement_date_on C (market_calendars (bk_market B)) (st_listing_id t) (st_date t) = Inr wanted"
    and B1: "B1 = (if wanted = st_settlement_date t then B else case trade_get B (st_id t) of None \<Rightarrow> B
      | Some r \<Rightarrow> update_trade r (r\<lparr>st_settlement_date := wanted\<rparr>) B)"
    using r by (auto simp: redate_row_def result_simps)
  let ?ts = "map (\<lambda>r. if st_id r = st_id t then r\<lparr>st_settlement_date := wanted\<rparr> else r) (bk_trades B)"
  have step: "recompute_step C (market_calendars (bk_market B)) (bk_trades B) t
      = Inr (if wanted = st_settlement_date t then bk_trades B else ?ts)"
    by (simp add: recompute_step_def w)
  show ?thesis
  proof (cases "wanted = st_settlement_date t")
    case True
    then show ?thesis using step by (simp add: B1 books_dealing_refl)
  next
    case moved: False
    show ?thesis
    proof (cases "trade_get B (st_id t)")
      case None
      then have "st_id r \<noteq> st_id t" if "r \<in> set (bk_trades B)" for r
        using that unfolding trade_get_None by (metis imageI)
      then have "?ts = bk_trades B" by (intro map_idI) simp
      then show ?thesis using step moved None by (simp add: B1 books_dealing_refl)
    next
      case (Some r)
      let ?new = "r\<lparr>st_settlement_date := wanted\<rparr>"
      let ?d = "if moves_counts r ?new then concat (map (listing_marks B) (remdups [st_listing_id r, st_listing_id ?new])) else []"
      have rt: "st_id r = st_id t" using trade_get_Some [OF Some] by simp
      have only: "r' = r" if "r' \<in> set (bk_trades B)" "st_id r' = st_id t" for r'
        using trade_get_in [OF ids that(1)] that(2) Some by simp
      have "map (\<lambda>r'. if st_id r' = st_id t then ?new else r') (bk_trades B) = ?ts"
        using only by (intro map_cong) auto
      then have eq: "B1 = B\<lparr>bk_trades := ?ts, bk_dirty := bk_dirty B @ ?d\<rparr>"
        using moved Some rt by (simp add: B1 update_trade_def Let_def mark_listings_marks mark_listing_marks)
      have "\<forall>l \<in> set ?d. rounded_listing B l" using listing_marks_rounded [of _ B] by auto
      moreover have "map st_id ?ts = map st_id (bk_trades B)" by auto
      moreover have "list_all2 same_dealing (bk_trades B) ?ts"
        by (simp add: list_all2_map2 list_all2_same same_dealing_def)
      ultimately have "books_dealing D B B1" using eq unfolding books_dealing_def by blast
      moreover have "bk_trades B1 = ?ts" by (subst eq, simp)
      ultimately show ?thesis using step moved by (simp only: if_False simp_thms)
    qed
  qed
qed

lemma redated_rows_dealing:
  assumes "try_foldl (redate_row C) B1 ts = Inr B2" and "books_dealing D B B1" and "distinct (map st_id (bk_trades B))"
  shows "books_dealing D B B2
    \<and> try_foldl (recompute_step C (market_calendars (bk_market B))) (bk_trades B1) ts = Inr (bk_trades B2)"
  using assms
proof (induction ts arbitrary: B1)
  case (Cons t ts)
  obtain B' where r: "redate_row C B1 t = Inr B'" and rest: "try_foldl (redate_row C) B' ts = Inr B2"
    using Cons.prems(1) by (auto simp: result_simps)
  have market: "bk_market B1 = bk_market B" and ids1: "distinct (map st_id (bk_trades B1))"
    using Cons.prems(2,3) by (auto simp: books_dealing_def)
  note one = redate_row_dealing [OF r ids1, of D]
  note IH = Cons.IH [OF rest books_dealing_trans [OF Cons.prems(2) conjunct1 [OF one]] Cons.prems(3)]
  show ?case using one IH by (simp add: market result_simps)
qed simp

lemma run_recompute_dealing:
  assumes "run_recompute D C B = Inr B2" and "distinct (map st_id (bk_trades B))"
  shows "\<exists>B1. books_dealing D B B1 \<and> db_settle D B1 = Inr B2
    \<and> recompute_settlements C (market_calendars (bk_market B)) (bk_trades B) = Inr (bk_trades B1)"
proof -
  obtain B1 where f: "try_foldl (redate_row C) B
      (filter (is_recomputable \<circ> st_settlement_date_source) (sort_key st_id (bk_trades B))) = Inr B1"
    and settle: "db_settle D B1 = Inr B2"
    using assms(1) by (auto simp: run_recompute_def result_simps)
  show ?thesis using redated_rows_dealing [OF f books_dealing_refl assms(2)] settle
    unfolding recompute_settlements_def by blast
qed

subsection \<open>The writes of the program keep the contract\<close>

definition sell_put :: "('d::linordered_field) decimal_api \<Rightarrow> 'd book \<Rightarrow> 'd book \<Rightarrow> bool" where
  "sell_put D B B1 \<longleftrightarrow> (\<exists>C today fresh id' body settles provenance i.
     upsert_sell_in_tx D C today fresh id' body settles provenance B = Inr (i, B1)
     \<and> (id' = None \<longrightarrow> trade_get B (fi_trade fresh) = None)
     \<and> (\<forall>j e. id' = Some j \<longrightarrow> trade_get B j = Some e \<longrightarrow> st_trade_type e = Sell))"

interpretation sell_writes: settled_write sell_put
proof
  fix D :: "'d::linordered_field decimal_api" and B B1
  assume "decimal_laws D" "book_ok D B" "sell_put D B B1"
  then show "rows_ok B1 \<and> fits_or_marked D B1 \<and> sells_allocated B1"
    unfolding sell_put_def using upsert_ok by blast
qed

interpretation trade_writes: settled_write trade_put
  by unfold_locales (rule trade_put_ok)

interpretation trade_deletes: settled_write trade_gone
  by unfold_locales (rule trade_gone_ok)

interpretation recomputes: settled_write books_dealing
  by unfold_locales (rule books_dealing_ok)

text \<open>A request or job of any of the endpoints over the books.\<close>

inductive ledger_step ::
    "('d::linordered_field) decimal_api \<Rightarrow> chrono_api \<Rightarrow> 'd book \<Rightarrow> 'd book \<Rightarrow> bool" for D C where
  sold: "book_step D C B B' \<Longrightarrow> ledger_step D C B B'"
| traded: "trade_upsert D C today fresh id' body B = Inr (i, B') \<Longrightarrow>
    id' = None \<longrightarrow> trade_get B fresh = None \<Longrightarrow> ledger_step D C B B'"
| removed: "trade_delete D i B = Inr (outcome, B') \<Longrightarrow> ledger_step D C B B'"
| recomputed: "run_recompute D C B = Inr B' \<Longrightarrow> ledger_step D C B B'"

inductive_cases ledger_stepE: "ledger_step D C B B'"

lemma ledger_step_ok:
  assumes D: "decimal_laws D" and step: "ledger_step D C B B'" and B: "book_ok D B"
  shows "book_ok D B'"
proof -
  have ids: "distinct (map st_id (bk_trades B))" using B by (simp add: book_ok_def rows_ok_def book_keys_def)
  from step show ?thesis
  proof (rule ledger_stepE)
    assume "book_step D C B B'"
    then show ?thesis by (rule book_step_ok [OF D _ B])
  next
    fix today fresh id' body i
    assume "trade_upsert D C today fresh id' body B = Inr (i, B')" "id' = None \<longrightarrow> trade_get B fresh = None"
    then show ?thesis using trade_upsert_put trade_writes.settled [OF D B] by blast
  next
    fix i outcome
    assume "trade_delete D i B = Inr (outcome, B')"
    then show ?thesis using trade_delete_gone trade_deletes.settled [OF D B] B by blast
  next
    assume "run_recompute D C B = Inr B'"
    then show ?thesis using run_recompute_dealing [OF _ ids] recomputes.settled [OF D B] by blast
  qed
qed

lemma ledger_steps_ok: "(ledger_step D C)\<^sup>*\<^sup>* B B' \<Longrightarrow> decimal_laws D \<Longrightarrow> book_ok D B \<Longrightarrow> book_ok D B'"
  by (induction rule: rtranclp_induct) (auto intro: ledger_step_ok)

text \<open>Books before the first trade: listings, accounts and corporate actions only.\<close>

definition opening_book :: "('d::linordered_field) book \<Rightarrow> bool" where
  "opening_book B \<longleftrightarrow> bk_trades B = [] \<and> bk_allocations B = [] \<and> bk_counts B = [] \<and> bk_dirty B = []
     \<and> distinct (map sa_id (bk_actions B)) \<and> list_all (terms_ok \<circ> sa_terms) (bk_actions B)"

lemma opening_ok: "opening_book B \<Longrightarrow> book_ok D B"
  by (simp add: opening_book_def book_ok_def rows_ok_def book_keys_def counts_rounded_def fits_or_marked_def
      sells_allocated_def list_all_iff)

section \<open>Properties\<close>

text \<open>C1: whatever sequence of trade and Sell writes, edits, dry runs, deletes and recompute runs the
  books have been through since they were opened, no parcel is oversold. Every Sell's allocations sum
  to its quantity; each is a positive quantity out of an acquisition of the same listing dated no
  later than the sale; where no rounded split is recorded, the sales out of a parcel, each re-based by
  the splits in between, sum to at most its quantity; and no listing is left marked for recomputation.\<close>

theorem ledger_never_oversold:
  assumes D: "decimal_laws D" and B: "opening_book B" and steps: "(ledger_step D C)\<^sup>*\<^sup>* B B'"
  shows "(\<forall>s \<in> set (bk_trades B'). st_trade_type s = Sell \<longrightarrow> allocated_of B' (st_id s) = st_quantity s)
    \<and> (\<forall>a \<in> set (bk_allocations B'). allocation_ok B' a)
    \<and> (\<forall>p \<in> set (bk_trades B'). is_acquisition (st_trade_type p) \<and> \<not> rounded_listing B' (st_listing_id p) \<longrightarrow>
         sum_list (map (sale_val (for_parcel (db_splits_for_listing B' (st_listing_id p)) (st_id p)) (st_date p))
           (sales_of_parcel B' (st_id p))) \<le> st_quantity p)
    \<and> bk_dirty B' = []"
proof -
  have "book_ok D B'" by (rule ledger_steps_ok [OF steps D opening_ok [OF B]])
  then show ?thesis by (rule book_ok_sound [OF D])
qed

text \<open>C37: a trade an operation wrote (an ESS vest, an inheritance, a rights exercise, a buy-back, an
  exchange, a demerger, a transfer or its fee sale, a write-off, a payment in lieu) is never edited
  through the trades endpoint, whatever the body.\<close>

theorem operation_trades_frozen:
  assumes "trade_get B j = Some e" and "operation_written (bk_fee_sales B) e"
    and "st_worthless_action_id e \<noteq> None \<or> st_cash_in_lieu_action_id e \<noteq> None \<longrightarrow> st_trade_type e = Sell"
  shows "\<exists>err. trade_upsert D C today fresh (Some j) body B = Inl err"
proof (rule ccontr)
  assume "\<not> ?thesis"
  then obtain r where "trade_upsert D C today fresh (Some j) body B = Inr r"
    by (cases "trade_upsert D C today fresh (Some j) body B") blast+
  then obtain t where "trade_from_body D j body = Inr t"
    and w: "write_trade D C today fresh (Some j) t (Some (tb_settlement_date body)) B = Inr r"
    by (auto simp: trade_upsert_def result_simps)
  then have buy: "st_trade_type t = Buy" using trade_from_body_buy by blast
  have owned: "check_owned B j (Some e) = Inr ()" and change: "check_change B j (Some e) t = Inr ()"
    using write_trade_checks [OF w] assms(1) by simp_all
  have notfee: "st_id e \<notin> set (bk_fee_sales B)"
    using owned trade_get_Some [OF assms(1)] by (auto simp: check_owned_def result_simps is_transfer_fee_sale_def)
  have "st_trade_type e = Buy" using change buy by (auto simp: check_change_def result_simps)
  then have none: "st_worthless_action_id e = None" "st_cash_in_lieu_action_id e = None" using assms(3) by auto
  obtain p where p: "p \<in> set trade_provenances" "column_set e (tp_column p)"
    using assms(2) notfee by (auto simp: operation_written_def list_ex_iff)
  obtain c where c: "provenance_column e = Some c"
    using p by (cases "provenance_column e") (auto simp: provenance_column_def find_None_iff)
  obtain q where q: "provenance_named c = Some q" "q \<in> set trade_provenances" "column_set e (tp_column q)"
    using provenance_named_column [OF c] by blast
  have "tp_edit_refusal q = None" using owned c q(1) by (auto simp: check_owned_def result_simps)
  then show False using q(2,3) none by (auto simp: trade_provenances_def column_set_def)
qed

section \<open>Examples\<close>

text \<open>The parcel of the example books is bought before forty of its units are sold.\<close>

definition hundred_bought :: "rat trade_body" where
  "hundred_bought =
     \<lparr>tb_trade_type = Buy, tb_date = 739071, tb_settlement_date = Some 739073, tb_listing_id = 7,
      tb_average_price = 5, tb_quantity = 100, tb_currency = ''AUD'', tb_brokerage = 11,
      tb_gst_on_brokerage = 0, tb_brokerage_includes_gst = True, tb_brokerage_currency = ''AUD'',
      tb_fx_rate = 1, tb_spot_fx_rate = None, tb_contract_note_ref = None, tb_statement_total = None,
      tb_residual_brought_forward = 0, tb_residual_carried_forward = 0, tb_residual_paid_out = 0,
      tb_holding_account_id = 3\<rparr>"

definition example_opening :: "rat book" where
  "example_opening = example_holding\<lparr>bk_trades := []\<rparr>"

lemma hundred_row: "trade_from_body ref_dec 0 hundred_bought = Inr (example_parcel\<lparr>st_id := 0\<rparr>)"
proof -
  have "\<lfloor>100 + 1 / 2 :: rat\<rfloor> = 100" by (simp add: floor_eq_iff)
  then have "resolve_brokerage ref_dec True 11 0 = (10, 1)"
    by (simp add: resolve_brokerage_def split_gst_inclusive_def ref_round_def)
  then show ?thesis by (simp add: trade_from_body_def hundred_bought_def example_parcel_def example_trade_def)
qed

lemma hundred_check: "trade_check_amounts ref_dec gregorian 739080 (row_amounts (example_parcel\<lparr>st_id := 0\<rparr>)) = Inr ()"
proof -
  have start: "cgt_start gregorian \<le> 739071" by code_simp
  have aud: "eq_ignore_ascii_case ''AUD'' ''AUD''" by code_simp
  have cost: "checked_cost_base ref_dec
      [CostProduct (''average_price'', 5) (''quantity'', 100), CostAmount ''brokerage'' 10,
       CostAmount ''gst_on_brokerage'' 1] = Inr 511"
    by (simp add: checked_cost_base_def ref_checked_def decimal_max_def)
  show ?thesis
    using start aud cost by (simp add: trade_check_amounts_def row_amounts_def example_parcel_def example_trade_def)
qed

lemma hundred_written:
  "trade_upsert ref_dec gregorian 739080 1 None hundred_bought example_opening = Inr (1, example_holding)"
proof -
  let ?t = "example_parcel\<lparr>st_id := 0\<rparr>"
  have t: "st_trade_type ?t = Buy" "st_date ?t = 739071" "st_listing_id ?t = 7" "st_quantity ?t = 100"
    "st_currency ?t = ''AUD''" "st_brokerage_currency ?t = ''AUD''" "st_holding_account_id ?t = 3"
    "st_statement_total ?t = None" "st_spot_fx_rate ?t = None"
    by (simp_all add: example_parcel_def example_trade_def)
  have row: "example_parcel\<lparr>st_id := 1, st_settlement_date := 739073, st_settlement_date_source := Stated\<rparr> = example_parcel"
    by (simp add: example_parcel_def example_trade_def)
  have B: "bk_trades example_opening = []" "bk_market example_opening = example_tables"
    "bk_currencies example_opening = [''AUD'']" "bk_accounts example_opening = [(3, Some 0)]"
    by (simp_all add: example_opening_def)
  have put: "put_trade_row example_parcel example_opening = example_holding"
    by (simp add: put_trade_row_def trade_get_def B insert_trade_def mark_listing_def rounded_listing_def)
      (simp add: example_opening_def example_holding_def example_book_def)
  have listing: "listing_get example_tables 7
      = Some \<lparr>li_id = 7, li_exchange_mic = Some ''XASX'', li_ticker = ''NEW'', li_currency = ''AUD''\<rparr>"
    by (simp add: listing_get_def example_tables_def)
  have settle: "db_settle ref_dec example_holding = Inr example_holding" by (simp add: db_settle_def)
  have "non_trading_day gregorian example_market 739071 = None" by code_simp
  moreover have "db_splits_for_listing example_holding 7 = []"
    by (simp add: db_splits_for_listing_def listing_actions_def db_stored_counts_def)
  moreover have "places ref_dec 100 = 0" using ref_scale_whole [of 100] by (simp add: places_def ref_dec_def)
  ultimately have checked: "check_written ref_dec gregorian None ?t example_holding = Inr ()"
    by (simp add: t listing refuse_some_def check_written_def listing_currency_mismatch_def db_non_trading_day_def example_loads
        db_too_fine_def db_back_dated_parcel_def db_executed_from_def rebased_quantity_beyond_range_def announced_def
        db_payment_currency_conflict_def )
  have stated: "resolve_on gregorian (market_calendars example_tables) [] None 7 739071 (Some 739073)
      = Inr \<lparr>se_settles = 739073, se_source = Stated\<rparr>"
    by (simp add: resolve_on_def settlement_stated_def)
  have fk: "foreign_keys_hold example_opening 7 3 ''AUD'' ''AUD''"
    by (simp add: foreign_keys_hold_def B listing)
  have "tb_settlement_date hundred_bought = Some 739073" by (simp add: hundred_bought_def)
  then show ?thesis
    by (simp add: trade_upsert_def write_trade_def hundred_row hundred_check Let_def t row B fk stated put checked settle
        check_statement_total_def validate_spot_fx_rate_def refuse_def)
qed

theorem ledger_never_oversold_witness:
  "(ledger_step ref_dec gregorian)\<^sup>*\<^sup>* example_opening example_sold \<and> allocated_of example_sold 2 = 40
   \<and> bk_dirty example_sold = []"
proof -
  have "ledger_step ref_dec gregorian example_opening example_holding"
    by (rule traded [OF hundred_written]) (simp add: trade_get_def example_opening_def)
  moreover have "ledger_step ref_dec gregorian example_holding example_sold"
    by (rule sold, rule written [OF forty_written]) (simp add: trade_get_def example_ids_def)
  ultimately have steps: "(ledger_step ref_dec gregorian)\<^sup>*\<^sup>* example_opening example_sold"
    by (meson converse_rtranclp_into_rtranclp r_into_rtranclp)
  have "opening_book example_opening" by (simp add: opening_book_def example_opening_def)
  note sound = ledger_never_oversold [OF ref.decimal_laws_axioms this steps]
  have "sell_row forty_sale (settlement_stated 739080) no_columns (0, 0) 2 \<in> set (bk_trades example_sold)"
    by (simp add: example_sold_def)
  then show ?thesis using sound steps by (auto simp: sell_row_def forty_sale_def)
qed

text \<open>A parcel that vested under an employee share scheme.\<close>

definition vested_book :: "rat book" where
  "vested_book = example_holding\<lparr>bk_trades := [example_parcel\<lparr>st_ess_statement_id := Some 1\<rparr>]\<rparr>"

theorem operation_trades_frozen_witness:
  "\<exists>err. trade_upsert ref_dec gregorian 739080 9 (Some 1) hundred_bought vested_book = Inl err"
proof -
  have "trade_get vested_book 1 = Some (example_parcel\<lparr>st_ess_statement_id := Some 1\<rparr>)"
    by (simp add: trade_get_def vested_book_def)
  moreover have "operation_written (bk_fee_sales vested_book) (example_parcel\<lparr>st_ess_statement_id := Some 1\<rparr>)"
    by (simp add: operation_written_def trade_provenances_def column_set_def)
  ultimately show ?thesis
    by (rule operation_trades_frozen) (simp add: example_parcel_def example_trade_def)
qed

end
