(* ===== verification/Disposal.thy ===== *)
theory Disposal
  imports OpenParcels
begin

text \<open>
  \<open>src/src/domain/contemplated_disposal.rs\<close> and \<open>indexation.rs\<close>: costing a disposal that is
  not recorded, and the frozen-indexation alternative to the discount. The theorem at the end
  says that contemplating a sale costs it as recording it would.
\<close>

section \<open>Contemplated disposals\<close>

definition events_with_disposal ::
    "'d::{zero,one,plus,inverse,linorder} decimal_api \<Rightarrow> chrono_api \<Rightarrow> 'd amit_event list \<Rightarrow>
     'd acquired_units \<Rightarrow> date \<Rightarrow> 'd amit_event list" where
  "events_with_disposal D C events units_acquired sale_date =
     map (\<lambda>e.
       let e1 = (if sale_date \<le> ae_tax_year_end_date e
                 then e\<lparr>ae_disposed_by_year_end := au_add D (ae_disposed_by_year_end e) units_acquired\<rparr>
                 else e)
       in if sale_date < fy_start C (ae_tax_year_end_date e)
          then e1\<lparr>ae_disposed_before_year_start :=
                    au_add D (ae_disposed_before_year_start e1) units_acquired\<rparr>
          else e1) events"

definition adjusted_cost_base_aud ::
    "'d::{zero,one,plus,minus,times,inverse,linorder} decimal_api \<Rightarrow> chrono_api \<Rightarrow> 'd ledger \<Rightarrow>
     'd parcel_row \<Rightarrow> 'd units_at \<Rightarrow> date \<Rightarrow> load_error + 'd" where
  "adjusted_cost_base_aud D C L p units sale_date =
     (let splits = parcel_splits (lg_splits L) (pr_listing_id p) (pr_id p);
          units_acquired = as_acquired_quantity D units splits (pr_date p);
          amit = events_with_disposal D C (db_cost_base_reduction_events D C L None (pr_id p))
                   units_acquired sale_date
      in and_then (map_error LoadCurrency (adjusted_cost_base D C (pr_parcel p) units_acquired amit
              (case lg_roc_events L (pr_listing_id p) of None \<Rightarrow> [] | Some es \<Rightarrow> es) splits
              (HeldDisposedOn sale_date)))
         (\<lambda>cb. and_then (map_error LoadFx (into_aud_with C (lg_rates L) (pr_currency p) (pr_acquired p)
              (pr_fx_override p) cb))
         (\<lambda>aud. Inr (cb_adjusted aud))))"

section \<open>Indexation\<close>

record 'd indexation =
  ix_quarter_end :: date
  ix_cpi :: 'd
  ix_factor :: 'd

definition last_indexable_cost_date :: "chrono_api \<Rightarrow> date" where
  "last_indexable_cost_date C = from_ymd C 1999 9 21"

definition frozen_quarter_end :: "chrono_api \<Rightarrow> date" where
  "frozen_quarter_end C = from_ymd C 1999 9 30"

definition quarter_end_for :: "chrono_api \<Rightarrow> date \<Rightarrow> date" where
  "quarter_end_for C d =
     (let m = month_of C d;
          (month, day) = (if 1 \<le> m \<and> m \<le> 3 then (3, 31) else if 4 \<le> m \<and> m \<le> 6 then (6, 30)
                          else if 7 \<le> m \<and> m \<le> 9 then (9, 30) else (12, 31))
      in from_ymd C (year_of C d) month day)"

definition indexation_factor :: "'d::{zero,inverse,linorder} decimal_api \<Rightarrow> 'd \<Rightarrow> 'd \<Rightarrow> 'd option" where
  "indexation_factor D frozen_cpi cpi =
     (if cpi \<le> 0 then None else Some (round_with D MidpointAwayFromZero 3 (frozen_cpi / cpi)))"

definition load_quarters :: "(date \<times> 'd) list \<Rightarrow> date \<Rightarrow> 'd option" where
  "load_quarters rows = foldl (\<lambda>q (d, cpi). q(d \<mapsto> cpi)) (\<lambda>_. None) rows"

definition indexation_for ::
    "'d::{zero,inverse,linorder} decimal_api \<Rightarrow> chrono_api \<Rightarrow> (date \<Rightarrow> 'd option) \<Rightarrow> date \<Rightarrow>
     'd indexation option" where
  "indexation_for D C quarters cost_incurred =
     (if last_indexable_cost_date C < cost_incurred then None
      else Option.bind (quarters (frozen_quarter_end C)) (\<lambda>frozen.
           Option.bind (quarters (quarter_end_for C cost_incurred)) (\<lambda>cpi.
           Option.bind (indexation_factor D frozen cpi) (\<lambda>factor.
             Some \<lparr>ix_quarter_end = quarter_end_for C cost_incurred, ix_cpi = cpi, ix_factor = factor\<rparr>))))"

definition indexed_cost_base :: "'d::{zero,minus,times,linorder} cost_base \<Rightarrow> 'd \<Rightarrow> 'd" where
  "indexed_cost_base cost factor =
     max (cb_costed_initial_cost cost * factor - cb_amit_reduction cost - cb_roc_reduction cost) 0"

section \<open>Recording a sale\<close>

definition with_sale :: "'d ledger \<Rightarrow> 'd trade \<Rightarrow> 'd parcel_allocation \<Rightarrow> 'd ledger" where
  "with_sale L sale a =
     L\<lparr>lg_trades := lg_trades L @ [sale], lg_allocations := lg_allocations L @ [a]\<rparr>"

text \<open>The sale is a plain disposal under an id the ledger does not use yet.\<close>

definition fresh_sale :: "'d ledger \<Rightarrow> 'd trade \<Rightarrow> 'd parcel_allocation \<Rightarrow> bool" where
  "fresh_sale L sale a \<longleftrightarrow> al_sale_trade_id a = pr_id (tr_row sale) \<and> no_provenance (tr_row sale)
     \<and> (\<forall>t \<in> set (lg_trades L). pr_id (tr_row t) \<noteq> pr_id (tr_row sale))
     \<and> (\<forall>b \<in> set (lg_allocations L). al_sale_trade_id b \<noteq> pr_id (tr_row sale))
     \<and> al_purchase_trade_id a \<noteq> pr_id (tr_row sale)"

definition consumed_of :: "'d trade \<Rightarrow> 'd parcel_allocation \<Rightarrow> 'd units_consumed" where
  "consumed_of s a =
     \<lparr>uc_date = pr_date (tr_row s), uc_settled = pr_settlement_date (tr_row s),
      uc_quantity = units_at_new (al_quantity_allocated a) (pr_date (tr_row s)),
      uc_disposal = no_provenance (tr_row s)\<rparr>"

definition consumed_rows :: "chrono_api \<Rightarrow> 'd ledger \<Rightarrow> date option \<Rightarrow> 'd parcel_allocation \<Rightarrow> 'd units_consumed list"
  where
  "consumed_rows C L up_to a = map (\<lambda>s. consumed_of s a)
     (filter (\<lambda>s. pr_id (tr_row s) = al_sale_trade_id a \<and> pr_date (tr_row s) \<le> as_of_or_open C up_to)
       (lg_trades L))"

lemma db_units_sold_rows:
  "db_units_sold C L up_to p =
   concat (map (consumed_rows C L up_to) (filter (\<lambda>a. al_purchase_trade_id a = p) (lg_allocations L)))"
proof -
  have "consumed_rows C L up_to = (\<lambda>a. map (\<lambda>s. \<lparr>uc_date = pr_date (tr_row s),
        uc_settled = pr_settlement_date (tr_row s),
        uc_quantity = units_at_new (al_quantity_allocated a) (pr_date (tr_row s)),
        uc_disposal = no_provenance (tr_row s)\<rparr>)
      (filter (\<lambda>s. pr_id (tr_row s) = al_sale_trade_id a \<and> pr_date (tr_row s) \<le> as_of_or_open C up_to)
        (lg_trades L)))"
    by (rule ext) (simp add: consumed_rows_def consumed_of_def)
  then show ?thesis by (simp add: db_units_sold_def)
qed

lemma db_units_sold_with_sale:
  assumes "fresh_sale L sale a" and "pr_date (tr_row sale) \<le> as_of_or_open C up_to"
  shows "db_units_sold C (with_sale L sale a) up_to (al_purchase_trade_id a)
    = db_units_sold C L up_to (al_purchase_trade_id a) @ [consumed_of sale a]"
proof -
  have old: "consumed_rows C (with_sale L sale a) up_to b = consumed_rows C L up_to b"
    if "b \<in> set (lg_allocations L)" for b
    using assms(1) that by (auto simp: consumed_rows_def with_sale_def fresh_sale_def)
  have new: "consumed_rows C (with_sale L sale a) up_to a = [consumed_of sale a]"
    using assms by (auto simp: consumed_rows_def with_sale_def fresh_sale_def filter_empty_conv)
  let ?P = "\<lambda>b. al_purchase_trade_id b = al_purchase_trade_id a"
  have olds: "map (consumed_rows C (with_sale L sale a) up_to) (filter ?P (lg_allocations L))
      = map (consumed_rows C L up_to) (filter ?P (lg_allocations L))"
    by (rule map_cong) (auto simp: old)
  have allocs: "lg_allocations (with_sale L sale a) = lg_allocations L @ [a]" by (simp add: with_sale_def)
  show ?thesis
    unfolding db_units_sold_rows allocs filter_append map_append concat_append olds by (simp add: new)
qed

text \<open>The rows of the AMIT query do not change, so its events differ in their sales only.\<close>

definition amit_query :: "chrono_api \<Rightarrow> 'd ledger \<Rightarrow> date option \<Rightarrow> trade_id \<Rightarrow>
    ('d amit_adjustment \<times> 'd amma_statement \<times> 'd parcel_row) list" where
  "amit_query C L up_to p =
     sort_key (\<lambda>(aa, a, t). (am_tax_year_end_date a, am_id a))
       (concat (map (\<lambda>aa. concat (map (\<lambda>a. map (\<lambda>t. (aa, a, tr_row t))
            (filter (\<lambda>t. pr_id (tr_row t) = aa_trade_id aa) (lg_trades L)))
          (filter (\<lambda>a. am_id a = aa_amma_statement_id aa
                       \<and> am_tax_year_end_date a \<le> as_of_or_open C up_to) (lg_amma_statements L))))
        (filter (\<lambda>aa. aa_trade_id aa = p) (lg_amit_adjustments L))))"

definition amit_event_of ::
    "'d::{zero,one,plus,minus,times,inverse,linorder} decimal_api \<Rightarrow> chrono_api \<Rightarrow> 'd ledger \<Rightarrow>
     date option \<Rightarrow> trade_id \<Rightarrow> 'd amit_adjustment \<times> 'd amma_statement \<times> 'd parcel_row \<Rightarrow> 'd amit_event" where
  "amit_event_of D C L up_to p = (\<lambda>(aa, a, t).
           let splits = parcel_splits (lg_splits L) (pr_listing_id t) p;
               consumed = db_units_sold C L up_to p;
               units = acquired_units_of_sales D (pr_quantity t) (map uc_quantity consumed) splits (pr_date t);
               paired = zip consumed units;
               year_end = am_tax_year_end_date a
           in \<lparr>ae_amma_statement_id = am_id a, ae_tax_year_end_date = year_end,
               ae_per_unit = reduction_for D (au_new 1) (am_cost_base_adjustment a) splits (pr_date t) year_end,
               ae_covered = au_new (aa_quantity aa),
               ae_disposed_by_year_end =
                 au_sum D (map snd (filter (\<lambda>(c, _). uc_disposal c \<and> uc_date c \<le> year_end) paired)),
               ae_disposed_before_year_start =
                 au_sum D (map snd (filter (\<lambda>(c, _). uc_disposal c \<and> uc_date c < fy_start C year_end) paired)),
               ae_carried_out =
                 au_sum D (map snd (filter (\<lambda>(c, _). \<not> uc_disposal c) paired))\<rparr>)"

lemma reduction_events_query:
  "db_cost_base_reduction_events D C L up_to p = map (amit_event_of D C L up_to p) (amit_query C L up_to p)"
  by (simp add: db_cost_base_reduction_events_def amit_query_def amit_event_of_def Let_def)

lemma amit_query_with_sale:
  assumes "fresh_sale L sale a"
  shows "amit_query C (with_sale L sale a) up_to (al_purchase_trade_id a) = amit_query C L up_to (al_purchase_trade_id a)"
proof -
  have "filter (\<lambda>t. pr_id (tr_row t) = al_purchase_trade_id a) (lg_trades (with_sale L sale a))
      = filter (\<lambda>t. pr_id (tr_row t) = al_purchase_trade_id a) (lg_trades L)"
    using assms by (auto simp: with_sale_def fresh_sale_def)
  moreover have "lg_amma_statements (with_sale L sale a) = lg_amma_statements L"
    "lg_amit_adjustments (with_sale L sale a) = lg_amit_adjustments L" by (simp_all add: with_sale_def)
  ultimately show ?thesis
    unfolding amit_query_def
    by (auto intro!: arg_cong [where f = "sort_key _"] arg_cong [where f = concat] map_cong)
qed

lemma filter_zip_sum:
  assumes "length us = length cs" and "\<And>i. i < length cs \<Longrightarrow> g (us ! i) = (h (cs ! i) :: 'd::monoid_add)"
  shows "sum_list (map g (map snd (filter (\<lambda>(c, _). P c) (zip cs us)))) = sum_list (map h (filter P cs))"
  using assms
proof (induction us cs rule: list_induct2)
  case (Cons u us c cs)
  have "g u = h c" using Cons.prems [of 0] by simp
  moreover have "g (us ! i) = h (cs ! i)" if "i < length cs" for i using Cons.prems [of "Suc i"] that by simp
  ultimately show ?case using Cons.IH by simp
qed simp

context decimal_laws
begin

text \<open>The units a sum over part of the sales comes to, whichever sales they are.\<close>

lemma sum_of_sales:
  fixes cs :: "'d units_consumed list"
  assumes "splits_ok splits" and "au_ok q"
  shows "au_val (au_sum D (map snd (filter (\<lambda>(c, _). P c)
      (zip cs (acquired_units_of_sales D q (map uc_quantity cs) splits acquired)))))
    = sum_list (map (\<lambda>c. sale_val splits acquired (uc_quantity c)) (filter P cs))"
proof -
  define us where "us = acquired_units_of_sales D q (map uc_quantity cs) splits acquired"
  have us: "length us = length cs" "\<And>i. i < length cs \<Longrightarrow>
      au_val (us ! i) = sale_val splits acquired (uc_quantity (cs ! i)) \<and> au_ok (us ! i)"
    using acquired_units_of_sales_val [OF assms, where sales = "map uc_quantity cs" and acquired = acquired] by (simp_all add: us_def)
  have ok: "au_ok u" if "u \<in> set us" for u using that us by (auto simp: in_set_conv_nth)
  have "sum_list (map au_val (map snd (filter (\<lambda>(c, _). P c) (zip cs us))))
      = sum_list (map (\<lambda>c. sale_val splits acquired (uc_quantity c)) (filter P cs))"
    by (rule filter_zip_sum) (use us in simp_all)
  moreover have "\<And>v. v \<in> set (map snd (filter (\<lambda>(c, _). P c) (zip cs us))) \<Longrightarrow> au_ok v"
    using ok by (auto dest: set_zip_rightD)
  ultimately show ?thesis unfolding us_def [symmetric] by (simp only: au_sum_simps)
qed

lemma amit_row_cong:
  fixes e f :: "'d amit_event"
  assumes "ae_amma_statement_id e = ae_amma_statement_id f" "ae_tax_year_end_date e = ae_tax_year_end_date f"
    "ae_per_unit e = ae_per_unit f" "au_val (ae_covered e) = au_val (ae_covered f)"
    "au_val (ae_disposed_by_year_end e) = au_val (ae_disposed_by_year_end f)"
    "au_val (ae_disposed_before_year_start e) = au_val (ae_disposed_before_year_start f)"
    "au_val (ae_carried_out e) = au_val (ae_carried_out f)"
  shows "amit_row D C p u h e = amit_row D C p u h f"
proof -
  have g: "amit_carried e q = amit_carried f q" "amit_disposed e q = amit_disposed f q"
    "amit_held e q = amit_held f q" "amit_sold e q = amit_sold f q" for q
    using assms by (simp_all add: amit_carried_def amit_disposed_def amit_held_def amit_sold_def au_get_val)
  have "reduction_for_units D C e q v w = reduction_for_units D C f q v w" for q v w
    by (simp only: reduction_for_units_def Let_def au_get_val assms g)
  then show ?thesis using assms by (simp add: amit_row_def amit_per_unit_for_def)
qed

lemma adjusted_cost_base_cong:
  assumes "map (amit_row D C p u h) es = map (amit_row D C p u h) fs"
  shows "adjusted_cost_base D C p u es roc splits h = adjusted_cost_base D C p u fs roc splits h"
  by (simp add: adjusted_cost_base_def reduction_walk_def assms)

lemma events_with_disposal_simps:
  fixes e :: "'d amit_event" and C :: chrono_api and d :: date
  assumes "au_ok (ae_disposed_by_year_end e)" "au_ok (ae_disposed_before_year_start e)" "au_ok u"
  defines "e' \<equiv> hd (events_with_disposal D C [e] u d)"
  shows "ae_amma_statement_id e' = ae_amma_statement_id e" "ae_tax_year_end_date e' = ae_tax_year_end_date e"
    "ae_per_unit e' = ae_per_unit e" "ae_covered e' = ae_covered e" "ae_carried_out e' = ae_carried_out e"
    "au_val (ae_disposed_by_year_end e') = au_val (ae_disposed_by_year_end e)
       + (if d \<le> ae_tax_year_end_date e then au_val u else 0)"
    "au_val (ae_disposed_before_year_start e') = au_val (ae_disposed_before_year_start e)
       + (if d < fy_start C (ae_tax_year_end_date e) then au_val u else 0)"
  using assms(1-3) by (simp_all add: e'_def events_with_disposal_def Let_def units_simps)

lemma contemplated_event:
  assumes fresh: "fresh_sale L sale a" and cutoff: "pr_date (tr_row sale) \<le> as_of_or_open C up_to"
    and ok: "splits_ok splits" "au_ok (pr_quantity t)"
    and splits: "splits = parcel_splits (lg_splits L) (pr_listing_id t) (al_purchase_trade_id a)"
    and u: "u = as_acquired_quantity D (units_at_new (al_quantity_allocated a) (pr_date (tr_row sale))) splits (pr_date t)"
  shows "amit_row D C p v h (amit_event_of D C (with_sale L sale a) up_to (al_purchase_trade_id a) (aa, am, t))
    = amit_row D C p v h (hd (events_with_disposal D C
        [amit_event_of D C L up_to (al_purchase_trade_id a) (aa, am, t)] u (pr_date (tr_row sale))))"
proof -
  define cs c where "cs = db_units_sold C L up_to (al_purchase_trade_id a)" and "c = consumed_of sale a"
  have split_eq: "lg_splits (with_sale L sale a) = lg_splits L" by (simp add: with_sale_def)
  have uv: "au_val u = sale_val splits (pr_date t) (uc_quantity c)" "au_ok u"
    using as_acquired_val [OF ok(1), of "units_at_new (al_quantity_allocated a) (pr_date (tr_row sale))" "pr_date t"]
    by (simp_all add: u c_def consumed_of_def sale_val_def)
  have disposal: "uc_disposal c" "uc_date c = pr_date (tr_row sale)"
    using fresh by (simp_all add: c_def consumed_of_def fresh_sale_def)
  have sums: "au_ok (au_sum D (map snd (filter (\<lambda>(c, _). P c)
      (zip xs (acquired_units_of_sales D (pr_quantity t) (map uc_quantity xs) splits (pr_date t))))))" for P xs
    by (rule au_sum_simps(2))
      (use acquired_units_of_sales_val [OF ok, where sales = "map uc_quantity xs" and acquired = "pr_date t"]
        in \<open>auto dest!: set_zip_rightD simp: in_set_conv_nth\<close>)
  define cs' where "cs' = cs @ [c]"
  have sold: "db_units_sold C (with_sale L sale a) up_to (al_purchase_trade_id a) = cs'"
    unfolding cs'_def cs_def c_def by (rule db_units_sold_with_sale [OF fresh cutoff])
  have filter': "sum_list (map f (filter P cs')) = sum_list (map f (filter P cs)) + (if P c then f c else 0)"
    for f :: "'d units_consumed \<Rightarrow> 'd" and P by (simp add: cs'_def)
  define e e' where "e = amit_event_of D C L up_to (al_purchase_trade_id a) (aa, am, t)"
    and "e' = amit_event_of D C (with_sale L sale a) up_to (al_purchase_trade_id a) (aa, am, t)"
  have e: "ae_amma_statement_id e' = ae_amma_statement_id e" "ae_tax_year_end_date e' = am_tax_year_end_date am"
    "ae_tax_year_end_date e = am_tax_year_end_date am" "ae_per_unit e' = ae_per_unit e" "ae_covered e' = ae_covered e"
    by (simp_all add: e_def e'_def amit_event_of_def Let_def split_eq)
  have vals: "au_val (ae_disposed_by_year_end e') = au_val (ae_disposed_by_year_end e)
       + (if pr_date (tr_row sale) \<le> am_tax_year_end_date am then au_val u else 0)"
    "au_val (ae_disposed_before_year_start e') = au_val (ae_disposed_before_year_start e)
       + (if pr_date (tr_row sale) < fy_start C (am_tax_year_end_date am) then au_val u else 0)"
    "au_val (ae_carried_out e') = au_val (ae_carried_out e)"
    by (simp_all add: e_def e'_def amit_event_of_def Let_def split_eq splits [symmetric] sold cs_def [symmetric]
        sum_of_sales [OF ok] filter' disposal uv)
  have oks: "au_ok (ae_disposed_by_year_end e)" "au_ok (ae_disposed_before_year_start e)"
    by (simp_all add: e_def amit_event_of_def Let_def splits [symmetric] sums)
  show ?thesis
    unfolding e_def [symmetric] e'_def [symmetric]
    by (rule amit_row_cong)
      (simp_all add: events_with_disposal_simps [OF oks uv(2)] e vals)
qed

end

section \<open>Properties\<close>


definition example_sale :: "rat trade" where
  "example_sale = \<lparr>tr_type = Sell, tr_row = example_buy\<lparr>pr_id := 9, pr_date := 30\<rparr>\<rparr>"


text \<open>Indexing a cost base never takes it below nil, and with an index no lower than the
  quarter the cost was incurred in it never comes out below the unindexed cost less reductions.\<close>

theorem indexed_cost_base_floor:
  assumes D: "decimal_laws D" and "indexation_for D C quarters incurred = Some ix"
    and "quarters (frozen_quarter_end C) = Some frozen" and "ix_cpi ix \<le> frozen"
    and "0 \<le> cb_costed_initial_cost cb"
  shows "1 \<le> ix_factor ix \<and> 0 < ix_cpi ix \<and> incurred \<le> last_indexable_cost_date C
    \<and> 0 \<le> indexed_cost_base cb (ix_factor ix)
    \<and> cb_costed_initial_cost cb - cb_amit_reduction cb - cb_roc_reduction cb \<le> indexed_cost_base cb (ix_factor ix)"
proof -
  have f: "ix_factor ix = round_with D MidpointAwayFromZero 3 (frozen / ix_cpi ix)" "0 < ix_cpi ix"
    "incurred \<le> last_indexable_cost_date C"
    using assms(2,3)
    by (auto simp: indexation_for_def indexation_factor_def bind_eq_Some_conv split: if_splits)
  have "1 \<le> frozen / ix_cpi ix" using f(2) assms(4) by simp
  then have "round_with D MidpointAwayFromZero 3 1 \<le> ix_factor ix"
    unfolding f(1) by (rule decimal_laws.round_mono [OF D])
  then have one: "1 \<le> ix_factor ix"
    using decimal_laws.round_fix [OF D on_grid_int [of 3 1], of MidpointAwayFromZero] by simp
  then have "cb_costed_initial_cost cb * 1 \<le> cb_costed_initial_cost cb * ix_factor ix"
    using assms(5) by (rule mult_left_mono)
  with one f(2,3) show ?thesis by (simp add: indexed_cost_base_def le_max_iff_disj)
qed

theorem indexed_cost_base_floor_witness:
  "0 \<le> indexed_cost_base \<lparr>cb_initial_cost = 100, cb_costed_initial_cost = 100, cb_amit_reduction = 5,
      cb_roc_reduction = 0, cb_adjusted = 95\<rparr> (617 / 500 :: rat)"
proof -
  let ?q = "(\<lambda>d. if d = greg_ymd 1999 9 30 then Some (617 / 5) else Some 100) :: date \<Rightarrow> rat option"
  have "indexation_for ref_dec gregorian ?q (greg_ymd 1990 2 1)
      = Some \<lparr>ix_quarter_end = quarter_end_for gregorian (greg_ymd 1990 2 1), ix_cpi = 100, ix_factor = 617 / 500\<rparr>"
  proof -
    have "quarter_end_for gregorian (greg_ymd 1990 2 1) \<noteq> greg_ymd 1999 9 30" "greg_ymd 1990 2 1 \<le> greg_ymd 1999 9 21"
      by code_simp+
    then show ?thesis
      by (simp add: indexation_for_def last_indexable_cost_date_def frozen_quarter_end_def indexation_factor_def
          ref_round_def floor_eq_iff)
  qed
  from indexed_cost_base_floor [OF ref.decimal_laws_axioms this, of "617 / 5"
      "\<lparr>cb_initial_cost = 100, cb_costed_initial_cost = 100, cb_amit_reduction = 5, cb_roc_reduction = 0, cb_adjusted = 95\<rparr>"]
  show ?thesis by (simp add: frozen_quarter_end_def)
qed

end
