(* ===== verification/RealisedGains.thy ===== *)
theory RealisedGains
  imports Disposal "HOL-Library.AList" "HOL-Library.Product_Lexorder"
begin

text \<open>
  \<open>src/src/reports/realised_gains.rs\<close>: the realised gain or loss of every disposal, apportioned
  over the parcels it drew on, and the whole-cent figures the tax report publishes. The loop
  over the allocations is a fold that can fail; its seven hash maps keyed by the sale are one
  association list of accumulators, in the order the sales are first met.
\<close>

section \<open>Rows\<close>

datatype disposal_id = SellDisposal trade_id | RightsSaleDisposal int

fun disposal_rank :: "disposal_id \<Rightarrow> nat \<times> int" where
  "disposal_rank (SellDisposal i) = (0, i)"
| "disposal_rank (RightsSaleDisposal i) = (1, i)"

text \<open>The derived \<open>Ord\<close>: the variants in their order of declaration, then the id.\<close>

instantiation disposal_id :: linorder
begin

definition less_eq_disposal_id :: "disposal_id \<Rightarrow> disposal_id \<Rightarrow> bool" where
  "less_eq_disposal_id a b \<longleftrightarrow> disposal_rank a \<le> disposal_rank b"

definition less_disposal_id :: "disposal_id \<Rightarrow> disposal_id \<Rightarrow> bool" where
  "less_disposal_id a b \<longleftrightarrow> disposal_rank a < disposal_rank b"

instance
proof
  fix a b :: disposal_id
  assume "a \<le> b" and "b \<le> a"
  then show "a = b" by (cases a; cases b) (auto simp: less_eq_disposal_id_def)
qed (auto simp: less_eq_disposal_id_def less_disposal_id_def)

end

fun disposal_sell :: "disposal_id \<Rightarrow> trade_id option" where
  "disposal_sell (SellDisposal i) = Some i"
| "disposal_sell (RightsSaleDisposal _) = None"

record 'd parcel_detail =
  pd_purchase_trade_id :: trade_id
  pd_acquisition_date :: date
  pd_units :: 'd
  pd_cost_base :: 'd
  pd_proceeds :: 'd
  pd_capital_gain_loss :: 'd
  pd_discount_eligible :: bool
  pd_indexation_eligible :: bool
  pd_indexed_cost_base :: "'d option"

record 'd realised_gain_loss =
  rg_disposal :: disposal_id
  rg_listing_id :: listing_id
  rg_holding_account_id :: account_id
  rg_sale_date :: date
  rg_proceeds :: 'd
  rg_cost_base :: 'd
  rg_capital_gain_loss :: 'd
  rg_discount_eligible_gain :: 'd
  rg_non_discountable_gain :: 'd
  rg_capital_loss :: 'd
  rg_parcels :: "'d parcel_detail list"

section \<open>Whole cents\<close>

record 'd disposal_cents =
  dc_proceeds :: 'd
  dc_cost_base :: 'd
  dc_discount_eligible_gain :: 'd
  dc_non_discountable_gain :: 'd
  dc_capital_loss :: 'd

definition no_cents :: "'d::zero disposal_cents" where
  "no_cents = \<lparr>dc_proceeds = 0, dc_cost_base = 0, dc_discount_eligible_gain = 0,
     dc_non_discountable_gain = 0, dc_capital_loss = 0\<rparr>"

text \<open>One turn of the closure: the figures so far and the running proceeds, exact and rounded.\<close>

definition cents_step ::
    "'d::{zero,plus,minus,linorder} decimal_api \<Rightarrow> 'd disposal_cents \<times> 'd \<times> 'd \<Rightarrow> 'd \<times> 'd \<times> bool \<Rightarrow>
     ('d \<times> 'd) \<times> 'd disposal_cents \<times> 'd \<times> 'd" where
  "cents_step D = (\<lambda>(totals, running, rounded_before) (proceeds, cost_base, eligible).
     let running' = running + proceeds;
         rounded_running = to_cents D running';
         proceeds' = rounded_running - rounded_before;
         cost_base' = to_cents D cost_base;
         gain = proceeds' - cost_base';
         totals1 =
           (if 0 < gain \<and> eligible
            then totals\<lparr>dc_discount_eligible_gain := dc_discount_eligible_gain totals + gain\<rparr>
            else if 0 < gain
            then totals\<lparr>dc_non_discountable_gain := dc_non_discountable_gain totals + gain\<rparr>
            else totals\<lparr>dc_capital_loss := dc_capital_loss totals - gain\<rparr>);
         totals2 = totals1\<lparr>dc_proceeds := dc_proceeds totals1 + proceeds',
                           dc_cost_base := dc_cost_base totals1 + cost_base'\<rparr>
     in ((proceeds', cost_base'), totals2, running', rounded_running))"

definition parcels_at_the_cent ::
    "'d::{zero,plus,minus,linorder} decimal_api \<Rightarrow> ('d \<times> 'd \<times> bool) list \<Rightarrow>
     ('d \<times> 'd) list \<times> 'd disposal_cents" where
  "parcels_at_the_cent D ps =
     (let (rounded, totals, _) = walk (cents_step D) (no_cents, 0, 0) ps in (rounded, totals))"

definition parcel_at_the_cent ::
    "'d::{zero,minus} decimal_api \<Rightarrow> 'd parcel_detail \<Rightarrow> 'd \<times> 'd \<Rightarrow> 'd parcel_detail" where
  "parcel_at_the_cent D p = (\<lambda>(proceeds, cost_base).
     p\<lparr>pd_proceeds := proceeds, pd_cost_base := cost_base, pd_capital_gain_loss := proceeds - cost_base,
       pd_indexed_cost_base := map_option (to_cents D) (pd_indexed_cost_base p)\<rparr>)"

definition at_the_cent ::
    "'d::{zero,plus,minus,linorder} decimal_api \<Rightarrow> 'd realised_gain_loss \<Rightarrow> 'd realised_gain_loss" where
  "at_the_cent D r =
     (if rg_parcels r = [] then
        (let proceeds = to_cents D (rg_proceeds r); cost_base = to_cents D (rg_cost_base r)
         in r\<lparr>rg_proceeds := proceeds, rg_cost_base := cost_base,
              rg_capital_gain_loss := proceeds - cost_base,
              rg_discount_eligible_gain := to_cents D (rg_discount_eligible_gain r),
              rg_non_discountable_gain := to_cents D (rg_non_discountable_gain r),
              rg_capital_loss := to_cents D (rg_capital_loss r)\<rparr>)
      else
        (let (rounded, totals) = parcels_at_the_cent D
               (map (\<lambda>p. (pd_proceeds p, pd_cost_base p, pd_discount_eligible p)) (rg_parcels r))
         in r\<lparr>rg_parcels := map2 (parcel_at_the_cent D) (rg_parcels r) rounded,
              rg_proceeds := dc_proceeds totals, rg_cost_base := dc_cost_base totals,
              rg_capital_gain_loss := dc_proceeds totals - dc_cost_base totals,
              rg_discount_eligible_gain := dc_discount_eligible_gain totals,
              rg_non_discountable_gain := dc_non_discountable_gain totals,
              rg_capital_loss := dc_capital_loss totals\<rparr>))"

section \<open>Apportioning a total by units\<close>

text \<open>
  The digit loop of \<open>share_grid_scale\<close>, with its number of turns bounded: a \<open>Decimal\<close> has at
  most 29 integer digits, and from 27 on the count no longer changes the result
  (\<open>grid_places_fuel\<close> below).
\<close>

fun integer_digits :: "'d::{one,inverse,linorder} decimal_api \<Rightarrow> nat \<Rightarrow> 'd \<Rightarrow> nat" where
  "integer_digits D 0 whole = 0"
| "integer_digits D (Suc fuel) whole =
     (if 1 \<le> whole then Suc (integer_digits D fuel (dtrunc D (whole / dnew D 10 0))) else 0)"

definition share_grid_scale :: "'d::{one,abs,inverse,linorder} decimal_api \<Rightarrow> 'd \<Rightarrow> nat" where
  "share_grid_scale D whole =
     min (max (27 - integer_digits D 29 (dtrunc D \<bar>whole\<bar>)) (normal_scale D whole)) 28"

record 'd share =
  sh_share :: 'd
  sh_entitled :: 'd

definition cumulative_share ::
    "'d::{one,abs,minus,times,inverse,linorder} decimal_api \<Rightarrow> 'd \<Rightarrow> 'd \<Rightarrow> 'd \<Rightarrow> 'd \<Rightarrow> 'd share" where
  "cumulative_share D whole units_so_far units_total entitled_before =
     (let entitled =
        (if units_so_far = units_total then whole
         else round_with D MidpointNearestEven (share_grid_scale D whole)
                (mul_div D [whole, units_so_far] units_total))
      in \<lparr>sh_share = entitled - entitled_before, sh_entitled = entitled\<rparr>)"

section \<open>The report's inputs\<close>

record 'd scrip_terms =
  st_cash_per_unit :: "'d option"
  st_market_value :: "'d option"
  st_new_units :: "'d option"
  st_old_units :: "'d option"

record 'd sell_info =
  si_id :: trade_id
  si_listing_id :: listing_id
  si_holding_account_id :: account_id
  si_date :: date
  si_quantity :: 'd
  si_average_price :: 'd
  si_brokerage :: 'd
  si_gst_on_brokerage :: 'd
  si_currency :: currency_code
  si_fx_rate :: 'd
  si_spot_fx_rate :: "'d option"
  si_scrip :: "'d scrip_terms"

record 'd rights_sale_info =
  rs_id :: int
  rs_listing_id :: listing_id
  rs_holding_account_id :: account_id
  rs_date :: date
  rs_units :: 'd
  rs_proceeds_per_right :: 'd
  rs_rights_cost :: 'd
  rs_currency :: currency_code
  rs_fx_rate :: 'd

record 'd rights_allocation =
  ra_rights_sale_id :: int
  ra_purchase_trade_id :: trade_id
  ra_units :: 'd

record 'd report_data =
  rd_sells :: "trade_id \<rightharpoonup> 'd sell_info"
  rd_buys :: "trade_id \<rightharpoonup> 'd parcel_row"
  rd_allocations :: "'d parcel_allocation list"
  rd_rights_sales :: "'d rights_sale_info list"
  rd_rights_allocations :: "'d rights_allocation list"
  rd_cba_reduction :: "trade_id \<Rightarrow> 'd amit_event list"
  rd_roc_events :: "listing_id \<rightharpoonup> 'd roc_event list"
  rd_split_events :: "listing_id \<rightharpoonup> 'd listing_splits"
  rd_acquired_units :: "int \<rightharpoonup> 'd acquired_units"
  rd_fx :: "'d fx_rates"
  rd_cpi :: "date \<Rightarrow> 'd option"

datatype report_error =
    ReportFx fx_error
  | ReportCurrency currency_mismatch
  | ScripTermMissing trade_id string

definition si_fx_override :: "'d sell_info \<Rightarrow> 'd fx_override" where
  "si_fx_override s = fx_override_from_trade (si_fx_rate s) (si_spot_fx_rate s)"

definition scrip_cash_apportionment ::
    "trade_id \<Rightarrow> 'd::{plus,times} scrip_terms \<Rightarrow> report_error + ('d \<times> 'd) option" where
  "scrip_cash_apportionment sale_id t =
     (case st_cash_per_unit t of
        None \<Rightarrow> Inr None
      | Some cash \<Rightarrow>
          and_then (ok_or (ScripTermMissing sale_id ''scrip_market_value'') (st_market_value t)) (\<lambda>mv.
          and_then (ok_or (ScripTermMissing sale_id ''scrip_new_units'') (st_new_units t)) (\<lambda>new.
          and_then (ok_or (ScripTermMissing sale_id ''scrip_old_units'') (st_old_units t)) (\<lambda>old.
          Inr (Some (cash * old, cash * old + mv * new))))))"


section \<open>Sells\<close>

text \<open>What the hash maps hold of one sale; a sale not yet met has none of it.\<close>

record 'd sale_acc =
  ac_units_so_far :: 'd
  ac_entitled :: 'd
  ac_cost_base :: 'd
  ac_discount_gain :: 'd
  ac_non_discount_gain :: 'd
  ac_loss :: 'd
  ac_parcels :: "'d parcel_detail list"

definition empty_acc :: "'d::zero sale_acc" where
  "empty_acc = \<lparr>ac_units_so_far = 0, ac_entitled = 0, ac_cost_base = 0, ac_discount_gain = 0,
     ac_non_discount_gain = 0, ac_loss = 0, ac_parcels = []\<rparr>"

definition acc_of :: "(trade_id \<times> 'd::zero sale_acc) list \<Rightarrow> trade_id \<Rightarrow> 'd sale_acc" where
  "acc_of accs sale = (case map_of accs sale of None \<Rightarrow> empty_acc | Some a \<Rightarrow> a)"

definition sale_total ::
    "chrono_api \<Rightarrow> 'd::{one,minus,times,inverse} fx_rates \<Rightarrow> 'd sell_info \<Rightarrow> fx_error + 'd" where
  "sale_total C rates s =
     fx_to_aud C rates (si_average_price s * si_quantity s - si_brokerage s - si_gst_on_brokerage s)
       (si_currency s) (si_date s) (si_fx_override s)"

text \<open>The allocation's proceeds, with the units and the entitlement carried to the next.\<close>

definition alloc_proceeds ::
    "'d::{zero,one,abs,plus,minus,times,inverse,linorder} decimal_api \<Rightarrow> chrono_api \<Rightarrow> 'd fx_rates \<Rightarrow>
     'd sell_info \<Rightarrow> 'd \<Rightarrow> 'd sale_acc \<Rightarrow> fx_error + 'd \<times> 'd sale_acc" where
  "alloc_proceeds D C rates s qty acc =
     (if 0 < si_quantity s then
        map_result (\<lambda>whole.
          let units = ac_units_so_far acc + qty;
              step = cumulative_share D whole units (si_quantity s) (ac_entitled acc)
          in (sh_share step, acc\<lparr>ac_units_so_far := units, ac_entitled := sh_entitled step\<rparr>))
          (sale_total C rates s)
      else Inr (0, acc))"

definition cash_share ::
    "'d::{one,minus,times,inverse} decimal_api \<Rightarrow> ('d \<times> 'd) option \<Rightarrow> 'd \<Rightarrow> 'd" where
  "cash_share D terms cost =
     (case terms of None \<Rightarrow> cost | Some (num, den) \<Rightarrow> ap_share (apportion D cost num den))"

text \<open>A gain or a loss goes to one of three totals; nil goes to none.\<close>

definition classify ::
    "bool \<Rightarrow> 'd::{zero,plus,uminus,linorder} \<Rightarrow> 'd sale_acc \<Rightarrow> 'd sale_acc" where
  "classify eligible gain acc =
     (if 0 < gain then
        (if eligible then acc\<lparr>ac_discount_gain := ac_discount_gain acc + gain\<rparr>
         else acc\<lparr>ac_non_discount_gain := ac_non_discount_gain acc + gain\<rparr>)
      else if gain < 0 then acc\<lparr>ac_loss := ac_loss acc + (- gain)\<rparr>
      else acc)"

definition record_parcel :: "'d::plus parcel_detail \<Rightarrow> 'd sale_acc \<Rightarrow> 'd sale_acc" where
  "record_parcel p acc =
     acc\<lparr>ac_cost_base := ac_cost_base acc + pd_cost_base p, ac_parcels := ac_parcels acc @ [p]\<rparr>"

definition alloc_cost_base ::
    "'d::{zero,one,plus,minus,times,inverse,linorder} decimal_api \<Rightarrow> chrono_api \<Rightarrow> 'd report_data \<Rightarrow>
     'd parcel_allocation \<Rightarrow> 'd sell_info \<Rightarrow> 'd parcel_row \<Rightarrow> report_error + 'd cost_base" where
  "alloc_cost_base D C R a s b =
     (let splits = parcel_splits (rd_split_events R) (pr_listing_id b) (pr_id b);
          units = (case rd_acquired_units R (al_id a) of
              Some u \<Rightarrow> u
            | None \<Rightarrow> as_acquired_quantity D (units_at_new (al_quantity_allocated a) (si_date s)) splits (pr_date b))
      in and_then (map_error ReportCurrency (adjusted_cost_base D C (pr_parcel b) units
              (rd_cba_reduction R (al_purchase_trade_id a))
              (case rd_roc_events R (pr_listing_id b) of None \<Rightarrow> [] | Some es \<Rightarrow> es) splits
              (HeldDisposedOn (si_date s))))
         (\<lambda>cb. map_error ReportFx
              (into_aud_with C (rd_fx R) (pr_currency b) (pr_acquired b) (pr_fx_override b) cb)))"

text \<open>The body of the loop for an allocation whose sale and parcel are both in the report.\<close>

definition sell_parcel ::
    "'d::{zero,one,abs,plus,minus,uminus,times,inverse,linorder} decimal_api \<Rightarrow> chrono_api \<Rightarrow>
     'd report_data \<Rightarrow> 'd parcel_allocation \<Rightarrow> 'd sell_info \<Rightarrow> 'd parcel_row \<Rightarrow> 'd sale_acc \<Rightarrow>
     report_error + 'd sale_acc" where
  "sell_parcel D C R a s b acc =
     and_then (map_error ReportFx (alloc_proceeds D C (rd_fx R) s (al_quantity_allocated a) acc)) (\<lambda>(proceeds, acc1).
     and_then (alloc_cost_base D C R a s b) (\<lambda>cb.
     and_then (scrip_cash_apportionment (si_id s) (si_scrip s)) (\<lambda>terms.
     let cost = cash_share D terms (cb_adjusted cb);
         gain = proceeds - cost;
         ix = (if 0 < gain then indexation_for D C (rd_cpi R) (pr_date b) else None);
         indexed = map_option (\<lambda>i. cash_share D terms (indexed_cost_base cb (ix_factor i))) ix;
         eligible = discount_eligible C (pr_acquired b) (si_date s)
     in Inr (record_parcel
               \<lparr>pd_purchase_trade_id = al_purchase_trade_id a, pd_acquisition_date = pr_acquired b,
                pd_units = al_quantity_allocated a, pd_cost_base = cost, pd_proceeds = proceeds,
                pd_capital_gain_loss = gain, pd_discount_eligible = eligible,
                pd_indexation_eligible = (indexed \<noteq> None), pd_indexed_cost_base = indexed\<rparr>
               (classify eligible gain acc1)))))"

definition sell_step ::
    "'d::{zero,one,abs,plus,minus,uminus,times,inverse,linorder} decimal_api \<Rightarrow> chrono_api \<Rightarrow>
     'd report_data \<Rightarrow> (trade_id \<times> 'd sale_acc) list \<Rightarrow> 'd parcel_allocation \<Rightarrow>
     report_error + (trade_id \<times> 'd sale_acc) list" where
  "sell_step D C R accs a =
     (case rd_sells R (al_sale_trade_id a) of
        None \<Rightarrow> Inr accs
      | Some s \<Rightarrow>
          (case rd_buys R (al_purchase_trade_id a) of
             None \<Rightarrow> Inr accs
           | Some b \<Rightarrow>
               map_result (\<lambda>acc. AList.update (al_sale_trade_id a) acc accs)
                 (sell_parcel D C R a s b (acc_of accs (al_sale_trade_id a)))))"

definition parcel_order :: "'d parcel_detail \<Rightarrow> date \<times> trade_id" where
  "parcel_order p = (pd_acquisition_date p, pd_purchase_trade_id p)"

definition disposal_row ::
    "disposal_id \<Rightarrow> listing_id \<Rightarrow> account_id \<Rightarrow> date \<Rightarrow> 'd::minus sale_acc \<Rightarrow> 'd realised_gain_loss" where
  "disposal_row disposal listing account d acc =
     \<lparr>rg_disposal = disposal, rg_listing_id = listing, rg_holding_account_id = account, rg_sale_date = d,
      rg_proceeds = ac_entitled acc, rg_cost_base = ac_cost_base acc,
      rg_capital_gain_loss = ac_entitled acc - ac_cost_base acc,
      rg_discount_eligible_gain = ac_discount_gain acc,
      rg_non_discountable_gain = ac_non_discount_gain acc, rg_capital_loss = ac_loss acc,
      rg_parcels = sort_key parcel_order (ac_parcels acc)\<rparr>"

definition sell_rows ::
    "'d::minus report_data \<Rightarrow> (trade_id \<times> 'd sale_acc) list \<Rightarrow> 'd realised_gain_loss list" where
  "sell_rows R accs =
     concat (map (\<lambda>(i, acc). case rd_sells R i of
         None \<Rightarrow> []
       | Some s \<Rightarrow> [disposal_row (SellDisposal i) (si_listing_id s) (si_holding_account_id s) (si_date s) acc])
       accs)"

section \<open>Rights sales\<close>

text \<open>
  The loop over a rights sale's anchoring allocations. Its cost base is an entitlement as its
  proceeds are, so the accumulator's cost base is the running one rather than a sum.
\<close>

definition rights_parcel ::
    "'d::{zero,one,abs,plus,minus,uminus,times,inverse,linorder} decimal_api \<Rightarrow> chrono_api \<Rightarrow>
     'd report_data \<Rightarrow> 'd rights_sale_info \<Rightarrow> 'd \<Rightarrow> 'd \<Rightarrow> 'd sale_acc \<Rightarrow> 'd rights_allocation \<Rightarrow> 'd sale_acc"
  where
  "rights_parcel D C R s total_proceeds total_cost acc a =
     (case rd_buys R (ra_purchase_trade_id a) of
        None \<Rightarrow> acc
      | Some b \<Rightarrow>
          (let units = ac_units_so_far acc + ra_units a;
               p = cumulative_share D total_proceeds units (rs_units s) (ac_entitled acc);
               c = cumulative_share D total_cost units (rs_units s) (ac_cost_base acc);
               (proceeds, cost, proceeds_entitled, cost_entitled) =
                 (if 0 < rs_units s then (sh_share p, sh_share c, sh_entitled p, sh_entitled c)
                  else (0, 0, ac_entitled acc, ac_cost_base acc));
               gain = proceeds - cost;
               eligible = discount_eligible C (pr_acquired b) (rs_date s);
               acc1 = classify eligible gain
                 (acc\<lparr>ac_units_so_far := units, ac_entitled := proceeds_entitled, ac_cost_base := cost_entitled\<rparr>)
           in acc1\<lparr>ac_parcels := ac_parcels acc1 @
                [\<lparr>pd_purchase_trade_id = ra_purchase_trade_id a, pd_acquisition_date = pr_acquired b,
                  pd_units = ra_units a, pd_cost_base = cost, pd_proceeds = proceeds,
                  pd_capital_gain_loss = gain, pd_discount_eligible = eligible,
                  pd_indexation_eligible = False, pd_indexed_cost_base = None\<rparr>]\<rparr>))"

definition rights_row ::
    "'d::{zero,one,abs,plus,minus,uminus,times,inverse,linorder} decimal_api \<Rightarrow> chrono_api \<Rightarrow>
     'd report_data \<Rightarrow> 'd rights_sale_info \<Rightarrow> report_error + 'd realised_gain_loss" where
  "rights_row D C R s =
     and_then (map_error ReportFx (fx_to_aud C (rd_fx R) (rs_proceeds_per_right s * rs_units s)
         (rs_currency s) (rs_date s) (FxFallback (rs_fx_rate s)))) (\<lambda>total_proceeds.
     and_then (map_error ReportFx (fx_to_aud C (rd_fx R) (rs_rights_cost s) (rs_currency s) (rs_date s)
         (FxFallback (rs_fx_rate s)))) (\<lambda>total_cost.
     Inr (disposal_row (RightsSaleDisposal (rs_id s)) (rs_listing_id s) (rs_holding_account_id s) (rs_date s)
       (foldl (rights_parcel D C R s total_proceeds total_cost) empty_acc
         (filter (\<lambda>a. ra_rights_sale_id a = rs_id s) (rd_rights_allocations R))))))"

section \<open>The report\<close>

definition row_order :: "'d realised_gain_loss \<Rightarrow> date \<times> disposal_id" where
  "row_order r = (rg_sale_date r, rg_disposal r)"

definition compute_realised_gains ::
    "'d::{zero,one,abs,plus,minus,uminus,times,inverse,linorder} decimal_api \<Rightarrow> chrono_api \<Rightarrow>
     'd report_data \<Rightarrow> report_error + 'd realised_gain_loss list" where
  "compute_realised_gains D C R =
     and_then (try_foldl (sell_step D C R) [] (rd_allocations R)) (\<lambda>accs.
     and_then (try_map (rights_row D C R) (rd_rights_sales R)) (\<lambda>rights.
     Inr (sort_key row_order (sell_rows R accs @ rights))))"


text \<open>
  \<open>load_report_data\<close>: the joins over the decoded tables. Of a corporate action the report
  reads its listing, its currency and its scrip terms; collecting rows into a hash map keeps
  the last of a key.
\<close>

record 'd action_terms =
  at_listing_id :: listing_id
  at_currency :: currency_code
  at_scrip :: "'d scrip_terms"

record 'd rights_sale =
  rsl_id :: int
  rsl_rights_action_id :: action_id
  rsl_holding_account_id :: account_id
  rsl_date :: date
  rsl_units :: 'd
  rsl_proceeds_per_right :: 'd
  rsl_rights_cost :: 'd
  rsl_fx_rate :: 'd

record 'd disposals_ledger = "'d ledger" +
  lg_actions :: "action_id \<rightharpoonup> 'd action_terms"
  lg_rights_sales :: "'d rights_sale list"
  lg_rights_allocations :: "'d rights_allocation list"
  lg_cpi :: "(date \<times> 'd) list"

definition hash_map :: "('k \<times> 'v) list \<Rightarrow> 'k \<rightharpoonup> 'v" where
  "hash_map xs = map_of (rev xs)"

definition no_scrip_terms :: "'d scrip_terms" where
  "no_scrip_terms =
     \<lparr>st_cash_per_unit = None, st_market_value = None, st_new_units = None, st_old_units = None\<rparr>"

definition scrip_terms_of :: "'d disposals_ledger \<Rightarrow> 'd parcel_row \<Rightarrow> 'd scrip_terms" where
  "scrip_terms_of L p =
     (case Option.bind (pr_scrip_action_id p) (lg_actions L) of
        None \<Rightarrow> no_scrip_terms | Some t \<Rightarrow> at_scrip t)"

text \<open>A sell the report does not show: wholly rolled over, a demerger's, or a transfer out.\<close>

definition realises :: "'d disposals_ledger \<Rightarrow> 'd parcel_row \<Rightarrow> bool" where
  "realises L p \<longleftrightarrow>
     (pr_scrip_action_id p = None \<or> st_cash_per_unit (scrip_terms_of L p) \<noteq> None)
     \<and> pr_demerger_action_id p = None \<and> pr_transfer_id p = None"

definition sell_info_of :: "'d::{one,times,inverse} disposals_ledger \<Rightarrow> 'd parcel_row \<Rightarrow> 'd sell_info" where
  "sell_info_of L p =
     \<lparr>si_id = pr_id p, si_listing_id = pr_listing_id p, si_holding_account_id = pr_holding_account_id p,
      si_date = pr_date p, si_quantity = au_get (pr_quantity p), si_average_price = pr_average_price p,
      si_brokerage = pr_brokerage p, si_gst_on_brokerage = pr_gst_on_brokerage p,
      si_currency = pr_currency p, si_fx_rate = pr_fx_rate p, si_spot_fx_rate = pr_spot_fx_rate p,
      si_scrip = scrip_terms_of L p\<rparr>"

definition rights_sale_infos :: "'d disposals_ledger \<Rightarrow> 'd rights_sale_info list" where
  "rights_sale_infos L =
     concat (map (\<lambda>r. case lg_actions L (rsl_rights_action_id r) of
         None \<Rightarrow> []
       | Some t \<Rightarrow> [\<lparr>rs_id = rsl_id r, rs_listing_id = at_listing_id t,
           rs_holding_account_id = rsl_holding_account_id r, rs_date = rsl_date r, rs_units = rsl_units r,
           rs_proceeds_per_right = rsl_proceeds_per_right r, rs_rights_cost = rsl_rights_cost r,
           rs_currency = at_currency t, rs_fx_rate = rsl_fx_rate r\<rparr>]) (lg_rights_sales L))"

definition allocation_rows :: "('d, 'x) ledger_scheme \<Rightarrow> 'd allocation_row list" where
  "allocation_rows L =
     sort_key (\<lambda>r. (ar_purchase_trade_id r, ar_id r))
       (concat (map (\<lambda>a. concat (map (\<lambda>s. map (\<lambda>b.
             \<lparr>ar_id = al_id a, ar_sale_trade_id = al_sale_trade_id a,
              ar_purchase_trade_id = al_purchase_trade_id a, ar_quantity_allocated = al_quantity_allocated a,
              ar_sale_date = pr_date (tr_row s), ar_parcel_quantity = pr_quantity (tr_row b),
              ar_parcel_date = pr_date (tr_row b), ar_listing_id = pr_listing_id (tr_row b)\<rparr>)
           (filter (\<lambda>b. pr_id (tr_row b) = al_purchase_trade_id a) (lg_trades L)))
         (filter (\<lambda>s. pr_id (tr_row s) = al_sale_trade_id a) (lg_trades L)))) (lg_allocations L)))"

definition db_acquired_units_by_allocation ::
    "'d::{zero,one,plus,minus,times,inverse,linorder} decimal_api \<Rightarrow> ('d, 'x) ledger_scheme \<Rightarrow>
     'd allocation_units list" where
  "db_acquired_units_by_allocation D L = acquired_units_by_run D (lg_splits L) (allocation_rows L)"

definition no_report_data :: "'d report_data" where
  "no_report_data =
     \<lparr>rd_sells = (\<lambda>_. None), rd_buys = (\<lambda>_. None), rd_allocations = [], rd_rights_sales = [],
      rd_rights_allocations = [], rd_cba_reduction = (\<lambda>_. []), rd_roc_events = (\<lambda>_. None),
      rd_split_events = (\<lambda>_. None), rd_acquired_units = (\<lambda>_. None), rd_fx = (\<lambda>_. None),
      rd_cpi = (\<lambda>_. None)\<rparr>"

definition load_report_data ::
    "'d::{zero,one,plus,minus,times,inverse,linorder} decimal_api \<Rightarrow> chrono_api \<Rightarrow>
     'd disposals_ledger \<Rightarrow> 'd report_data" where
  "load_report_data D C L =
     (let sells = map (sell_info_of L)
            (filter (realises L) (map tr_row (filter (\<lambda>t. tr_type t = Sell) (lg_trades L))));
          rights_sales = rights_sale_infos L;
          buys = map tr_row (filter (\<lambda>t. tr_type t \<in> {Buy, DRP}) (lg_trades L))
      in if sells = [] \<and> rights_sales = [] then no_report_data
         else \<lparr>rd_sells = hash_map (map (\<lambda>s. (si_id s, s)) sells),
               rd_buys = hash_map (map (\<lambda>b. (pr_id b, b)) buys),
               rd_allocations = lg_allocations L,
               rd_rights_sales = rights_sales,
               rd_rights_allocations = lg_rights_allocations L,
               rd_cba_reduction = db_cost_base_reduction_events D C (ledger.truncate L) None,
               rd_roc_events = lg_roc_events L,
               rd_split_events = lg_splits L,
               rd_acquired_units =
                 hash_map (map (\<lambda>u. (alu_id u, alu_units u)) (db_acquired_units_by_allocation D L)),
               rd_fx = lg_rates L,
               rd_cpi = load_quarters (lg_cpi L)\<rparr>)"

definition db_realised_gains ::
    "'d::{zero,one,abs,plus,minus,uminus,times,inverse,linorder} decimal_api \<Rightarrow> chrono_api \<Rightarrow>
     'd disposals_ledger \<Rightarrow> report_error + 'd realised_gain_loss list" where
  "db_realised_gains D C L = compute_realised_gains D C (load_report_data D C L)"


section \<open>Running shares\<close>

text \<open>
  Both apportionments hand out differences of a running figure. The interface is that figure
  and the law that each share is its increase; what telescopes follows from the law alone, and
  a figure that never falls hands out no negative share.
\<close>

locale running_share =
  fixes share :: "'s \<Rightarrow> 'a \<Rightarrow> 'd::ab_group_add \<times> 's" and carried :: "'s \<Rightarrow> 'd"
  assumes telescopes: "fst (share s a) = carried (snd (share s a)) - carried s"
begin

lemma shares_sum: "sum_list (fst (walk share s xs)) = carried (snd (walk share s xs)) - carried s"
proof (induction xs arbitrary: s)
  case (Cons x xs)
  then show ?case
    using Cons.IH [of "snd (share s x)"] telescopes [of s x] by (simp add: case_prod_unfold Let_def)
qed simp

end

locale rising_share = running_share share carried
  for share :: "'s \<Rightarrow> 'a \<Rightarrow> 'd::linordered_field \<times> 's" and carried :: "'s \<Rightarrow> 'd" +
  fixes good :: "'s \<Rightarrow> bool" and allowed :: "'a \<Rightarrow> bool"
  assumes rises: "good s \<Longrightarrow> allowed a \<Longrightarrow> good (snd (share s a)) \<and> carried s \<le> carried (snd (share s a))"
begin

lemma share_nonneg: "good s \<Longrightarrow> allowed a \<Longrightarrow> 0 \<le> fst (share s a)"
  using rises [of s a] by (simp add: telescopes)

lemma shares_nonneg:
  assumes "good s" and "\<forall>a \<in> set xs. allowed a"
  shows "good (snd (walk share s xs)) \<and> (\<forall>y \<in> set (fst (walk share s xs)). 0 \<le> y)"
  by (rule walk_invariant) (use assms rises share_nonneg in auto)

end

text \<open>The loop of a sale's allocations, seen through its units and entitlement only.\<close>

definition pro_rata ::
    "'d::linordered_field decimal_api \<Rightarrow> 'd \<Rightarrow> 'd \<Rightarrow> 'd \<times> 'd \<Rightarrow> 'd \<Rightarrow> 'd \<times> 'd \<times> 'd" where
  "pro_rata D whole units_total = (\<lambda>(units, entitled) qty.
     let step = cumulative_share D whole (units + qty) units_total entitled
     in (sh_share step, units + qty, sh_entitled step))"

interpretation pro_rata: running_share "pro_rata D whole units_total" snd
  by unfold_locales (simp add: pro_rata_def cumulative_share_def Let_def case_prod_unfold)

lemma pro_rata_units: "fst (snd (walk (pro_rata D whole n) s qs)) = fst s + sum_list qs"
proof (induction qs arbitrary: s)
  case (Cons q qs)
  have "fst (snd (pro_rata D whole n s q)) = fst s + q"
    by (simp add: pro_rata_def Let_def case_prod_unfold)
  then show ?case using Cons.IH [of "snd (pro_rata D whole n s q)"]
    by (simp add: case_prod_unfold Let_def add.assoc)
qed simp

definition cents_share ::
    "'d::linordered_field decimal_api \<Rightarrow> 'd disposal_cents \<times> 'd \<times> 'd \<Rightarrow> 'd \<times> 'd \<times> bool \<Rightarrow>
     'd \<times> 'd disposal_cents \<times> 'd \<times> 'd" where
  "cents_share D s p = (fst (fst (cents_step D s p)), snd (cents_step D s p))"

interpretation cents: running_share "cents_share D" "\<lambda>s. snd (snd s)"
  by unfold_locales (simp add: cents_share_def cents_step_def Let_def case_prod_unfold)


context decimal_laws
begin

text \<open>The grid: the total lies on it, so every entitlement is the rounded pro-rata figure.\<close>

lemma share_grid_total: "normal_scale D whole \<le> 28 \<Longrightarrow> on_grid (share_grid_scale D whole) whole"
  by (rule normal_scale_grid) (simp_all add: share_grid_scale_def)

definition entitlement :: "'d \<Rightarrow> 'd \<Rightarrow> 'd \<Rightarrow> 'd" where
  "entitlement whole n units =
     round_with D MidpointNearestEven (share_grid_scale D whole) (whole * units / n)"

lemma cumulative_share_simps:
  assumes "normal_scale D whole \<le> 28" and "0 < n"
  shows "sh_entitled (cumulative_share D whole units n before) = entitlement whole n units"
    and "sh_share (cumulative_share D whole units n before) = entitlement whole n units - before"
  using assms round_fix [OF share_grid_total [OF assms(1)]]
  by (simp_all add: cumulative_share_def entitlement_def mul_div_eq Let_def)

lemma entitlement_grid: "on_grid (share_grid_scale D whole) (entitlement whole n units)"
  by (simp add: entitlement_def round_grid)

lemma entitlement_zero: "entitlement whole n 0 = 0"
  by (simp add: entitlement_def round_zero)

lemma entitlement_mono:
  assumes "0 \<le> whole" "0 < n" "u \<le> v"
  shows "entitlement whole n u \<le> entitlement whole n v"
  unfolding entitlement_def
  by (rule round_mono) (use assms in \<open>simp add: divide_right_mono mult_left_mono\<close>)

lemma entitlement_full: "normal_scale D whole \<le> 28 \<Longrightarrow> 0 < n \<Longrightarrow> entitlement whole n n = whole"
  by (simp add: entitlement_def round_fix share_grid_total)

lemma pro_rata_rises:
  assumes "normal_scale D whole \<le> 28" "0 \<le> whole" "0 < n" "e = entitlement whole n u" "0 \<le> q"
  shows "(case snd (pro_rata D whole n (u, e) q) of (u', e') \<Rightarrow> e' = entitlement whole n u')
    \<and> e \<le> snd (snd (pro_rata D whole n (u, e) q))"
  using entitlement_mono [OF assms(2,3), of u "u + q"] assms(4,5)
  by (simp add: pro_rata_def Let_def cumulative_share_simps [OF assms(1,3)])

lemma pro_rata_grid:
  assumes "normal_scale D whole \<le> 28" "0 < n"
  shows "\<forall>y \<in> set (fst (walk (pro_rata D whole n) (0, 0) qs)). on_grid (share_grid_scale D whole) y"
proof -
  have "snd s = entitlement whole n (fst s) \<Longrightarrow>
      snd (snd (pro_rata D whole n s q)) = entitlement whole n (fst (snd (pro_rata D whole n s q)))
      \<and> on_grid (share_grid_scale D whole) (fst (pro_rata D whole n s q))" for s q
    by (cases s) (simp add: pro_rata_def Let_def cumulative_share_simps [OF assms] on_grid_diff entitlement_grid)
  then show ?thesis
    using walk_invariant [of "\<lambda>s. snd s = entitlement whole n (fst s)" qs "pro_rata D whole n"
        "on_grid (share_grid_scale D whole)" "(0, 0)"]
    by (simp add: entitlement_zero)
qed

text \<open>The digit loop counts the integer digits, whatever its fuel beyond them.\<close>

lemma dtrunc_tenth:
  assumes "1 \<le> (k::int)"
  obtains j :: int where "dtrunc D (of_int k / dnew D 10 0) = of_int j" "j = k div 10"
proof -
  obtain j :: int where j: "dtrunc D (of_int k / dnew D 10 0) = of_int j"
    "of_int j \<le> of_int k / (10::'d)" "of_int k / (10::'d) < of_int j + 1"
    using trunc_int [of "of_int k / dnew D 10 0"] assms by (auto simp: dnew_0_scale)
  have "of_int (10 * j) \<le> (of_int k :: 'd)" "(of_int k :: 'd) < of_int (10 * j + 10)"
    using j(2,3) by (simp_all add: field_simps)
  then have "10 * j \<le> k" "k < 10 * j + 10" unfolding of_int_le_iff of_int_less_iff .
  then have "j = k div 10" by linarith
  with j(1) show ?thesis by (rule that)
qed

lemma integer_digits_of_int:
  "0 \<le> (k::int) \<Longrightarrow> k < 10 ^ fuel \<Longrightarrow>
   k < 10 ^ integer_digits D fuel (of_int k) \<and> (0 < k \<longrightarrow> 10 ^ (integer_digits D fuel (of_int k) - 1) \<le> k
     \<and> 0 < integer_digits D fuel (of_int k))"
proof (induction fuel arbitrary: k)
  case (Suc fuel)
  show ?case
  proof (cases "1 \<le> k")
    case True
    then obtain j where j: "dtrunc D (of_int k / dnew D 10 0) = of_int j" "j = k div 10"
      by (rule dtrunc_tenth)
    define n where "n = integer_digits D fuel (of_int j)"
    have step: "integer_digits D (Suc fuel) (of_int k) = Suc n"
      using True j(1) by (simp add: n_def)
    have IH: "j < 10 ^ n" "0 < j \<longrightarrow> 10 ^ (n - 1) \<le> j \<and> 0 < n"
      using Suc.IH [of j] Suc.prems True j(2) by (simp_all add: n_def)
    have "k < 10 ^ Suc n" using IH(1) j(2) by simp
    moreover have "10 ^ n \<le> k"
    proof (cases "0 < j")
      case True
      with IH(2) obtain m where "n = Suc m" "10 ^ m \<le> j" by (cases n) auto
      then show ?thesis using j(2) by simp
    next
      case False
      have "integer_digits D fuel (of_int j) = 0" using False by (cases fuel) simp_all
      then show ?thesis using True by (simp add: n_def)
    qed
    ultimately show ?thesis unfolding step by simp
  next
    case False
    then show ?thesis using Suc.prems by simp
  qed
qed simp

end

lemma grid_places_fuel:
  assumes "27 \<le> f" "27 \<le> g"
  shows "27 - integer_digits D f x = 27 - integer_digits D g x"
proof -
  have "n \<le> f \<Longrightarrow> n \<le> g \<Longrightarrow> n - integer_digits D f x = n - integer_digits D g x" for n
  proof (induction n arbitrary: f g x)
    case (Suc n)
    from Suc.prems obtain f' g' where f: "f = Suc f'" "g = Suc g'" and "n \<le> f'" "n \<le> g'"
      by (cases f; cases g) auto
    then have "n - integer_digits D f' y = n - integer_digits D g' y" for y by (intro Suc.IH)
    from this [of "dtrunc D (x / dnew D 10 0)"] show ?case unfolding f integer_digits.simps
      by (cases "1 \<le> x") (simp_all only: if_True if_False diff_Suc_Suc)
  qed simp
  with assms show ?thesis by blast
qed


section \<open>A row adds up\<close>

text \<open>
  The invariant of the loops: the totals are the sums over the parcels recorded so far, the
  gains and losses each the sum of the parcels they class.
\<close>

definition gains_where :: "('d parcel_detail \<Rightarrow> bool) \<Rightarrow> 'd::linordered_field parcel_detail list \<Rightarrow> 'd" where
  "gains_where P ps = sum_list (map pd_capital_gain_loss (filter P ps))"

lemma gains_where_simps [simp]:
  "gains_where P [] = 0"
  "gains_where P (p # ps) = (if P p then pd_capital_gain_loss p else 0) + gains_where P ps"
  "gains_where P (xs @ ys) = gains_where P xs + gains_where P ys"
  by (simp_all add: gains_where_def)

lemma gains_where_sort: "gains_where P (sort_key f ps) = gains_where P ps"
  unfolding gains_where_def filter_sort by (rule sum_list_sort_key)

definition parcels_add_up ::
    "'d::linordered_field parcel_detail list \<Rightarrow> 'd \<Rightarrow> 'd \<Rightarrow> 'd \<Rightarrow> 'd \<Rightarrow> 'd \<Rightarrow> bool" where
  "parcels_add_up ps proceeds cost discount other loss \<longleftrightarrow>
     sum_list (map pd_proceeds ps) = proceeds \<and> sum_list (map pd_cost_base ps) = cost
     \<and> (\<forall>p \<in> set ps. pd_capital_gain_loss p = pd_proceeds p - pd_cost_base p)
     \<and> discount = gains_where (\<lambda>p. 0 < pd_capital_gain_loss p \<and> pd_discount_eligible p) ps
     \<and> other = gains_where (\<lambda>p. 0 < pd_capital_gain_loss p \<and> \<not> pd_discount_eligible p) ps
     \<and> loss = - gains_where (\<lambda>p. pd_capital_gain_loss p < 0) ps"

definition acc_adds_up :: "'d::linordered_field sale_acc \<Rightarrow> bool" where
  "acc_adds_up a \<longleftrightarrow>
     parcels_add_up (ac_parcels a) (ac_entitled a) (ac_cost_base a) (ac_discount_gain a)
       (ac_non_discount_gain a) (ac_loss a)"

definition row_adds_up :: "'d::linordered_field realised_gain_loss \<Rightarrow> bool" where
  "row_adds_up r \<longleftrightarrow>
     parcels_add_up (rg_parcels r) (rg_proceeds r) (rg_cost_base r) (rg_discount_eligible_gain r)
       (rg_non_discountable_gain r) (rg_capital_loss r)
     \<and> rg_capital_gain_loss r = rg_proceeds r - rg_cost_base r"

lemma gains_split:
  "gains_where (\<lambda>p. 0 < pd_capital_gain_loss p \<and> pd_discount_eligible p) ps
     + gains_where (\<lambda>p. 0 < pd_capital_gain_loss p \<and> \<not> pd_discount_eligible p) ps
     + gains_where (\<lambda>p. pd_capital_gain_loss p < 0) ps
   = sum_list (map pd_capital_gain_loss (ps :: 'd::linordered_field parcel_detail list))"
  by (induction ps) auto

lemma gains_where_nonneg:
  "(\<And>p. P p \<Longrightarrow> 0 \<le> pd_capital_gain_loss p) \<Longrightarrow> 0 \<le> gains_where P ps"
  by (induction ps) auto

lemma gains_where_nonpos:
  "(\<And>p. P p \<Longrightarrow> pd_capital_gain_loss p \<le> 0) \<Longrightarrow> gains_where P ps \<le> 0"
  by (induction ps) (auto simp: add_nonpos_nonpos)

lemma parcels_add_up_gain:
  assumes "parcels_add_up ps proceeds cost discount other loss"
  shows "proceeds - cost = discount + other - loss \<and> 0 \<le> discount \<and> 0 \<le> other \<and> 0 \<le> loss"
proof -
  have "sum_list (map pd_capital_gain_loss ps) = sum_list (map (\<lambda>p. pd_proceeds p - pd_cost_base p) ps)"
    using assms by (intro arg_cong [of _ _ sum_list] map_cong) (simp_all add: parcels_add_up_def)
  also have "\<dots> = proceeds - cost"
    using assms by (simp add: parcels_add_up_def sum_list_subtractf)
  finally have "proceeds - cost = discount + other - loss"
    using gains_split [of ps] assms by (simp add: parcels_add_up_def)
  moreover have "0 \<le> discount" "0 \<le> other" "0 \<le> loss"
    using assms gains_where_nonneg [of "\<lambda>p. 0 < pd_capital_gain_loss p \<and> pd_discount_eligible p" ps]
      gains_where_nonneg [of "\<lambda>p. 0 < pd_capital_gain_loss p \<and> \<not> pd_discount_eligible p" ps]
      gains_where_nonpos [of "\<lambda>p. pd_capital_gain_loss p < 0" ps]
    by (simp_all add: parcels_add_up_def)
  ultimately show ?thesis by blast
qed

lemma empty_adds_up: "acc_adds_up empty_acc"
  by (simp add: acc_adds_up_def parcels_add_up_def empty_acc_def)

lemma disposal_row_adds_up: "acc_adds_up a \<Longrightarrow> row_adds_up (disposal_row i l h d a)"
  by (simp add: acc_adds_up_def row_adds_up_def parcels_add_up_def disposal_row_def sum_list_sort_key
      gains_where_sort)

lemma classify_simps [simp]:
  "ac_units_so_far (classify e g a) = ac_units_so_far a"
  "ac_entitled (classify e g a) = ac_entitled a"
  "ac_cost_base (classify e g a) = ac_cost_base a"
  "ac_parcels (classify e g a) = ac_parcels a"
  by (simp_all add: classify_def)

lemma classify_totals:
  fixes g :: "'d::linordered_field"
  shows "ac_discount_gain (classify e g a) = ac_discount_gain a + (if 0 < g \<and> e then g else 0)"
    and "ac_non_discount_gain (classify e g a) = ac_non_discount_gain a + (if 0 < g \<and> \<not> e then g else 0)"
    and "ac_loss (classify e g a) = ac_loss a - (if g < 0 then g else 0)"
  by (auto simp: classify_def)

lemma alloc_proceeds_ok:
  assumes "alloc_proceeds D C rates s q acc = Inr (proceeds, acc')"
  shows "ac_entitled acc' = ac_entitled acc + (proceeds::'d::linordered_field)"
    "ac_cost_base acc' = ac_cost_base acc" "ac_parcels acc' = ac_parcels acc"
    "ac_discount_gain acc' = ac_discount_gain acc" "ac_non_discount_gain acc' = ac_non_discount_gain acc"
    "ac_loss acc' = ac_loss acc"
    "ac_units_so_far acc' = ac_units_so_far acc + (if 0 < si_quantity s then q else 0)"
proof -
  obtain e where "proceeds = e - ac_entitled acc" "acc' = (if 0 < si_quantity s
      then acc\<lparr>ac_units_so_far := ac_units_so_far acc + q, ac_entitled := e\<rparr> else acc)"
    "\<not> 0 < si_quantity s \<Longrightarrow> e = ac_entitled acc"
  proof (cases "0 < si_quantity s")
    case True
    then obtain whole where "sale_total C rates s = Inr whole"
      using assms by (auto simp: alloc_proceeds_def result_simps)
    then show ?thesis using True assms
      by (intro that [of "sh_entitled (cumulative_share D whole (ac_units_so_far acc + q) (si_quantity s) (ac_entitled acc))"])
        (simp_all add: alloc_proceeds_def Let_def cumulative_share_def)
  next
    case False
    then show ?thesis using assms by (intro that [of "ac_entitled acc"]) (simp_all add: alloc_proceeds_def)
  qed
  then show "ac_entitled acc' = ac_entitled acc + proceeds"
    "ac_cost_base acc' = ac_cost_base acc" "ac_parcels acc' = ac_parcels acc"
    "ac_discount_gain acc' = ac_discount_gain acc" "ac_non_discount_gain acc' = ac_non_discount_gain acc"
    "ac_loss acc' = ac_loss acc"
    "ac_units_so_far acc' = ac_units_so_far acc + (if 0 < si_quantity s then q else 0)"
    by auto
qed

definition entitled_as_of ::
    "'d::linordered_field decimal_api \<Rightarrow> chrono_api \<Rightarrow> 'd fx_rates \<Rightarrow> 'd sell_info \<Rightarrow> 'd sale_acc \<Rightarrow> bool" where
  "entitled_as_of D C rates s acc \<longleftrightarrow>
     (\<exists>whole. sale_total C rates s = Inr whole
       \<and> ac_entitled acc = sh_entitled (cumulative_share D whole (ac_units_so_far acc) (si_quantity s) 0))"

lemma alloc_proceeds_entitled:
  assumes "alloc_proceeds D C rates s q acc = Inr (proceeds, acc')" and "0 < si_quantity s"
  shows "entitled_as_of D C rates s acc'"
proof -
  obtain whole where whole: "sale_total C rates s = Inr whole"
    using assms by (auto simp: alloc_proceeds_def result_simps)
  then have "ac_entitled acc' = sh_entitled (cumulative_share D whole (ac_units_so_far acc') (si_quantity s) 0)"
    using assms by (auto simp: alloc_proceeds_def Let_def cumulative_share_def)
  with whole show ?thesis by (auto simp: entitled_as_of_def)
qed

text \<open>What one allocation adds to a sale: a parcel, classed by its own gain.\<close>

definition adds_parcel ::
    "'d::linordered_field parcel_detail \<Rightarrow> 'd sale_acc \<Rightarrow> 'd sale_acc \<Rightarrow> bool" where
  "adds_parcel p a b \<longleftrightarrow>
     ac_entitled b = ac_entitled a + pd_proceeds p \<and> ac_cost_base b = ac_cost_base a + pd_cost_base p
     \<and> ac_parcels b = ac_parcels a @ [p] \<and> pd_capital_gain_loss p = pd_proceeds p - pd_cost_base p
     \<and> ac_discount_gain b = ac_discount_gain (classify (pd_discount_eligible p) (pd_capital_gain_loss p) a)
     \<and> ac_non_discount_gain b = ac_non_discount_gain (classify (pd_discount_eligible p) (pd_capital_gain_loss p) a)
     \<and> ac_loss b = ac_loss (classify (pd_discount_eligible p) (pd_capital_gain_loss p) a)"

lemma adds_parcel_adds_up: "adds_parcel p a b \<Longrightarrow> acc_adds_up a \<Longrightarrow> acc_adds_up b"
  by (auto simp: adds_parcel_def acc_adds_up_def parcels_add_up_def classify_totals)

lemma record_parcel_adds:
  assumes "ac_entitled b = ac_entitled a + pd_proceeds p" "ac_cost_base b = ac_cost_base a"
    "ac_parcels b = ac_parcels a" "ac_discount_gain b = ac_discount_gain a"
    "ac_non_discount_gain b = ac_non_discount_gain a" "ac_loss b = ac_loss a"
    "pd_capital_gain_loss p = pd_proceeds p - pd_cost_base p"
  shows "adds_parcel p a (record_parcel p (classify (pd_discount_eligible p) (pd_capital_gain_loss p) b))"
  using assms by (simp add: adds_parcel_def record_parcel_def classify_totals)

lemma sell_parcel_adds:
  fixes acc :: "'d::linordered_field sale_acc"
  assumes "sell_parcel D C R a s b acc = Inr acc'"
  obtains p where "adds_parcel p acc acc'" "pd_purchase_trade_id p = al_purchase_trade_id a"
    "pd_units p = al_quantity_allocated a" "pd_acquisition_date p = pr_acquired b"
    "pd_discount_eligible p = discount_eligible C (pr_acquired b) (si_date s)"
    "ac_units_so_far acc' = ac_units_so_far acc + (if 0 < si_quantity s then al_quantity_allocated a else 0)"
    "0 < si_quantity s \<longrightarrow> entitled_as_of D C (rd_fx R) s acc'"
proof -
  obtain pa cb terms where
    pa: "alloc_proceeds D C (rd_fx R) s (al_quantity_allocated a) acc = Inr pa"
    and cb: "alloc_cost_base D C R a s b = Inr cb"
    and terms: "scrip_cash_apportionment (si_id s) (si_scrip s) = Inr terms"
    using assms by (auto simp: sell_parcel_def result_simps)
  obtain proceeds acc1 where pair: "pa = (proceeds, acc1)" by (cases pa)
  note f = alloc_proceeds_ok [OF pa [unfolded pair]]
  define ix where "ix = (if 0 < proceeds - cash_share D terms (cb_adjusted cb)
      then indexation_for D C (rd_cpi R) (pr_date b) else None)"
  define p where "p =
      \<lparr>pd_purchase_trade_id = al_purchase_trade_id a, pd_acquisition_date = pr_acquired b,
       pd_units = al_quantity_allocated a, pd_cost_base = cash_share D terms (cb_adjusted cb),
       pd_proceeds = proceeds, pd_capital_gain_loss = proceeds - cash_share D terms (cb_adjusted cb),
       pd_discount_eligible = discount_eligible C (pr_acquired b) (si_date s),
       pd_indexation_eligible = (map_option (\<lambda>i. cash_share D terms (indexed_cost_base cb (ix_factor i))) ix \<noteq> None),
       pd_indexed_cost_base = map_option (\<lambda>i. cash_share D terms (indexed_cost_base cb (ix_factor i))) ix\<rparr>"
  have p: "pd_proceeds p = proceeds" "pd_capital_gain_loss p = pd_proceeds p - pd_cost_base p"
    "pd_purchase_trade_id p = al_purchase_trade_id a" "pd_units p = al_quantity_allocated a"
    "pd_acquisition_date p = pr_acquired b"
    "pd_discount_eligible p = discount_eligible C (pr_acquired b) (si_date s)"
    by (simp_all add: p_def)
  have "sell_parcel D C R a s b acc = Inr (record_parcel p
      (classify (discount_eligible C (pr_acquired b) (si_date s)) (proceeds - cash_share D terms (cb_adjusted cb)) acc1))"
    unfolding sell_parcel_def pa cb terms pair p_def ix_def
    by (simp only: map_error.simps and_then.simps prod.case Let_def)
  then have acc': "acc' = record_parcel p (classify (pd_discount_eligible p) (pd_capital_gain_loss p) acc1)"
    using assms by (simp add: p_def)
  have "adds_parcel p acc acc'" unfolding acc'
    by (rule record_parcel_adds) (simp_all only: f p)
  moreover have "ac_units_so_far acc' = ac_units_so_far acc
      + (if 0 < si_quantity s then al_quantity_allocated a else 0)"
    unfolding acc' by (simp add: record_parcel_def f)
  moreover have "0 < si_quantity s \<longrightarrow> entitled_as_of D C (rd_fx R) s acc'"
    using alloc_proceeds_entitled [OF pa [unfolded pair]]
    unfolding acc' by (simp add: record_parcel_def entitled_as_of_def)
  ultimately show ?thesis using p by (intro that [of p]) simp_all
qed

lemma rights_parcel_adds:
  assumes "rd_buys R (ra_purchase_trade_id a) = Some b"
  shows "\<exists>p. adds_parcel p acc (rights_parcel D C R s tp tc acc a)"
proof -
  define units where "units = ac_units_so_far acc + ra_units a"
  define p c where "p = cumulative_share D tp units (rs_units s) (ac_entitled acc)"
    and "c = cumulative_share D tc units (rs_units s) (ac_cost_base acc)"
  define pe ce where "pe = (if 0 < rs_units s then sh_entitled p else ac_entitled acc)"
    and "ce = (if 0 < rs_units s then sh_entitled c else ac_cost_base acc)"
  define pd where "pd =
      \<lparr>pd_purchase_trade_id = ra_purchase_trade_id a, pd_acquisition_date = pr_acquired b,
       pd_units = ra_units a, pd_cost_base = ce - ac_cost_base acc, pd_proceeds = pe - ac_entitled acc,
       pd_capital_gain_loss = (pe - ac_entitled acc) - (ce - ac_cost_base acc),
       pd_discount_eligible = discount_eligible C (pr_acquired b) (rs_date s),
       pd_indexation_eligible = False, pd_indexed_cost_base = None\<rparr>"
  have shares: "(if 0 < rs_units s then (sh_share p, sh_share c, sh_entitled p, sh_entitled c)
      else (0, 0, ac_entitled acc, ac_cost_base acc)) = (pe - ac_entitled acc, ce - ac_cost_base acc, pe, ce)"
    by (simp add: pe_def ce_def p_def c_def cumulative_share_def Let_def)
  define base where "base = acc\<lparr>ac_units_so_far := units, ac_entitled := pe, ac_cost_base := ce\<rparr>"
  have base: "ac_entitled base = pe" "ac_cost_base base = ce" "ac_parcels base = ac_parcels acc"
    "ac_discount_gain base = ac_discount_gain acc" "ac_non_discount_gain base = ac_non_discount_gain acc"
    "ac_loss base = ac_loss acc"
    by (simp_all add: base_def)
  have pd: "pd_proceeds pd = pe - ac_entitled acc" "pd_cost_base pd = ce - ac_cost_base acc"
    "pd_capital_gain_loss pd = pd_proceeds pd - pd_cost_base pd"
    by (simp_all add: pd_def)
  have eligible: "discount_eligible C (pr_acquired b) (rs_date s) = pd_discount_eligible pd"
    and gain: "(pe - ac_entitled acc) - (ce - ac_cost_base acc) = pd_capital_gain_loss pd"
    by (simp_all add: pd_def)
  define out where "out = classify (pd_discount_eligible pd) (pd_capital_gain_loss pd) base"
  have "rights_parcel D C R s tp tc acc a = out\<lparr>ac_parcels := ac_parcels out @ [pd]\<rparr>"
    unfolding rights_parcel_def assms option.case Let_def units_def [symmetric] p_def [symmetric] c_def [symmetric]
      shares prod.case base_def [symmetric] pd_def [symmetric]
    unfolding eligible gain out_def [symmetric] ..
  moreover have "adds_parcel pd acc (out\<lparr>ac_parcels := ac_parcels out @ [pd]\<rparr>)"
    by (simp add: adds_parcel_def out_def classify_totals base pd(1,2)) (simp add: pd)
  ultimately show ?thesis by metis
qed

lemma rights_acc_adds_up:
  "acc_adds_up acc \<Longrightarrow> acc_adds_up (foldl (rights_parcel D C R s tp tc) acc as)"
proof (induction as arbitrary: acc)
  case (Cons a as)
  have "acc_adds_up (rights_parcel D C R s tp tc acc a)"
  proof (cases "rd_buys R (ra_purchase_trade_id a)")
    case None
    then show ?thesis using Cons.prems by (simp add: rights_parcel_def)
  next
    case (Some b)
    from rights_parcel_adds [OF this] obtain p where "adds_parcel p acc (rights_parcel D C R s tp tc acc a)" by blast
    then show ?thesis using Cons.prems by (rule adds_parcel_adds_up)
  qed
  then show ?case using Cons.IH by simp
qed simp


section \<open>The fold over the allocations\<close>

lemma acc_of_update: "acc_of (AList.update i a accs) j = (if j = i then a else acc_of accs j)"
  by (simp add: acc_of_def update_conv')

lemma acc_of_adds_up: "(\<forall>(i, a) \<in> set accs. acc_adds_up a) \<Longrightarrow> acc_adds_up (acc_of accs i)"
  by (auto simp: acc_of_def empty_adds_up dest: map_of_SomeD split: option.splits)

definition live :: "'d report_data \<Rightarrow> trade_id \<Rightarrow> 'd parcel_allocation \<Rightarrow> bool" where
  "live R i a \<longleftrightarrow> al_sale_trade_id a = i \<and> rd_sells R i \<noteq> None \<and> rd_buys R (al_purchase_trade_id a) \<noteq> None"

lemma sell_step_cases:
  assumes "sell_step D C R accs a = Inr accs'"
  obtains (skipped) "\<not> live R (al_sale_trade_id a) a" "accs' = accs"
  | (taken) s b acc where "live R (al_sale_trade_id a) a" "rd_sells R (al_sale_trade_id a) = Some s"
      "rd_buys R (al_purchase_trade_id a) = Some b"
      "sell_parcel D C R a s b (acc_of accs (al_sale_trade_id a)) = Inr acc"
      "accs' = AList.update (al_sale_trade_id a) acc accs"
  using assms
  by (auto simp: sell_step_def live_def result_simps split: option.splits)

lemma sell_fold_adds_up:
  assumes "try_foldl (sell_step D C R) [] as = Inr accs"
  shows "(\<forall>(i, a) \<in> set accs. acc_adds_up a \<and> rd_sells R i \<noteq> None) \<and> distinct (map fst accs)"
  using assms
proof (rule try_foldl_invariant)
  fix accs a accs'
  assume I: "(\<forall>(i, a) \<in> set accs. acc_adds_up a \<and> rd_sells R i \<noteq> None) \<and> distinct (map fst accs)"
    and "sell_step D C R accs a = Inr accs'"
  from this(2) show "(\<forall>(i, a) \<in> set accs'. acc_adds_up a \<and> rd_sells R i \<noteq> None) \<and> distinct (map fst accs')"
  proof (cases rule: sell_step_cases)
    case (taken s b acc)
    have "acc_adds_up (acc_of accs (al_sale_trade_id a))" by (rule acc_of_adds_up) (use I in auto)
    with taken(4) have "acc_adds_up acc" by (meson sell_parcel_adds adds_parcel_adds_up)
    then show ?thesis
      using I taken(2,5) set_update_sub [of "al_sale_trade_id a" acc accs] distinct_update by fastforce
  qed (use I in simp)
qed simp

text \<open>What the fold leaves of one sale is settled by the allocations live for it.\<close>

lemma sell_fold_sale:
  fixes R :: "'d::linordered_field report_data"
  assumes "try_foldl (sell_step D C R) accs as = Inr accs'" and "rd_sells R i = Some s" and "0 < si_quantity s"
  shows "ac_units_so_far (acc_of accs' i)
       = ac_units_so_far (acc_of accs i) + sum_list (map al_quantity_allocated (filter (live R i) as))
    \<and> map pd_purchase_trade_id (ac_parcels (acc_of accs' i))
       = map pd_purchase_trade_id (ac_parcels (acc_of accs i)) @ map al_purchase_trade_id (filter (live R i) as)
    \<and> (filter (live R i) as = [] \<longrightarrow> map_of accs' i = map_of accs i)
    \<and> (filter (live R i) as \<noteq> [] \<longrightarrow> map_of accs' i \<noteq> None \<and> entitled_as_of D C (rd_fx R) s (acc_of accs' i))"
  using assms(1)
proof (induction as arbitrary: accs)
  case (Cons a as)
  from Cons.prems obtain accs1 where step: "sell_step D C R accs a = Inr accs1"
    and rest: "try_foldl (sell_step D C R) accs1 as = Inr accs'"
    by (auto simp: result_simps)
  note IH = Cons.IH [OF rest]
  show ?case
  proof (cases "live R i a")
    case False
    have same: "acc_of accs1 i = acc_of accs i \<and> map_of accs1 i = map_of accs i"
      using step
    proof (cases rule: sell_step_cases)
      case (taken s' b acc)
      then have "al_sale_trade_id a \<noteq> i" using False by auto
      then show ?thesis using taken(5) by (simp add: acc_of_update update_conv')
    qed simp
    show ?thesis
      unfolding filter.simps if_not_P [OF False]
      using IH unfolding conjunct1 [OF same] conjunct2 [OF same] .
  next
    case True
    then have id: "al_sale_trade_id a = i" by (simp add: live_def)
    from step obtain b acc where
      sp: "sell_parcel D C R a s b (acc_of accs i) = Inr acc" and accs1: "accs1 = AList.update i acc accs"
      by (cases rule: sell_step_cases) (use True id assms(2) in auto)
    obtain p where p: "adds_parcel p (acc_of accs i) acc" "pd_purchase_trade_id p = al_purchase_trade_id a"
      "ac_units_so_far acc = ac_units_so_far (acc_of accs i) + al_quantity_allocated a"
      "entitled_as_of D C (rd_fx R) s acc"
      using sell_parcel_adds [OF sp] assms(3) by metis
    have at: "acc_of accs1 i = acc" "map_of accs1 i \<noteq> None"
      by (simp_all add: accs1 acc_of_update update_conv')
    have parcels: "map pd_purchase_trade_id (ac_parcels acc)
        = map pd_purchase_trade_id (ac_parcels (acc_of accs i)) @ [al_purchase_trade_id a]"
      using p(1,2) by (simp add: adds_parcel_def)
    show ?thesis
    proof (cases "filter (live R i) as = []")
      case last: True
      then have same: "map_of accs' i = map_of accs1 i" using IH by simp
      then have "acc_of accs' i = acc" using at(1) unfolding acc_of_def by simp
      then show ?thesis using True last p(3,4) parcels same at(2) by simp
    next
      case False
      then show ?thesis using IH True p(3) parcels at(1) by simp
    qed
  qed
qed simp

lemma sell_rows_of:
  assumes "map_of accs i = Some acc" and "rd_sells R i = Some s"
  shows "disposal_row (SellDisposal i) (si_listing_id s) (si_holding_account_id s) (si_date s) acc \<in> set (sell_rows R accs)"
  using map_of_SomeD [OF assms(1)] assms(2) by (force simp: sell_rows_def)

lemma sell_rows_adds_up:
  "(\<forall>(i, a) \<in> set accs. acc_adds_up a \<and> rd_sells R i \<noteq> None) \<Longrightarrow> r \<in> set (sell_rows R accs) \<Longrightarrow> row_adds_up r"
  by (auto simp: sell_rows_def disposal_row_adds_up split: option.splits)

lemma rights_row_adds_up: "rights_row D C R s = Inr r \<Longrightarrow> row_adds_up r"
  by (auto simp: rights_row_def result_simps intro!: disposal_row_adds_up rights_acc_adds_up empty_adds_up)

lemma compute_rows:
  assumes "compute_realised_gains D C R = Inr rows"
  obtains accs rights where "try_foldl (sell_step D C R) [] (rd_allocations R) = Inr accs"
    "try_map (rights_row D C R) (rd_rights_sales R) = Inr rights"
    "rows = sort_key row_order (sell_rows R accs @ rights)"
  using assms by (auto simp: compute_realised_gains_def result_simps)

lemma try_map_set: "try_map f xs = Inr ys \<Longrightarrow> y \<in> set ys \<Longrightarrow> \<exists>x \<in> set xs. f x = Inr y"
  by (induction xs arbitrary: ys) (auto simp: result_simps)

section \<open>Properties\<close>

text \<open>C3: every row of the report adds up: its proceeds and cost base are the sums of its parcels',
  its gain is discount-eligible gain plus other gain less capital loss, none of which is negative,
  and each of these totals is the sum over the parcels it classes.\<close>

theorem realised_rows_add_up:
  fixes R :: "'d::linordered_field report_data"
  assumes "compute_realised_gains D C R = Inr rows" and "r \<in> set rows"
  shows "row_adds_up r
    \<and> rg_capital_gain_loss r = rg_discount_eligible_gain r + rg_non_discountable_gain r - rg_capital_loss r
    \<and> rg_capital_gain_loss r = sum_list (map pd_capital_gain_loss (rg_parcels r))
    \<and> 0 \<le> rg_discount_eligible_gain r \<and> 0 \<le> rg_non_discountable_gain r \<and> 0 \<le> rg_capital_loss r"
proof -
  from assms(1) obtain accs rights where f: "try_foldl (sell_step D C R) [] (rd_allocations R) = Inr accs"
    and m: "try_map (rights_row D C R) (rd_rights_sales R) = Inr rights"
    and rows: "rows = sort_key row_order (sell_rows R accs @ rights)"
    by (rule compute_rows)
  have "r \<in> set (sell_rows R accs) \<or> r \<in> set rights" using assms(2) by (simp add: rows)
  then have r: "row_adds_up r"
  proof
    assume "r \<in> set (sell_rows R accs)"
    then show ?thesis using sell_fold_adds_up [OF f] sell_rows_adds_up by blast
  next
    assume "r \<in> set rights"
    then show ?thesis using try_map_set [OF m] rights_row_adds_up by blast
  qed
  then have p: "parcels_add_up (rg_parcels r) (rg_proceeds r) (rg_cost_base r) (rg_discount_eligible_gain r)
      (rg_non_discountable_gain r) (rg_capital_loss r)"
    and g: "rg_capital_gain_loss r = rg_proceeds r - rg_cost_base r"
    by (simp_all add: row_adds_up_def)
  have "rg_capital_gain_loss r = sum_list (map pd_capital_gain_loss (rg_parcels r))"
    using parcels_add_up_gain [OF p] gains_split [of "rg_parcels r"] p g by (simp add: parcels_add_up_def)
  then show ?thesis using r parcels_add_up_gain [OF p] g by simp
qed


text \<open>C15: once the allocations of a sale come to the units it sold, the report has its row, whose
  proceeds are the contract note's total in AUD, undivided and unrounded, spread over exactly the
  parcels the allocations name.\<close>

theorem fully_allocated_sale:
  fixes R :: "'d::linordered_field report_data"
  assumes ok: "compute_realised_gains D C R = Inr rows" and s: "rd_sells R i = Some s" and "0 < si_quantity s"
    and full: "sum_list (map al_quantity_allocated (filter (live R i) (rd_allocations R))) = si_quantity s"
  shows "\<exists>r \<in> set rows. rg_disposal r = SellDisposal i \<and> rg_sale_date r = si_date s
    \<and> sale_total C (rd_fx R) s = Inr (rg_proceeds r)
    \<and> sum_list (map pd_proceeds (rg_parcels r)) = rg_proceeds r
    \<and> mset (map pd_purchase_trade_id (rg_parcels r))
        = mset (map al_purchase_trade_id (filter (live R i) (rd_allocations R)))"
proof -
  from ok obtain accs rights where f: "try_foldl (sell_step D C R) [] (rd_allocations R) = Inr accs"
    and rows: "rows = sort_key row_order (sell_rows R accs @ rights)"
    by (rule compute_rows)
  have some: "filter (live R i) (rd_allocations R) \<noteq> []" using full \<open>0 < si_quantity s\<close> by auto
  note sale = sell_fold_sale [OF f s \<open>0 < si_quantity s\<close>]
  obtain acc where at: "map_of accs i = Some acc" "acc_of accs i = acc"
    using sale some by (auto simp: acc_of_def)
  have start: "acc_of [] i = empty_acc" by (simp add: acc_of_def)
  have units: "ac_units_so_far acc = si_quantity s"
    and parcels: "map pd_purchase_trade_id (ac_parcels acc)
      = map al_purchase_trade_id (filter (live R i) (rd_allocations R))"
    and ent: "entitled_as_of D C (rd_fx R) s acc"
    using sale some full unfolding start at(2) by (simp_all add: empty_acc_def)
  have "acc_adds_up acc" using sell_fold_adds_up [OF f] map_of_SomeD [OF at(1)] by auto
  then have sums: "sum_list (map pd_proceeds (ac_parcels acc)) = ac_entitled acc"
    by (simp add: acc_adds_up_def parcels_add_up_def)
  define r where "r = disposal_row (SellDisposal i) (si_listing_id s) (si_holding_account_id s) (si_date s) acc"
  have fields: "rg_disposal r = SellDisposal i" "rg_sale_date r = si_date s" "rg_proceeds r = ac_entitled acc"
    "rg_parcels r = sort_key parcel_order (ac_parcels acc)"
    by (simp_all add: r_def disposal_row_def)
  have "r \<in> set rows" unfolding rows r_def using sell_rows_of [OF at(1) s] by simp
  moreover have "sale_total C (rd_fx R) s = Inr (rg_proceeds r)"
    using ent by (auto simp: fields entitled_as_of_def units cumulative_share_def Let_def)
  moreover have "sum_list (map pd_proceeds (rg_parcels r)) = rg_proceeds r"
    by (simp add: fields sum_list_sort_key sums)
  moreover have "mset (map pd_purchase_trade_id (rg_parcels r))
      = mset (map al_purchase_trade_id (filter (live R i) (rd_allocations R)))"
    unfolding fields mset_map mset_sort parcels [symmetric] ..
  ultimately show ?thesis using fields by (intro bexI [of _ r] conjI)
qed

lemma sell_rows_keys:
  "map rg_disposal (sell_rows R accs) = map SellDisposal (filter (\<lambda>i. rd_sells R i \<noteq> None) (map fst accs))"
  by (induction accs) (auto simp: sell_rows_def disposal_row_def split: option.splits)

lemma rights_rows_keys:
  "try_map (rights_row D C R) ss = Inr rights \<Longrightarrow> map rg_disposal rights = map (RightsSaleDisposal \<circ> rs_id) ss"
  by (induction ss arbitrary: rights) (auto simp: result_simps rights_row_def disposal_row_def)

text \<open>The report lists each disposal once, in strictly ascending order of sale date and, on a
  date, Sells before rights sales and each by id.\<close>

theorem realised_rows_ordered:
  fixes R :: "'d::linordered_field report_data"
  assumes "compute_realised_gains D C R = Inr rows" and "distinct (map rs_id (rd_rights_sales R))"
  shows "distinct (map rg_disposal rows) \<and> sorted_wrt (<) (map row_order rows)"
proof -
  from assms(1) obtain accs rights where f: "try_foldl (sell_step D C R) [] (rd_allocations R) = Inr accs"
    and m: "try_map (rights_row D C R) (rd_rights_sales R) = Inr rights"
    and rows: "rows = sort_key row_order (sell_rows R accs @ rights)"
    by (rule compute_rows)
  have "distinct (map rg_disposal (sell_rows R accs @ rights))"
    using sell_fold_adds_up [OF f] assms(2)
    by (auto simp: sell_rows_keys rights_rows_keys [OF m] distinct_map inj_on_def)
  moreover have "mset (map rg_disposal rows) = mset (map rg_disposal (sell_rows R accs @ rights))"
    unfolding rows mset_map mset_sort ..
  ultimately have d: "distinct (map rg_disposal rows)" by (metis mset_eq_imp_distinct_iff)
  then have "distinct (map snd (map row_order rows))" by (simp add: row_order_def comp_def)
  then have "distinct (map row_order rows)" by (auto simp: distinct_map intro: inj_on_imageI2)
  moreover have "sorted (map row_order rows)" unfolding rows by simp
  ultimately show ?thesis using d by (simp add: strict_sorted_iff)
qed

definition allocation_computable ::
    "'d::linordered_field decimal_api \<Rightarrow> chrono_api \<Rightarrow> 'd report_data \<Rightarrow> 'd parcel_allocation \<Rightarrow> bool" where
  "allocation_computable D C R a =
     (case (rd_sells R (al_sale_trade_id a), rd_buys R (al_purchase_trade_id a)) of
        (Some s, Some b) \<Rightarrow>
          (0 < si_quantity s \<longrightarrow> isl (sale_total C (rd_fx R) s) = False)
          \<and> \<not> isl (alloc_cost_base D C R a s b)
          \<and> (st_cash_per_unit (si_scrip s) = None
             \<or> st_market_value (si_scrip s) \<noteq> None \<and> st_new_units (si_scrip s) \<noteq> None
               \<and> st_old_units (si_scrip s) \<noteq> None)
      | _ \<Rightarrow> True)"


definition rights_computable ::
    "chrono_api \<Rightarrow> 'd::linordered_field report_data \<Rightarrow> 'd rights_sale_info \<Rightarrow> bool" where
  "rights_computable C R s \<longleftrightarrow>
     \<not> isl (resolve_rate C (rd_fx R) (rs_currency s) (rs_date s) (FxFallback (rs_fx_rate s)))"

lemma not_isl: "\<not> isl r \<longleftrightarrow> (\<exists>a. r = Inr a)"
  by (cases r) auto

lemma scrip_terms_ok:
  "(\<exists>t. scrip_cash_apportionment i st = Inr t)
     \<longleftrightarrow> st_cash_per_unit st = None
        \<or> st_market_value st \<noteq> None \<and> st_new_units st \<noteq> None \<and> st_old_units st \<noteq> None"
  by (cases "st_cash_per_unit st"; cases "st_market_value st"; cases "st_new_units st"; cases "st_old_units st")
    (simp_all add: scrip_cash_apportionment_def)

lemma three_steps_ok:
  "(\<exists>z. and_then r (\<lambda>(p, q). and_then c (\<lambda>y. and_then t (\<lambda>w. Inr (f p q y w)))) = Inr z)
     \<longleftrightarrow> (\<exists>x. r = Inr x) \<and> (\<exists>y. c = Inr y) \<and> (\<exists>w. t = Inr w)"
  by (cases r; cases c; cases t) auto

lemma sell_parcel_ok_iff:
  "(\<exists>acc'. sell_parcel D C R a s b acc = Inr acc') \<longleftrightarrow>
     (\<exists>r. alloc_proceeds D C (rd_fx R) s (al_quantity_allocated a) acc = Inr r)
     \<and> (\<exists>cb. alloc_cost_base D C R a s b = Inr cb)
     \<and> (\<exists>t. scrip_cash_apportionment (si_id s) (si_scrip s) = Inr t)"
  unfolding sell_parcel_def Let_def three_steps_ok map_error_Inr ..

lemma alloc_proceeds_ok_iff:
  "(\<exists>r. alloc_proceeds D C rates s q acc = Inr r) \<longleftrightarrow> (0 < si_quantity s \<longrightarrow> (\<exists>w. sale_total C rates s = Inr w))"
  by (cases "sale_total C rates s") (simp_all add: alloc_proceeds_def)

lemma sell_step_ok_iff: "(\<exists>accs'. sell_step D C R accs a = Inr accs') \<longleftrightarrow> allocation_computable D C R a"
proof (cases "rd_sells R (al_sale_trade_id a)")
  case sells: (Some s)
  show ?thesis
  proof (cases "rd_buys R (al_purchase_trade_id a)")
    case (Some b)
    have "(\<exists>accs'. sell_step D C R accs a = Inr accs')
        \<longleftrightarrow> (\<exists>acc'. sell_parcel D C R a s b (acc_of accs (al_sale_trade_id a)) = Inr acc')"
      using sells Some by (auto simp: sell_step_def result_simps)
    then show ?thesis
      unfolding sell_parcel_ok_iff alloc_proceeds_ok_iff scrip_terms_ok
      by (simp add: allocation_computable_def sells Some not_isl)
  qed (use sells in \<open>simp add: sell_step_def allocation_computable_def\<close>)
qed (simp add: sell_step_def allocation_computable_def)

lemma try_foldl_ok_iff:
  assumes "\<And>s x. (\<exists>s'. f s x = Inr s') \<longleftrightarrow> P x"
  shows "(\<exists>t. try_foldl f s xs = Inr t) \<longleftrightarrow> (\<forall>x \<in> set xs. P x)"
proof (induction xs arbitrary: s)
  case (Cons x xs)
  have "(\<exists>t. try_foldl f s (x # xs) = Inr t) \<longleftrightarrow> (\<exists>s'. f s x = Inr s' \<and> (\<exists>t. try_foldl f s' xs = Inr t))"
    by (auto simp: result_simps)
  also have "\<dots> \<longleftrightarrow> P x \<and> (\<forall>x \<in> set xs. P x)" unfolding Cons.IH using assms [of s x] by blast
  finally show ?case by simp
qed simp

lemma try_map_ok_iff: "(\<exists>ys. try_map f xs = Inr ys) \<longleftrightarrow> (\<forall>x \<in> set xs. \<exists>y. f x = Inr y)"
  by (induction xs) (auto simp: result_simps)

lemma rights_row_ok_iff: "(\<exists>r. rights_row D C R s = Inr r) \<longleftrightarrow> rights_computable C R s"
  by (cases "resolve_rate C (rd_fx R) (rs_currency s) (rs_date s) (FxFallback (rs_fx_rate s))")
    (simp_all add: rights_row_def rights_computable_def fx_to_aud_def)

lemma compute_ok_iff:
  "(\<exists>rows. compute_realised_gains D C R = Inr rows) \<longleftrightarrow>
     (\<forall>a \<in> set (rd_allocations R). allocation_computable D C R a)
     \<and> (\<forall>s \<in> set (rd_rights_sales R). rights_computable C R s)"
proof -
  have "(\<exists>rows. compute_realised_gains D C R = Inr rows) \<longleftrightarrow>
      (\<exists>accs. try_foldl (sell_step D C R) [] (rd_allocations R) = Inr accs)
      \<and> (\<exists>rights. try_map (rights_row D C R) (rd_rights_sales R) = Inr rights)"
    by (auto simp: compute_realised_gains_def result_simps)
  then show ?thesis
    unfolding try_foldl_ok_iff [of "sell_step D C R", OF sell_step_ok_iff] try_map_ok_iff rights_row_ok_iff .
qed


text \<open>A loop state the code is in: what is entitled so far is the entitlement of the units so far.\<close>

definition share_sound :: "'d::linordered_field decimal_api \<Rightarrow> 'd \<Rightarrow> 'd \<Rightarrow> 'd \<times> 'd \<Rightarrow> bool" where
  "share_sound D whole n = (\<lambda>(u, e). decimal_laws D \<and> normal_scale D whole \<le> 28 \<and> 0 \<le> whole \<and> 0 < n
     \<and> e = decimal_laws.entitlement D whole n u)"

interpretation rising: rising_share "pro_rata D whole n" snd "share_sound D whole n" "\<lambda>q. 0 \<le> q"
proof
  fix s :: "'a \<times> 'a" and q :: 'a
  assume s: "share_sound D whole n s" and q: "0 \<le> q"
  obtain u e where ue: "s = (u, e)" by (cases s)
  show "share_sound D whole n (snd (pro_rata D whole n s q)) \<and> snd s \<le> snd (snd (pro_rata D whole n s q))"
    using s q decimal_laws.pro_rata_rises [of D whole n e u q] by (auto simp: share_sound_def ue)
qed

text \<open>Shares handed out in turn are never negative, each a whole number of steps of one grid as
  fine as 27 significant digits of the total allow and no coarser than the total itself, and once
  the units are all allocated they add back to the total exactly.\<close>

theorem shares_add_back:
  fixes whole :: "'d::linordered_field"
  assumes D: "decimal_laws D" and "normal_scale D whole \<le> 28" "0 \<le> whole" "whole < 10 ^ 29" "0 < n"
    and "\<forall>q \<in> set qs. 0 \<le> q" and "sum_list qs = n"
  shows "sum_list (fst (walk (pro_rata D whole n) (0, 0) qs)) = whole
    \<and> (\<forall>y \<in> set (fst (walk (pro_rata D whole n) (0, 0) qs)). 0 \<le> y \<and> on_grid (share_grid_scale D whole) y)
    \<and> normal_scale D whole \<le> share_grid_scale D whole
    \<and> (\<exists>d. whole < 10 ^ d \<and> (1 \<le> whole \<longrightarrow> 10 ^ (d - 1) \<le> whole)
         \<and> 27 - d \<le> share_grid_scale D whole)"
proof (intro conjI ballI)
  have start: "share_sound D whole n (0, 0)"
    using assms(2,3,5) decimal_laws.entitlement_zero [OF D, of whole n] by (simp add: share_sound_def D)
  have "snd (snd (walk (pro_rata D whole n) (0, 0) qs)) = decimal_laws.entitlement D whole n n"
    using rising.shares_nonneg [OF start assms(6)] assms(7) pro_rata_units [of D whole n "(0, 0)" qs]
    by (simp add: share_sound_def case_prod_unfold)
  then show "sum_list (fst (walk (pro_rata D whole n) (0, 0) qs)) = whole"
    using decimal_laws.entitlement_full [OF D assms(2,5)] by (simp add: pro_rata.shares_sum)
  show "0 \<le> y" if "y \<in> set (fst (walk (pro_rata D whole n) (0, 0) qs))" for y
    using rising.shares_nonneg [OF start assms(6)] that by blast
  show "on_grid (share_grid_scale D whole) y" if "y \<in> set (fst (walk (pro_rata D whole n) (0, 0) qs))" for y
    using decimal_laws.pro_rata_grid [OF D assms(2,5)] that by blast
  show "normal_scale D whole \<le> share_grid_scale D whole" using assms(2) by (simp add: share_grid_scale_def)
  obtain k :: int where k: "dtrunc D whole = of_int k" "of_int k \<le> whole" "whole < of_int k + 1"
    using decimal_laws.trunc_int [OF D, of whole] assms(3) by auto
  have "of_int k < (10::'d) ^ 29" "(-1::'d) < of_int k" using k(2,3) assms(3,4) by linarith+
  then have "of_int k < (of_int (10 ^ 29) :: 'd)" "(of_int (-1)::'d) < of_int k" by simp_all
  then have range: "0 \<le> k" "k < 10 ^ 29" unfolding of_int_less_iff by simp_all
  define d where "d = integer_digits D 29 (of_int k)"
  note digits = decimal_laws.integer_digits_of_int [OF D range, folded d_def]
  have "of_int (k + 1) \<le> (of_int (10 ^ d) :: 'd)" using digits unfolding of_int_le_iff by simp
  then have "whole < 10 ^ d" using k(3) by simp
  moreover have "10 ^ (d - 1) \<le> whole" if "1 \<le> whole"
  proof -
    have "(0 :: 'd) < of_int k" using that k(3) by linarith
    then have "0 < k" by simp
    then have "(of_int (10 ^ (d - 1)) :: 'd) \<le> of_int k" using digits unfolding of_int_le_iff by blast
    then have "of_int (10 ^ (d - 1)) \<le> whole" using k(2) by (rule order_trans)
    then show ?thesis by simp
  qed
  moreover have "27 - d \<le> share_grid_scale D whole"
    using assms(3) k(1) by (simp add: share_grid_scale_def d_def)
  ultimately show "\<exists>d. whole < 10 ^ d \<and> (1 \<le> whole \<longrightarrow> 10 ^ (d - 1) \<le> whole) \<and> 27 - d \<le> share_grid_scale D whole"
    by blast
qed


definition in_cents :: "'d::linordered_field decimal_api \<Rightarrow> 'd disposal_cents \<times> 'd \<times> 'd \<Rightarrow> bool" where
  "in_cents D = (\<lambda>(t, running, rounded_before).
     rounded_before = to_cents D running \<and> dc_proceeds t = rounded_before
     \<and> on_grid 2 (dc_proceeds t) \<and> on_grid 2 (dc_cost_base t) \<and> on_grid 2 (dc_discount_eligible_gain t)
     \<and> on_grid 2 (dc_non_discountable_gain t) \<and> on_grid 2 (dc_capital_loss t)
     \<and> 0 \<le> dc_discount_eligible_gain t \<and> 0 \<le> dc_non_discountable_gain t \<and> 0 \<le> dc_capital_loss t
     \<and> dc_proceeds t - dc_cost_base t
         = dc_discount_eligible_gain t + dc_non_discountable_gain t - dc_capital_loss t)"


context decimal_laws
begin

lemma cents_step_in_cents:
  assumes "in_cents D st"
  shows "in_cents D (snd (cents_step D st p))
    \<and> on_grid 2 (fst (fst (cents_step D st p))) \<and> on_grid 2 (snd (fst (cents_step D st p)))"
proof -
  obtain t running before where st: "st = (t, running, before)" by (cases st)
  obtain proceeds cost eligible where p: "p = (proceeds, cost, eligible)" by (cases p)
  define np nc gain where "np = to_cents D (running + proceeds) - before" and "nc = to_cents D cost"
    and "gain = np - nc"
  have grid: "on_grid 2 np" "on_grid 2 nc" "on_grid 2 gain"
    using assms by (simp_all add: st in_cents_def np_def nc_def gain_def to_cents_grid on_grid_diff)
  have total: "dc_proceeds t + np = to_cents D (running + proceeds)"
    using assms by (simp add: st in_cents_def np_def)
  define t1 where "t1 = (if 0 < gain \<and> eligible
      then t\<lparr>dc_discount_eligible_gain := dc_discount_eligible_gain t + gain\<rparr>
      else if 0 < gain then t\<lparr>dc_non_discountable_gain := dc_non_discountable_gain t + gain\<rparr>
      else t\<lparr>dc_capital_loss := dc_capital_loss t - gain\<rparr>)"
  have step: "cents_step D st p = ((np, nc), t1\<lparr>dc_proceeds := dc_proceeds t1 + np,
      dc_cost_base := dc_cost_base t1 + nc\<rparr>, running + proceeds, to_cents D (running + proceeds))"
    by (simp add: st p cents_step_def Let_def np_def nc_def gain_def t1_def)
  have t1: "dc_proceeds t1 = dc_proceeds t" "dc_cost_base t1 = dc_cost_base t"
    "dc_discount_eligible_gain t1 + dc_non_discountable_gain t1 - dc_capital_loss t1
      = dc_discount_eligible_gain t + dc_non_discountable_gain t - dc_capital_loss t + gain"
    by (simp_all add: t1_def)
  have "on_grid 2 (dc_discount_eligible_gain t1) \<and> on_grid 2 (dc_non_discountable_gain t1)
      \<and> on_grid 2 (dc_capital_loss t1) \<and> 0 \<le> dc_discount_eligible_gain t1
      \<and> 0 \<le> dc_non_discountable_gain t1 \<and> 0 \<le> dc_capital_loss t1"
    using assms grid(3) by (auto simp: st in_cents_def t1_def on_grid_add on_grid_diff)
  then show ?thesis
    unfolding step in_cents_def
    using assms [unfolded st in_cents_def] grid total t1
    by (simp add: on_grid_add gain_def to_cents_grid)
qed

lemma cents_walk_in_cents:
  "in_cents D st \<Longrightarrow> in_cents D (snd (walk (cents_step D) st ps))
     \<and> (\<forall>y \<in> set (fst (walk (cents_step D) st ps)). on_grid 2 (fst y) \<and> on_grid 2 (snd y))"
  by (rule walk_invariant) (use cents_step_in_cents in auto)

lemma cents_walk_running:
  "fst (snd (snd (walk (cents_step D) st ps))) = fst (snd st) + sum_list (map fst ps)"
proof (induction ps arbitrary: st)
  case (Cons p ps)
  have "fst (snd (snd (cents_step D st p))) = fst (snd st) + fst p"
    by (simp add: cents_step_def Let_def case_prod_unfold)
  then show ?case using Cons.IH [of "snd (cents_step D st p)"]
    by (simp add: case_prod_unfold Let_def add.assoc)
qed simp

lemma cents_walk_cost:
  "dc_cost_base (fst (snd (walk (cents_step D) st ps)))
     = dc_cost_base (fst st) + sum_list (map (to_cents D \<circ> fst \<circ> snd) ps)"
proof (induction ps arbitrary: st)
  case (Cons p ps)
  have "dc_cost_base (fst (snd (cents_step D st p))) = dc_cost_base (fst st) + to_cents D (fst (snd p))"
    by (simp add: cents_step_def Let_def case_prod_unfold)
  then show ?case using Cons.IH [of "snd (cents_step D st p)"]
    by (simp add: case_prod_unfold Let_def add.assoc)
qed simp

end

lemma cents_walk_shares:
  "map fst (fst (walk (cents_step D) st ps)) = fst (walk (cents_share D) st ps)
   \<and> snd (walk (cents_step D) st ps) = snd (walk (cents_share D) st ps)"
proof (induction ps arbitrary: st)
  case (Cons p ps)
  then show ?case using Cons.IH [of "snd (cents_step D st p)"]
    by (simp add: case_prod_unfold Let_def cents_share_def)
qed simp

text \<open>Publishing a row in whole cents keeps it consistent: its proceeds are the exact proceeds
  rounded once, and still the sum of its parcels'; every figure is a whole number of cents, the
  parcels' too; and the gain is still discount-eligible plus other gain less loss, none negative.\<close>

theorem row_at_the_cent:
  fixes r :: "'d::linordered_field realised_gain_loss"
  assumes D: "decimal_laws D" and r: "row_adds_up r" "rg_parcels r \<noteq> []"
  shows "rg_proceeds (at_the_cent D r) = to_cents D (rg_proceeds r)
    \<and> sum_list (map pd_proceeds (rg_parcels (at_the_cent D r))) = rg_proceeds (at_the_cent D r)
    \<and> rg_cost_base (at_the_cent D r) = sum_list (map (to_cents D \<circ> pd_cost_base) (rg_parcels r))
    \<and> (\<forall>p \<in> set (rg_parcels (at_the_cent D r)). on_grid 2 (pd_proceeds p) \<and> on_grid 2 (pd_cost_base p)
         \<and> pd_capital_gain_loss p = pd_proceeds p - pd_cost_base p)
    \<and> rg_capital_gain_loss (at_the_cent D r) = rg_discount_eligible_gain (at_the_cent D r)
         + rg_non_discountable_gain (at_the_cent D r) - rg_capital_loss (at_the_cent D r)
    \<and> on_grid 2 (rg_discount_eligible_gain (at_the_cent D r)) \<and> 0 \<le> rg_discount_eligible_gain (at_the_cent D r)
    \<and> on_grid 2 (rg_non_discountable_gain (at_the_cent D r)) \<and> 0 \<le> rg_non_discountable_gain (at_the_cent D r)
    \<and> on_grid 2 (rg_capital_loss (at_the_cent D r)) \<and> 0 \<le> rg_capital_loss (at_the_cent D r)"
proof -
  define ps where "ps = map (\<lambda>p. (pd_proceeds p, pd_cost_base p, pd_discount_eligible p)) (rg_parcels r)"
  obtain rounded t running before where w: "walk (cents_step D) (no_cents, 0, 0) ps = (rounded, t, running, before)"
    by (cases "walk (cents_step D) (no_cents, 0, 0) ps")
  have start: "in_cents D (no_cents, 0, 0)"
    by (simp add: in_cents_def no_cents_def on_grid_0 decimal_laws.to_cents_zero [OF D])
  note inv = decimal_laws.cents_walk_in_cents [OF D start, of ps, unfolded w]
  have run: "running = rg_proceeds r"
    using decimal_laws.cents_walk_running [OF D, of "(no_cents, 0, 0)" ps, unfolded w] r(1)
    by (simp add: ps_def comp_def row_adds_up_def parcels_add_up_def)
  have cost: "dc_cost_base t = sum_list (map (to_cents D \<circ> pd_cost_base) (rg_parcels r))"
    using decimal_laws.cents_walk_cost [OF D, of "(no_cents, 0, 0)" ps, unfolded w]
    by (simp add: ps_def comp_def no_cents_def)
  have len: "length rounded = length (rg_parcels r)"
    using walk_length [of "cents_step D" "(no_cents, 0, 0)" ps, unfolded w] by (simp add: ps_def)
  have shares: "sum_list (map fst rounded) = before"
    using cents_walk_shares [of D "(no_cents, 0, 0)" ps, unfolded w] cents.shares_sum [of D "(no_cents, 0, 0)" ps]
    by (metis diff_zero fst_conv snd_conv)
  have proceeds: "map pd_proceeds (map2 (parcel_at_the_cent D) qs rounded) = map fst rounded"
    if "length rounded = length qs" for qs
    using that by (induction qs rounded rule: list_induct2') (auto simp: parcel_at_the_cent_def)
  have each: "on_grid 2 (pd_proceeds p) \<and> on_grid 2 (pd_cost_base p)
      \<and> pd_capital_gain_loss p = pd_proceeds p - pd_cost_base p"
    if "p \<in> set (map2 (parcel_at_the_cent D) (rg_parcels r) rounded)" for p
    using that inv by (auto simp: parcel_at_the_cent_def dest!: set_zip_rightD)
  have eq: "at_the_cent D r = r\<lparr>rg_parcels := map2 (parcel_at_the_cent D) (rg_parcels r) rounded,
      rg_proceeds := dc_proceeds t, rg_cost_base := dc_cost_base t,
      rg_capital_gain_loss := dc_proceeds t - dc_cost_base t,
      rg_discount_eligible_gain := dc_discount_eligible_gain t,
      rg_non_discountable_gain := dc_non_discountable_gain t, rg_capital_loss := dc_capital_loss t\<rparr>"
    using r(2) w by (simp add: at_the_cent_def parcels_at_the_cent_def ps_def [symmetric])
  show ?thesis unfolding eq
    using inv each proceeds [OF len] shares cost run by (simp add: in_cents_def)
qed


section \<open>Witnesses\<close>

lemma alloc_cost_base_total:
  assumes "rd_roc_events R (pr_listing_id b) = None" and "is_aud (pr_currency b)"
  shows "\<exists>cb. alloc_cost_base D C R a s b = Inr cb"
proof -
  have "\<exists>cb. adjusted_cost_base D C q u amit [] sp h = Inr cb" for q u amit sp h
    by (cases "draw_down (starting_cost D q u) (sort_key (\<lambda>row. (cba_date row, kind_rank (cba_kind row)))
        (map (amit_row D C q u h) amit @ split_rows q sp h))")
      (simp add: adjusted_cost_base_def reduction_walk_def roc_rows_def)
  moreover have "into_aud_with C rates (pr_currency b) d ov cb = Inr (at_rate 1 cb)" for rates d ov cb
    using assms(2) by (simp add: into_aud_with_def resolve_rate_def)
  ultimately show ?thesis
    unfolding alloc_cost_base_def Let_def assms(1) option.case
    by (metis (no_types, lifting) and_then.simps(2) map_error.simps(2))
qed

definition example_sell :: "rat sell_info" where
  "example_sell =
     \<lparr>si_id = 5, si_listing_id = 7, si_holding_account_id = 3, si_date = 20, si_quantity = 80,
      si_average_price = 3, si_brokerage = 10, si_gst_on_brokerage = 1, si_currency = ''AUD'',
      si_fx_rate = 1, si_spot_fx_rate = None, si_scrip = no_scrip_terms\<rparr>"

definition example_report :: "rat sell_info \<Rightarrow> rat report_data" where
  "example_report s =
     \<lparr>rd_sells = [5 \<mapsto> s], rd_buys = [1 \<mapsto> example_buy, 2 \<mapsto> example_buy\<lparr>pr_id := 2\<rparr>],
      rd_allocations = lg_allocations example_ledger, rd_rights_sales = [], rd_rights_allocations = [],
      rd_cba_reduction = (\<lambda>_. []), rd_roc_events = (\<lambda>_. None), rd_split_events = (\<lambda>_. None),
      rd_acquired_units = (\<lambda>_. None), rd_fx = (\<lambda>_. None), rd_cpi = (\<lambda>_. None)\<rparr>"

lemma aud_code: "is_aud ''AUD''"
  by code_simp

lemma example_computes: "\<exists>rows. compute_realised_gains ref_dec gregorian (example_report example_sell) = Inr rows"
proof -
  have "sale_total gregorian (\<lambda>_. None) example_sell = Inr 229"
    by (simp add: sale_total_def example_sell_def fx_to_aud_def resolve_rate_def aud_code apply_rate_def)
  moreover have "\<not> isl (alloc_cost_base ref_dec gregorian (example_report example_sell) a s b)"
    if "b = example_buy \<or> b = example_buy\<lparr>pr_id := 2\<rparr>" for a s b
    using that unfolding not_isl
    by (intro alloc_cost_base_total) (auto simp: example_report_def example_buy_def aud_code)
  ultimately show ?thesis
    unfolding compute_ok_iff
    by (simp add: allocation_computable_def example_ledger_def)
      (simp add: example_report_def example_ledger_def example_sell_def no_scrip_terms_def)
qed

theorem realised_rows_add_up_witness:
  "\<exists>rows. compute_realised_gains ref_dec gregorian (example_report example_sell) = Inr rows
     \<and> (\<forall>r \<in> set rows. row_adds_up r)"
  using example_computes realised_rows_add_up by blast

lemma example_live: "filter (live (example_report s) 5) (rd_allocations (example_report s)) = lg_allocations example_ledger"
  by (simp add: live_def example_report_def example_ledger_def)

theorem fully_allocated_sale_witness:
  "\<exists>rows. compute_realised_gains ref_dec gregorian (example_report example_sell) = Inr rows
     \<and> (\<exists>r \<in> set rows. rg_disposal r = SellDisposal 5 \<and> rg_proceeds r = 229)"
proof -
  obtain rows where ok: "compute_realised_gains ref_dec gregorian (example_report example_sell) = Inr rows"
    using example_computes by blast
  have s: "rd_sells (example_report example_sell) 5 = Some example_sell" by (simp add: example_report_def)
  have q: "0 < si_quantity example_sell" by (simp add: example_sell_def)
  have full: "sum_list (map al_quantity_allocated
      (filter (live (example_report example_sell) 5) (rd_allocations (example_report example_sell))))
      = si_quantity example_sell"
    unfolding example_live by (simp add: example_ledger_def example_sell_def)
  have "sale_total gregorian (rd_fx (example_report example_sell)) example_sell = Inr 229"
    by (simp add: sale_total_def example_sell_def fx_to_aud_def resolve_rate_def aud_code apply_rate_def)
  then show ?thesis using ok fully_allocated_sale [OF ok s q full] by auto
qed

theorem realised_rows_ordered_witness:
  "\<exists>rows. compute_realised_gains ref_dec gregorian (example_report example_sell) = Inr rows
     \<and> sorted_wrt (<) (map row_order rows)"
proof -
  have "distinct (map rs_id (rd_rights_sales (example_report example_sell)))" by (simp add: example_report_def)
  then show ?thesis using example_computes realised_rows_ordered by blast
qed


theorem shares_add_back_witness:
  "sum_list (fst (walk (pro_rata ref_dec (10::rat) 3) (0, 0) [1, 1, 1])) = 10"
proof -
  have "normal_scale ref_dec (10::rat) \<le> 28"
    by (simp add: ref_scale_def upt_conv_Cons)
  from shares_add_back [OF ref.decimal_laws_axioms this, of 3 "[1, 1, 1]"] show ?thesis by simp
qed

definition example_row :: "rat realised_gain_loss" where
  "example_row =
     (let parcel = \<lparr>pd_purchase_trade_id = 1, pd_acquisition_date = 10, pd_units = 1, pd_cost_base = 1,
            pd_proceeds = 10 / 3, pd_capital_gain_loss = 7 / 3, pd_discount_eligible = True,
            pd_indexation_eligible = False, pd_indexed_cost_base = None\<rparr>
      in \<lparr>rg_disposal = SellDisposal 5, rg_listing_id = 7, rg_holding_account_id = 3, rg_sale_date = 20,
          rg_proceeds = 20 / 3, rg_cost_base = 2, rg_capital_gain_loss = 14 / 3,
          rg_discount_eligible_gain = 14 / 3, rg_non_discountable_gain = 0, rg_capital_loss = 0,
          rg_parcels = [parcel, parcel]\<rparr>)"

theorem row_at_the_cent_witness:
  "rg_proceeds (at_the_cent ref_dec example_row) = 667 / 100
    \<and> rg_discount_eligible_gain (at_the_cent ref_dec example_row)
      + rg_non_discountable_gain (at_the_cent ref_dec example_row)
      - rg_capital_loss (at_the_cent ref_dec example_row) = rg_capital_gain_loss (at_the_cent ref_dec example_row)"
proof -
  have "row_adds_up example_row" "rg_parcels example_row \<noteq> []"
    by (simp_all add: example_row_def Let_def row_adds_up_def parcels_add_up_def)
  from row_at_the_cent [OF ref.decimal_laws_axioms this]
  have "rg_proceeds (at_the_cent ref_dec example_row) = to_cents ref_dec (rg_proceeds example_row)"
    and "rg_capital_gain_loss (at_the_cent ref_dec example_row) = rg_discount_eligible_gain (at_the_cent ref_dec example_row)
      + rg_non_discountable_gain (at_the_cent ref_dec example_row) - rg_capital_loss (at_the_cent ref_dec example_row)"
    by blast+
  moreover have "to_cents ref_dec (rg_proceeds example_row) = 667 / 100"
    by (simp add: to_cents_def example_row_def Let_def ref_round_def floor_eq_iff)
  ultimately show ?thesis by simp
qed

end
