(* ===== verification/EventGains.thy ===== *)
theory EventGains
  imports RealisedGains
begin

text \<open>
  The first half of \<open>src/src/reports/net_capital_gain.rs\<close>: the capital gains a parcel makes
  without being disposed of (CGT events E10, G1 and C2), found by walking each group of its
  units down the cost base its reductions draw on. The theorems tie the walk to the cost base
  of the theory \<open>CostBase\<close>: it ends at the very figure that pipeline computes.
\<close>

section \<open>Reductions\<close>

datatype 'd reduction =
    AmitReduction "'d amit_event"
  | RocReduction date currency_code 'd "date option"

fun red_date :: "'d reduction \<Rightarrow> date" where
  "red_date (AmitReduction e) = ae_tax_year_end_date e"
| "red_date (RocReduction d _ _ _) = d"

fun red_rank :: "'d reduction \<Rightarrow> nat" where
  "red_rank (AmitReduction _) = 0"
| "red_rank (RocReduction _ _ _ _) = 1"

fun reduction_reaching ::
    "'d::{zero,one,minus,times,inverse,linorder} decimal_api \<Rightarrow> chrono_api \<Rightarrow> 'd reduction \<Rightarrow>
     'd acquired_units \<Rightarrow> 'd acquired_units \<Rightarrow> date option \<Rightarrow> bool \<Rightarrow> 'd" where
  "reduction_reaching D C (AmitReduction e) parcel_quantity units disposed_on disposal =
     reduction_for_units D C e parcel_quantity units
       (case disposed_on of None \<Rightarrow> InParcel | Some d \<Rightarrow> if disposal then DisposedOn d else CarriedOut)"
| "reduction_reaching D C (RocReduction d _ per_unit _) parcel_quantity units disposed_on disposal =
     (if (case disposed_on of None \<Rightarrow> True | Some left \<Rightarrow> d \<le> left) then per_unit * au_get units else 0)"

section \<open>Groups of units that share a history\<close>

record 'd cohort =
  co_left_on :: "date option"
  co_left_register_on :: "date option"
  co_disposal :: bool
  co_units :: "'d acquired_units"

definition unit_cohorts ::
    "'d::{zero,one,plus,minus,times,inverse,linorder} decimal_api \<Rightarrow> 'd parcel_row \<Rightarrow>
     'd units_consumed list \<Rightarrow> 'd split_event list \<Rightarrow> 'd cohort list" where
  "unit_cohorts D p sales splits =
     (let units = acquired_units_of_sales D (pr_quantity p) (map uc_quantity sales) splits (pr_date p);
          cohorts = filter (\<lambda>c. au_less D au_zero (co_units c))
            (map2 (\<lambda>c u. \<lparr>co_left_on = Some (uc_date c), co_left_register_on = Some (uc_settled c),
                           co_disposal = uc_disposal c, co_units = u\<rparr>) sales units);
          still_held = au_sub D (pr_quantity p) (au_sum D (map co_units cohorts))
      in if au_less D au_zero still_held
         then cohorts @ [\<lparr>co_left_on = None, co_left_register_on = None, co_disposal = False,
                          co_units = still_held\<rparr>]
         else cohorts)"

definition cohort_initial_cost ::
    "'d::{zero,one,plus,times,inverse} decimal_api \<Rightarrow> 'd parcel \<Rightarrow> 'd acquired_units \<Rightarrow> 'd" where
  "cohort_initial_cost D p units = prorated_initial_cost D (initial_cost p) units (pa_quantity p)"

section \<open>The walk\<close>

datatype cgt_event_kind = E10 | G1 | C2

record 'd event_gain =
  eg_kind :: cgt_event_kind
  eg_tax_year :: int
  eg_amount :: 'd
  eg_discount_eligible :: bool

text \<open>A payment these units were on the register for but no longer owned when it was made.\<close>

fun ends_a_right :: "'d cohort \<Rightarrow> 'd reduction \<Rightarrow> bool" where
  "ends_a_right co (RocReduction d _ _ (Some record_date)) =
     (co_disposal co
      \<and> (case co_left_register_on co of None \<Rightarrow> False | Some s \<Rightarrow> record_date < s)
      \<and> (case co_left_on co of None \<Rightarrow> False | Some left \<Rightarrow> left < d))"
| "ends_a_right co _ = False"

definition c2_gains ::
    "chrono_api \<Rightarrow> 'd::{zero,one,times,inverse} fx_rates \<Rightarrow> 'd parcel_row \<Rightarrow> 'd cohort \<Rightarrow> 'd reduction \<Rightarrow>
     report_error + 'd event_gain list" where
  "c2_gains C rates p co e =
     (case e of
        RocReduction d currency per_unit _ \<Rightarrow>
          (if ends_a_right co e
           then and_then (map_error ReportFx (fx_to_aud C rates (per_unit * au_get (co_units co)) currency d FxNone))
             (\<lambda>amount. Inr [\<lparr>eg_kind = C2, eg_tax_year = tax_year_for C d, eg_amount = amount,
                             eg_discount_eligible = discount_eligible C (pr_acquired p) d\<rparr>])
           else Inr [])
      | AmitReduction _ \<Rightarrow> Inr [])"

text \<open>The gain of a reduction of \<open>amount\<close> that overran what was left of the cost base.\<close>

definition overrun_gain ::
    "chrono_api \<Rightarrow> 'd::{zero,one,minus,inverse,linorder} fx_rates \<Rightarrow> 'd parcel_row \<Rightarrow> 'd reduction \<Rightarrow> 'd \<Rightarrow> 'd \<Rightarrow>
     report_error + 'd event_gain" where
  "overrun_gain C rates p e amount exhausted =
     (let (kind, currency) = (case e of AmitReduction _ \<Rightarrow> (E10, pr_currency p)
                              | RocReduction _ currency _ _ \<Rightarrow> (G1, currency))
      in and_then (map_error ReportFx (fx_to_aud C rates amount currency (red_date e) FxNone)) (\<lambda>reduction.
         and_then (if exhausted = 0 then Inr 0
                   else map_error ReportFx (fx_to_aud C rates exhausted (pr_currency p) (pr_acquired p)
                          (pr_fx_override p))) (\<lambda>cost_base.
         Inr \<lparr>eg_kind = kind, eg_tax_year = tax_year_for C (red_date e),
              eg_amount = max (reduction - cost_base) 0,
              eg_discount_eligible = discount_eligible C (pr_acquired p) (red_date e)\<rparr>)))"

definition cohort_step ::
    "'d::{zero,one,minus,times,inverse,linorder} decimal_api \<Rightarrow> chrono_api \<Rightarrow> 'd fx_rates \<Rightarrow> 'd parcel_row \<Rightarrow>
     'd cohort \<Rightarrow> 'd \<times> 'd event_gain list \<Rightarrow> 'd reduction \<Rightarrow> report_error + 'd \<times> 'd event_gain list" where
  "cohort_step D C rates p co = (\<lambda>(remaining, out) e.
     and_then (c2_gains C rates p co e) (\<lambda>c2.
     let amount = reduction_reaching D C e (pr_quantity p) (co_units co) (co_left_on co) (co_disposal co)
     in if amount \<le> remaining then Inr (remaining - amount, out @ c2)
        else and_then (overrun_gain C rates p e amount remaining) (\<lambda>g. Inr (0, out @ c2 @ [g]))))"

definition cohort_walk ::
    "'d::{zero,one,plus,minus,times,inverse,linorder} decimal_api \<Rightarrow> chrono_api \<Rightarrow> 'd fx_rates \<Rightarrow>
     'd parcel_row \<Rightarrow> 'd reduction list \<Rightarrow> 'd cohort \<Rightarrow> report_error + 'd \<times> 'd event_gain list" where
  "cohort_walk D C rates p events co =
     try_foldl (cohort_step D C rates p co) (cohort_initial_cost D (pr_parcel p) (co_units co), []) events"

definition parcel_event_gains ::
    "'d::{zero,one,plus,minus,times,inverse,linorder} decimal_api \<Rightarrow> chrono_api \<Rightarrow> 'd fx_rates \<Rightarrow>
     'd units_consumed list \<Rightarrow> 'd split_event list \<Rightarrow> 'd parcel_row \<times> 'd reduction list \<Rightarrow>
     report_error + 'd event_gain list" where
  "parcel_event_gains D C rates sales splits = (\<lambda>(p, reductions).
     let events = sort_key (\<lambda>e. (red_date e, red_rank e)) reductions
     in if \<not> au_less D au_zero (pr_quantity p) then Inr []
        else map_result (concat \<circ> map snd)
          (try_map (cohort_walk D C rates p events) (unit_cohorts D p sales splits)))"

section \<open>Collecting the reductions\<close>

type_synonym 'd contemplated = "trade_id \<rightharpoonup> 'd units_consumed list"

definition contemplated_for :: "'d contemplated \<Rightarrow> trade_id \<Rightarrow> 'd units_consumed list" where
  "contemplated_for ct i = (case ct i of None \<Rightarrow> [] | Some us \<Rightarrow> us)"

text \<open>The parcels adjusted by AMMA statements, in id order, with the contemplated sales joined in.\<close>

definition amit_reductions ::
    "'d::{zero,one,plus,minus,times,inverse,linorder} decimal_api \<Rightarrow> chrono_api \<Rightarrow> 'd ledger \<Rightarrow>
     'd contemplated \<Rightarrow> (trade_id \<times> 'd parcel_row \<times> 'd reduction list) list" where
  "amit_reductions D C L ct =
     concat (map (\<lambda>p.
       let events = db_cost_base_reduction_events D C L None (pr_id p)
       in if events = [] then []
          else [(pr_id p, p, map AmitReduction
            (foldl (\<lambda>es sale. events_with_disposal D C es
               (as_acquired_quantity D (uc_quantity sale) (parcel_splits (lg_splits L) (pr_listing_id p) (pr_id p))
                  (pr_date p)) (uc_date sale)) events (contemplated_for ct (pr_id p))))])
       (sort_key pr_id (filter (\<lambda>p. pr_id p \<in> aa_trade_id ` set (lg_amit_adjustments L))
          (map tr_row (lg_trades L)))))"

text \<open>The rows of the join of the capital returns with the Buy and DRP parcels held by their date.\<close>

definition roc_join :: "'d ledger \<Rightarrow> ('d parcel_row \<times> 'd roc_event) list" where
  "roc_join L =
     concat (map (\<lambda>p. map (Pair p) (filter (\<lambda>e. pr_date p \<le> roc_date e)
          (case lg_roc_events L (pr_listing_id p) of None \<Rightarrow> [] | Some es \<Rightarrow> es)))
       (sort_key pr_id (map tr_row (filter (\<lambda>t. tr_type t \<in> {Buy, DRP}) (lg_trades L)))))"

text \<open>\<open>parcel_entry\<close> and the push: a parcel is entered when it is first met.\<close>

definition roc_step ::
    "'d::{one,times,inverse,linorder} decimal_api \<Rightarrow> 'd ledger \<Rightarrow>
     (trade_id \<times> 'd parcel_row \<times> 'd reduction list) list \<Rightarrow> 'd parcel_row \<times> 'd roc_event \<Rightarrow>
     report_error + (trade_id \<times> 'd parcel_row \<times> 'd reduction list) list" where
  "roc_step D L acc = (\<lambda>(row, e).
     let (p, rs) = (case map_of acc (pr_id row) of Some entry \<Rightarrow> entry | None \<Rightarrow> (row, []))
     in and_then (map_error ReportCurrency (per_unit_for D e
            (parcel_splits (lg_splits L) (pr_listing_id p) (pr_id p)) (pr_currency p) (pr_date p)
            (pr_settlement_date p) (pr_rollover p) None))
          (\<lambda>per_unit. Inr (AList.update (pr_id row) (p, case per_unit of None \<Rightarrow> rs
             | Some u \<Rightarrow> rs @ [RocReduction (roc_date e) (roc_currency e) u (roc_record_date e)]) acc)))"

definition non_disposal_gains ::
    "'d::{zero,one,plus,minus,times,inverse,linorder} decimal_api \<Rightarrow> chrono_api \<Rightarrow> 'd ledger \<Rightarrow>
     'd contemplated \<Rightarrow> report_error + 'd event_gain list" where
  "non_disposal_gains D C L ct =
     and_then (try_foldl (roc_step D L) (amit_reductions D C L ct) (roc_join L)) (\<lambda>entries.
     map_result concat (try_map (\<lambda>(i, p, rs).
       parcel_event_gains D C (lg_rates L) (db_units_sold C L None i @ contemplated_for ct i)
         (parcel_splits (lg_splits L) (pr_listing_id p) (pr_id p)) (p, rs)) entries))"

section \<open>The groups partition the parcel\<close>

lemma filter_pos_sum:
  "(\<And>x. x \<in> set xs \<Longrightarrow> 0 \<le> (f x :: 'd::linordered_field)) \<Longrightarrow>
   sum_list (map f (filter (\<lambda>x. 0 < f x) xs)) = sum_list (map f xs)"
proof (induction xs)
  case (Cons x xs)
  have "0 \<le> f x" by (rule Cons.prems) simp
  moreover have "sum_list (map f (filter (\<lambda>x. 0 < f x) xs)) = sum_list (map f xs)"
    by (rule Cons.IH) (simp add: Cons.prems)
  ultimately show ?case by auto
qed simp

definition sold_cohorts ::
    "'d::{zero,one,plus,minus,times,inverse,linorder} decimal_api \<Rightarrow> 'd parcel_row \<Rightarrow>
     'd units_consumed list \<Rightarrow> 'd split_event list \<Rightarrow> 'd cohort list" where
  "sold_cohorts D p sales splits =
     map2 (\<lambda>c u. \<lparr>co_left_on = Some (uc_date c), co_left_register_on = Some (uc_settled c),
                  co_disposal = uc_disposal c, co_units = u\<rparr>) sales
       (acquired_units_of_sales D (pr_quantity p) (map uc_quantity sales) splits (pr_date p))"

context decimal_laws
begin

lemma sold_cohorts_units:
  assumes "splits_ok splits" and "au_ok (pr_quantity p)"
  shows "map (au_val \<circ> co_units) (sold_cohorts D p sales splits)
      = map (\<lambda>c. sale_val splits (pr_date p) (uc_quantity c)) sales"
    and "c \<in> set (sold_cohorts D p sales splits) \<Longrightarrow> au_ok (co_units c)"
proof -
  define us where "us = acquired_units_of_sales D (pr_quantity p) (map uc_quantity sales) splits (pr_date p)"
  have us: "length us = length sales" "\<And>i. i < length sales \<Longrightarrow>
      au_val (us ! i) = sale_val splits (pr_date p) (uc_quantity (sales ! i)) \<and> au_ok (us ! i)"
    using acquired_units_of_sales_val [OF assms, where sales = "map uc_quantity sales" and acquired = "pr_date p"]
    by (simp_all add: us_def)
  show "map (au_val \<circ> co_units) (sold_cohorts D p sales splits)
      = map (\<lambda>c. sale_val splits (pr_date p) (uc_quantity c)) sales"
    by (rule nth_equalityI) (simp_all add: sold_cohorts_def us_def [symmetric] us)
  show "c \<in> set (sold_cohorts D p sales splits) \<Longrightarrow> au_ok (co_units c)"
    using us by (auto simp: sold_cohorts_def us_def [symmetric] in_set_conv_nth)
qed

lemma unit_cohorts_partition:
  assumes ok: "splits_ok splits" "au_ok (pr_quantity p)"
    and sold: "\<And>c. c \<in> set sales \<Longrightarrow> 0 \<le> sale_val splits (pr_date p) (uc_quantity c)"
    and fits: "sum_list (map (\<lambda>c. sale_val splits (pr_date p) (uc_quantity c)) sales) \<le> au_val (pr_quantity p)"
  shows "sum_list (map (au_val \<circ> co_units) (unit_cohorts D p sales splits)) = au_val (pr_quantity p)"
    and "c \<in> set (unit_cohorts D p sales splits) \<Longrightarrow> au_ok (co_units c) \<and> 0 < au_val (co_units c)"
proof -
  define cs where "cs = sold_cohorts D p sales splits"
  define live where "live = filter (\<lambda>c. au_less D au_zero (co_units c)) cs"
  have ok_c: "au_ok (co_units c)" if "c \<in> set cs" for c
    using that sold_cohorts_units(2) [OF ok] by (simp add: cs_def)
  have live: "live = filter (\<lambda>c. 0 < (au_val \<circ> co_units) c) cs"
    unfolding live_def by (rule filter_cong) (simp_all add: ok_c units_simps)
  have "0 \<le> (au_val \<circ> co_units) c" if "c \<in> set cs" for c
  proof -
    have "(au_val \<circ> co_units) c \<in> set (map (au_val \<circ> co_units) cs)" using that by auto
    then show ?thesis unfolding cs_def sold_cohorts_units(1) [OF ok] using sold by auto
  qed
  then have sum: "sum_list (map (au_val \<circ> co_units) live)
      = sum_list (map (\<lambda>c. sale_val splits (pr_date p) (uc_quantity c)) sales)"
    unfolding live using filter_pos_sum [of cs "au_val \<circ> co_units"] sold_cohorts_units(1) [OF ok]
    by (simp add: cs_def)
  have s: "au_val (au_sum D (map co_units live)) = sum_list (map (au_val \<circ> co_units) live)"
    "au_ok (au_sum D (map co_units live))"
    using au_sum_simps [of "map co_units live"] ok_c by (auto simp: live_def)
  define rest where "rest = au_sub D (pr_quantity p) (au_sum D (map co_units live))"
  have rest: "au_val rest = au_val (pr_quantity p) - sum_list (map (au_val \<circ> co_units) live)" "au_ok rest"
    using au_sub_simps [OF ok(2) s(2)] s(1) by (simp_all add: rest_def)
  have eq: "unit_cohorts D p sales splits =
      (if 0 < au_val rest then live @ [\<lparr>co_left_on = None, co_left_register_on = None, co_disposal = False,
         co_units = rest\<rparr>] else live)"
    using au_less_val [OF au_zero_simps(2) rest(2)]
    by (simp add: unit_cohorts_def Let_def sold_cohorts_def [symmetric] cs_def [symmetric] live_def [symmetric]
        rest_def [symmetric] units_simps)
  show "sum_list (map (au_val \<circ> co_units) (unit_cohorts D p sales splits)) = au_val (pr_quantity p)"
    using rest fits sum by (auto simp: eq)
  show "c \<in> set (unit_cohorts D p sales splits) \<Longrightarrow> au_ok (co_units c) \<and> 0 < au_val (co_units c)"
    using rest(2) ok_c by (auto simp: eq live split: if_splits)
qed

end

section \<open>The walk follows the draw-down\<close>

text \<open>One step of the walk on the figures alone: what is left, floored at nil.\<close>

lemma cohort_step_remaining:
  fixes p :: "'d::linordered_field parcel_row"
  assumes "cohort_step D C rates p co (remaining, out) e = Inr (remaining', out')" and "0 \<le> remaining"
  shows "remaining' = max (remaining
      - reduction_reaching D C e (pr_quantity p) (co_units co) (co_left_on co) (co_disposal co)) 0"
  using assms
  by (auto simp: cohort_step_def Let_def result_simps max_def split: if_splits)

lemma cohort_fold_remaining:
  fixes p :: "'d::linordered_field parcel_row"
  assumes "try_foldl (cohort_step D C rates p co) (r, out) es = Inr (remaining, gains)" and "0 \<le> r"
  shows "remaining = foldl (\<lambda>r e. max (r
      - reduction_reaching D C e (pr_quantity p) (co_units co) (co_left_on co) (co_disposal co)) 0) r es"
  using assms
proof (induction es arbitrary: r out)
  case (Cons e es)
  from Cons.prems(1) obtain r1 out1 where step: "cohort_step D C rates p co (r, out) e = Inr (r1, out1)"
    and rest: "try_foldl (cohort_step D C rates p co) (r1, out1) es = Inr (remaining, gains)"
    by (auto simp: result_simps)
  have r1: "r1 = max (r - reduction_reaching D C e (pr_quantity p) (co_units co) (co_left_on co) (co_disposal co)) 0"
    by (rule cohort_step_remaining [OF step Cons.prems(2)])
  have "0 \<le> r1" by (simp add: r1)
  from Cons.IH [OF rest this] show ?case unfolding r1 by simp
qed simp

lemma draw_down_foldl:
  "snd (draw_down (r::'d::linordered_field) rows)
     = foldl (\<lambda>r row. max (r - cba_amount row) 0) r (filter (\<lambda>row. cba_kind row \<noteq> SplitRebase) rows)"
  by (induction r rows rule: draw_down.induct) (auto simp: Let_def split: prod.splits)


lemma map_insort_key: "map f (insort_key (\<lambda>x. k (f x)) x xs) = insort_key k (f x) (map f xs)"
  by (induction xs) auto

lemma map_sort_key: "map f (sort_key (\<lambda>x. k (f x)) xs) = sort_key k (map f xs)"
  by (induction xs) (simp_all add: map_insort_key)

lemma sort_key_cong_set: "(\<And>x. x \<in> set xs \<Longrightarrow> f x = g x) \<Longrightarrow> sort_key f xs = sort_key g xs"
proof (induction xs)
  case (Cons x xs)
  have "insort_key f x ys = insort_key g x ys" if "set ys \<subseteq> set xs" for ys
    using that Cons.prems by (induction ys) auto
  then show ?case using Cons by simp
qed simp

lemma sorted_together:
  assumes "list_all2 (\<lambda>a b. j a = k b \<and> f a = g b) as bs"
  shows "map f (sort_key j as) = map g (sort_key k bs)"
proof -
  define zs where "zs = zip as bs"
  have z: "map fst zs = as" "map snd zs = bs" using list_all2_lengthD [OF assms] by (simp_all add: zs_def)
  have eq: "j (fst z) = k (snd z)" "f (fst z) = g (snd z)" if "z \<in> set zs" for z
    using assms that by (auto simp: zs_def list_all2_iff)
  have "sort_key (\<lambda>z. j (fst z)) zs = sort_key (\<lambda>z. k (snd z)) zs" by (rule sort_key_cong_set) (simp add: eq)
  moreover have "map f (map fst (sort_key (\<lambda>z. j (fst z)) zs)) = map g (map snd (sort_key (\<lambda>z. j (fst z)) zs))"
    by (simp add: eq)
  ultimately have "map f (map fst (sort_key (\<lambda>z. j (fst z)) zs)) = map g (map snd (sort_key (\<lambda>z. k (snd z)) zs))" by simp
  then show ?thesis unfolding map_sort_key z .
qed

text \<open>The payments of a listing that reach a parcel, as the walk collects them.\<close>

definition roc_reductions ::
    "'d::{one,times,inverse,linorder} decimal_api \<Rightarrow> 'd parcel_row \<Rightarrow> 'd split_event list \<Rightarrow> 'd roc_event list \<Rightarrow>
     currency_mismatch + 'd reduction list" where
  "roc_reductions D p splits roc =
     map_result concat (try_map (\<lambda>e. map_result (\<lambda>r. case r of None \<Rightarrow> []
         | Some u \<Rightarrow> [RocReduction (roc_date e) (roc_currency e) u (roc_record_date e)])
       (per_unit_for D e splits (pr_currency p) (pr_date p) (pr_settlement_date p) (pr_rollover p) None)) roc)"

definition row_matches :: "'d::times \<Rightarrow> 'd cost_base_adjustment \<Rightarrow> 'd reduction \<Rightarrow> bool" where
  "row_matches units row e \<longleftrightarrow> cba_kind row = ReturnOfCapital \<and> cba_date row = red_date e
     \<and> (\<exists>c u r. e = RocReduction (cba_date row) c u r \<and> cba_amount row = u * units)"

lemma row_matches_roc:
  "row_matches units \<lparr>cba_kind = ReturnOfCapital, cba_date = d, cba_reference = x, cba_per_unit = y,
     cba_amount = u * units, cba_capped = b\<rparr> (RocReduction d c u r)"
  by (simp add: row_matches_def)

lemma roc_rows_match:
  assumes "roc_reductions D p splits roc = Inr rocs"
  shows "\<exists>rows. roc_rows D (pr_parcel p) units splits h roc = Inr rows
    \<and> list_all2 (row_matches (au_get units)) rows (filter (\<lambda>e. \<not> is_after (red_date e) (held_up_to h)) rocs)"
  using assms
proof (induction roc arbitrary: rocs)
  case Nil
  then show ?case by (simp add: roc_reductions_def roc_rows_def)
next
  case (Cons e roc)
  obtain r where r: "per_unit_for D e splits (pr_currency p) (pr_date p) (pr_settlement_date p) (pr_rollover p) None = Inr r"
    using Cons.prems by (auto simp: roc_reductions_def result_simps)
  obtain rest where rest: "roc_reductions D p splits roc = Inr rest"
    and rocs: "rocs = (case r of None \<Rightarrow> []
         | Some u \<Rightarrow> [RocReduction (roc_date e) (roc_currency e) u (roc_record_date e)]) @ rest"
    using Cons.prems r by (auto simp: roc_reductions_def result_simps)
  from Cons.IH [OF rest] obtain rows where rows: "roc_rows D (pr_parcel p) units splits h roc = Inr rows"
    and match: "list_all2 (row_matches (au_get units)) rows (filter (\<lambda>e. \<not> is_after (red_date e) (held_up_to h)) rest)"
    by blast
  define r' where "r' = (if is_after (roc_date e) (held_up_to h) then None else r)"
  have fields: "pa_currency (pr_parcel p) = pr_currency p" "pa_trade_date (pr_parcel p) = pr_date p"
    "pa_settled (pr_parcel p) = pr_settlement_date p" "pa_rollover (pr_parcel p) = pr_rollover p"
    by (simp_all add: pr_parcel_def)
  have r': "per_unit_for D e splits (pr_currency p) (pr_date p) (pr_settlement_date p) (pr_rollover p) (held_up_to h) = Inr r'"
    using r by (auto simp: per_unit_for_def r'_def Let_def is_after_def split: if_splits option.splits)
  show ?case
  proof (cases r')
    case None
    then show ?thesis using rows match r r' unfolding rocs
      by (auto simp: roc_rows_def fields result_simps r'_def split: if_splits option.splits)
  next
    case (Some u)
    then have some: "r = Some u" "\<not> is_after (roc_date e) (held_up_to h)" by (simp_all add: r'_def split: if_splits)
    then show ?thesis using rows match r' Some unfolding rocs
      by (auto simp: roc_rows_def fields result_simps row_matches_roc)
  qed
qed


lemma foldl_skip_nil:
  assumes "\<And>e. e \<in> set es \<Longrightarrow> \<not> P e \<Longrightarrow> f e = 0" and "0 \<le> (r::'d::linordered_field)"
  shows "foldl (\<lambda>r e. max (r - f e) 0) r es = foldl (\<lambda>r e. max (r - f e) 0) r (filter P es)"
  using assms
proof (induction es arbitrary: r)
  case (Cons e es)
  have IH: "foldl (\<lambda>r e. max (r - f e) 0) t es = foldl (\<lambda>r e. max (r - f e) 0) t (filter P es)" if "0 \<le> t" for t
    using Cons.IH [OF _ that] Cons.prems(1) by simp
  show ?case
  proof (cases "P e")
    case True
    then show ?thesis using IH [of "max (r - f e) 0"] by simp
  next
    case False
    then have "f e = 0" using Cons.prems(1) by simp
    then show ?thesis using False IH [OF Cons.prems(2)] Cons.prems(2) by (simp add: max_absorb1)
  qed
qed simp

definition disposed_or_held :: "'d cohort \<Rightarrow> held \<Rightarrow> bool" where
  "disposed_or_held co h \<longleftrightarrow>
     (case co_left_on co of None \<Rightarrow> h = AsAt None | Some d \<Rightarrow> co_disposal co \<and> h = HeldDisposedOn d)"

lemma reaching_held:
  assumes "disposed_or_held co h"
  shows "reduction_reaching D C (AmitReduction e) q u (co_left_on co) (co_disposal co)
      = reduction_for_units D C e q u (held_whereabouts h)"
    and "reduction_reaching D C (RocReduction d c per_unit r) q u (co_left_on co) (co_disposal co)
      = (if is_after d (held_up_to h) then 0 else per_unit * au_get u)"
  using assms by (auto simp: disposed_or_held_def is_after_def split: option.splits)

definition event_key :: "'d reduction \<Rightarrow> date \<times> nat" where
  "event_key e = (red_date e, red_rank e)"

lemma roc_reductions_only:
  assumes "roc_reductions D p splits roc = Inr rocs" and "e \<in> set rocs"
  shows "\<exists>d c u r. e = RocReduction d c u r"
  using assms
proof (induction roc arbitrary: rocs)
  case (Cons x roc)
  then obtain r rest where "roc_reductions D p splits roc = Inr rest"
    and "rocs = (case r of None \<Rightarrow> []
         | Some u \<Rightarrow> [RocReduction (roc_date x) (roc_currency x) u (roc_record_date x)]) @ rest"
    by (auto simp: roc_reductions_def result_simps)
  then show ?case using Cons.IH [of rest] Cons.prems(2) by (auto split: option.splits)
qed (simp add: roc_reductions_def)

lemma fold_map:
  "foldl (\<lambda>r x. max (r - x) 0) r (map f xs) = foldl (\<lambda>r y. max (r - f y) 0) (r :: 'd::linordered_field) xs"
  by (induction xs arbitrary: r) auto

lemma pipeline_remaining:
  fixes p :: "'d::linordered_field parcel_row"
  assumes rocs: "roc_reductions D p splits roc = Inr rocs" and h: "disposed_or_held co h"
    and start: "0 \<le> starting_cost D (pr_parcel p) (co_units co)"
  shows "\<exists>cb. adjusted_cost_base D C (pr_parcel p) (co_units co) es roc splits h = Inr cb
    \<and> cb_adjusted cb = foldl (\<lambda>r e. max (r
        - reduction_reaching D C e (pr_quantity p) (co_units co) (co_left_on co) (co_disposal co)) 0)
        (starting_cost D (pr_parcel p) (co_units co))
        (sort_key event_key (map AmitReduction es @ rocs))"
proof -
  define amt where "amt = (\<lambda>e. reduction_reaching D C e (pr_quantity p) (co_units co) (co_left_on co) (co_disposal co))"
  define P where "P = (\<lambda>e :: 'd reduction. case e of AmitReduction _ \<Rightarrow> True | RocReduction d _ _ _ \<Rightarrow> \<not> is_after d (held_up_to h))"
  define row_key where "row_key = (\<lambda>row :: 'd cost_base_adjustment. (cba_date row, kind_rank (cba_kind row)))"
  have quantity: "pa_quantity (pr_parcel p) = pr_quantity p" by (simp add: pr_parcel_def)
  from roc_rows_match [OF rocs, of "co_units co" h] obtain rows where
    rows: "roc_rows D (pr_parcel p) (co_units co) splits h roc = Inr rows"
    and match: "list_all2 (row_matches (au_get (co_units co))) rows
      (filter (\<lambda>e. \<not> is_after (red_date e) (held_up_to h)) rocs)" by blast
  have only_rocs: "\<exists>d c u r. e = RocReduction d c u r" if "e \<in> set rocs" for e
    using roc_reductions_only [OF rocs that] .
  have keep: "filter (\<lambda>e. \<not> is_after (red_date e) (held_up_to h)) rocs = filter P rocs"
    by (rule filter_cong) (auto simp: P_def dest!: only_rocs)
  have "list_all2 (\<lambda>row e. row_key row = event_key e \<and> cba_amount row = amt e)
      (map (amit_row D C (pr_parcel p) (co_units co) h) es @ rows) (map AmitReduction es @ filter P rocs)"
  proof (rule list_all2_appendI)
    show "list_all2 (\<lambda>row e. row_key row = event_key e \<and> cba_amount row = amt e)
        (map (amit_row D C (pr_parcel p) (co_units co) h) es) (map AmitReduction es)"
      by (simp add: list_all2_map1 list_all2_map2 list_all2_same row_key_def event_key_def amit_row_def amt_def
          reaching_held [OF h] quantity del: reduction_reaching.simps)
    have "list_all2 (\<lambda>row e. row_matches (au_get (co_units co)) row e \<and> e \<in> set (filter P rocs)) rows (filter P rocs)"
      using match unfolding keep by (simp add: list_all2_conv_all_nth del: set_filter)
    then show "list_all2 (\<lambda>row e. row_key row = event_key e \<and> cba_amount row = amt e) rows (filter P rocs)"
      by (rule list_all2_mono)
        (auto simp: row_matches_def row_key_def event_key_def amt_def reaching_held [OF h] P_def
          simp del: reduction_reaching.simps)
  qed
  from sorted_together [OF this]
  have amounts: "map cba_amount (sort_key row_key (map (amit_row D C (pr_parcel p) (co_units co) h) es @ rows))
      = map amt (filter P (sort_key event_key (map AmitReduction es @ rocs)))"
    by (simp add: filter_sort P_def)
  have drop: "filter (\<lambda>row. cba_kind row \<noteq> SplitRebase)
      (sort_key row_key (map (amit_row D C (pr_parcel p) (co_units co) h) es @ rows @ split_rows (pr_parcel p) splits h))
    = sort_key row_key (map (amit_row D C (pr_parcel p) (co_units co) h) es @ rows)"
  proof -
    have "filter (\<lambda>row. cba_kind row \<noteq> SplitRebase) rows = rows"
    proof (rule filter_True)
      show "\<forall>row \<in> set rows. cba_kind row \<noteq> SplitRebase"
      proof
        fix row assume "row \<in> set rows"
        then obtain e where "row_matches (au_get (co_units co)) row e"
          using match by (auto simp: list_all2_conv_all_nth in_set_conv_nth)
        then show "cba_kind row \<noteq> SplitRebase" by (simp add: row_matches_def)
      qed
    qed
    then show ?thesis
      by (simp add: filter_sort filter_map split_rows_def comp_def amit_row_def filter_True filter_False)
  qed
  define start_value where "start_value = starting_cost D (pr_parcel p) (co_units co)"
  define all_rows where "all_rows = sort_key row_key
    (map (amit_row D C (pr_parcel p) (co_units co) h) es @ rows @ split_rows (pr_parcel p) splits h)"
  have "snd (draw_down start_value all_rows)
      = foldl (\<lambda>r row. max (r - cba_amount row) 0) start_value
          (sort_key row_key (map (amit_row D C (pr_parcel p) (co_units co) h) es @ rows))"
    unfolding draw_down_foldl all_rows_def drop ..
  also have "\<dots> = foldl (\<lambda>r e. max (r - amt e) 0) start_value (filter P (sort_key event_key (map AmitReduction es @ rocs)))"
    unfolding fold_map [symmetric, where f = cba_amount] fold_map [symmetric, where f = amt] amounts ..
  also have "\<dots> = foldl (\<lambda>r e. max (r - amt e) 0) start_value (sort_key event_key (map AmitReduction es @ rocs))"
    by (rule foldl_skip_nil [symmetric])
      (use start in \<open>auto simp: start_value_def P_def amt_def reaching_held [OF h] simp del: reduction_reaching.simps
        split: reduction.splits\<close>)
  finally have value_eq: "snd (draw_down start_value all_rows)
      = foldl (\<lambda>r e. max (r - amt e) 0) start_value (sort_key event_key (map AmitReduction es @ rocs))" .
  obtain out final where dd: "draw_down start_value all_rows = (out, final)" by (cases "draw_down start_value all_rows")
  have "adjusted_cost_base D C (pr_parcel p) (co_units co) es roc splits h
      = Inr \<lparr>cb_initial_cost = initial_cost (pr_parcel p), cb_costed_initial_cost = start_value,
            cb_amit_reduction = reduction_of AmitCostBase out,
            cb_roc_reduction = reduction_of ReturnOfCapital out, cb_adjusted = final\<rparr>"
    using dd unfolding all_rows_def row_key_def start_value_def
    by (simp add: adjusted_cost_base_def reduction_walk_def rows Let_def)
  then show ?thesis using value_eq dd by (simp add: amt_def start_value_def)
qed


section \<open>What the walk reports\<close>

definition overruns :: "'d::linordered_field event_gain list \<Rightarrow> 'd" where
  "overruns gains = sum_list (map eg_amount (filter (\<lambda>g. eg_kind g \<noteq> C2) gains))"

definition in_aud :: "'d reduction \<Rightarrow> bool" where
  "in_aud e \<longleftrightarrow> (case e of AmitReduction _ \<Rightarrow> True | RocReduction _ c _ _ \<Rightarrow> is_aud c)"

lemma aud_amount: "is_aud c \<Longrightarrow> fx_to_aud C rates a c d m = Inr a"
  by (simp add: fx_to_aud_def resolve_rate_def apply_rate_def)

lemma c2_gains_kind: "c2_gains C rates p co e = Inr gs \<Longrightarrow> g \<in> set gs \<Longrightarrow> eg_kind g = C2"
  by (auto simp: c2_gains_def result_simps split: reduction.splits if_splits)

lemma c2_not_overrun: "c2_gains C rates p co e = Inr gs \<Longrightarrow> overruns gs = 0"
  using c2_gains_kind [of C rates p co e gs] by (simp add: overruns_def filter_False)

lemma overruns_append [simp]: "overruns (xs @ ys) = overruns xs + overruns ys"
  by (simp add: overruns_def)

lemma overrun_gain_aud:
  assumes "is_aud (pr_currency p)" and "in_aud e"
  shows "\<exists>g. overrun_gain C rates p e amount exhausted = Inr g \<and> eg_kind g \<noteq> C2
    \<and> eg_amount g = max (amount - exhausted) 0"
  using assms by (cases e) (auto simp: overrun_gain_def in_aud_def aud_amount)

lemma cohort_fold_conserves:
  fixes p :: "'d::linordered_field parcel_row"
  assumes "try_foldl (cohort_step D C rates p co) (r, out) es = Inr (remaining, gains)" and "0 \<le> r"
    and aud: "is_aud (pr_currency p)" "\<forall>e \<in> set es. in_aud e"
    and "\<forall>g \<in> set out. eg_kind g \<noteq> C2 \<longrightarrow> 0 < eg_amount g"
  shows "r - sum_list (map (\<lambda>e. reduction_reaching D C e (pr_quantity p) (co_units co) (co_left_on co)
        (co_disposal co)) es) = remaining - (overruns gains - overruns out)
    \<and> 0 \<le> remaining \<and> (\<forall>g \<in> set gains. eg_kind g \<noteq> C2 \<longrightarrow> 0 < eg_amount g)"
  using assms
proof (induction es arbitrary: r out)
  case (Cons e es)
  define amount where "amount = reduction_reaching D C e (pr_quantity p) (co_units co) (co_left_on co) (co_disposal co)"
  from Cons.prems(1) obtain r1 out1 where step: "cohort_step D C rates p co (r, out) e = Inr (r1, out1)"
    and rest: "try_foldl (cohort_step D C rates p co) (r1, out1) es = Inr (remaining, gains)"
    by (auto simp: result_simps)
  obtain c2 where c2: "c2_gains C rates p co e = Inr c2" using step by (auto simp: cohort_step_def result_simps)
  obtain g where g: "overrun_gain C rates p e amount r = Inr g" "eg_kind g \<noteq> C2" "eg_amount g = max (amount - r) 0"
    using overrun_gain_aud [of p e C rates amount r] Cons.prems(3,4) by auto
  have kinds: "eg_kind h = C2" if "h \<in> set c2" for h using c2_gains_kind [OF c2 that] .
  have one: "r - amount = r1 - (overruns out1 - overruns out) \<and> 0 \<le> r1
      \<and> (\<forall>g \<in> set out1. eg_kind g \<noteq> C2 \<longrightarrow> 0 < eg_amount g)"
  proof (cases "amount \<le> r")
    case True
    then have "r1 = r - amount" "out1 = out @ c2"
      using step by (simp_all add: cohort_step_def c2 amount_def [symmetric])
    then show ?thesis using True Cons.prems(5) kinds c2_not_overrun [OF c2] by auto
  next
    case False
    then have o: "r1 = 0" "out1 = out @ c2 @ [g]"
      using step by (simp_all add: cohort_step_def c2 amount_def [symmetric] g(1))
    have "overruns [g] = amount - r" using False g(2,3) by (simp add: overruns_def)
    then show ?thesis using o False Cons.prems(5) kinds g(3) c2_not_overrun [OF c2] by auto
  qed
  have IH: "r1 - sum_list (map (\<lambda>e. reduction_reaching D C e (pr_quantity p) (co_units co) (co_left_on co)
        (co_disposal co)) es) = remaining - (overruns gains - overruns out1)
    \<and> 0 \<le> remaining \<and> (\<forall>g \<in> set gains. eg_kind g \<noteq> C2 \<longrightarrow> 0 < eg_amount g)"
    using Cons.IH [OF rest] one Cons.prems(3,4) by simp
  show ?case using one IH by (simp add: amount_def [symmetric] algebra_simps)
qed simp

section \<open>Properties\<close>

text \<open>The groups a parcel is walked in are all of its units: each sale's units once, the rest still
  held, every group non-empty.\<close>

theorem cohorts_partition_units:
  assumes "decimal_laws D" and "splits_ok splits" "au_ok (pr_quantity p)"
    and "\<forall>c \<in> set sales. 0 \<le> sale_val splits (pr_date p) (uc_quantity c)"
    and "sum_list (map (\<lambda>c. sale_val splits (pr_date p) (uc_quantity c)) sales) \<le> au_val (pr_quantity p)"
  shows "sum_list (map (\<lambda>c. au_val (co_units c)) (unit_cohorts D p sales splits)) = au_val (pr_quantity p)
    \<and> (\<forall>c \<in> set (unit_cohorts D p sales splits). 0 < au_val (co_units c))"
  using decimal_laws.unit_cohorts_partition [OF assms(1-3), of sales] assms(4,5)
  by (auto simp: comp_def)

theorem cohorts_partition_units_witness:
  "sum_list (map (\<lambda>c. au_val (co_units c)) (unit_cohorts ref_dec example_buy
     [\<lparr>uc_date = 20, uc_settled = 22, uc_quantity = units_at_new 30 20, uc_disposal = True\<rparr>] [])) = 100"
proof -
  have "splits_ok ([] :: rat split_event list)" "au_ok (pr_quantity example_buy)" "au_val (pr_quantity example_buy) = 100"
    by (simp_all add: splits_ok_def example_buy_def units_simps)
  then show ?thesis
    using cohorts_partition_units [OF ref.decimal_laws_axioms, of "[]" example_buy
        "[\<lparr>uc_date = 20, uc_settled = 22, uc_quantity = units_at_new 30 20, uc_disposal = True\<rparr>]"]
    by (simp add: sale_val_def units_at_new_def cum_factor_def)
qed

text \<open>C16: walked down through all the reductions in their order, a group of units ends at exactly the
  adjusted cost base the disposal of those units is costed at (or, still held, the one reported).\<close>

theorem walk_ends_at_cost_base:
  fixes p :: "'d::linordered_field parcel_row"
  assumes D: "decimal_laws D" and ok: "au_ok (co_units co)" "au_ok (pr_quantity p)" "0 < au_val (pr_quantity p)"
    and start: "0 \<le> cohort_initial_cost D (pr_parcel p) (co_units co)"
    and rocs: "roc_reductions D p splits roc = Inr rocs" and h: "disposed_or_held co h"
    and walk: "cohort_walk D C rates p (sort_key (\<lambda>e. (red_date e, red_rank e)) (map AmitReduction es @ rocs)) co
      = Inr (remaining, gains)"
  shows "\<exists>cb. adjusted_cost_base D C (pr_parcel p) (co_units co) es roc splits h = Inr cb
    \<and> cb_adjusted cb = remaining"
proof -
  have quantity: "pa_quantity (pr_parcel p) = pr_quantity p" by (simp add: pr_parcel_def)
  have cost: "starting_cost D (pr_parcel p) (co_units co) = cohort_initial_cost D (pr_parcel p) (co_units co)"
    using decimal_laws.au_less_val [OF D au_zero_simps(2) ok(2)] ok(3)
    by (simp add: au_zero_simps(1) starting_cost_def cohort_initial_cost_def quantity)
  have key: "(\<lambda>e. (red_date e, red_rank e)) = event_key" by (rule ext) (simp add: event_key_def)
  show ?thesis
    using pipeline_remaining [OF rocs h, where C = C and es = es] cohort_fold_remaining [OF walk [unfolded cohort_walk_def] start]
      start unfolding cost key by metis
qed

text \<open>C13: for an AUD parcel nothing is lost on the way: what the reductions took is what came off the
  cost base plus the E10 and G1 gains, each of which is positive, and the cost base stays at or
  above nil; a payment that makes a C2 gain of the units reduces their cost base by nothing.\<close>

theorem event_gains_conserve:
  fixes p :: "'d::linordered_field parcel_row"
  assumes "cohort_walk D C rates p events co = Inr (remaining, gains)"
    and "0 \<le> cohort_initial_cost D (pr_parcel p) (co_units co)"
    and "is_aud (pr_currency p)" "\<forall>e \<in> set events. in_aud e"
  shows "sum_list (map (\<lambda>e. reduction_reaching D C e (pr_quantity p) (co_units co) (co_left_on co) (co_disposal co)) events)
      = (cohort_initial_cost D (pr_parcel p) (co_units co) - remaining)
        + sum_list (map eg_amount (filter (\<lambda>g. eg_kind g \<noteq> C2) gains))
    \<and> 0 \<le> remaining
    \<and> (\<forall>g \<in> set gains. eg_kind g \<noteq> C2 \<longrightarrow> 0 < eg_amount g)
    \<and> (\<forall>e \<in> set events. ends_a_right co e \<longrightarrow>
        reduction_reaching D C e (pr_quantity p) (co_units co) (co_left_on co) (co_disposal co) = 0)"
proof -
  have "reduction_reaching D C e q u (co_left_on co) (co_disposal co) = 0" if "ends_a_right co e" for e q u
    using that by (cases "(co, e)" rule: ends_a_right.cases) (auto split: option.splits)
  moreover have "overruns ([] :: 'd event_gain list) = 0" by (simp add: overruns_def)
  ultimately show ?thesis
    using cohort_fold_conserves [OF assms(1) [unfolded cohort_walk_def] assms(2-4)]
    by (auto simp: overruns_def algebra_simps)
qed


definition example_cohort :: "rat cohort" where
  "example_cohort =
     \<lparr>co_left_on = None, co_left_register_on = None, co_disposal = False, co_units = au_new 100\<rparr>"

lemma example_initial_cost: "cohort_initial_cost ref_dec (pr_parcel example_buy) (co_units example_cohort) = 211"
proof -
  have "pa_quantity (pr_parcel example_buy) = au_new 100"
    "pa_average_price (pr_parcel example_buy) = 2" "pa_brokerage (pr_parcel example_buy) = 10"
    "pa_gst_on_brokerage (pr_parcel example_buy) = 1"
    by (simp_all add: pr_parcel_def example_buy_def)
  then show ?thesis
    by (simp add: cohort_initial_cost_def prorated_initial_cost_def initial_cost_def example_cohort_def
        au_eq_def au_key_def au_common_def au_new_def au_get_def)
qed

definition example_payment :: "rat roc_event" where
  "example_payment = \<lparr>roc_date = 50, roc_amount_per_unit = 3, roc_currency = ''AUD'', roc_record_date = None\<rparr>"

lemma example_walk:
  "cohort_walk ref_dec gregorian (\<lambda>_. None) example_buy [RocReduction 50 ''AUD'' 3 None] example_cohort
     = Inr (0, [\<lparr>eg_kind = G1, eg_tax_year = tax_year_for gregorian 50, eg_amount = 89,
                 eg_discount_eligible = discount_eligible gregorian (pr_acquired example_buy) 50\<rparr>])"
proof -
  have c: "pr_currency example_buy = ''AUD''" by (simp add: example_buy_def)
  have u: "co_left_on example_cohort = None" "au_get (co_units example_cohort) = 100"
    by (simp_all add: example_cohort_def au_new_def au_get_def)
  show ?thesis
    by (simp add: cohort_walk_def example_initial_cost cohort_step_def c2_gains_def overrun_gain_def u c
        aud_amount [OF aud_code])
qed

theorem walk_ends_at_cost_base_witness:
  "\<exists>cb. adjusted_cost_base ref_dec gregorian (pr_parcel example_buy) (co_units example_cohort) []
      [example_payment] [] (AsAt None) = Inr cb \<and> cb_adjusted cb = 0"
proof -
  have ok: "au_ok (co_units example_cohort)" "au_ok (pr_quantity example_buy)" "0 < au_val (pr_quantity example_buy)"
    by (simp_all add: example_cohort_def example_buy_def units_simps)
  have rocs: "roc_reductions ref_dec example_buy [] [example_payment] = Inr [RocReduction 50 ''AUD'' 3 None]"
    by (simp add: roc_reductions_def per_unit_for_def example_payment_def example_buy_def pr_rollover_def
        is_after_def split_ratio_def)
  have h: "disposed_or_held example_cohort (AsAt None)" by (simp add: disposed_or_held_def example_cohort_def)
  have start: "0 \<le> cohort_initial_cost ref_dec (pr_parcel example_buy) (co_units example_cohort)"
    by (simp add: example_initial_cost)
  have walk: "cohort_walk ref_dec gregorian (\<lambda>_. None) example_buy (sort_key (\<lambda>e. (red_date e, red_rank e))
      (map AmitReduction [] @ [RocReduction 50 ''AUD'' 3 None])) example_cohort
    = Inr (0, [\<lparr>eg_kind = G1, eg_tax_year = tax_year_for gregorian 50, eg_amount = 89,
                 eg_discount_eligible = discount_eligible gregorian (pr_acquired example_buy) 50\<rparr>])"
    using example_walk by simp
  show ?thesis by (rule walk_ends_at_cost_base [OF ref.decimal_laws_axioms ok start rocs h walk])
qed

theorem event_gains_conserve_witness:
  "sum_list (map (\<lambda>e. reduction_reaching ref_dec gregorian e (pr_quantity example_buy) (co_units example_cohort)
      None False) [RocReduction 50 ''AUD'' 3 None]) = 211 + (89 :: rat)"
proof -
  have "co_left_on example_cohort = None" "co_disposal example_cohort = False" by (simp_all add: example_cohort_def)
  moreover have "is_aud (pr_currency example_buy)" "\<forall>e \<in> set [RocReduction 50 ''AUD'' (3::rat) None]. in_aud e"
    using aud_code by (simp_all add: example_buy_def in_aud_def)
  moreover have "0 \<le> cohort_initial_cost ref_dec (pr_parcel example_buy) (co_units example_cohort)"
    by (simp add: example_initial_cost)
  ultimately show ?thesis
    using conjunct1 [OF event_gains_conserve [OF example_walk]] by (simp add: example_initial_cost)
qed

end
