(* ===== verification/NetCapitalGain.thy ===== *)
theory NetCapitalGain
  imports EventGains
begin

text \<open>
  The second half of \<open>src/src/reports/net_capital_gain.rs\<close>: the gross gains and losses of
  each financial year, the application of losses, the carry-forward chain and the discount,
  and the annual report's CGT summary.
\<close>

section \<open>Gross buckets\<close>

record 'd year_gains =
  gb_discount_eligible :: 'd
  gb_other :: 'd
  gb_losses :: 'd
  gb_e10 :: 'd
  gb_g1 :: 'd
  gb_c2 :: 'd
  gb_amma_discount_grossed_up :: 'd

definition no_gains :: "'d::zero year_gains" where
  "no_gains = \<lparr>gb_discount_eligible = 0, gb_other = 0, gb_losses = 0, gb_e10 = 0, gb_g1 = 0, gb_c2 = 0,
     gb_amma_discount_grossed_up = 0\<rparr>"

type_synonym 'd year_buckets = "(int \<times> 'd year_gains) list"

definition bucket_of :: "'d::zero year_buckets \<Rightarrow> int \<Rightarrow> 'd year_gains" where
  "bucket_of bs y = (case map_of bs y of None \<Rightarrow> no_gains | Some b \<Rightarrow> b)"

definition into_bucket ::
    "('d year_gains \<Rightarrow> 'd year_gains) \<Rightarrow> int \<Rightarrow> 'd::zero year_buckets \<Rightarrow> 'd year_buckets" where
  "into_bucket f y bs = AList.update y (f (bucket_of bs y)) bs"

text \<open>The three sources: realised rows at the cent, AMMA gains, event gains.\<close>

definition add_realised :: "chrono_api \<Rightarrow> 'd::{zero,plus} year_buckets \<Rightarrow> 'd realised_gain_loss \<Rightarrow> 'd year_buckets"
  where
  "add_realised C bs r =
     into_bucket (\<lambda>b. b\<lparr>gb_discount_eligible := gb_discount_eligible b + rg_discount_eligible_gain r,
                         gb_other := gb_other b + rg_non_discountable_gain r,
                         gb_losses := gb_losses b + rg_capital_loss r\<rparr>) (tax_year_for C (rg_sale_date r)) bs"

record 'd amma_gains =
  ag_tax_year_end_date :: date
  ag_cgt_discount_gains :: 'd
  ag_cgt_indexation_gains :: 'd
  ag_cgt_other_gains :: 'd
  ag_currency :: currency_code

definition aud_field ::
    "chrono_api \<Rightarrow> 'd::{one,inverse} fx_rates \<Rightarrow> 'd \<Rightarrow> currency_code \<Rightarrow> date \<Rightarrow> report_error + 'd" where
  "aud_field C rates field currency d = map_error ReportFx (fx_to_aud C rates field currency d FxNone)"

definition add_amma ::
    "'d::{zero,one,plus,times,inverse} decimal_api \<Rightarrow> chrono_api \<Rightarrow> 'd fx_rates \<Rightarrow> 'd year_buckets \<Rightarrow>
     'd amma_gains \<Rightarrow> report_error + 'd year_buckets" where
  "add_amma D C rates bs a =
     (let d = ag_tax_year_end_date a; currency = ag_currency a
      in and_then (aud_field C rates (ag_cgt_discount_gains a) currency d) (\<lambda>discount_net.
         and_then (aud_field C rates (ag_cgt_indexation_gains a) currency d) (\<lambda>indexation.
         and_then (aud_field C rates (ag_cgt_other_gains a) currency d) (\<lambda>other.
         let grossed_up = discount_net * dnew D 2 0
         in Inr (into_bucket (\<lambda>b. b\<lparr>gb_discount_eligible := gb_discount_eligible b + grossed_up,
               gb_amma_discount_grossed_up := gb_amma_discount_grossed_up b + grossed_up,
               gb_other := gb_other b + (indexation + other)\<rparr>) (tax_year_for C d) bs)))))"

definition add_event_gain :: "'d::{zero,plus} year_buckets \<Rightarrow> 'd event_gain \<Rightarrow> 'd year_buckets" where
  "add_event_gain bs g =
     into_bucket (\<lambda>b.
       let b1 = (if eg_discount_eligible g
                 then b\<lparr>gb_discount_eligible := gb_discount_eligible b + eg_amount g\<rparr>
                 else b\<lparr>gb_other := gb_other b + eg_amount g\<rparr>)
       in (case eg_kind g of
             E10 \<Rightarrow> b1\<lparr>gb_e10 := gb_e10 b1 + eg_amount g\<rparr>
           | G1 \<Rightarrow> b1\<lparr>gb_g1 := gb_g1 b1 + eg_amount g\<rparr>
           | C2 \<Rightarrow> b1\<lparr>gb_c2 := gb_c2 b1 + eg_amount g\<rparr>)) (eg_tax_year g) bs"

record 'd gains_ledger = "'d disposals_ledger" +
  lg_amma_gains :: "'d amma_gains list"
  lg_opening_capital_loss :: "'d option"

definition gross_buckets ::
    "'d::{zero,one,plus,minus,times,inverse,linorder} decimal_api \<Rightarrow> chrono_api \<Rightarrow> 'd gains_ledger \<Rightarrow>
     'd realised_gain_loss list \<Rightarrow> 'd contemplated \<Rightarrow> report_error + 'd year_buckets" where
  "gross_buckets D C L realised ct =
     and_then (try_foldl (add_amma D C (lg_rates L)) (foldl (add_realised C) [] (map (at_the_cent D) realised))
         (lg_amma_gains L)) (\<lambda>bs.
     and_then (non_disposal_gains D C (ledger.truncate L) ct) (\<lambda>gains.
     Inr (foldl add_event_gain bs gains)))"

section \<open>The worksheet\<close>

record 'd net_year =
  ny_tax_year :: int
  ny_discount_eligible_gains :: 'd
  ny_other_gains :: 'd
  ny_capital_losses :: 'd
  ny_brought_forward :: 'd
  ny_net_discount_eligible_gain :: 'd
  ny_net_other_gain :: 'd
  ny_cgt_discount :: 'd
  ny_net_capital_gain :: 'd
  ny_carried_forward :: 'd
  ny_e10_gain :: 'd
  ny_g1_gain :: 'd
  ny_c2_gain :: 'd
  ny_disposals :: "'d realised_gain_loss list"

definition net_year_row ::
    "'d::{zero,plus,minus,inverse,linorder} decimal_api \<Rightarrow> int \<Rightarrow> 'd year_gains \<Rightarrow> 'd \<Rightarrow> 'd net_year" where
  "net_year_row D tax_year b brought_forward =
     (let discount_eligible_gains = to_cents D (gb_discount_eligible b);
          other_gains = to_cents D (gb_other b);
          capital_losses = to_cents D (gb_losses b);
          available_losses = capital_losses + brought_forward;
          loss_to_other = min other_gains available_losses;
          net_other = other_gains - loss_to_other;
          remaining_loss = available_losses - loss_to_other;
          loss_to_discount = min discount_eligible_gains remaining_loss;
          net_discount = discount_eligible_gains - loss_to_discount;
          carried_forward = remaining_loss - loss_to_discount;
          cgt_discount = to_cents D (net_discount / dnew D 2 0)
      in \<lparr>ny_tax_year = tax_year, ny_discount_eligible_gains = discount_eligible_gains,
          ny_other_gains = other_gains, ny_capital_losses = capital_losses,
          ny_brought_forward = brought_forward, ny_net_discount_eligible_gain = net_discount,
          ny_net_other_gain = net_other, ny_cgt_discount = cgt_discount,
          ny_net_capital_gain = net_other + (net_discount - cgt_discount),
          ny_carried_forward = carried_forward, ny_e10_gain = to_cents D (gb_e10 b),
          ny_g1_gain = to_cents D (gb_g1 b), ny_c2_gain = to_cents D (gb_c2 b), ny_disposals = []\<rparr>)"

text \<open>The chain over the years: a quiet year has a row only while a balance is carried.\<close>

fun net_years_walk ::
    "'d::{zero,plus,minus,inverse,linorder} decimal_api \<Rightarrow> 'd year_buckets \<Rightarrow> 'd \<Rightarrow> int list \<Rightarrow> 'd net_year list"
  where
  "net_years_walk D buckets brought_forward [] = []"
| "net_years_walk D buckets brought_forward (y # ys) =
     (case map_of buckets y of
        Some b \<Rightarrow>
          (let row = net_year_row D y b brought_forward
           in row # net_years_walk D buckets (ny_carried_forward row) ys)
      | None \<Rightarrow>
          if brought_forward \<noteq> 0
          then (let row = net_year_row D y no_gains brought_forward
                in row # net_years_walk D buckets (ny_carried_forward row) ys)
          else net_years_walk D buckets brought_forward ys)"

definition year_range :: "int list \<Rightarrow> int \<Rightarrow> int list" where
  "year_range keys through =
     (let first = (case keys of [] \<Rightarrow> through | k # ks \<Rightarrow> foldl min k ks);
          last = max (case keys of [] \<Rightarrow> through | k # ks \<Rightarrow> foldl max k ks) through
      in remdups (sort (keys @ [first..last])))"

definition net_years ::
    "'d::{zero,plus,minus,inverse,linorder} decimal_api \<Rightarrow> 'd year_buckets \<Rightarrow> 'd \<Rightarrow> int \<Rightarrow> 'd net_year list" where
  "net_years D buckets brought_forward through =
     net_years_walk D buckets (to_cents D brought_forward) (year_range (map fst buckets) through)"

definition db_opening_capital_loss :: "'d::zero gains_ledger \<Rightarrow> 'd" where
  "db_opening_capital_loss L = (case lg_opening_capital_loss L of None \<Rightarrow> 0 | Some l \<Rightarrow> l)"

definition current_tax_year :: "chrono_api \<Rightarrow> date \<Rightarrow> int" where
  "current_tax_year C today = tax_year_for C today"

definition disposals_of_year ::
    "'d::{zero,plus,minus,linorder} decimal_api \<Rightarrow> chrono_api \<Rightarrow> 'd realised_gain_loss list \<Rightarrow> int \<Rightarrow>
     'd realised_gain_loss list" where
  "disposals_of_year D C realised y =
     map (at_the_cent D) (filter (\<lambda>r. tax_year_for C (rg_sale_date r) = y) realised)"

definition db_net_capital_gain ::
    "'d::{zero,one,abs,plus,minus,uminus,times,inverse,linorder} decimal_api \<Rightarrow> chrono_api \<Rightarrow> date \<Rightarrow>
     'd gains_ledger \<Rightarrow> report_error + 'd net_year list" where
  "db_net_capital_gain D C today L =
     and_then (db_realised_gains D C (disposals_ledger.truncate L)) (\<lambda>realised.
     and_then (gross_buckets D C L realised (\<lambda>_. None)) (\<lambda>buckets.
     Inr (map (\<lambda>y. y\<lparr>ny_disposals := disposals_of_year D C realised (ny_tax_year y)\<rparr>)
       (net_years D buckets (db_opening_capital_loss L) (current_tax_year C today)))))"

definition db_cgt_years ::
    "'d::{zero,one,abs,plus,minus,uminus,times,inverse,linorder} decimal_api \<Rightarrow> chrono_api \<Rightarrow> date \<Rightarrow>
     'd gains_ledger \<Rightarrow> report_error + int list" where
  "db_cgt_years D C today L =
     and_then (db_realised_gains D C (disposals_ledger.truncate L)) (\<lambda>realised.
     and_then (gross_buckets D C L realised (\<lambda>_. None)) (\<lambda>buckets.
     Inr (map ny_tax_year (net_years D buckets (db_opening_capital_loss L) (current_tax_year C today)))))"

section \<open>The annual summary\<close>

record 'd cgt_summary_year =
  cs_tax_year :: int
  cs_short_term_gains :: 'd
  cs_long_term_gains :: 'd
  cs_amma_discount_gains_grossed_up :: 'd
  cs_losses_applied_other :: 'd
  cs_net_other_gain :: 'd
  cs_losses_applied_discount :: 'd
  cs_net_discount_eligible_gain :: 'd
  cs_cgt_concession_amount :: 'd
  cs_net_capital_gain :: 'd
  cs_capital_losses_this_year :: 'd
  cs_brought_forward :: 'd
  cs_carried_forward :: 'd
  cs_e10_gain :: 'd
  cs_g1_gain :: 'd
  cs_c2_gain :: 'd

definition cgt_summary_of :: "'d::minus \<Rightarrow> 'd net_year \<Rightarrow> 'd cgt_summary_year" where
  "cgt_summary_of amma y =
     \<lparr>cs_tax_year = ny_tax_year y, cs_short_term_gains = ny_other_gains y,
      cs_long_term_gains = ny_discount_eligible_gains y - amma,
      cs_amma_discount_gains_grossed_up = amma,
      cs_losses_applied_other = ny_other_gains y - ny_net_other_gain y,
      cs_net_other_gain = ny_net_other_gain y,
      cs_losses_applied_discount = ny_discount_eligible_gains y - ny_net_discount_eligible_gain y,
      cs_net_discount_eligible_gain = ny_net_discount_eligible_gain y,
      cs_cgt_concession_amount = ny_cgt_discount y, cs_net_capital_gain = ny_net_capital_gain y,
      cs_capital_losses_this_year = ny_capital_losses y, cs_brought_forward = ny_brought_forward y,
      cs_carried_forward = ny_carried_forward y, cs_e10_gain = ny_e10_gain y, cs_g1_gain = ny_g1_gain y,
      cs_c2_gain = ny_c2_gain y\<rparr>"

definition db_cgt_summary_year ::
    "'d::{zero,one,plus,minus,times,inverse,linorder} decimal_api \<Rightarrow> chrono_api \<Rightarrow> date \<Rightarrow> 'd gains_ledger \<Rightarrow>
     int \<Rightarrow> 'd realised_gain_loss list \<Rightarrow> report_error + 'd cgt_summary_year option" where
  "db_cgt_summary_year D C today L tax_year realised =
     and_then (gross_buckets D C L realised (\<lambda>_. None)) (\<lambda>buckets.
     Inr (map_option
       (cgt_summary_of (to_cents D (gb_amma_discount_grossed_up (bucket_of buckets tax_year))))
       (find (\<lambda>y. ny_tax_year y = tax_year)
         (net_years D buckets (db_opening_capital_loss L) (current_tax_year C today)))))"


section \<open>One year\<close>

definition bucket_nonneg :: "'d::linordered_field year_gains \<Rightarrow> bool" where
  "bucket_nonneg b \<longleftrightarrow> 0 \<le> gb_discount_eligible b \<and> 0 \<le> gb_other b \<and> 0 \<le> gb_losses b"

lemma no_gains_nonneg: "bucket_nonneg no_gains"
  by (simp add: bucket_nonneg_def no_gains_def)

text \<open>What a row of the worksheet promises.\<close>

definition worksheet_ok :: "'d::linordered_field net_year \<Rightarrow> bool" where
  "worksheet_ok y \<longleftrightarrow>
     0 \<le> ny_net_other_gain y \<and> ny_net_other_gain y \<le> ny_other_gains y
     \<and> 0 \<le> ny_net_discount_eligible_gain y \<and> ny_net_discount_eligible_gain y \<le> ny_discount_eligible_gains y
     \<and> 0 \<le> ny_carried_forward y
     \<and> ny_capital_losses y + ny_brought_forward y
         = (ny_other_gains y - ny_net_other_gain y)
           + (ny_discount_eligible_gains y - ny_net_discount_eligible_gain y) + ny_carried_forward y
     \<and> (0 < ny_net_other_gain y \<longrightarrow> ny_net_discount_eligible_gain y = ny_discount_eligible_gains y)
     \<and> (0 < ny_carried_forward y \<longrightarrow> ny_net_capital_gain y = 0)
     \<and> 0 \<le> ny_cgt_discount y \<and> ny_cgt_discount y \<le> ny_net_discount_eligible_gain y
     \<and> ny_net_capital_gain y = ny_net_other_gain y + (ny_net_discount_eligible_gain y - ny_cgt_discount y)"

definition worksheet_cents :: "'d::linordered_field net_year \<Rightarrow> bool" where
  "worksheet_cents y \<longleftrightarrow>
     (\<forall>x \<in> {ny_discount_eligible_gains y, ny_other_gains y, ny_capital_losses y, ny_brought_forward y,
            ny_net_discount_eligible_gain y, ny_net_other_gain y, ny_cgt_discount y, ny_net_capital_gain y,
            ny_carried_forward y}. on_grid 2 x)"

lemma on_grid_min: "on_grid s x \<Longrightarrow> on_grid s y \<Longrightarrow> on_grid s (min x y :: 'd::linordered_field)"
  by (simp add: min_def)

context decimal_laws
begin

lemma net_year_row_fields:
  fixes y :: int and b :: "'d year_gains" and bf :: 'd
  defines "row \<equiv> net_year_row D y b bf"
  shows "ny_tax_year row = y" "ny_brought_forward row = bf"
    "ny_discount_eligible_gains row = to_cents D (gb_discount_eligible b)"
    "ny_other_gains row = to_cents D (gb_other b)" "ny_capital_losses row = to_cents D (gb_losses b)"
    "ny_net_other_gain row = ny_other_gains row - min (ny_other_gains row) (ny_capital_losses row + bf)"
    "ny_net_discount_eligible_gain row = ny_discount_eligible_gains row
       - min (ny_discount_eligible_gains row)
           (ny_capital_losses row + bf - min (ny_other_gains row) (ny_capital_losses row + bf))"
    "ny_carried_forward row = ny_capital_losses row + bf
       - min (ny_other_gains row) (ny_capital_losses row + bf)
       - min (ny_discount_eligible_gains row)
           (ny_capital_losses row + bf - min (ny_other_gains row) (ny_capital_losses row + bf))"
    "ny_cgt_discount row = to_cents D (ny_net_discount_eligible_gain row / 2)"
    "ny_net_capital_gain row = ny_net_other_gain row + (ny_net_discount_eligible_gain row - ny_cgt_discount row)"
  by (simp_all add: row_def net_year_row_def Let_def dnew_eq)

lemma net_year_row_cents:
  assumes "on_grid 2 bf"
  shows "worksheet_cents (net_year_row D y b bf)"
  using assms
  by (simp add: worksheet_cents_def net_year_row_fields to_cents_grid on_grid_add on_grid_diff on_grid_min)

lemma net_year_row_ok:
  assumes "bucket_nonneg b" and "0 \<le> bf" and "on_grid 2 bf"
  shows "worksheet_ok (net_year_row D y b bf)"
proof -
  define disc oth loss where "disc = to_cents D (gb_discount_eligible b)" and "oth = to_cents D (gb_other b)"
    and "loss = to_cents D (gb_losses b)"
  have nn: "0 \<le> disc" "0 \<le> oth" "0 \<le> loss"
    using assms(1) by (simp_all add: disc_def oth_def loss_def bucket_nonneg_def to_cents_nonneg)
  define net where "net = disc - min disc (loss + bf - min oth (loss + bf))"
  have "on_grid 2 net"
    using assms(3) by (simp add: net_def disc_def oth_def loss_def to_cents_grid on_grid_add on_grid_diff on_grid_min)
  moreover have "0 \<le> net" using nn assms(2) by (simp add: net_def)
  ultimately have half: "0 \<le> to_cents D (net / 2)" "to_cents D (net / 2) \<le> net"
    using to_cents_mono [of "net / 2" net] to_cents_fix [of net] by (simp_all add: to_cents_nonneg)
  have f: "ny_discount_eligible_gains (net_year_row D y b bf) = disc" "ny_other_gains (net_year_row D y b bf) = oth"
    "ny_capital_losses (net_year_row D y b bf) = loss"
    "ny_net_discount_eligible_gain (net_year_row D y b bf) = net"
    by (simp_all add: net_year_row_fields disc_def oth_def loss_def net_def)
  note g = net_year_row_fields(2,6,8-10) [of y b bf, unfolded f]
  have zero: "to_cents D (net / 2) = 0" if "net = 0" using that by simp
  show ?thesis
    unfolding worksheet_ok_def f g
    using nn assms(2) half zero by (auto simp: net_def min_def)
qed

text \<open>Losses against the other gains first is the split that leaves least to be assessed.\<close>

lemma net_year_row_least:
  assumes "bucket_nonneg b" and "0 \<le> bf"
    and "x \<le> ny_other_gains row" "z \<le> ny_discount_eligible_gains row" "0 \<le> z"
    and "x + z \<le> ny_capital_losses row + bf" and row: "row = net_year_row D y b bf"
  shows "ny_net_other_gain row + ny_net_discount_eligible_gain row / 2
    \<le> (ny_other_gains row - x) + (ny_discount_eligible_gains row - z) / 2"
proof -
  have "0 \<le> ny_other_gains row" "0 \<le> ny_discount_eligible_gains row" "0 \<le> ny_capital_losses row"
    using assms(1) by (simp_all add: row net_year_row_fields to_cents_nonneg bucket_nonneg_def)
  then show ?thesis
    using assms(2-6) by (auto simp: row net_year_row_fields(6,7) min_def field_simps)
qed

end

section \<open>The chain\<close>

fun chained :: "'d \<Rightarrow> 'd net_year list \<Rightarrow> bool" where
  "chained bf [] = True"
| "chained bf (y # ys) = (ny_brought_forward y = bf \<and> chained (ny_carried_forward y) ys)"

definition closing_balance :: "'d \<Rightarrow> 'd net_year list \<Rightarrow> 'd" where
  "closing_balance bf ys = (if ys = [] then bf else ny_carried_forward (last ys))"

lemma closing_balance_Cons: "closing_balance bf (y # ys) = closing_balance (ny_carried_forward y) ys"
  by (simp add: closing_balance_def)

lemma chained_total:
  fixes bf :: "'d::linordered_field"
  assumes "chained bf ys" and "\<forall>y \<in> set ys. worksheet_ok y"
  shows "bf + sum_list (map ny_capital_losses ys)
    = sum_list (map (\<lambda>y. (ny_other_gains y - ny_net_other_gain y)
        + (ny_discount_eligible_gains y - ny_net_discount_eligible_gain y)) ys) + closing_balance bf ys"
  using assms
proof (induction ys arbitrary: bf)
  case (Cons y ys)
  have "ny_carried_forward y + sum_list (map ny_capital_losses ys)
    = sum_list (map (\<lambda>y. (ny_other_gains y - ny_net_other_gain y)
        + (ny_discount_eligible_gains y - ny_net_discount_eligible_gain y)) ys)
      + closing_balance (ny_carried_forward y) ys"
    using Cons.IH Cons.prems by simp
  then show ?case using Cons.prems by (simp add: closing_balance_Cons worksheet_ok_def)
qed (simp add: closing_balance_def)

context decimal_laws
begin

lemma net_years_walk_ok:
  assumes "\<And>y b. map_of buckets y = Some b \<Longrightarrow> bucket_nonneg b" and "0 \<le> bf" and "on_grid 2 bf"
  shows "chained bf (net_years_walk D buckets bf ys)
    \<and> (\<forall>row \<in> set (net_years_walk D buckets bf ys). worksheet_ok row \<and> worksheet_cents row)"
  using assms(2,3)
proof (induction ys arbitrary: bf)
  case (Cons y ys)
  have step: "chained bf (row # net_years_walk D buckets (ny_carried_forward row) ys)
      \<and> (\<forall>r \<in> set (row # net_years_walk D buckets (ny_carried_forward row) ys). worksheet_ok r \<and> worksheet_cents r)"
    if row: "row = net_year_row D y b bf" and b: "bucket_nonneg b" for row b
  proof -
    have ok: "worksheet_ok row" "worksheet_cents row"
      using net_year_row_ok [OF b Cons.prems] net_year_row_cents [OF Cons.prems(2)] by (simp_all add: row)
    then have "0 \<le> ny_carried_forward row" "on_grid 2 (ny_carried_forward row)"
      by (simp_all add: worksheet_ok_def worksheet_cents_def)
    from Cons.IH [OF this] ok show ?thesis by (simp add: row net_year_row_fields)
  qed
  show ?case
  proof (cases "map_of buckets y")
    case None
    then show ?thesis using step [OF refl no_gains_nonneg] Cons.IH [OF Cons.prems]
      by (cases "bf = 0") (simp_all add: Let_def)
  next
    case (Some b)
    then show ?thesis using step [OF refl assms(1) [OF Some]] by (simp add: Let_def)
  qed
qed simp

text \<open>Which years have a row.\<close>

lemma net_years_walk_years:
  "set (map ny_tax_year (net_years_walk D buckets bf ys)) \<subseteq> set ys
   \<and> (\<forall>y \<in> set ys. map_of buckets y \<noteq> None \<longrightarrow> y \<in> set (map ny_tax_year (net_years_walk D buckets bf ys)))"
proof (induction ys arbitrary: bf)
  case (Cons y ys)
  show ?case
    using Cons.IH [of bf] Cons.IH [of "ny_carried_forward (net_year_row D y no_gains bf)"]
      Cons.IH [of "ny_carried_forward (net_year_row D y (the (map_of buckets y)) bf)"]
    by (cases "map_of buckets y") (auto simp: Let_def net_year_row_fields)
qed simp

lemma net_years_walk_sorted:
  "sorted_wrt (<) ys \<Longrightarrow> sorted_wrt (<) (map ny_tax_year (net_years_walk D buckets bf ys))"
proof (induction ys arbitrary: bf)
  case (Cons y ys)
  have less: "\<forall>z \<in> set (map ny_tax_year (net_years_walk D buckets c ys)). y < z" for c
    using net_years_walk_years [of buckets c ys] Cons.prems by auto
  have IH: "sorted_wrt (<) (map ny_tax_year (net_years_walk D buckets c ys))" for c
    using Cons.IH Cons.prems by simp
  have "ny_tax_year (net_year_row D y b bf) = y" for b by (simp add: net_year_row_fields)
  then show ?case using less IH by (cases "map_of buckets y") (auto simp: Let_def)
qed simp

lemma net_years_walk_quiet:
  assumes "sorted_wrt (<) ys" and "y \<in> set ys" and "y \<notin> set (map ny_tax_year (net_years_walk D buckets bf ys))"
  shows "map_of buckets y = None
    \<and> closing_balance bf (filter (\<lambda>r. ny_tax_year r < y) (net_years_walk D buckets bf ys)) = 0"
  using assms
proof (induction ys arbitrary: bf)
  case (Cons z ys)
  have later: "\<forall>r \<in> set (net_years_walk D buckets c ys). z < ny_tax_year r" for c
    using net_years_walk_years [of buckets c ys] Cons.prems(1) by auto
  have tax: "ny_tax_year (net_year_row D z b bf) = z" for b by (simp add: net_year_row_fields)
  have row: ?case if "net_years_walk D buckets bf (z # ys)
      = net_year_row D z b bf # net_years_walk D buckets (ny_carried_forward (net_year_row D z b bf)) ys" for b
  proof -
    have "y \<noteq> z" using Cons.prems(3) tax [of b] unfolding that by auto
    then have y: "y \<in> set ys" "z < y" using Cons.prems(1,2) by auto
    have "y \<notin> set (map ny_tax_year (net_years_walk D buckets (ny_carried_forward (net_year_row D z b bf)) ys))"
      using Cons.prems(3) unfolding that by simp
    from Cons.IH [OF _ y(1) this] Cons.prems(1) y(2) tax [of b] show ?thesis
      unfolding that by (simp add: closing_balance_Cons)
  qed
  show ?case
  proof (cases "map_of buckets z")
    case (Some b)
    then show ?thesis by (intro row [of b]) (simp add: Let_def)
  next
    case none: None
    show ?thesis
    proof (cases "bf = 0")
      case True
      have walk: "net_years_walk D buckets bf (z # ys) = net_years_walk D buckets bf ys" using none True by simp
      show ?thesis
      proof (cases "y = z")
        case True
        have "filter (\<lambda>r. ny_tax_year r < y) (net_years_walk D buckets bf ys) = []"
          using later [of bf] True by (auto simp: filter_empty_conv)
        then show ?thesis unfolding walk using none True \<open>bf = 0\<close> by (simp add: closing_balance_def)
      next
        case False
        then show ?thesis using Cons.IH [of bf] Cons.prems unfolding walk by simp
      qed
    next
      case False
      with none show ?thesis by (intro row [of no_gains]) (simp add: Let_def)
    qed
  qed
qed simp

end

lemma foldl_min_le: "foldl min (a::int) xs \<le> a \<and> (\<forall>x \<in> set xs. foldl min a xs \<le> x)"
proof (induction xs arbitrary: a)
  case (Cons x xs)
  then show ?case using Cons.IH [of "min a x"] by auto
qed simp

lemma year_range_sorted: "sorted_wrt (<) (year_range keys through)"
proof -
  have "sorted (remdups (sort xs))" for xs :: "int list" by simp
  then show ?thesis unfolding year_range_def Let_def strict_sorted_iff by simp
qed

lemma year_range_keys: "set keys \<subseteq> set (year_range keys through)"
  by (auto simp: year_range_def Let_def)


section \<open>What the buckets hold\<close>

definition bucket_total :: "('d year_gains \<Rightarrow> 'd) \<Rightarrow> 'd::linordered_field year_buckets \<Rightarrow> 'd" where
  "bucket_total f bs = sum_list (map (\<lambda>(_, b). f b) bs)"

lemma bucket_total_update:
  assumes "distinct (map fst bs)"
  shows "bucket_total f (AList.update k v bs)
    = bucket_total f bs - (case map_of bs k of None \<Rightarrow> 0 | Some w \<Rightarrow> f w) + f v"
  using assms
proof (induction bs)
  case (Cons kb bs)
  obtain k' b where kb: "kb = (k', b)" by (cases kb)
  have "map_of bs k = None" if "k = k'" using Cons.prems that kb by (simp add: map_of_eq_None_iff)
  then show ?case using Cons.IH Cons.prems by (auto simp: bucket_total_def kb)
qed (simp add: bucket_total_def)

lemma into_bucket_total:
  assumes "distinct (map fst bs)" and "f no_gains = 0" and "\<And>b. f (g b) = f b + x"
  shows "bucket_total f (into_bucket g y bs) = bucket_total f bs + x"
  using assms by (simp add: into_bucket_def bucket_total_update bucket_of_def split: option.splits)

lemma update_fst_set: "fst ` set (AList.update k v bs) = insert k (fst ` set bs)"
  by (induction bs) auto

lemma into_bucket_keys:
  "distinct (map fst bs) \<Longrightarrow> distinct (map fst (into_bucket g y bs))
     \<and> set (map fst (into_bucket g y bs)) = insert y (set (map fst bs))"
  by (simp add: into_bucket_def distinct_update update_fst_set)

definition gains_of :: "'d::linordered_field year_gains \<Rightarrow> 'd" where
  "gains_of b = gb_discount_eligible b + gb_other b"

lemma add_realised_keys:
  "distinct (map fst bs) \<Longrightarrow> distinct (map fst (foldl (add_realised C) bs rs))
     \<and> set (map fst (foldl (add_realised C) bs rs)) = set (map fst bs) \<union> (\<lambda>r. tax_year_for C (rg_sale_date r)) ` set rs"
proof (induction rs arbitrary: bs)
  case (Cons r rs)
  have k: "distinct (map fst (add_realised C bs r))"
    "set (map fst (add_realised C bs r)) = insert (tax_year_for C (rg_sale_date r)) (set (map fst bs))"
    using into_bucket_keys [OF Cons.prems] by (simp_all add: add_realised_def)
  from Cons.IH [OF k(1)] k(2) show ?case by auto
qed simp

lemma add_realised_total:
  "distinct (map fst bs) \<Longrightarrow>
   bucket_total gb_losses (foldl (add_realised C) bs rs) = bucket_total gb_losses bs + sum_list (map rg_capital_loss rs)
   \<and> bucket_total gains_of (foldl (add_realised C) bs rs) = bucket_total gains_of bs
       + sum_list (map (\<lambda>r. rg_discount_eligible_gain r + rg_non_discountable_gain r) rs)"
proof (induction rs arbitrary: bs)
  case (Cons r rs)
  have d: "distinct (map fst (add_realised C bs r))"
    using into_bucket_keys [OF Cons.prems] by (simp add: add_realised_def)
  have "bucket_total gb_losses (add_realised C bs r) = bucket_total gb_losses bs + rg_capital_loss r"
    unfolding add_realised_def by (rule into_bucket_total [OF Cons.prems]) (simp_all add: no_gains_def)
  moreover have "bucket_total gains_of (add_realised C bs r)
      = bucket_total gains_of bs + (rg_discount_eligible_gain r + rg_non_discountable_gain r)"
    unfolding add_realised_def
    by (rule into_bucket_total [OF Cons.prems]) (simp_all add: no_gains_def gains_of_def)
  ultimately show ?case using Cons.IH [OF d] by (simp add: add.assoc)
qed simp

lemma add_event_gain_total:
  "distinct (map fst bs) \<Longrightarrow> distinct (map fst (foldl add_event_gain bs gs))
   \<and> set (map fst bs) \<subseteq> set (map fst (foldl add_event_gain bs gs))
   \<and> bucket_total gb_losses (foldl add_event_gain bs gs) = bucket_total gb_losses bs
   \<and> bucket_total gains_of (foldl add_event_gain bs gs) = bucket_total gains_of bs + sum_list (map eg_amount gs)"
proof (induction gs arbitrary: bs)
  case (Cons g gs)
  have k: "distinct (map fst (add_event_gain bs g))" "set (map fst bs) \<subseteq> set (map fst (add_event_gain bs g))"
    using into_bucket_keys [OF Cons.prems] unfolding add_event_gain_def by blast+
  have "bucket_total gb_losses (add_event_gain bs g) = bucket_total gb_losses bs + 0"
    unfolding add_event_gain_def
    by (rule into_bucket_total [OF Cons.prems]) (simp_all add: no_gains_def Let_def split: cgt_event_kind.splits)
  moreover have "bucket_total gains_of (add_event_gain bs g) = bucket_total gains_of bs + eg_amount g"
    unfolding add_event_gain_def
    by (rule into_bucket_total [OF Cons.prems])
      (simp_all add: no_gains_def gains_of_def Let_def split: cgt_event_kind.splits)
  ultimately show ?case using Cons.IH [OF k(1)] k(2) by (auto simp: add.assoc)
qed simp

text \<open>What one AMMA statement adds in AUD: the grossed-up discount component and the rest.\<close>

definition amma_total :: "chrono_api \<Rightarrow> 'd::linordered_field fx_rates \<Rightarrow> 'd amma_gains \<Rightarrow> 'd \<Rightarrow> bool" where
  "amma_total C rates a x \<longleftrightarrow>
     (\<exists>rate. resolve_rate C rates (ag_currency a) (ag_tax_year_end_date a) FxNone = Inr rate
       \<and> x = 2 * apply_rate (ag_cgt_discount_gains a) rate + apply_rate (ag_cgt_indexation_gains a) rate
             + apply_rate (ag_cgt_other_gains a) rate)"

lemma add_amma_total:
  assumes D: "decimal_laws D" and "try_foldl (add_amma D C rates) bs as = Inr out" and "distinct (map fst bs)"
  shows "distinct (map fst out) \<and> set (map fst bs) \<subseteq> set (map fst out)
    \<and> bucket_total gb_losses out = bucket_total gb_losses bs
    \<and> (\<exists>xs. list_all2 (amma_total C rates) as xs
         \<and> bucket_total gains_of out = bucket_total gains_of bs + sum_list xs)"
  using assms(2,3)
proof (induction as arbitrary: bs)
  case (Cons a as)
  from Cons.prems(1) obtain bs1 where step: "add_amma D C rates bs a = Inr bs1"
    and rest: "try_foldl (add_amma D C rates) bs1 as = Inr out"
    by (auto simp: result_simps)
  obtain rate where rate: "resolve_rate C rates (ag_currency a) (ag_tax_year_end_date a) FxNone = Inr rate"
    using step by (auto simp: add_amma_def aud_field_def fx_to_aud_def result_simps Let_def)
  define f where "f = (\<lambda>x. apply_rate x rate)"
  define g where "g = (\<lambda>b :: 'a year_gains. b\<lparr>gb_discount_eligible := gb_discount_eligible b + f (ag_cgt_discount_gains a) * 2,
       gb_amma_discount_grossed_up := gb_amma_discount_grossed_up b + f (ag_cgt_discount_gains a) * 2,
       gb_other := gb_other b + (f (ag_cgt_indexation_gains a) + f (ag_cgt_other_gains a))\<rparr>)"
  have two: "dnew D 2 0 = (2 :: 'a)" by (simp add: decimal_laws.dnew_eq [OF D])
  have bs1: "bs1 = into_bucket g (tax_year_for C (ag_tax_year_end_date a)) bs"
    using step by (simp add: add_amma_def aud_field_def fx_to_aud_def rate Let_def two g_def f_def)
  have k: "distinct (map fst bs1)" "set (map fst bs) \<subseteq> set (map fst bs1)"
    using into_bucket_keys [OF Cons.prems(2)] unfolding bs1 by blast+
  have l: "bucket_total gb_losses bs1 = bucket_total gb_losses bs + 0"
    unfolding bs1 by (rule into_bucket_total [OF Cons.prems(2)]) (simp_all add: no_gains_def g_def)
  have t: "bucket_total gains_of bs1 = bucket_total gains_of bs
      + (2 * f (ag_cgt_discount_gains a) + f (ag_cgt_indexation_gains a) + f (ag_cgt_other_gains a))"
    unfolding bs1
    by (rule into_bucket_total [OF Cons.prems(2)]) (simp_all add: no_gains_def g_def gains_of_def)
  have "amma_total C rates a (2 * f (ag_cgt_discount_gains a) + f (ag_cgt_indexation_gains a) + f (ag_cgt_other_gains a))"
    unfolding amma_total_def f_def using rate by blast
  with Cons.IH [OF rest k(1)] k(2) l t show ?case
    by (auto simp: add.assoc intro!: exI [of _ "(2 * f (ag_cgt_discount_gains a)
      + (f (ag_cgt_indexation_gains a) + f (ag_cgt_other_gains a))) # xs" for xs])
qed simp


lemma gross_buckets_keys:
  assumes D: "decimal_laws D" and ok: "gross_buckets D C L realised ct = Inr bs"
  shows "distinct (map fst bs) \<and> (\<lambda>r. tax_year_for C (rg_sale_date r)) ` set realised \<subseteq> set (map fst bs)"
proof -
  define bs0 where "bs0 = foldl (add_realised C) [] (map (at_the_cent D) realised)"
  from ok obtain bs1 gains where a: "try_foldl (add_amma D C (lg_rates L)) bs0 (lg_amma_gains L) = Inr bs1"
    and bs: "bs = foldl add_event_gain bs1 gains"
    by (auto simp: gross_buckets_def result_simps bs0_def)
  have sd: "rg_sale_date (at_the_cent D r) = rg_sale_date r" for r :: "'a realised_gain_loss"
    by (simp add: at_the_cent_def Let_def case_prod_unfold)
  have k0: "distinct (map fst bs0)" "set (map fst bs0) = (\<lambda>r. tax_year_for C (rg_sale_date r)) ` set realised"
    using add_realised_keys [of "[] :: 'a year_buckets" C "map (at_the_cent D) realised"]
    by (simp_all add: bs0_def sd image_image)
  note k1 = add_amma_total [OF D a k0(1)]
  show ?thesis using k0(2) k1 add_event_gain_total [of bs1 gains] unfolding bs by blast
qed

section \<open>Properties\<close>

text \<open>The gross buckets neither lose nor repeat anything: their losses are those of the realised
  rows at the cent, and their gains are the gains of those rows, each AMMA statement's with its
  discount component grossed up, and every E10, G1 and C2 gain.\<close>

theorem gross_buckets_total:
  assumes D: "decimal_laws D" and ok: "gross_buckets D C L realised ct = Inr bs"
  shows "bucket_total gb_losses bs = sum_list (map (\<lambda>r. rg_capital_loss (at_the_cent D r)) realised)
    \<and> (\<exists>xs gains. list_all2 (amma_total C (lg_rates L)) (lg_amma_gains L) xs
         \<and> non_disposal_gains D C (ledger.truncate L) ct = Inr gains
         \<and> bucket_total gains_of bs
             = sum_list (map (\<lambda>r. rg_discount_eligible_gain (at_the_cent D r)
                  + rg_non_discountable_gain (at_the_cent D r)) realised)
               + sum_list xs + sum_list (map eg_amount gains))"
proof -
  define bs0 where "bs0 = foldl (add_realised C) [] (map (at_the_cent D) realised)"
  from ok obtain bs1 gains where a: "try_foldl (add_amma D C (lg_rates L)) bs0 (lg_amma_gains L) = Inr bs1"
    and g: "non_disposal_gains D C (ledger.truncate L) ct = Inr gains" and bs: "bs = foldl add_event_gain bs1 gains"
    by (auto simp: gross_buckets_def result_simps bs0_def)
  have d0: "distinct (map fst bs0)" unfolding bs0_def
    by (rule conjunct1 [OF add_realised_keys]) simp
  note t0 = add_realised_total [of "[]" C "map (at_the_cent D) realised", folded bs0_def]
  from add_amma_total [OF D a d0] obtain xs where xs: "list_all2 (amma_total C (lg_rates L)) (lg_amma_gains L) xs"
    "bucket_total gains_of bs1 = bucket_total gains_of bs0 + sum_list xs"
    and d1: "distinct (map fst bs1)" "bucket_total gb_losses bs1 = bucket_total gb_losses bs0" by blast
  show ?thesis
    using t0 xs d1 g add_event_gain_total [OF d1(1), of gains]
    by (simp add: bs bucket_total_def comp_def) blast
qed

text \<open>C7: the worksheet of every year is sound and in whole cents, the balance a year brings forward is
  the one the year before carried forward, and over the years every loss is accounted for: the
  opening balance plus the losses made is what was set against gains plus what is still carried.\<close>

theorem losses_carried_forward:
  assumes D: "decimal_laws D" and "\<forall>(y, b) \<in> set buckets. bucket_nonneg b" and "0 \<le> opening"
    and rows: "rows = net_years D buckets opening through"
  shows "(\<forall>row \<in> set rows. worksheet_ok row \<and> worksheet_cents row)
    \<and> chained (to_cents D opening) rows
    \<and> to_cents D opening + sum_list (map ny_capital_losses rows)
        = sum_list (map (\<lambda>y. (ny_other_gains y - ny_net_other_gain y)
            + (ny_discount_eligible_gains y - ny_net_discount_eligible_gain y)) rows)
          + closing_balance (to_cents D opening) rows"
proof -
  have "bucket_nonneg b" if "map_of buckets y = Some b" for y b
    using assms(2) map_of_SomeD [OF that] by auto
  from decimal_laws.net_years_walk_ok [OF D this decimal_laws.to_cents_nonneg [OF D assms(3)]
      decimal_laws.to_cents_grid [OF D]]
  have "chained (to_cents D opening) rows" "\<forall>row \<in> set rows. worksheet_ok row \<and> worksheet_cents row"
    by (auto simp: rows net_years_def)
  then show ?thesis using chained_total [of "to_cents D opening" rows] by blast
qed

text \<open>C25: no other way to set a year's losses against its gains leaves less to be assessed before
  rounding: any amounts taken off the other gains and off the discount-eligible gains, within
  the gains and the losses available, leave at least as much after halving what is discounted.\<close>

theorem loss_order_is_least:
  assumes "decimal_laws D" and "bucket_nonneg b" "0 \<le> brought_forward"
    and "row = net_year_row D y b brought_forward"
    and "x \<le> ny_other_gains row" "0 \<le> z" "z \<le> ny_discount_eligible_gains row"
    and "x + z \<le> ny_capital_losses row + ny_brought_forward row"
  shows "ny_net_other_gain row + ny_net_discount_eligible_gain row / 2
    \<le> (ny_other_gains row - x) + (ny_discount_eligible_gains row - z) / 2"
  using decimal_laws.net_year_row_least [OF assms(1-3,5,7,6) _ assms(4)] assms(8)
  by (simp add: assms(4) decimal_laws.net_year_row_fields(2) [OF assms(1)])


text \<open>The disposals listed under the years are the realised gains report's, each at the cent and
  each under exactly one year.\<close>

theorem disposals_listed_once:
  assumes D: "decimal_laws D" and ok: "db_net_capital_gain D C today L = Inr rows"
    and realised: "db_realised_gains D C (disposals_ledger.truncate L) = Inr realised"
  shows "mset (concat (map ny_disposals rows)) = mset (map (at_the_cent D) realised)"
proof -
  obtain buckets where b: "gross_buckets D C L realised (\<lambda>_. None) = Inr buckets"
    and rows: "rows = map (\<lambda>y. y\<lparr>ny_disposals := disposals_of_year D C realised (ny_tax_year y)\<rparr>)
       (net_years D buckets (db_opening_capital_loss L) (current_tax_year C today))"
    using ok realised by (auto simp: db_net_capital_gain_def result_simps)
  define ys where "ys = map ny_tax_year (net_years D buckets (db_opening_capital_loss L) (current_tax_year C today))"
  define year where "year = (\<lambda>r :: 'a realised_gain_loss. tax_year_for C (rg_sale_date r))"
  have n: "sorted_wrt (<) ys" "set (map fst buckets) \<subseteq> set ys"
    using decimal_laws.net_years_walk_sorted [OF D year_range_sorted]
      decimal_laws.net_years_walk_years [OF D, of buckets "to_cents D (db_opening_capital_loss L)"
        "year_range (map fst buckets) (current_tax_year C today)"]
      year_range_keys [of "map fst buckets" "current_tax_year C today"]
    by (simp_all add: ys_def net_years_def map_of_eq_None_iff subset_iff)
  have "distinct ys" using n(1) by (simp add: strict_sorted_iff)
  moreover have "year ` set realised \<subseteq> set ys" unfolding year_def
    using gross_buckets_keys [OF D b] n(2) unfolding set_map by (meson order_trans)
  ultimately have "mset (concat (map (\<lambda>y. filter (\<lambda>r. year r = y) realised) ys)) = mset realised"
    using mset_partition [of ys year realised] by (simp add: filter_True image_subset_iff)
  moreover have "concat (map ny_disposals rows) = map (at_the_cent D) (concat (map (\<lambda>y. filter (\<lambda>r. year r = y) realised) ys))"
    by (simp add: rows ys_def map_concat comp_def disposals_of_year_def year_def)
  ultimately show ?thesis by simp
qed


section \<open>Witnesses\<close>

definition example_gains_ledger :: "rat gains_ledger" where
  "example_gains_ledger =
     \<lparr>lg_trades = lg_trades example_ledger, lg_allocations = lg_allocations example_ledger,
      lg_amma_statements = [], lg_amit_adjustments = [], lg_roc_events = (\<lambda>_. None), lg_splits = (\<lambda>_. None),
      lg_rates = (\<lambda>_. None), lg_actions = (\<lambda>_. None), lg_rights_sales = [], lg_rights_allocations = [],
      lg_cpi = [], lg_amma_gains = [\<lparr>ag_tax_year_end_date = 40, ag_cgt_discount_gains = 10,
        ag_cgt_indexation_gains = 0, ag_cgt_other_gains = 5, ag_currency = ''AUD''\<rparr>],
      lg_opening_capital_loss = Some 25\<rparr>"

lemma example_no_event_gains:
  "non_disposal_gains ref_dec gregorian (ledger.truncate example_gains_ledger) (\<lambda>_. None) = Inr []"
  by (simp add: non_disposal_gains_def amit_reductions_def roc_join_def example_gains_ledger_def ledger.truncate_def
      example_ledger_def concat_eq_Nil_conv)

lemma example_buckets: "\<exists>bs. gross_buckets ref_dec gregorian example_gains_ledger realised (\<lambda>_. None) = Inr bs"
proof -
  have "lg_rates example_gains_ledger = (\<lambda>_. None)" "lg_amma_gains example_gains_ledger = [\<lparr>ag_tax_year_end_date = 40,
      ag_cgt_discount_gains = 10, ag_cgt_indexation_gains = 0, ag_cgt_other_gains = 5, ag_currency = ''AUD''\<rparr>]"
    by (simp_all add: example_gains_ledger_def)
  then show ?thesis
    by (simp add: gross_buckets_def example_no_event_gains add_amma_def aud_field_def aud_amount [OF aud_code] Let_def)
qed

theorem gross_buckets_total_witness:
  "\<exists>bs. gross_buckets ref_dec gregorian example_gains_ledger [example_row] (\<lambda>_. None) = Inr bs
     \<and> bucket_total gb_losses bs = rg_capital_loss (at_the_cent ref_dec example_row)"
proof -
  obtain bs where ok: "gross_buckets ref_dec gregorian example_gains_ledger [example_row] (\<lambda>_. None) = Inr bs"
    using example_buckets by blast
  show ?thesis using ok gross_buckets_total [OF ref.decimal_laws_axioms ok] by simp
qed

definition example_bucket :: "rat year_gains" where
  "example_bucket = no_gains\<lparr>gb_discount_eligible := 100, gb_other := 30, gb_losses := 50\<rparr>"

lemma example_bucket_nonneg: "bucket_nonneg example_bucket"
  by (simp add: bucket_nonneg_def example_bucket_def no_gains_def)

theorem losses_carried_forward_witness:
  "chained (to_cents ref_dec 25) (net_years ref_dec [(2024, example_bucket)] 25 2026)"
proof -
  have "\<forall>(y, b) \<in> set [(2024 :: int, example_bucket)]. bucket_nonneg b" using example_bucket_nonneg by simp
  from losses_carried_forward [OF ref.decimal_laws_axioms this _ refl, of 25 2026] show ?thesis by simp
qed

theorem loss_order_is_least_witness:
  "ny_net_other_gain (net_year_row ref_dec 2024 example_bucket 25)
     + ny_net_discount_eligible_gain (net_year_row ref_dec 2024 example_bucket 25) / 2 \<le> 30 + (100 - 75) / 2"
proof -
  define row where "row = net_year_row ref_dec 2024 example_bucket 25"
  have f: "ny_other_gains row = 30" "ny_discount_eligible_gains row = 100" "ny_capital_losses row = 50"
    "ny_brought_forward row = 25"
    by (simp_all add: row_def ref.net_year_row_fields example_bucket_def to_cents_def ref_round_def no_gains_def floor_eq_iff)
  show ?thesis
    using loss_order_is_least [OF ref.decimal_laws_axioms example_bucket_nonneg _ row_def, of 0 75] f
    by (simp add: row_def)
qed


lemma example_realised:
  "\<exists>realised. db_realised_gains ref_dec gregorian (disposals_ledger.truncate example_gains_ledger) = Inr realised"
proof -
  define R where "R = load_report_data ref_dec gregorian (disposals_ledger.truncate example_gains_ledger)"
  define s where "s = sell_info_of (disposals_ledger.truncate example_gains_ledger)
      (example_buy\<lparr>pr_id := 5, pr_date := 20, pr_quantity := au_new 80\<rparr>)"
  have s: "si_id s = 5" "si_scrip s = no_scrip_terms" "si_currency s = ''AUD''"
    by (simp_all add: s_def sell_info_of_def scrip_terms_of_def example_buy_def)
  have R: "rd_sells R = [5 \<mapsto> s]" "rd_buys R = [1 \<mapsto> example_buy, 2 \<mapsto> example_buy\<lparr>pr_id := 2, pr_quantity := au_new 40\<rparr>]"
    "rd_allocations R = lg_allocations example_ledger" "rd_rights_sales R = []" "rd_roc_events R = (\<lambda>_. None)"
    by (simp_all add: R_def s_def load_report_data_def Let_def example_gains_ledger_def disposals_ledger.truncate_def
        example_ledger_def example_buy_def realises_def scrip_terms_of_def rights_sale_infos_def hash_map_def sell_info_of_def)
  have "sale_total gregorian (rd_fx R) s = Inr x \<longleftrightarrow>
      x = si_average_price s * si_quantity s - si_brokerage s - si_gst_on_brokerage s" for x
    by (auto simp: sale_total_def s aud_amount [OF aud_code])
  moreover have "\<not> isl (alloc_cost_base ref_dec gregorian R a s b)"
    if "b = example_buy \<or> b = example_buy\<lparr>pr_id := 2, pr_quantity := au_new 40\<rparr>" for a b
    using that unfolding not_isl
    by (intro alloc_cost_base_total) (auto simp: R example_buy_def aud_code)
  ultimately show ?thesis
    unfolding db_realised_gains_def R_def [symmetric] compute_ok_iff
    by (simp add: R allocation_computable_def example_ledger_def s no_scrip_terms_def not_isl)
qed

theorem disposals_listed_once_witness:
  "\<exists>realised rows. db_realised_gains ref_dec gregorian (disposals_ledger.truncate example_gains_ledger) = Inr realised
     \<and> db_net_capital_gain ref_dec gregorian 30 example_gains_ledger = Inr rows
     \<and> mset (concat (map ny_disposals rows)) = mset (map (at_the_cent ref_dec) realised)"
proof -
  obtain realised where r: "db_realised_gains ref_dec gregorian (disposals_ledger.truncate example_gains_ledger) = Inr realised"
    using example_realised by blast
  obtain bs where "gross_buckets ref_dec gregorian example_gains_ledger realised (\<lambda>_. None) = Inr bs"
    using example_buckets by blast
  then obtain rows where ok: "db_net_capital_gain ref_dec gregorian 30 example_gains_ledger = Inr rows"
    by (simp add: db_net_capital_gain_def r)
  show ?thesis using r ok disposals_listed_once [OF ref.decimal_laws_axioms ok r] by blast
qed

end
