(* ===== verification/Income.thy ===== *)
theory Income
  imports OpenParcels TaxCalendar
begin

text \<open>
  \<open>src/src/entities/income.rs\<close>: the income row, the dates it is assessed and entitled on, and the
  table's write and delete operations with every check they make. The table is a map from ids;
  what the schema's foreign keys refuse is the parameter \<open>accepts\<close>, and the id SQLite assigns to
  a new row is an argument.
\<close>

section \<open>Rows\<close>

datatype income_type = Dividend | EmploymentIncome | OtherIncome

definition is_distribution :: "income_type \<Rightarrow> bool" where
  "is_distribution t = (case t of Dividend \<Rightarrow> True | EmploymentIncome \<Rightarrow> False | OtherIncome \<Rightarrow> False)"

record 'd income =
  in_id :: int
  in_listing_id :: listing_id
  in_date_paid :: date
  in_ex_date :: "date option"
  in_franked_amount :: 'd
  in_unfranked_amount :: 'd
  in_foreign_source_income :: 'd
  in_foreign_tax_paid :: 'd
  in_tfn_withholding_tax :: 'd
  in_franking_credits :: 'd
  in_lic_capital_gain_amount :: 'd
  in_conduit_foreign_income :: 'd
  in_trust_income :: bool
  in_entitlement_date :: "date option"
  in_reinvestment_trade_id :: "trade_id option"
  in_currency :: currency_code
  in_buyback_trade_id :: "trade_id option"
  in_holding_account_id :: account_id
  in_amount_per_security :: "'d option"
  in_securities_held :: "'d option"
  in_tax_deferred_amount :: "'d option"
  in_income_type :: income_type

definition is_foreign_only :: "'d::zero income \<Rightarrow> bool" where
  "is_foreign_only i \<longleftrightarrow> list_all (\<lambda>amount. amount = 0)
     [in_franked_amount i, in_unfranked_amount i, in_franking_credits i, in_lic_capital_gain_amount i,
      in_conduit_foreign_income i, in_tfn_withholding_tax i]"

definition lic_capital_gain_deduction :: "'d::inverse decimal_api \<Rightarrow> 'd income \<Rightarrow> 'd" where
  "lic_capital_gain_deduction D i = in_lic_capital_gain_amount i / dnew D 2 0"

definition assessment_date :: "'d income \<Rightarrow> date" where
  "assessment_date i =
     (case in_entitlement_date i of
        Some d \<Rightarrow> if in_trust_income i then d else in_date_paid i
      | None \<Rightarrow> in_date_paid i)"

definition trust_entitlement_date :: "'d income \<Rightarrow> date option" where
  "trust_entitlement_date i = (if in_trust_income i then in_entitlement_date i else None)"

definition ex_or_pay_date :: "'d income \<Rightarrow> date" where
  "ex_or_pay_date i =
     (case in_ex_date i of
        Some d \<Rightarrow> d
      | None \<Rightarrow> (case trust_entitlement_date i of Some d \<Rightarrow> d | None \<Rightarrow> in_date_paid i))"

definition ex_date_recorded :: "'d income \<Rightarrow> bool" where
  "ex_date_recorded i \<longleftrightarrow>
     in_ex_date i \<noteq> None \<or> trust_entitlement_date i \<noteq> None \<or> in_buyback_trade_id i \<noteq> None"

definition gross_cash_income :: "'d::plus income \<Rightarrow> 'd" where
  "gross_cash_income i = in_franked_amount i + in_unfranked_amount i + in_foreign_source_income i"

definition net_cash_received :: "'d::{plus,minus} income \<Rightarrow> 'd" where
  "net_cash_received i = gross_cash_income i - in_foreign_tax_paid i - in_tfn_withholding_tax i"

text \<open>The listing's AMIT election, joined to the row.\<close>

type_synonym amit_listings = "listing_id \<rightharpoonup> bool \<times> date option"

definition db_assessable_cash_income :: "chrono_api \<Rightarrow> amit_listings \<Rightarrow> 'd income list \<Rightarrow> 'd income list" where
  "db_assessable_cash_income C listings rows =
     filter (\<lambda>i. case listings (in_listing_id i) of
               None \<Rightarrow> False
             | Some (amit, amit_from) \<Rightarrow>
                 \<not> amit_in_tax_year C amit amit_from (tax_year_for C (assessment_date i))) rows"

section \<open>Writing a row\<close>

datatype 'd per_share_error = SuppliedAlone | ProductMismatch 'd

datatype 'd upsert_error =
    UpsertDb
  | BuyBackIncome
  | ReinvestedIncome string
  | PerShare "'d per_share_error"
  | EntitlementDateOnNonTrust
  | TaxDeferredOnNonTrust
  | LicAmountOnTrust
  | TaxDeferredNegative
  | AmitNonTrust
  | AmitNotionalComponent string
  | AmitTaxDeferred
  | NegativeAmount string
  | NonDistributionComponent income_type string
  | ConduitExceedsUnfranked 'd 'd
  | FrankingCreditWithoutDividend 'd
  | FrankingCreditAboveMaximum 'd 'd 'd

definition check_per_share :: "'d::{plus,times} decimal_api \<Rightarrow> 'd income \<Rightarrow> 'd per_share_error + unit" where
  "check_per_share D i =
     (case (in_amount_per_security i, in_securities_held i) of
        (None, None) \<Rightarrow> Inr ()
      | (Some aps, Some held) \<Rightarrow>
          (let product = round_with D MidpointAwayFromZero 2 (aps * held)
           in if product \<noteq> gross_cash_income i then Inl (ProductMismatch product) else Inr ())
      | _ \<Rightarrow> Inl SuppliedAlone)"

text \<open>A run of checks on named fields: the first that fails is the error.\<close>

fun refuse_first :: "(string \<Rightarrow> 'e) \<Rightarrow> (string \<times> bool) list \<Rightarrow> 'e + unit" where
  "refuse_first err [] = Inr ()"
| "refuse_first err ((field, bad) # rest) = (if bad then Inl (err field) else refuse_first err rest)"

definition check_non_distribution_row :: "'d::zero income \<Rightarrow> 'd upsert_error + unit" where
  "check_non_distribution_row i =
     (if is_distribution (in_income_type i) then Inr ()
      else refuse_first (NonDistributionComponent (in_income_type i))
        [(''trust_income'', in_trust_income i),
         (''franked_amount'', in_franked_amount i \<noteq> 0),
         (''franking_credits'', in_franking_credits i \<noteq> 0),
         (''foreign_source_income'', in_foreign_source_income i \<noteq> 0),
         (''foreign_tax_paid'', in_foreign_tax_paid i \<noteq> 0),
         (''tfn_withholding_tax'', in_tfn_withholding_tax i \<noteq> 0),
         (''lic_capital_gain_amount'', in_lic_capital_gain_amount i \<noteq> 0),
         (''conduit_foreign_income'', in_conduit_foreign_income i \<noteq> 0),
         (''tax_deferred_amount'', in_tax_deferred_amount i \<noteq> None),
         (''amount_per_security'', in_amount_per_security i \<noteq> None),
         (''securities_held'', in_securities_held i \<noteq> None),
         (''ex_date'', in_ex_date i \<noteq> None),
         (''entitlement_date'', in_entitlement_date i \<noteq> None)])"

definition below_zero :: "'d::{zero,ord} option \<Rightarrow> bool" where
  "below_zero v = (case v of None \<Rightarrow> False | Some x \<Rightarrow> x < 0)"

definition check_amounts :: "'d::{zero,ord} income \<Rightarrow> 'd upsert_error + unit" where
  "check_amounts i = refuse_first NegativeAmount
     [(''franked_amount'', below_zero (Some (in_franked_amount i))),
      (''unfranked_amount'', below_zero (Some (in_unfranked_amount i))),
      (''foreign_source_income'', below_zero (Some (in_foreign_source_income i))),
      (''foreign_tax_paid'', below_zero (Some (in_foreign_tax_paid i))),
      (''tfn_withholding_tax'', below_zero (Some (in_tfn_withholding_tax i))),
      (''franking_credits'', below_zero (Some (in_franking_credits i))),
      (''lic_capital_gain_amount'', below_zero (Some (in_lic_capital_gain_amount i))),
      (''conduit_foreign_income'', below_zero (Some (in_conduit_foreign_income i))),
      (''amount_per_security'', below_zero (in_amount_per_security i)),
      (''securities_held'', below_zero (in_securities_held i))]"

definition check_trust_fields :: "'d::{zero,ord} income \<Rightarrow> 'd upsert_error + unit" where
  "check_trust_fields i =
     (if in_entitlement_date i \<noteq> None \<and> \<not> in_trust_income i then Inl EntitlementDateOnNonTrust
      else if in_trust_income i \<and> in_lic_capital_gain_amount i \<noteq> 0 then Inl LicAmountOnTrust
      else case in_tax_deferred_amount i of
        None \<Rightarrow> Inr ()
      | Some td \<Rightarrow> if \<not> in_trust_income i then Inl TaxDeferredOnNonTrust
                  else if td < 0 then Inl TaxDeferredNegative else Inr ())"

text \<open>What a stored row allows to change.\<close>

definition check_existing :: "'d income option \<Rightarrow> 'd income \<Rightarrow> 'd upsert_error + unit" where
  "check_existing existing_row i =
     (case existing_row of
        None \<Rightarrow> Inr ()
      | Some e \<Rightarrow>
          if in_buyback_trade_id e \<noteq> None then Inl BuyBackIncome
          else if in_reinvestment_trade_id e \<noteq> None then
            refuse_first ReinvestedIncome
              [(''listing_id'', in_listing_id e \<noteq> in_listing_id i),
               (''holding_account_id'', in_holding_account_id e \<noteq> in_holding_account_id i),
               (''currency'', in_currency e \<noteq> in_currency i),
               (''date_paid'', in_date_paid e \<noteq> in_date_paid i),
               (''ex_date'', in_ex_date e \<noteq> in_ex_date i),
               (''entitlement_date'', in_entitlement_date e \<noteq> in_entitlement_date i),
               (''trust_income'', in_trust_income e \<noteq> in_trust_income i),
               (''franked_amount'', in_franked_amount e \<noteq> in_franked_amount i),
               (''unfranked_amount'', in_unfranked_amount e \<noteq> in_unfranked_amount i),
               (''foreign_source_income'', in_foreign_source_income e \<noteq> in_foreign_source_income i),
               (''foreign_tax_paid'', in_foreign_tax_paid e \<noteq> in_foreign_tax_paid i),
               (''tfn_withholding_tax'', in_tfn_withholding_tax e \<noteq> in_tfn_withholding_tax i),
               (''income_type'', in_income_type e \<noteq> in_income_type i)]
          else Inr ())"

definition row_is_amit :: "chrono_api \<Rightarrow> amit_listings \<Rightarrow> 'd income \<Rightarrow> bool" where
  "row_is_amit C listings i =
     (case listings (in_listing_id i) of
        None \<Rightarrow> False
      | Some (amit, amit_from) \<Rightarrow> amit_in_tax_year C amit amit_from (tax_year_for C (assessment_date i)))"

definition check_amit :: "chrono_api \<Rightarrow> amit_listings \<Rightarrow> 'd::zero income \<Rightarrow> 'd upsert_error + unit" where
  "check_amit C listings i =
     (if \<not> row_is_amit C listings i then Inr ()
      else if \<not> in_trust_income i then Inl AmitNonTrust
      else and_then (refuse_first AmitNotionalComponent
             [(''franking_credits'', in_franking_credits i \<noteq> 0),
              (''conduit_foreign_income'', in_conduit_foreign_income i \<noteq> 0)]) (\<lambda>_.
           if in_tax_deferred_amount i \<noteq> None then Inl AmitTaxDeferred else Inr ()))"

definition check_credits ::
    "'d::{zero,one,plus,times,inverse,linorder} decimal_api \<Rightarrow> chrono_api \<Rightarrow> 'd income \<Rightarrow> 'd upsert_error + unit" where
  "check_credits D C i =
     (if \<not> in_trust_income i \<and> 0 < in_franking_credits i then
        (if in_franked_amount i = 0 then Inl (FrankingCreditWithoutDividend (in_franking_credits i))
         else case credit_above_ceiling D C (in_franked_amount i) (in_franking_credits i) (in_date_paid i) of
                None \<Rightarrow> Inr ()
              | Some limit \<Rightarrow> Inl (FrankingCreditAboveMaximum (in_franking_credits i) (in_franked_amount i) limit))
      else Inr ())"

definition check_conduit :: "'d::ord income \<Rightarrow> 'd upsert_error + unit" where
  "check_conduit i =
     (if in_unfranked_amount i < in_conduit_foreign_income i
      then Inl (ConduitExceedsUnfranked (in_conduit_foreign_income i) (in_unfranked_amount i)) else Inr ())"

datatype upsert_outcome = Created | Replaced

type_synonym 'd income_table = "int \<rightharpoonup> 'd income"

text \<open>The statement leaves the two link columns as the stored row has them, empty on a new row.\<close>

definition stored_income :: "int \<Rightarrow> 'd income option \<Rightarrow> 'd income \<Rightarrow> 'd income" where
  "stored_income key existing_row i =
     i\<lparr>in_id := key,
       in_reinvestment_trade_id := (case existing_row of None \<Rightarrow> None | Some e \<Rightarrow> in_reinvestment_trade_id e),
       in_buyback_trade_id := (case existing_row of None \<Rightarrow> None | Some e \<Rightarrow> in_buyback_trade_id e)\<rparr>"

definition income_write ::
    "'d::{zero,one,plus,times,inverse,linorder} decimal_api \<Rightarrow> chrono_api \<Rightarrow> amit_listings \<Rightarrow> ('d income \<Rightarrow> bool) \<Rightarrow>
     int \<Rightarrow> int option \<Rightarrow> 'd income \<Rightarrow> 'd income_table \<Rightarrow>
     'd upsert_error + (upsert_outcome \<times> 'd income option) \<times> 'd income_table" where
  "income_write D C listings accepts assigned key i table =
     and_then (check_amounts i) (\<lambda>_.
     and_then (check_non_distribution_row i) (\<lambda>_.
     and_then (case check_per_share D i of Inl e \<Rightarrow> Inl (PerShare e) | Inr u \<Rightarrow> Inr u) (\<lambda>_.
     and_then (check_trust_fields i) (\<lambda>_.
     (let existing_row = (case key of None \<Rightarrow> None | Some k \<Rightarrow> table k);
          outcome = (if existing_row = None then Created else Replaced)
      in and_then (check_existing existing_row i) (\<lambda>_.
         and_then (check_amit C listings i) (\<lambda>_.
         and_then (check_credits D C i) (\<lambda>_.
         and_then (check_conduit i) (\<lambda>_.
         (let k = (case key of None \<Rightarrow> assigned | Some k \<Rightarrow> k);
              row = stored_income k existing_row i
          in if \<not> accepts row then Inl UpsertDb
             else Inr ((outcome, if outcome = Created then Some row else None), table(k \<mapsto> row))))))))))))"

datatype delete_outcome = Deleted | NotFound | DeleteBuyBack | DeleteReinvested

definition income_delete :: "int \<Rightarrow> 'd income_table \<Rightarrow> delete_outcome \<times> 'd income_table" where
  "income_delete key table =
     (case table key of
        None \<Rightarrow> (NotFound, table)
      | Some e \<Rightarrow>
          if in_buyback_trade_id e \<noteq> None then (DeleteBuyBack, table)
          else if in_reinvestment_trade_id e \<noteq> None then (DeleteReinvested, table)
          else (Deleted, table(key := None)))"

section \<open>What every stored row satisfies\<close>

definition amounts_ok :: "'d::{zero,ord} income \<Rightarrow> bool" where
  "amounts_ok i \<longleftrightarrow>
     \<not> in_franked_amount i < 0 \<and> \<not> in_unfranked_amount i < 0 \<and> \<not> in_foreign_source_income i < 0
     \<and> \<not> in_foreign_tax_paid i < 0 \<and> \<not> in_tfn_withholding_tax i < 0 \<and> \<not> in_franking_credits i < 0
     \<and> \<not> in_lic_capital_gain_amount i < 0 \<and> \<not> in_conduit_foreign_income i < 0
     \<and> \<not> below_zero (in_tax_deferred_amount i)"

definition per_share_ok :: "'d::linordered_field decimal_api \<Rightarrow> 'd income \<Rightarrow> bool" where
  "per_share_ok D i \<longleftrightarrow>
     (case (in_amount_per_security i, in_securities_held i) of
        (None, None) \<Rightarrow> True
      | (Some aps, Some held) \<Rightarrow> round_with D MidpointAwayFromZero 2 (aps * held) = gross_cash_income i
      | _ \<Rightarrow> False)"

definition income_row_ok :: "'d::linordered_field decimal_api \<Rightarrow> chrono_api \<Rightarrow> 'd income \<Rightarrow> bool" where
  "income_row_ok D C i \<longleftrightarrow>
     amounts_ok i
     \<and> (in_income_type i \<noteq> Dividend \<longrightarrow>
          gross_cash_income i = in_unfranked_amount i \<and> in_franking_credits i = 0
          \<and> assessment_date i = in_date_paid i \<and> ex_or_pay_date i = in_date_paid i)
     \<and> (in_entitlement_date i \<noteq> None \<or> in_tax_deferred_amount i \<noteq> None \<longrightarrow> in_trust_income i)
     \<and> (in_trust_income i \<longrightarrow> in_lic_capital_gain_amount i = 0)
     \<and> (\<not> in_trust_income i \<and> 0 < in_franking_credits i \<longrightarrow>
          0 < in_franked_amount i
          \<and> credit_above_ceiling D C (in_franked_amount i) (in_franking_credits i) (in_date_paid i) = None)
     \<and> in_conduit_foreign_income i \<le> in_unfranked_amount i
     \<and> per_share_ok D i"

text \<open>The table's operations as steps; the listings' elections and what the schema accepts may vary.\<close>

inductive income_step :: "'d::linordered_field decimal_api \<Rightarrow> chrono_api \<Rightarrow> 'd income_table \<Rightarrow> 'd income_table \<Rightarrow> bool"
  for D C where
  wrote: "income_write D C listings accepts assigned key i table = Inr (answer, table') \<Longrightarrow> table assigned = None
    \<Longrightarrow> income_step D C table table'"
| removed: "income_delete key table = (outcome, table') \<Longrightarrow> income_step D C table table'"

inductive_cases income_step_cases: "income_step D C table table'"

lemma refuse_first_Inr [result_simps]: "refuse_first err checks = Inr u \<longleftrightarrow> list_all (\<lambda>c. \<not> snd c) checks"
  by (induction checks) (auto split: if_splits)

lemma per_share_Inr [result_simps]:
  "(case check_per_share D i of Inl e \<Rightarrow> Inl (PerShare e) | Inr u \<Rightarrow> Inr u) = Inr v \<longleftrightarrow> check_per_share D i = Inr ()"
  by (cases "check_per_share D i") auto

lemma income_write_Inr:
  assumes "income_write D C listings accepts assigned key i table = Inr (answer, table')"
  shows "check_amounts i = Inr ()" "check_non_distribution_row i = Inr ()" "check_per_share D i = Inr ()"
    "check_trust_fields i = Inr ()" "check_credits D C i = Inr ()" "check_conduit i = Inr ()"
    "\<exists>k existing_row. k = (case key of None \<Rightarrow> assigned | Some k \<Rightarrow> k)
       \<and> existing_row = (case key of None \<Rightarrow> None | Some k \<Rightarrow> table k)
       \<and> check_existing existing_row i = Inr () \<and> table' = table(k \<mapsto> stored_income k existing_row i)"
  using assms by (auto simp: income_write_def Let_def result_simps split: if_splits)

lemma stored_income_simps [simp]:
  "in_id (stored_income k e i) = k"
  "amounts_ok (stored_income k e i) = amounts_ok i"
  "gross_cash_income (stored_income k e i) = gross_cash_income i"
  "assessment_date (stored_income k e i) = assessment_date i"
  "ex_or_pay_date (stored_income k e i) = ex_or_pay_date i"
  by (simp_all add: stored_income_def amounts_ok_def gross_cash_income_def assessment_date_def ex_or_pay_date_def
      trust_entitlement_date_def split: option.split)

lemma per_share_ok_stored [simp]: "per_share_ok D (stored_income k e i) = per_share_ok D i"
  by (simp add: per_share_ok_def split: option.split) (simp add: stored_income_def)

lemma checked_row_ok:
  assumes "check_amounts i = Inr ()" "check_non_distribution_row i = Inr ()" "check_per_share D i = Inr ()"
    "check_trust_fields i = Inr ()" "check_credits D C i = Inr ()" "check_conduit i = Inr ()"
  shows "income_row_ok D C (stored_income k existing_row i)"
proof -
  have amounts: "amounts_ok i"
    using assms(1,4) by (auto simp: check_amounts_def check_trust_fields_def amounts_ok_def below_zero_def result_simps
        split: option.splits if_splits)
  have other: "in_income_type i \<noteq> Dividend \<longrightarrow>
      gross_cash_income i = in_unfranked_amount i \<and> in_franking_credits i = 0
      \<and> assessment_date i = in_date_paid i \<and> ex_or_pay_date i = in_date_paid i"
    using assms(2) by (auto simp: check_non_distribution_row_def is_distribution_def gross_cash_income_def
        assessment_date_def ex_or_pay_date_def trust_entitlement_date_def result_simps split: if_splits income_type.splits)
  have trust: "in_entitlement_date i \<noteq> None \<or> in_tax_deferred_amount i \<noteq> None \<longrightarrow> in_trust_income i"
      "in_trust_income i \<longrightarrow> in_lic_capital_gain_amount i = 0"
    using assms(4) by (auto simp: check_trust_fields_def split: option.splits if_splits)
  have credits: "\<not> in_trust_income i \<and> 0 < in_franking_credits i \<longrightarrow> 0 < in_franked_amount i
      \<and> credit_above_ceiling D C (in_franked_amount i) (in_franking_credits i) (in_date_paid i) = None"
    using assms(5) amounts by (auto simp: check_credits_def amounts_ok_def split: option.splits if_splits)
  have conduit: "in_conduit_foreign_income i \<le> in_unfranked_amount i"
    using assms(6) by (auto simp: check_conduit_def split: if_splits)
  have shares: "per_share_ok D i"
    using assms(3) by (auto simp: per_share_ok_def check_per_share_def Let_def split: option.splits if_splits)
  show ?thesis
    unfolding income_row_ok_def stored_income_simps per_share_ok_stored
    using amounts other trust credits conduit shares by (simp add: stored_income_def)
qed

definition income_table_ok :: "'d::linordered_field decimal_api \<Rightarrow> chrono_api \<Rightarrow> 'd income_table \<Rightarrow> bool" where
  "income_table_ok D C table \<longleftrightarrow> (\<forall>k row. table k = Some row \<longrightarrow> in_id row = k \<and> income_row_ok D C row)"

lemma income_step_ok:
  assumes "income_step D C table table'" and "income_table_ok D C table"
  shows "income_table_ok D C table'"
  using assms(1)
proof (cases rule: income_step.cases)
  case (wrote listings accepts assigned key i answer)
  from income_write_Inr(7) [OF wrote(1)] obtain k e where "table' = table(k \<mapsto> stored_income k e i)" by blast
  moreover have "income_row_ok D C (stored_income k e i)"
    by (rule checked_row_ok) (rule income_write_Inr [OF wrote(1)])+
  ultimately show ?thesis using assms(2) by (auto simp: income_table_ok_def stored_income_def)
next
  case (removed key outcome)
  then show ?thesis
    using assms(2) by (auto simp: income_delete_def income_table_ok_def split: option.splits if_splits)
qed

section \<open>What a link freezes\<close>

definition same_frozen :: "'d income \<Rightarrow> 'd income \<Rightarrow> bool" where
  "same_frozen e i \<longleftrightarrow>
     in_listing_id i = in_listing_id e \<and> in_holding_account_id i = in_holding_account_id e
     \<and> in_currency i = in_currency e \<and> in_date_paid i = in_date_paid e \<and> in_ex_date i = in_ex_date e
     \<and> in_entitlement_date i = in_entitlement_date e \<and> in_trust_income i = in_trust_income e
     \<and> in_franked_amount i = in_franked_amount e \<and> in_unfranked_amount i = in_unfranked_amount e
     \<and> in_foreign_source_income i = in_foreign_source_income e \<and> in_foreign_tax_paid i = in_foreign_tax_paid e
     \<and> in_tfn_withholding_tax i = in_tfn_withholding_tax e \<and> in_income_type i = in_income_type e
     \<and> in_reinvestment_trade_id i = in_reinvestment_trade_id e \<and> in_buyback_trade_id i = in_buyback_trade_id e"

lemma same_frozen_trans: "same_frozen a b \<Longrightarrow> same_frozen b c \<Longrightarrow> same_frozen a c"
  by (simp add: same_frozen_def)

lemma checked_frozen:
  assumes "check_existing (Some e) i = Inr ()"
    and "in_buyback_trade_id e \<noteq> None \<or> in_reinvestment_trade_id e \<noteq> None"
  shows "in_buyback_trade_id e = None \<and> same_frozen e (stored_income k (Some e) i)"
  using assms
  by (auto simp: check_existing_def same_frozen_def stored_income_def result_simps split: if_splits)

lemma income_step_frozen:
  assumes "income_step D C table table'" and e: "table k = Some e"
    and linked: "in_buyback_trade_id e \<noteq> None \<or> in_reinvestment_trade_id e \<noteq> None"
  shows "\<exists>e'. table' k = Some e' \<and> same_frozen e e' \<and> (in_buyback_trade_id e \<noteq> None \<longrightarrow> e' = e)"
  using assms(1)
proof (cases rule: income_step.cases)
  case (wrote listings accepts assigned key i answer)
  from income_write_Inr(7) [OF wrote(1)] obtain k' e0 where
    k': "k' = (case key of None \<Rightarrow> assigned | Some k \<Rightarrow> k)"
    and e0: "e0 = (case key of None \<Rightarrow> None | Some k \<Rightarrow> table k)" "check_existing e0 i = Inr ()"
    and t: "table' = table(k' \<mapsto> stored_income k' e0 i)" by blast
  show ?thesis
  proof (cases "k' = k")
    case True
    then have "e0 = Some e" using k' e0(1) e wrote(2) by (cases key) auto
    then have "in_buyback_trade_id e = None \<and> same_frozen e (stored_income k (Some e) i)"
      using checked_frozen [OF _ linked] e0(2) by simp
    then show ?thesis using True t \<open>e0 = Some e\<close> by simp
  next
    case False
    then show ?thesis using t e by (simp add: same_frozen_def)
  qed
next
  case (removed key outcome)
  then show ?thesis
    using e linked by (auto simp: income_delete_def same_frozen_def split: option.splits if_splits)
qed

section \<open>Claims\<close>

text \<open>C29: the income table is well typed: whatever sequence of writes and deletes it has been through,
  a row carries its own id, no negative amount, the components its kind allows, entitlement and
  tax-deferred figures only on trust income, credits only behind a franked amount and within the
  ceiling, conduit income within the unfranked amount, and a per-share pair that reconciles.
\<close>

theorem income_table_well_formed:
  assumes "(income_step D C)\<^sup>*\<^sup>* Map.empty table" and "table k = Some row"
  shows "in_id row = k \<and> income_row_ok D C row"
proof -
  have "income_table_ok D C table"
    using assms(1)
  proof (induction rule: rtranclp_induct)
    case base
    show ?case by (simp add: income_table_ok_def)
  next
    case (step t t')
    then show ?case using income_step_ok by blast
  qed
  then show ?thesis using assms(2) by (auto simp: income_table_ok_def)
qed

text \<open>C30: a distribution that has been reinvested, or that a buy-back created, cannot be deleted, and
  no sequence of writes moves the figures its trade was computed from or the link itself; the
  buy-back's row cannot be changed at all.
\<close>

theorem linked_income_frozen:
  assumes "(income_step D C)\<^sup>*\<^sup>* table table'" and "table k = Some e"
    and "in_buyback_trade_id e \<noteq> None \<or> in_reinvestment_trade_id e \<noteq> None"
  shows "\<exists>e'. table' k = Some e' \<and> same_frozen e e' \<and> (in_buyback_trade_id e \<noteq> None \<longrightarrow> e' = e)"
  using assms(1)
proof (induction rule: rtranclp_induct)
  case base
  show ?case using assms(2) by (simp add: same_frozen_def)
next
  case (step t t')
  then obtain e' where e': "t k = Some e'" "same_frozen e e'" "in_buyback_trade_id e \<noteq> None \<longrightarrow> e' = e" by blast
  have "in_buyback_trade_id e' \<noteq> None \<or> in_reinvestment_trade_id e' \<noteq> None"
    using e'(2) assms(3) by (simp add: same_frozen_def)
  from income_step_frozen [OF step.hyps(2) e'(1) this] e'(2,3) show ?case
    using same_frozen_trans by (fastforce simp: same_frozen_def)
qed

section \<open>Examples\<close>

text \<open>A fully franked dividend of 700 with its 300 of credits.\<close>

definition example_dividend :: "rat income" where
  "example_dividend = \<lparr>in_id = 0, in_listing_id = 1, in_date_paid = 739068, in_ex_date = Some 739040,
     in_franked_amount = 700, in_unfranked_amount = 0, in_foreign_source_income = 0, in_foreign_tax_paid = 0,
     in_tfn_withholding_tax = 0, in_franking_credits = 300, in_lic_capital_gain_amount = 0,
     in_conduit_foreign_income = 0, in_trust_income = False, in_entitlement_date = None,
     in_reinvestment_trade_id = None, in_currency = ''AUD'', in_buyback_trade_id = None,
     in_holding_account_id = 1, in_amount_per_security = Some (7 / 2), in_securities_held = Some 200,
     in_tax_deferred_amount = None, in_income_type = Dividend\<rparr>"

definition example_listings :: amit_listings where
  "example_listings l = (if l = 1 then Some (False, None) else None)"

lemma example_credit: "credit_above_ceiling ref_dec gregorian 700 300 739068 = None"
proof -
  have m: "maximum_franking_credit ref_dec 700 = 300"
    by (simp add: maximum_franking_credit_def ref.mul_div_eq ref_round_def floor_eq_iff)
  show ?thesis
    by (simp add: credit_above_ceiling_def credit_ceiling_def m tolerance_def Let_def ref_round_def
        thirty_percent_rate_from_def greg_ymd_def year_start_def month_offset_def leap_def floor_eq_iff)
qed

lemma example_write:
  "income_write ref_dec gregorian example_listings (\<lambda>_. True) 7 None example_dividend Map.empty
     = Inr ((Created, Some (stored_income 7 None example_dividend)), [7 \<mapsto> stored_income 7 None example_dividend])"
  by (simp add: income_write_def example_dividend_def check_amounts_def below_zero_def check_non_distribution_row_def
      is_distribution_def check_per_share_def ref_round_def floor_eq_iff gross_cash_income_def check_trust_fields_def
      check_existing_def check_amit_def row_is_amit_def example_listings_def amit_in_tax_year_def
      check_credits_def example_credit check_conduit_def Let_def)

theorem income_table_well_formed_witness:
  "income_row_ok ref_dec gregorian (stored_income 7 None example_dividend)"
proof -
  have "income_step ref_dec gregorian Map.empty [7 \<mapsto> stored_income 7 None example_dividend]"
    by (rule income_step.wrote [OF example_write]) simp
  then have "(income_step ref_dec gregorian)\<^sup>*\<^sup>* Map.empty [7 \<mapsto> stored_income 7 None example_dividend]" by (simp only: r_into_rtranclp [where r = "income_step ref_dec gregorian"])
  from income_table_well_formed [OF this, of 7] show ?thesis by simp
qed

theorem linked_income_frozen_witness:
  "\<exists>e'. snd (income_delete 7 [7 \<mapsto> example_dividend\<lparr>in_reinvestment_trade_id := Some 3\<rparr>]) 7 = Some e'
     \<and> same_frozen (example_dividend\<lparr>in_reinvestment_trade_id := Some 3\<rparr>) e'"
proof -
  let ?e = "example_dividend\<lparr>in_reinvestment_trade_id := Some 3\<rparr>"
  have "income_step ref_dec gregorian [7 \<mapsto> ?e] (snd (income_delete 7 [7 \<mapsto> ?e]))"
    by (rule income_step.removed [of 7 _ "fst (income_delete 7 [7 \<mapsto> ?e])"]) simp
  then have "(income_step ref_dec gregorian)\<^sup>*\<^sup>* [7 \<mapsto> ?e] (snd (income_delete 7 [7 \<mapsto> ?e]))" by (simp only: r_into_rtranclp [where r = "income_step ref_dec gregorian"])
  from linked_income_frozen [OF this, of 7 ?e] show ?thesis by auto
qed

end
