(* ===== verification/Franking.thy ===== *)
theory Franking
  imports NetCapitalGain Income
begin

text \<open>
  \<open>src/src/reports/franking.rs\<close> and \<open>src/src/reports/franking_at_risk.rs\<close>: the at-risk
  holding-period rule. A listing's trades are walked last in first out over the window of each
  franked dividend; the credits of the entitled units sold too early are denied in proportion,
  unless the year's attached credits are under the small-shareholder threshold.
\<close>

section \<open>The holding-period test\<close>

definition small_shareholder_threshold_aud :: "'d decimal_api \<Rightarrow> 'd" where
  "small_shareholder_threshold_aud D = dnew D 5000 0"

record 'd holding_period_test =
  hp_entitled_units :: 'd
  hp_disqualified_units :: 'd

definition denied :: "'d::{zero,one,times,inverse} decimal_api \<Rightarrow> 'd holding_period_test \<Rightarrow> 'd \<Rightarrow> 'd" where
  "denied D t credits =
     (if hp_entitled_units t = 0 \<or> hp_disqualified_units t = 0 then 0
      else mul_div D [credits, hp_disqualified_units t] (hp_entitled_units t))"

record 'd hp_event =
  ev_sell :: bool
  ev_date :: date
  ev_qty :: 'd

record 'd listing_walk =
  lw_preference :: bool
  lw_events :: "'d hp_event list"
  lw_splits :: "'d split_event list"

type_synonym 'd holding_walks = "listing_id \<rightharpoonup> 'd listing_walk"

text \<open>
  \<open>HoldingWalks::load\<close>: every trade of the listing in date order, but for the parcels a
  demerger re-creates in the head entity and the legs of a transfer.
\<close>

definition walk_event :: "'d::{one,inverse} trade \<Rightarrow> 'd hp_event" where
  "walk_event t = \<lparr>ev_sell = (tr_type t = Sell), ev_date = pr_date (tr_row t),
     ev_qty = au_get (pr_quantity (tr_row t))\<rparr>"

definition walked_trade :: "listing_id \<Rightarrow> 'd trade \<Rightarrow> bool" where
  "walked_trade listing t \<longleftrightarrow>
     pr_listing_id (tr_row t) = listing
     \<and> (pr_demerger_action_id (tr_row t) = None
         \<or> (case pr_demerger_head_listing_id (tr_row t) of
              None \<Rightarrow> False | Some head \<Rightarrow> head \<noteq> pr_listing_id (tr_row t)))
     \<and> pr_transfer_id (tr_row t) = None"

definition load_walks :: "(listing_id \<rightharpoonup> bool) \<Rightarrow> 'd::{one,inverse} ledger \<Rightarrow> 'd holding_walks" where
  "load_walks preference L listing =
     (case preference listing of
        None \<Rightarrow> None
      | Some p \<Rightarrow>
          Some \<lparr>lw_preference = p,
            lw_events = map walk_event
              (sort_key (\<lambda>t. (pr_date (tr_row t), pr_id (tr_row t)))
                (filter (walked_trade listing) (lg_trades L))),
            lw_splits = (case lg_splits L listing of None \<Rightarrow> [] | Some s \<Rightarrow> announced s)\<rparr>)"

definition required_days :: "'d holding_walks \<Rightarrow> listing_id \<Rightarrow> int" where
  "required_days walks listing =
     (case walks listing of Some l \<Rightarrow> if lw_preference l then 90 else 45 | None \<Rightarrow> 45)"

text \<open>The stack of parcels, top first, and the counts so far.\<close>

record 'd hp_parcel =
  hp_acquired :: date
  hp_qty :: 'd
  hp_entitled :: bool

record 'd hp_state =
  hs_stack :: "'d hp_parcel list"
  hs_snapshotted :: bool
  hs_entitled_units :: 'd
  hs_disqualified_units :: 'd

text \<open>\<open>partition_point\<close> on events in date order.\<close>

definition events_through :: "date \<Rightarrow> 'd hp_event list \<Rightarrow> nat" where
  "events_through d events = length (takeWhile (\<lambda>e. ev_date e \<le> d) events)"

definition hp_events :: "date \<Rightarrow> (date \<times> 'd) option \<Rightarrow> 'd hp_event list \<Rightarrow> 'd hp_event list" where
  "hp_events window_end contemplated_sale all_events =
     (let events = take (events_through window_end all_events) all_events
      in case contemplated_sale of
           None \<Rightarrow> events
         | Some (date, units) \<Rightarrow>
             if date \<le> window_end then
               (let pos = events_through date events
                in take pos events @ \<lparr>ev_sell = True, ev_date = date, ev_qty = units\<rparr> # drop pos events)
             else events)"

definition hp_snapshot :: "'d::plus hp_state \<Rightarrow> 'd hp_state" where
  "hp_snapshot st =
     st\<lparr>hs_stack := map (\<lambda>p. p\<lparr>hp_entitled := True\<rparr>) (hs_stack st), hs_snapshotted := True,
        hs_entitled_units := foldl (+) (hs_entitled_units st) (map hp_qty (rev (hs_stack st)))\<rparr>"

text \<open>
  One sale from the top of the stack. A parcel not emptied took all that remained, so the next
  turn of the loop is its last.
\<close>

function hp_sell ::
    "int \<Rightarrow> date \<Rightarrow> 'd::linordered_field \<Rightarrow> 'd hp_parcel list \<Rightarrow> 'd \<Rightarrow> 'd hp_parcel list \<times> 'd" where
  "hp_sell required date remaining stack disqualified =
     (if remaining \<le> 0 then (stack, disqualified)
      else case stack of
        [] \<Rightarrow> (stack, disqualified)
      | parcel # rest \<Rightarrow>
          (let units = min remaining (hp_qty parcel);
               at_risk = date - hp_acquired parcel - 1;
               disqualified' = (if hp_entitled parcel \<and> at_risk < required then disqualified + units else disqualified);
               parcel' = parcel\<lparr>hp_qty := hp_qty parcel - units\<rparr>
           in hp_sell required date (remaining - units) (if hp_qty parcel' = 0 then rest else parcel' # rest) disqualified'))"
  by pat_completeness auto
termination
  by (relation "measures [\<lambda>(_, _, remaining, stack, _). length stack,
      \<lambda>(_, _, remaining, stack, _). if remaining \<le> 0 then 0 else 1]")
     (auto simp: Let_def min_def split: if_splits)

declare hp_sell.simps [simp del]

definition hp_step ::
    "'d::linordered_field decimal_api \<Rightarrow> 'd split_event list \<Rightarrow> int \<Rightarrow> date \<Rightarrow> date \<Rightarrow> 'd hp_state \<Rightarrow>
     'd hp_event \<Rightarrow> 'd hp_state" where
  "hp_step D splits required ex_date window_end st e =
     (let qty = ua_quantity (rebased D (units_at_new (ev_qty e) (ev_date e)) splits (Some window_end));
          st1 = (if \<not> hs_snapshotted st \<and> ex_date \<le> ev_date e then hp_snapshot st else st)
      in if ev_sell e then
           (let (stack, disqualified) = hp_sell required (ev_date e) qty (hs_stack st1) (hs_disqualified_units st1)
            in st1\<lparr>hs_stack := stack, hs_disqualified_units := disqualified\<rparr>)
         else st1\<lparr>hs_stack := \<lparr>hp_acquired = ev_date e, hp_qty = qty, hp_entitled = False\<rparr> # hs_stack st1\<rparr>)"

definition hp_start :: "'d::zero hp_state" where
  "hp_start = \<lparr>hs_stack = [], hs_snapshotted = False, hs_entitled_units = 0, hs_disqualified_units = 0\<rparr>"

definition test_with_sale ::
    "'d::linordered_field decimal_api \<Rightarrow> 'd holding_walks \<Rightarrow> listing_id \<Rightarrow> date \<Rightarrow> (date \<times> 'd) option \<Rightarrow>
     'd holding_period_test" where
  "test_with_sale D walks listing_id ex_date contemplated_sale =
     (case walks listing_id of
        None \<Rightarrow> \<lparr>hp_entitled_units = 0, hp_disqualified_units = 0\<rparr>
      | Some listing \<Rightarrow>
          (let required = required_days walks listing_id;
               window_end = ex_date + required;
               st = foldl (hp_step D (lw_splits listing) required ex_date window_end) hp_start
                      (hp_events window_end contemplated_sale (lw_events listing))
           in \<lparr>hp_entitled_units = (if \<not> hs_snapshotted st then dsum (map hp_qty (rev (hs_stack st)))
                                   else hs_entitled_units st),
               hp_disqualified_units = hs_disqualified_units st\<rparr>))"

definition hp_test ::
    "'d::linordered_field decimal_api \<Rightarrow> 'd holding_walks \<Rightarrow> listing_id \<Rightarrow> date \<Rightarrow> 'd holding_period_test" where
  "hp_test D walks listing_id ex_date = test_with_sale D walks listing_id ex_date None"

section \<open>Franked dividends and the year's attached credits\<close>

text \<open>The statement's columns the tax summary reads.\<close>

record 'd amma_row = "'d amma_gains" +
  ar_australian_interest :: 'd
  ar_australian_dividends_unfranked :: 'd
  ar_franked_dividends :: 'd
  ar_franking_credits :: 'd
  ar_net_rent :: 'd
  ar_foreign_income :: 'd
  ar_foreign_tax_credits :: 'd
  ar_foreign_tax_credits_capital_gains :: 'd
  ar_other_income :: 'd
  ar_capital_losses_applied :: 'd
  ar_tfn_withholding_tax :: 'd

record 'd franked_dividend =
  fd_income_id :: int
  fd_tax_year :: int
  fd_listing_id :: listing_id
  fd_date_paid :: date
  fd_ex_date :: date
  fd_ex_date_recorded :: bool
  fd_credits_aud :: 'd
  fd_trust_income :: bool

type_synonym 'd by_year = "int \<rightharpoonup> 'd"

definition add_year :: "'d::{zero,plus} by_year \<Rightarrow> int \<Rightarrow> 'd \<Rightarrow> 'd by_year" where
  "add_year m y x = m(y \<mapsto> (case m y of None \<Rightarrow> 0 | Some a \<Rightarrow> a) + x)"

definition franked_step ::
    "chrono_api \<Rightarrow> 'd::linordered_field fx_rates \<Rightarrow> 'd franked_dividend list \<times> 'd by_year \<Rightarrow> 'd income \<Rightarrow>
     fx_error + 'd franked_dividend list \<times> 'd by_year" where
  "franked_step C rates = (\<lambda>(dividends, attached) i.
     let assessed = assessment_date i in
     and_then (fx_to_aud C rates (in_franking_credits i) (in_currency i) assessed FxNone) (\<lambda>credits_aud.
       if credits_aud \<le> 0 then Inr (dividends, attached)
       else (let tax_year = tax_year_for C assessed in
         Inr (dividends @ [\<lparr>fd_income_id = in_id i, fd_tax_year = tax_year, fd_listing_id = in_listing_id i,
                fd_date_paid = in_date_paid i, fd_ex_date = ex_or_pay_date i,
                fd_ex_date_recorded = ex_date_recorded i, fd_credits_aud = credits_aud,
                fd_trust_income = in_trust_income i\<rparr>],
              add_year attached tax_year credits_aud))))"

definition amma_step ::
    "chrono_api \<Rightarrow> 'd::linordered_field fx_rates \<Rightarrow> 'd by_year \<Rightarrow> 'd amma_row \<Rightarrow> fx_error + 'd by_year" where
  "amma_step C rates attached row =
     and_then (fx_to_aud C rates (ar_franking_credits row) (ag_currency row) (ag_tax_year_end_date row) FxNone)
       (\<lambda>credits_aud. Inr (add_year attached (tax_year_for C (ag_tax_year_end_date row)) credits_aud))"

definition db_franked_dividends ::
    "chrono_api \<Rightarrow> 'd::linordered_field fx_rates \<Rightarrow> amit_listings \<Rightarrow> 'd income list \<Rightarrow> 'd amma_row list \<Rightarrow>
     fx_error + 'd franked_dividend list \<times> 'd by_year" where
  "db_franked_dividends C rates listings income_rows amma_rows =
     and_then (try_foldl (franked_step C rates) ([], Map.empty) (db_assessable_cash_income C listings income_rows))
       (\<lambda>(dividends, attached).
         and_then (try_foldl (amma_step C rates) attached amma_rows) (\<lambda>attached'. Inr (dividends, attached')))"

section \<open>The at-risk reports\<close>

text \<open>Indexing a year the map does not have would panic; the panic is an error value here.\<close>

datatype franking_error = FrankingFx fx_error | MissingYear int

datatype alert_status = UntestedNoExDate | ExemptSmallShareholder | CreditsDenied

record 'd at_risk_alert =
  fa_income_id :: int
  fa_listing_id :: listing_id
  fa_tax_year :: int
  fa_date_paid :: date
  fa_ex_date :: date
  fa_ex_date_recorded :: bool
  fa_required_days :: int
  fa_window_end :: date
  fa_entitled_units :: 'd
  fa_disqualified_units :: 'd
  fa_credits_attached :: 'd
  fa_credits_at_risk :: 'd
  fa_credits_denied :: 'd
  fa_status :: alert_status

definition exempt_year :: "'d::ord decimal_api \<Rightarrow> 'd by_year \<Rightarrow> int \<Rightarrow> franking_error + bool" where
  "exempt_year D attached y =
     map_result (\<lambda>credits. credits < small_shareholder_threshold_aud D) (ok_or (MissingYear y) (attached y))"

definition at_risk_of ::
    "'d::linordered_field decimal_api \<Rightarrow> 'd holding_walks \<Rightarrow> 'd by_year \<Rightarrow> 'd franked_dividend \<Rightarrow>
     franking_error + 'd at_risk_alert option" where
  "at_risk_of D walks attached dv =
     (let test = hp_test D walks (fd_listing_id dv) (fd_ex_date dv);
          untested = (\<not> fd_ex_date_recorded dv \<and> hp_disqualified_units test = 0)
      in if hp_disqualified_units test = 0 \<and> \<not> untested then Inr None
         else (let days = required_days walks (fd_listing_id dv);
                   at_risk = denied D test (fd_credits_aud dv)
           in and_then (exempt_year D attached (fd_tax_year dv)) (\<lambda>exempt.
             Inr (Some \<lparr>fa_income_id = fd_income_id dv, fa_listing_id = fd_listing_id dv,
               fa_tax_year = fd_tax_year dv, fa_date_paid = fd_date_paid dv, fa_ex_date = fd_ex_date dv,
               fa_ex_date_recorded = fd_ex_date_recorded dv, fa_required_days = days,
               fa_window_end = fd_ex_date dv + days,
               fa_entitled_units = hp_entitled_units test, fa_disqualified_units = hp_disqualified_units test,
               fa_credits_attached = fd_credits_aud dv, fa_credits_at_risk = at_risk,
               fa_credits_denied = (if exempt then 0 else at_risk),
               fa_status = (if untested then UntestedNoExDate else if exempt then ExemptSmallShareholder
                            else CreditsDenied)\<rparr>))))"

definition db_franking_at_risk ::
    "'d::linordered_field decimal_api \<Rightarrow> chrono_api \<Rightarrow> (listing_id \<rightharpoonup> bool) \<Rightarrow> amit_listings \<Rightarrow> 'd ledger \<Rightarrow>
     'd income list \<Rightarrow> 'd amma_row list \<Rightarrow> franking_error + 'd at_risk_alert list" where
  "db_franking_at_risk D C preference listings L income_rows amma_rows =
     and_then (map_error FrankingFx (db_franked_dividends C (lg_rates L) listings income_rows amma_rows))
       (\<lambda>(dividends, attached).
         and_then (try_map (at_risk_of D (load_walks preference L) attached) dividends) (\<lambda>alerts.
           Inr (sort_key (\<lambda>a. (fa_ex_date a, fa_income_id a)) (concat (map (case_option [] (\<lambda>a. [a])) alerts)))))"

record 'd what_if_alert =
  wa_income_id :: int
  wa_listing_id :: listing_id
  wa_tax_year :: int
  wa_ex_date :: date
  wa_required_days :: int
  wa_window_end :: date
  wa_credits_attached :: 'd
  wa_disqualified_units_now :: 'd
  wa_disqualified_units_after_sale :: 'd
  wa_additional_credits_at_risk :: 'd
  wa_status :: alert_status

definition what_if_of ::
    "'d::linordered_field decimal_api \<Rightarrow> 'd holding_walks \<Rightarrow> 'd by_year \<Rightarrow> date \<Rightarrow> 'd \<Rightarrow> 'd franked_dividend \<Rightarrow>
     franking_error + 'd what_if_alert option" where
  "what_if_of D walks attached sale_date units dv =
     (let base = hp_test D walks (fd_listing_id dv) (fd_ex_date dv);
          after_sale = test_with_sale D walks (fd_listing_id dv) (fd_ex_date dv) (Some (sale_date, units));
          additional = denied D after_sale (fd_credits_aud dv) - denied D base (fd_credits_aud dv)
      in if additional \<le> 0 then Inr None
         else (let days = required_days walks (fd_listing_id dv)
           in and_then (exempt_year D attached (fd_tax_year dv)) (\<lambda>exempt.
             Inr (Some \<lparr>wa_income_id = fd_income_id dv, wa_listing_id = fd_listing_id dv,
               wa_tax_year = fd_tax_year dv, wa_ex_date = fd_ex_date dv, wa_required_days = days,
               wa_window_end = fd_ex_date dv + days, wa_credits_attached = fd_credits_aud dv,
               wa_disqualified_units_now = hp_disqualified_units base,
               wa_disqualified_units_after_sale = hp_disqualified_units after_sale,
               wa_additional_credits_at_risk = additional,
               wa_status = (if exempt then ExemptSmallShareholder else CreditsDenied)\<rparr>))))"

definition db_franking_what_if ::
    "'d::linordered_field decimal_api \<Rightarrow> chrono_api \<Rightarrow> (listing_id \<rightharpoonup> bool) \<Rightarrow> amit_listings \<Rightarrow> 'd ledger \<Rightarrow>
     'd income list \<Rightarrow> 'd amma_row list \<Rightarrow> listing_id \<Rightarrow> date \<Rightarrow> 'd \<Rightarrow> franking_error + 'd what_if_alert list" where
  "db_franking_what_if D C preference listings L income_rows amma_rows listing sale_date units =
     and_then (map_error FrankingFx (db_franked_dividends C (lg_rates L) listings income_rows amma_rows))
       (\<lambda>(dividends, attached).
         and_then (try_map (what_if_of D (load_walks preference L) attached sale_date units)
                    (filter (\<lambda>d. fd_listing_id d = listing) dividends)) (\<lambda>alerts.
           Inr (sort_key (\<lambda>a. (wa_ex_date a, wa_income_id a)) (concat (map (case_option [] (\<lambda>a. [a])) alerts)))))"

section \<open>The walk's bookkeeping\<close>

definition hp_units :: "'d::linordered_field hp_parcel list \<Rightarrow> 'd" where
  "hp_units stack = sum_list (map hp_qty stack)"

definition hp_entitled_left :: "'d::linordered_field hp_parcel list \<Rightarrow> 'd" where
  "hp_entitled_left stack = sum_list (map hp_qty (filter hp_entitled stack))"

lemma hp_units_simps [simp]:
  "hp_units [] = 0" "hp_units (p # ps) = hp_qty p + hp_units ps"
  by (simp_all add: hp_units_def)

lemma hp_entitled_left_simps [simp]:
  "hp_entitled_left [] = 0"
  "hp_entitled_left (p # ps) = (if hp_entitled p then hp_qty p else 0) + hp_entitled_left ps"
  by (simp_all add: hp_entitled_left_def)

abbreviation hp_positive :: "'d::linordered_field hp_parcel list \<Rightarrow> bool" where
  "hp_positive stack \<equiv> \<forall>p \<in> set stack. 0 < hp_qty p"

lemma hp_units_nonneg: "hp_positive stack \<Longrightarrow> 0 \<le> hp_units stack"
  unfolding hp_units_def by (rule sum_list_nonneg) (auto intro: less_imp_le)

lemma hp_entitled_left_nonneg: "hp_positive stack \<Longrightarrow> 0 \<le> hp_entitled_left stack"
  unfolding hp_entitled_left_def by (rule sum_list_nonneg) (auto intro: less_imp_le)

lemma hp_sell_spec:
  assumes "hp_sell required date remaining stack disqualified = (stack', disqualified')" and "hp_positive stack"
  shows "hp_positive stack' \<and> hp_units stack' = max 0 (hp_units stack - max 0 remaining)
    \<and> disqualified \<le> disqualified'
    \<and> disqualified' + hp_entitled_left stack' \<le> disqualified + hp_entitled_left stack
    \<and> (\<forall>p \<in> set stack'. \<exists>q \<in> set stack. hp_entitled p = hp_entitled q \<and> hp_acquired p = hp_acquired q)"
  using assms
proof (induction required date remaining stack disqualified arbitrary: stack' disqualified' rule: hp_sell.induct)
  case (1 required date remaining stack disqualified)
  note sell = 1
  consider "remaining \<le> 0" | "0 < remaining" "stack = []" | p rest where "0 < remaining" "stack = p # rest"
    by (cases "remaining \<le> 0"; cases stack) (auto simp: not_le)
  then show ?case
  proof cases
    case 1
    then show ?thesis
      using sell(2,3) hp_units_nonneg [OF sell(3)] by (subst (asm) hp_sell.simps) auto
  next
    case 2
    then show ?thesis using sell(2) by (subst (asm) hp_sell.simps) auto
  next
    case 3
    define units where "units = min remaining (hp_qty p)"
    define p' where "p' = p\<lparr>hp_qty := hp_qty p - units\<rparr>"
    define left where "left = (if hp_qty p' = 0 then rest else p' # rest)"
    define d where "d = (if hp_entitled p \<and> date - hp_acquired p - 1 < required then disqualified + units else disqualified)"
    have q: "0 < hp_qty p" "hp_positive rest" using sell(3) 3 by auto
    have u: "0 < units" "units \<le> hp_qty p" "units \<le> remaining" using q 3 by (auto simp: units_def)
    have p': "hp_qty p' = hp_qty p - units" "hp_entitled p' = hp_entitled p" "hp_acquired p' = hp_acquired p"
      by (simp_all add: p'_def)
    have pos: "hp_positive left" using q u p' by (auto simp: left_def)
    have some: "\<not> remaining \<le> 0" using 3(1) by simp
    have "hp_sell required date remaining stack disqualified = hp_sell required date (remaining - units) left d"
      by (subst hp_sell.simps) (simp only: some if_False 3(2) list.case Let_def units_def p'_def left_def d_def)
    with sell(2) have "hp_sell required date (remaining - units) left d = (stack', disqualified')" by simp
    from sell(1) [OF _ 3(2) units_def refl d_def p'_def this [unfolded left_def] pos [unfolded left_def]] 3(1)
    have IH: "hp_positive stack'" "hp_units stack' = max 0 (hp_units left - max 0 (remaining - units))"
      "d \<le> disqualified'" "disqualified' + hp_entitled_left stack' \<le> d + hp_entitled_left left"
      "\<forall>p \<in> set stack'. \<exists>q \<in> set left. hp_entitled p = hp_entitled q \<and> hp_acquired p = hp_acquired q"
      by (simp_all add: left_def)
    have "hp_units left = hp_units stack - units" "hp_entitled_left left = hp_entitled_left stack - (if hp_entitled p then units else 0)"
      using 3 p' by (auto simp: left_def)
    moreover have "disqualified \<le> d" "d \<le> disqualified + (if hp_entitled p then units else 0)" using u by (auto simp: d_def)
    moreover have "\<forall>x \<in> set left. \<exists>q \<in> set stack. hp_entitled x = hp_entitled q \<and> hp_acquired x = hp_acquired q"
      using 3 p' by (auto simp: left_def)
    ultimately show ?thesis using IH u 3(1) by (auto 0 4 simp: max_def)
  qed
qed

text \<open>The specification: the units held, in the counting basis of the window's end.\<close>

definition hp_quantity :: "'d::linordered_field split_event list \<Rightarrow> date \<Rightarrow> 'd hp_event \<Rightarrow> 'd" where
  "hp_quantity splits window_end e =
     ev_qty e * (cum_factor splits (Some window_end) / cum_factor splits (Some (ev_date e)))"

definition held_units :: "'d::linordered_field split_event list \<Rightarrow> date \<Rightarrow> 'd hp_event list \<Rightarrow> 'd" where
  "held_units splits window_end events =
     foldl (\<lambda>h e. if ev_sell e then max 0 (h - hp_quantity splits window_end e)
                  else h + hp_quantity splits window_end e) 0 events"

definition before_ex :: "date \<Rightarrow> 'd hp_event list \<Rightarrow> 'd hp_event list" where
  "before_ex ex_date events = takeWhile (\<lambda>e. ev_date e < ex_date) events"

definition hp_inv ::
    "'d::linordered_field split_event list \<Rightarrow> date \<Rightarrow> date \<Rightarrow> 'd hp_event list \<Rightarrow> 'd hp_state \<Rightarrow> bool" where
  "hp_inv splits ex_date window_end done st \<longleftrightarrow>
     hp_positive (hs_stack st)
     \<and> (\<forall>p \<in> set (hs_stack st). \<exists>e \<in> set done. \<not> ev_sell e \<and> ev_date e = hp_acquired p
          \<and> (hp_entitled p \<longrightarrow> e \<in> set (before_ex ex_date done)))
     \<and> hs_snapshotted st = (before_ex ex_date done \<noteq> done)
     \<and> (if hs_snapshotted st
        then hs_entitled_units st = held_units splits window_end (before_ex ex_date done)
          \<and> 0 \<le> hs_disqualified_units st
          \<and> hs_disqualified_units st + hp_entitled_left (hs_stack st) \<le> hs_entitled_units st
        else hs_entitled_units st = 0 \<and> hs_disqualified_units st = 0
          \<and> hp_units (hs_stack st) = held_units splits window_end done
          \<and> (\<forall>p \<in> set (hs_stack st). \<not> hp_entitled p))"

lemma held_units_snoc:
  "held_units splits window_end (events @ [e]) =
     (if ev_sell e then max 0 (held_units splits window_end events - hp_quantity splits window_end e)
      else held_units splits window_end events + hp_quantity splits window_end e)"
  by (simp add: held_units_def)

lemma before_ex_all: "before_ex ex_date done = done \<Longrightarrow> ev_date e < ex_date \<Longrightarrow> before_ex ex_date (done @ [e]) = done @ [e]"
  by (simp add: before_ex_def)

lemma before_ex_some:
  assumes "before_ex ex_date done \<noteq> done \<or> ex_date \<le> ev_date e"
  shows "before_ex ex_date (done @ [e]) = before_ex ex_date done" "before_ex ex_date (done @ [e]) \<noteq> done @ [e]"
proof -
  have tw: "takeWhile P (xs @ [x]) = takeWhile P xs" if "takeWhile P xs \<noteq> xs \<or> \<not> P x" for P and xs :: "'a hp_event list" and x
    using that by (induction xs) auto
  show same: "before_ex ex_date (done @ [e]) = before_ex ex_date done"
    unfolding before_ex_def by (rule tw) (use assms in \<open>auto simp: before_ex_def not_less\<close>)
  have "length (before_ex ex_date done) \<le> length done" by (simp add: before_ex_def length_takeWhile_le)
  then show "before_ex ex_date (done @ [e]) \<noteq> done @ [e]" unfolding same by auto
qed

lemma entitled_none: "(\<forall>p \<in> set stack. \<not> hp_entitled p) \<Longrightarrow> hp_entitled_left stack = 0"
  by (induction stack) auto

lemma hp_mark: "hp_units (map (\<lambda>p. p\<lparr>hp_entitled := True\<rparr>) stack) = hp_units stack"
  "hp_entitled_left (map (\<lambda>p. p\<lparr>hp_entitled := True\<rparr>) stack) = hp_units stack"
  by (induction stack) simp_all

lemma foldl_rev_units: "foldl (+) a (map hp_qty (rev stack)) = a + hp_units (stack :: 'd::linordered_field hp_parcel list)"
proof -
  have "foldl (+) a xs = a + sum_list xs" for xs :: "'d list" by (induction xs arbitrary: a) (simp_all add: add.assoc)
  moreover have "sum_list (rev xs) = sum_list xs" for xs :: "'d list" by (induction xs) simp_all
  ultimately show ?thesis by (simp add: hp_units_def rev_map [symmetric])
qed

text \<open>The snapshot, if the event is the first on or after the ex date.\<close>

lemma hp_snapshot_inv:
  assumes inv: "hp_inv splits ex_date window_end done st" and "ex_date \<le> d"
  defines "st1 \<equiv> (if \<not> hs_snapshotted st \<and> ex_date \<le> d then hp_snapshot st else st)"
  shows "hs_snapshotted st1" "hp_positive (hs_stack st1)" "0 \<le> hs_disqualified_units st1"
    "hs_entitled_units st1 = held_units splits window_end (before_ex ex_date done)"
    "hs_disqualified_units st1 + hp_entitled_left (hs_stack st1) \<le> hs_entitled_units st1"
    "\<forall>p \<in> set (hs_stack st1). \<exists>e \<in> set done. \<not> ev_sell e \<and> ev_date e = hp_acquired p
       \<and> (hp_entitled p \<longrightarrow> e \<in> set (before_ex ex_date done))"
proof -
  show "hs_snapshotted st1" using assms(2) by (simp add: st1_def hp_snapshot_def)
  show "hp_positive (hs_stack st1)" using inv by (auto simp: st1_def hp_snapshot_def hp_inv_def)
  show "0 \<le> hs_disqualified_units st1" using inv by (auto simp: st1_def hp_snapshot_def hp_inv_def)
  show "hs_entitled_units st1 = held_units splits window_end (before_ex ex_date done)"
    using inv by (auto simp: st1_def hp_snapshot_def hp_inv_def foldl_rev_units assms(2) split: if_splits)
  show "hs_disqualified_units st1 + hp_entitled_left (hs_stack st1) \<le> hs_entitled_units st1"
    using inv by (auto simp: st1_def hp_snapshot_def hp_inv_def foldl_rev_units hp_mark assms(2) split: if_splits)
  show "\<forall>p \<in> set (hs_stack st1). \<exists>e \<in> set done. \<not> ev_sell e \<and> ev_date e = hp_acquired p
       \<and> (hp_entitled p \<longrightarrow> e \<in> set (before_ex ex_date done))"
  proof (cases "hs_snapshotted st")
    case True
    then show ?thesis using inv by (simp add: st1_def hp_inv_def)
  next
    case False
    then have all: "before_ex ex_date done = done" and stack: "hs_stack st1 = map (\<lambda>p. p\<lparr>hp_entitled := True\<rparr>) (hs_stack st)"
      using inv by (simp_all add: st1_def hp_inv_def hp_snapshot_def assms(2))
    have "\<forall>p \<in> set (hs_stack st). \<exists>e \<in> set done. \<not> ev_sell e \<and> ev_date e = hp_acquired p"
      using inv unfolding hp_inv_def by blast
    then show ?thesis unfolding all stack by auto
  qed
qed

context decimal_laws
begin

lemma hp_step_quantity:
  assumes "splits_ok splits"
  shows "ua_quantity (rebased D (units_at_new (ev_qty e) (ev_date e)) splits (Some window_end))
    = hp_quantity splits window_end e"
  by (simp add: rebased_def units_at_new_def hp_quantity_def rebase_val [OF assms])

lemma hp_quantity_pos: "splits_ok splits \<Longrightarrow> 0 < ev_qty e \<Longrightarrow> 0 < hp_quantity splits window_end e"
  using cum_factor_pos [of splits "Some window_end"] cum_factor_pos [of splits "Some (ev_date e)"]
  by (simp add: hp_quantity_def)

lemma hp_step_inv:
  assumes ok: "splits_ok splits" and q: "0 < ev_qty e" and inv: "hp_inv splits ex_date window_end done st"
  shows "hp_inv splits ex_date window_end (done @ [e]) (hp_step D splits required ex_date window_end st e)"
proof -
  let ?q = "hp_quantity splits window_end e"
  define st1 where "st1 = (if \<not> hs_snapshotted st \<and> ex_date \<le> ev_date e then hp_snapshot st else st)"
  have pos: "0 < ?q" using hp_quantity_pos [OF ok q] .
  obtain stack d where sell: "hp_sell required (ev_date e) ?q (hs_stack st1) (hs_disqualified_units st1) = (stack, d)"
    by fastforce
  have stp: "hp_step D splits required ex_date window_end st e =
      (if ev_sell e then st1\<lparr>hs_stack := stack, hs_disqualified_units := d\<rparr>
       else st1\<lparr>hs_stack := \<lparr>hp_acquired = ev_date e, hp_qty = ?q, hp_entitled = False\<rparr> # hs_stack st1\<rparr>)"
    by (simp add: hp_step_def Let_def hp_step_quantity [OF ok] st1_def [symmetric] sell)
  show ?thesis
  proof (cases "hs_snapshotted st \<or> ex_date \<le> ev_date e")
    case True
    have snap: "before_ex ex_date (done @ [e]) = before_ex ex_date done" "before_ex ex_date (done @ [e]) \<noteq> done @ [e]"
      using before_ex_some [of ex_date "done" e] inv True by (auto simp: hp_inv_def)
    have st1: "hs_snapshotted st1" "hp_positive (hs_stack st1)" "0 \<le> hs_disqualified_units st1"
      "hs_entitled_units st1 = held_units splits window_end (before_ex ex_date done)"
      "hs_disqualified_units st1 + hp_entitled_left (hs_stack st1) \<le> hs_entitled_units st1"
      "\<forall>p \<in> set (hs_stack st1). \<exists>e \<in> set done. \<not> ev_sell e \<and> ev_date e = hp_acquired p
         \<and> (hp_entitled p \<longrightarrow> e \<in> set (before_ex ex_date done))"
    proof -
      have "\<exists>d. ex_date \<le> d \<and> st1 = (if \<not> hs_snapshotted st \<and> ex_date \<le> d then hp_snapshot st else st)"
      proof (cases "ex_date \<le> ev_date e")
        case True
        then show ?thesis unfolding st1_def by blast
      next
        case False
        then have "st1 = st" "hs_snapshotted st" using True by (simp_all add: st1_def)
        then show ?thesis by auto
      qed
      then obtain d where d: "ex_date \<le> d" "st1 = (if \<not> hs_snapshotted st \<and> ex_date \<le> d then hp_snapshot st else st)"
        by blast
      note * = hp_snapshot_inv [OF inv d(1), folded d(2)]
      show "hs_snapshotted st1" "hp_positive (hs_stack st1)" "0 \<le> hs_disqualified_units st1"
        "hs_entitled_units st1 = held_units splits window_end (before_ex ex_date done)"
        "hs_disqualified_units st1 + hp_entitled_left (hs_stack st1) \<le> hs_entitled_units st1"
        "\<forall>p \<in> set (hs_stack st1). \<exists>e \<in> set done. \<not> ev_sell e \<and> ev_date e = hp_acquired p
           \<and> (hp_entitled p \<longrightarrow> e \<in> set (before_ex ex_date done))"
        by (rule *)+
    qed
    show ?thesis
    proof (cases "ev_sell e")
      case True
      from hp_sell_spec [OF sell st1(2)] have s: "hp_positive stack" "hs_disqualified_units st1 \<le> d"
        "d + hp_entitled_left stack \<le> hs_disqualified_units st1 + hp_entitled_left (hs_stack st1)"
        "\<forall>p \<in> set stack. \<exists>q \<in> set (hs_stack st1). hp_entitled p = hp_entitled q \<and> hp_acquired p = hp_acquired q" by blast+
      have "\<forall>p \<in> set stack. \<exists>e \<in> set done. \<not> ev_sell e \<and> ev_date e = hp_acquired p
         \<and> (hp_entitled p \<longrightarrow> e \<in> set (before_ex ex_date done))" using s(4) st1(6) by metis
      then show ?thesis unfolding hp_inv_def snap(1) stp using True snap(2) [unfolded snap(1)] st1 s(1-3) by auto
    next
      case False
      then show ?thesis unfolding hp_inv_def snap(1) stp using snap(2) [unfolded snap(1)] st1 pos by auto
    qed
  next
    case False
    then have st1: "st1 = st" by (auto simp: st1_def)
    have all: "before_ex ex_date done = done" "before_ex ex_date (done @ [e]) = done @ [e]"
      using False inv before_ex_all [of ex_date "done" e] by (auto simp: hp_inv_def)
    have i: "hp_positive (hs_stack st)" "\<forall>p \<in> set (hs_stack st). \<exists>e \<in> set done. \<not> ev_sell e \<and> ev_date e = hp_acquired p"
      "hs_entitled_units st = 0" "hs_disqualified_units st = 0" "hp_units (hs_stack st) = held_units splits window_end done"
      "\<forall>p \<in> set (hs_stack st). \<not> hp_entitled p" "\<not> hs_snapshotted st"
      using inv False by (auto simp: hp_inv_def)
    show ?thesis
    proof (cases "ev_sell e")
      case True
      from hp_sell_spec [OF sell [unfolded st1] i(1)] have s: "hp_positive stack"
        "hp_units stack = max 0 (hp_units (hs_stack st) - max 0 ?q)" "hs_disqualified_units st \<le> d"
        "d + hp_entitled_left stack \<le> hs_disqualified_units st + hp_entitled_left (hs_stack st)"
        "\<forall>p \<in> set stack. \<exists>q \<in> set (hs_stack st). hp_entitled p = hp_entitled q \<and> hp_acquired p = hp_acquired q" by blast+
      have none: "\<forall>p \<in> set stack. \<not> hp_entitled p" using s(5) i(6) by metis
      have "d = 0" using s(3,4) i(4) entitled_none [OF none] entitled_none [OF i(6)] by simp
      moreover have "\<forall>p \<in> set stack. \<exists>e \<in> set done. \<not> ev_sell e \<and> ev_date e = hp_acquired p" using s(5) i(2) by metis
      ultimately show ?thesis unfolding hp_inv_def all(2) stp st1 held_units_snoc
        using True i s(1,2) none pos by (auto simp: max_def)
    next
      case False
      then show ?thesis unfolding hp_inv_def all(2) stp st1 held_units_snoc using i pos by auto
    qed
  qed
qed

lemma hp_walk_inv:
  assumes "splits_ok splits" and "\<forall>e \<in> set events. 0 < ev_qty e"
  shows "hp_inv splits ex_date window_end events (foldl (hp_step D splits required ex_date window_end) hp_start events)"
  using assms(2)
proof (induction events rule: rev_induct)
  case Nil
  show ?case by (simp add: hp_inv_def hp_start_def held_units_def before_ex_def)
next
  case (snoc e events)
  then show ?case using hp_step_inv [OF assms(1), of e] by simp
qed

end

lemma hp_sell_long_held:
  assumes "\<forall>p \<in> set stack. hp_entitled p \<longrightarrow> required < date - hp_acquired p"
  shows "snd (hp_sell required date remaining stack disqualified) = disqualified"
  using assms
proof (induction required date remaining stack disqualified rule: hp_sell.induct)
  case (1 required date remaining stack disqualified)
  show ?case
  proof (cases "remaining \<le> 0 \<or> stack = []")
    case True
    then show ?thesis by (subst hp_sell.simps) auto
  next
    case False
    then obtain p rest where stack: "stack = p # rest" and pos: "\<not> remaining \<le> 0" by (cases stack) auto
    have late: "\<not> (hp_entitled p \<and> date - hp_acquired p - 1 < required)" using "1.prems" stack by auto
    note IH = "1.IH" [OF pos stack refl refl refl refl]
    show ?thesis
      by (subst hp_sell.simps)
         (use IH late "1.prems" in \<open>simp add: stack pos Let_def split del: if_split cong: if_cong\<close>, auto)
  qed
qed

text \<open>The events from the first on or after the ex date.\<close>

definition from_ex :: "date \<Rightarrow> 'd hp_event list \<Rightarrow> 'd hp_event list" where
  "from_ex ex_date events = dropWhile (\<lambda>e. ev_date e < ex_date) events"

lemma from_ex_snoc:
  assumes "before_ex ex_date done \<noteq> done \<or> ex_date \<le> ev_date e"
  shows "e \<in> set (from_ex ex_date (done @ [e]))"
  using assms unfolding from_ex_def before_ex_def by (induction "done") auto

lemma from_ex_sub: "set (from_ex ex_date done) \<subseteq> set (from_ex ex_date (done @ [e]))"
  unfolding from_ex_def by (induction "done") auto

lemma before_ex_sub: "set (before_ex ex_date done) \<subseteq> set (before_ex ex_date (done @ [e]))"
  using before_ex_some(1) [of ex_date "done" e] before_ex_all [of ex_date "done" e]
  by (cases "before_ex ex_date done = done"; cases "ex_date \<le> ev_date e") (auto simp: not_le)

context decimal_laws
begin

lemma hp_walk_long_held:
  assumes "splits_ok splits" and "\<forall>e \<in> set events. 0 < ev_qty e"
    and "\<forall>b \<in> set (before_ex ex_date events). \<forall>s \<in> set (from_ex ex_date events).
      \<not> ev_sell b \<and> ev_sell s \<longrightarrow> required < ev_date s - ev_date b"
  shows "hs_disqualified_units (foldl (hp_step D splits required ex_date window_end) hp_start events) = 0"
  using assms(2,3)
proof (induction events rule: rev_induct)
  case Nil
  show ?case by (simp add: hp_start_def)
next
  case (snoc e events)
  define st where "st = foldl (hp_step D splits required ex_date window_end) hp_start events"
  define st1 where "st1 = (if \<not> hs_snapshotted st \<and> ex_date \<le> ev_date e then hp_snapshot st else st)"
  have last: "foldl (hp_step D splits required ex_date window_end) hp_start (events @ [e])
      = hp_step D splits required ex_date window_end st e"
    by (simp add: st_def)
  have zero: "hs_disqualified_units st1 = 0"
  proof -
    have "hs_disqualified_units st = 0"
    proof (unfold st_def, rule snoc.IH)
      show "\<forall>e \<in> set events. 0 < ev_qty e" using snoc.prems(1) by simp
      show "\<forall>b \<in> set (before_ex ex_date events). \<forall>s \<in> set (from_ex ex_date events).
          \<not> ev_sell b \<and> ev_sell s \<longrightarrow> required < ev_date s - ev_date b"
        using snoc.prems(2) before_ex_sub [of ex_date events e] from_ex_sub [of ex_date events e] by blast
    qed
    then show ?thesis by (simp add: st1_def hp_snapshot_def)
  qed
  have inv: "hp_inv splits ex_date window_end events st"
    unfolding st_def by (rule hp_walk_inv [OF assms(1)]) (use snoc.prems in auto)
  have late: "required < ev_date e - hp_acquired p"
    if sell: "ev_sell e" and p: "p \<in> set (hs_stack st1)" "hp_entitled p" for p
  proof -
    have "before_ex ex_date events \<noteq> events \<or> ex_date \<le> ev_date e"
    proof (rule ccontr)
      assume "\<not> ?thesis"
      then have "st1 = st" "\<not> hs_snapshotted st" using inv by (auto simp: st1_def hp_inv_def)
      then show False using inv p by (auto simp: hp_inv_def)
    qed
    note here = from_ex_snoc [OF this]
    obtain b where b: "b \<in> set (before_ex ex_date events)" "\<not> ev_sell b" "ev_date b = hp_acquired p"
    proof (cases "\<not> hs_snapshotted st \<and> ex_date \<le> ev_date e")
      case True
      then show ?thesis using that hp_snapshot_inv(6) [OF inv, of "ev_date e"] p by (auto simp: st1_def)
    next
      case False
      then have "st1 = st" by (simp only: st1_def if_False)
      then show ?thesis using that inv p unfolding hp_inv_def by blast
    qed
    have "b \<in> set (before_ex ex_date (events @ [e]))" using b(1) before_ex_sub by (rule rev_subsetD)
    with snoc.prems(2) here have "\<not> ev_sell b \<and> ev_sell e \<longrightarrow> required < ev_date e - ev_date b" by blast
    with b sell show ?thesis by simp
  qed
  show ?case
  proof (cases "ev_sell e")
    case True
    let ?q = "ua_quantity (rebased D (units_at_new (ev_qty e) (ev_date e)) splits (Some window_end))"
    obtain stack d where sell: "hp_sell required (ev_date e) ?q (hs_stack st1) 0 = (stack, d)" by fastforce
    have "snd (hp_sell required (ev_date e) ?q (hs_stack st1) 0) = 0"
      by (intro hp_sell_long_held) (use late True in blast)
    then have "d = 0" by (simp add: sell)
    then show ?thesis
      unfolding last by (simp add: hp_step_def Let_def st1_def [symmetric] True zero sell)
  next
    case False
    then show ?thesis unfolding last by (simp add: hp_step_def Let_def st1_def [symmetric] zero)
  qed
qed

end

section \<open>A sale on the books\<close>

lemma sorted_insert_after:
  "sorted (map f ys) \<Longrightarrow> sorted (map f (takeWhile (\<lambda>y. f y \<le> f x) ys @ x # dropWhile (\<lambda>y. f y \<le> f x) ys))"
proof (induction ys)
  case (Cons y ys)
  show ?case
  proof (cases "f y \<le> f x")
    case True
    let ?new = "takeWhile (\<lambda>y. f y \<le> f x) ys @ x # dropWhile (\<lambda>y. f y \<le> f x) ys"
    have "set ?new \<subseteq> insert x (set ys)"
      by (auto dest: set_takeWhileD set_dropWhileD)
    then have "\<forall>z \<in> set (map f ?new). f y \<le> z" using True Cons.prems by auto
    moreover have "sorted (map f ?new)" using Cons by simp
    ultimately have "sorted (f y # map f ?new)" by (simp only: sorted_simps(2) simp_thms)
    then show ?thesis using True by simp
  next
    case False
    then have "f x \<le> f y" by simp
    then show ?thesis using Cons.prems False by (auto intro: order_trans)
  qed
qed simp

lemma sort_key_last:
  fixes f :: "'b \<Rightarrow> 'a::linorder"
  assumes "f x \<notin> f ` set xs"
  shows "sort_key f (xs @ [x]) = takeWhile (\<lambda>y. f y \<le> f x) (sort_key f xs) @ x # dropWhile (\<lambda>y. f y \<le> f x) (sort_key f xs)"
proof (rule properties_for_sort_key)
  let ?ys = "sort_key f xs"
  let ?new = "takeWhile (\<lambda>y. f y \<le> f x) ?ys @ x # dropWhile (\<lambda>y. f y \<le> f x) ?ys"
  have "mset (t @ x # d) = mset (t @ d) + {#x#}" for t d by simp
  then have "mset ?new = mset (takeWhile (\<lambda>y. f y \<le> f x) ?ys @ dropWhile (\<lambda>y. f y \<le> f x) ?ys) + {#x#}" .
  also have "\<dots> = mset ?ys + {#x#}" by (simp only: takeWhile_dropWhile_id)
  finally have m: "mset ?new = mset ?ys + {#x#}" .
  show "mset ?new = mset (xs @ [x])" unfolding m by simp
  show "filter (\<lambda>y. f k = f y) ?new = filter (\<lambda>y. f k = f y) (xs @ [x])" if "k \<in> set ?new" for k
  proof -
    have split: "filter P (takeWhile Q zs) @ filter P (dropWhile Q zs) = filter P zs" for P Q and zs :: "'b list"
      by (metis filter_append takeWhile_dropWhile_id)
    have stable: "filter (\<lambda>y. f k = f y) ?ys = filter (\<lambda>y. f k = f y) xs" for k
      using sort_key_stable [of f "f k" xs] by (simp add: eq_commute)
    show ?thesis
    proof (cases "f k = f x")
      case True
      then have "filter (\<lambda>y. f k = f y) xs = []" using assms by (auto simp: filter_empty_conv)
      then have "filter (\<lambda>y. f k = f y) ?ys = []" using stable by simp
      then show ?thesis using split [of "\<lambda>y. f k = f y" "\<lambda>y. f y \<le> f x" ?ys] True assms
        by (auto simp: filter_empty_conv)
    next
      case False
      then show ?thesis using split [of "\<lambda>y. f k = f y" "\<lambda>y. f y \<le> f x" ?ys] stable by simp
    qed
  qed
  show "sorted (map f ?new)" by (rule sorted_insert_after) simp
qed

text \<open>Inserting the contemplated sale into the window is taking the window of the recorded one.\<close>

lemma hp_events_recorded:
  defines "sale \<equiv> \<lambda>d u. \<lparr>ev_sell = True, ev_date = d, ev_qty = u\<rparr>"
  shows "hp_events window_end (Some (d, u)) events =
    hp_events window_end None (takeWhile (\<lambda>e. ev_date e \<le> d) events @ sale d u # dropWhile (\<lambda>e. ev_date e \<le> d) events)"
proof -
  have take: "take (events_through b xs) xs = takeWhile (\<lambda>e. ev_date e \<le> b) xs"
    and drop: "drop (events_through b xs) xs = dropWhile (\<lambda>e. ev_date e \<le> b) xs" for b and xs :: "'a hp_event list"
    by (simp_all add: events_through_def takeWhile_eq_take [symmetric] dropWhile_eq_drop [symmetric])
  show ?thesis
  proof (cases "d \<le> window_end")
    case True
    have "takeWhile (\<lambda>e. ev_date e \<le> d) (takeWhile (\<lambda>e. ev_date e \<le> window_end) events) = takeWhile (\<lambda>e. ev_date e \<le> d) events"
      "takeWhile (\<lambda>e. ev_date e \<le> window_end) (takeWhile (\<lambda>e. ev_date e \<le> d) events @ x # dropWhile (\<lambda>e. ev_date e \<le> d) events)
        = takeWhile (\<lambda>e. ev_date e \<le> d) events @ takeWhile (\<lambda>e. ev_date e \<le> window_end) (x # dropWhile (\<lambda>e. ev_date e \<le> d) events)"
      "dropWhile (\<lambda>e. ev_date e \<le> d) (takeWhile (\<lambda>e. ev_date e \<le> window_end) events)
        = takeWhile (\<lambda>e. ev_date e \<le> window_end) (dropWhile (\<lambda>e. ev_date e \<le> d) events)" for x
      using True by (induction events) auto
    note * = this
    show ?thesis
      unfolding hp_events_def Let_def option.case prod.case take drop
      using True by (simp add: * sale_def)
  next
    case False
    have "takeWhile (\<lambda>e. ev_date e \<le> window_end) (takeWhile (\<lambda>e. ev_date e \<le> d) events @ sale d u # dropWhile (\<lambda>e. ev_date e \<le> d) events)
      = takeWhile (\<lambda>e. ev_date e \<le> window_end) events"
      using False by (induction events) (auto simp: sale_def)
    then show ?thesis
      unfolding hp_events_def Let_def option.case prod.case take drop using False by simp
  qed
qed

text \<open>The walk of the ledger with the sale on its books.\<close>

lemma load_walks_with_sale:
  assumes walk: "load_walks preference L listing = Some w"
    and sale: "tr_type sale = Sell" "pr_listing_id (tr_row sale) = listing" "no_provenance (tr_row sale)"
    and fresh: "\<forall>t \<in> set (lg_trades L). pr_id (tr_row t) < pr_id (tr_row sale)"
  shows "load_walks preference (with_sale L sale a) listing =
    Some (w\<lparr>lw_events := takeWhile (\<lambda>e. ev_date e \<le> pr_date (tr_row sale)) (lw_events w)
       @ walk_event sale # dropWhile (\<lambda>e. ev_date e \<le> pr_date (tr_row sale)) (lw_events w)\<rparr>)"
proof -
  let ?f = "\<lambda>t. (pr_date (tr_row t), pr_id (tr_row t))"
  let ?xs = "filter (walked_trade listing) (lg_trades L)"
  have new: "filter (walked_trade listing) (lg_trades (with_sale L sale a)) = ?xs @ [sale]"
    using sale by (simp add: with_sale_def walked_trade_def no_provenance_def)
  have unused: "?f sale \<notin> ?f ` set ?xs" using fresh by fastforce
  have le: "?f t \<le> ?f sale \<longleftrightarrow> ev_date (walk_event t) \<le> pr_date (tr_row sale)" if "t \<in> set (sort_key ?f ?xs)" for t
    using fresh that by (auto simp: less_eq_prod_def walk_event_def)
  have tw: "map walk_event (takeWhile (\<lambda>t. ?f t \<le> ?f sale) ys)
      = takeWhile (\<lambda>e. ev_date e \<le> pr_date (tr_row sale)) (map walk_event ys)"
    "map walk_event (dropWhile (\<lambda>t. ?f t \<le> ?f sale) ys)
      = dropWhile (\<lambda>e. ev_date e \<le> pr_date (tr_row sale)) (map walk_event ys)"
    if "set ys \<subseteq> set (sort_key ?f ?xs)" for ys
    using that le by (induction ys) auto
  obtain p where p: "preference listing = Some p"
    "w = \<lparr>lw_preference = p, lw_events = map walk_event (sort_key ?f ?xs),
       lw_splits = (case lg_splits L listing of None \<Rightarrow> [] | Some s \<Rightarrow> announced s)\<rparr>"
    using walk by (auto simp: load_walks_def split: option.splits)
  have "map walk_event (sort_key ?f (?xs @ [sale]))
    = takeWhile (\<lambda>e. ev_date e \<le> pr_date (tr_row sale)) (map walk_event (sort_key ?f ?xs))
       @ walk_event sale # dropWhile (\<lambda>e. ev_date e \<le> pr_date (tr_row sale)) (map walk_event (sort_key ?f ?xs))"
    unfolding sort_key_last [OF unused] map_append list.map tw [OF subset_refl] ..
  then show ?thesis by (simp add: load_walks_def p new) (simp add: with_sale_def)
qed

lemma hp_test_facts:
  assumes D: "decimal_laws D" and walk: "walks listing = Some w" and ok: "splits_ok (lw_splits w)"
    and window: "window_end = ex_date + required_days walks listing"
    and events: "events = hp_events window_end sale (lw_events w)" and qty: "\<forall>e \<in> set events. 0 < ev_qty e"
    and t: "t = test_with_sale D walks listing ex_date sale" and credits: "0 \<le> credits"
  shows "hp_entitled_units t = held_units (lw_splits w) window_end (before_ex ex_date events)
    \<and> 0 \<le> hp_disqualified_units t \<and> hp_disqualified_units t \<le> hp_entitled_units t
    \<and> 0 \<le> denied D t credits \<and> denied D t credits \<le> credits"
proof -
  define st where "st = foldl (hp_step D (lw_splits w) (required_days walks listing) ex_date window_end) hp_start events"
  have inv: "hp_inv (lw_splits w) ex_date window_end events st"
    unfolding st_def by (rule decimal_laws.hp_walk_inv [OF D ok qty])
  have test: "t = \<lparr>hp_entitled_units = (if \<not> hs_snapshotted st then dsum (map hp_qty (rev (hs_stack st)))
                  else hs_entitled_units st), hp_disqualified_units = hs_disqualified_units st\<rparr>"
    unfolding t test_with_sale_def walk option.case Let_def window [symmetric] events [symmetric] st_def [symmetric] ..
  have sum: "dsum (map hp_qty (rev (hs_stack st))) = hp_units (hs_stack st)"
    using foldl_rev_units [of 0 "hs_stack st"] by (simp add: dsum_def)
  have pos: "0 \<le> hp_units (hs_stack st)" "0 \<le> hp_entitled_left (hs_stack st)"
    using inv hp_units_nonneg hp_entitled_left_nonneg by (auto simp: hp_inv_def)
  have units: "hp_entitled_units t = held_units (lw_splits w) window_end (before_ex ex_date events)"
    "0 \<le> hp_disqualified_units t" "hp_disqualified_units t \<le> hp_entitled_units t"
    using inv pos by (auto simp: test sum hp_inv_def split: if_splits)
  have "denied D t credits = (if hp_entitled_units t = 0 then 0
      else credits * (hp_disqualified_units t / hp_entitled_units t))"
    by (simp add: denied_def decimal_laws.mul_div_eq [OF D])
  moreover have "hp_disqualified_units t / hp_entitled_units t \<le> 1" "0 \<le> hp_disqualified_units t / hp_entitled_units t"
    using units(2,3) by (auto simp: divide_le_eq_1)
  ultimately show ?thesis
    using units credits mult_left_le [of "hp_disqualified_units t / hp_entitled_units t" credits] by auto
qed

section \<open>Claims\<close>


text \<open>C39: shares held past the required days are never denied: where every sale from the ex date to
  the window's end comes more than the required days after every earlier purchase, no unit is
  disqualified, whichever parcels the sales are identified with.
\<close>

theorem long_held_never_denied:
  assumes D: "decimal_laws D" and walk: "walks listing = Some w" and ok: "splits_ok (lw_splits w)"
    and events: "events = hp_events (ex_date + required_days walks listing) sale (lw_events w)"
    and qty: "\<forall>e \<in> set events. 0 < ev_qty e"
    and held: "\<forall>b \<in> set (before_ex ex_date events). \<forall>s \<in> set (from_ex ex_date events).
      \<not> ev_sell b \<and> ev_sell s \<longrightarrow> required_days walks listing < ev_date s - ev_date b"
  shows "hp_disqualified_units (test_with_sale D walks listing ex_date sale) = 0
    \<and> denied D (test_with_sale D walks listing ex_date sale) credits = 0"
  using decimal_laws.hp_walk_long_held [OF D ok qty held]
  by (simp add: test_with_sale_def walk Let_def events [symmetric] denied_def)

text \<open>C28: what the what-if says of a contemplated sale is what the test says once the sale is on the
  books.
\<close>

theorem franking_what_if_is_recorded:
  assumes "load_walks preference L listing = Some w" and "tr_type sale = Sell"
    and "pr_listing_id (tr_row sale) = listing" and "no_provenance (tr_row sale)"
    and "\<forall>t \<in> set (lg_trades L). pr_id (tr_row t) < pr_id (tr_row sale)"
  shows "test_with_sale D (load_walks preference L) listing ex_date
      (Some (pr_date (tr_row sale), au_get (pr_quantity (tr_row sale))))
    = hp_test D (load_walks preference (with_sale L sale a)) listing ex_date"
proof -
  let ?w' = "w\<lparr>lw_events := takeWhile (\<lambda>e. ev_date e \<le> pr_date (tr_row sale)) (lw_events w)
     @ walk_event sale # dropWhile (\<lambda>e. ev_date e \<le> pr_date (tr_row sale)) (lw_events w)\<rparr>"
  have w': "load_walks preference (with_sale L sale a) listing = Some ?w'"
    by (rule load_walks_with_sale [OF assms])
  have event: "walk_event sale = \<lparr>ev_sell = True, ev_date = pr_date (tr_row sale), ev_qty = au_get (pr_quantity (tr_row sale))\<rparr>"
    using assms(2) by (simp add: walk_event_def)
  have days: "required_days (load_walks preference (with_sale L sale a)) listing = required_days (load_walks preference L) listing"
    by (simp add: required_days_def w' assms(1))
  have evs: "hp_events we (Some (pr_date (tr_row sale), au_get (pr_quantity (tr_row sale)))) (lw_events w)
      = hp_events we None (lw_events ?w')" for we
    unfolding hp_events_recorded by (simp add: event)
  show ?thesis
    unfolding hp_test_def test_with_sale_def w' assms(1) option.case days evs Let_def by simp
qed

lemma franked_years:
  assumes "db_franked_dividends C rates listings income_rows amma_rows = Inr (dividends, attached)"
  shows "\<forall>dv \<in> set dividends. attached (fd_tax_year dv) \<noteq> None \<and> 0 < fd_credits_aud dv
    \<and> (\<exists>i \<in> set (db_assessable_cash_income C listings income_rows). fd_tax_year dv = tax_year_for C (assessment_date i)
         \<and> fd_trust_income dv = in_trust_income i \<and> fd_listing_id dv = in_listing_id i \<and> fd_ex_date dv = ex_or_pay_date i)"
proof -
  let ?good = "\<lambda>(ds, m :: 'a by_year). \<forall>dv \<in> set ds. m (fd_tax_year dv) \<noteq> None \<and> 0 < fd_credits_aud dv
    \<and> (\<exists>i \<in> set (db_assessable_cash_income C listings income_rows). fd_tax_year dv = tax_year_for C (assessment_date i)
         \<and> fd_trust_income dv = in_trust_income i \<and> fd_listing_id dv = in_listing_id i \<and> fd_ex_date dv = ex_or_pay_date i)"
  from assms obtain m where m:
    "try_foldl (franked_step C rates) ([], Map.empty) (db_assessable_cash_income C listings income_rows) = Inr (dividends, m)"
    "try_foldl (amma_step C rates) m amma_rows = Inr attached"
    by (auto simp: db_franked_dividends_def result_simps)
  have "?good (dividends, m)"
  proof (rule try_foldl_invariant [OF m(1)])
    show "?good s'" if "?good s" and i: "i \<in> set (db_assessable_cash_income C listings income_rows)"
      and stp: "franked_step C rates s i = Inr s'" for s i s'
    proof -
      obtain ds n where s: "s = (ds, n)" by (cases s)
      show ?thesis
        using that(1) i stp unfolding s franked_step_def
        by (auto simp: result_simps Let_def add_year_def split: if_splits) (use i in blast)
    qed
  qed simp
  moreover have "m y \<noteq> None \<longrightarrow> attached y \<noteq> None" for y
    by (rule try_foldl_invariant [OF m(2), where I = "\<lambda>n. m y \<noteq> None \<longrightarrow> n y \<noteq> None"])
       (auto simp: amma_step_def result_simps add_year_def)
  ultimately show ?thesis by auto
qed

lemma try_map_Inl: "try_map f xs = Inl e \<Longrightarrow> \<exists>x \<in> set xs. f x = Inl e"
proof (induction xs)
  case (Cons x xs)
  then show ?case by (cases "f x"; cases "try_map f xs") auto
qed simp

lemma map_error_Inl [result_simps]: "map_error f r = Inl e \<longleftrightarrow> (\<exists>d. r = Inl d \<and> e = f d)"
  by (cases r) auto

lemma exempt_year_known: "attached y \<noteq> None \<Longrightarrow> exempt_year D attached y \<noteq> Inl e"
  by (auto simp: exempt_year_def)

text \<open>The two reports cannot fail on a year the attached credits do not list: the only error
  either can answer is a rate missing for a credit's month.
\<close>

theorem at_risk_reports_total:
  "db_franking_at_risk D C preference listings L income_rows amma_rows \<noteq> Inl (MissingYear y)
   \<and> db_franking_what_if D C preference listings L income_rows amma_rows listing sale_date units \<noteq> Inl (MissingYear y)"
proof (cases "db_franked_dividends C (lg_rates L) listings income_rows amma_rows")
  case (Inl e)
  then show ?thesis by (simp add: db_franking_at_risk_def db_franking_what_if_def)
next
  case (Inr r)
  then obtain dividends attached where r: "r = (dividends, attached)" by (cases r)
  note known = franked_years [OF Inr [unfolded r]]
  have "at_risk_of D walks attached dv \<noteq> Inl e" "what_if_of D walks attached sale_date units dv \<noteq> Inl e"
    if "dv \<in> set dividends" for walks dv e
  proof -
    have ex: "\<exists>b. exempt_year D attached (fd_tax_year dv) = Inr b"
      using known that exempt_year_known [of attached "fd_tax_year dv" D]
      by (cases "exempt_year D attached (fd_tax_year dv)") auto
    then show "at_risk_of D walks attached dv \<noteq> Inl e" "what_if_of D walks attached sale_date units dv \<noteq> Inl e"
      by (auto simp: at_risk_of_def what_if_of_def Let_def)
  qed
  then have "try_map (at_risk_of D walks attached) dividends \<noteq> Inl e"
    "try_map (what_if_of D walks attached sale_date units) (filter (\<lambda>d. fd_listing_id d = listing) dividends) \<noteq> Inl e" for walks e
    by (auto dest!: try_map_Inl)
  then show ?thesis
    by (auto simp: db_franking_at_risk_def db_franking_what_if_def Inr r elim!: and_then.elims)
qed

section \<open>Examples\<close>

text \<open>Ten thousand shares held for a year, four thousand more just before the ex date, sold just after.\<close>

definition example_walk :: "rat listing_walk" where
  "example_walk = \<lparr>lw_preference = False,
     lw_events = [\<lparr>ev_sell = False, ev_date = 1000, ev_qty = 10000\<rparr>, \<lparr>ev_sell = False, ev_date = 1390, ev_qty = 4000\<rparr>,
       \<lparr>ev_sell = True, ev_date = 1420, ev_qty = 4000\<rparr>, \<lparr>ev_sell = False, ev_date = 1500, ev_qty = 7\<rparr>],
     lw_splits = []\<rparr>"

lemma example_days: "required_days [1 \<mapsto> example_walk] 1 = 45"
  by (simp add: required_days_def example_walk_def)

lemma example_window:
  "hp_events 1445 None (lw_events example_walk) =
     [\<lparr>ev_sell = False, ev_date = 1000, ev_qty = 10000\<rparr>, \<lparr>ev_sell = False, ev_date = 1390, ev_qty = 4000\<rparr>,
       \<lparr>ev_sell = True, ev_date = 1420, ev_qty = 4000\<rparr>]"
  by (simp add: hp_events_def events_through_def example_walk_def)

lemma example_splits: "splits_ok (lw_splits example_walk)" "lw_splits example_walk = []"
  by (simp_all add: splits_ok_def example_walk_def)


text \<open>A sale of the older shares would be safe: with the second purchase gone, all are long held.\<close>

definition example_held_walk :: "rat listing_walk" where
  "example_held_walk = example_walk\<lparr>lw_events := [\<lparr>ev_sell = False, ev_date = 1000, ev_qty = 10000\<rparr>,
     \<lparr>ev_sell = True, ev_date = 1420, ev_qty = 4000\<rparr>]\<rparr>"

theorem long_held_never_denied_witness:
  "denied ref_dec (test_with_sale ref_dec [1 \<mapsto> example_held_walk] 1 1400 (Some (1430, 500))) 300 = 0"
proof -
  have w: "[1 \<mapsto> example_held_walk] 1 = Some example_held_walk" by simp
  have s: "splits_ok (lw_splits example_held_walk)" by (simp add: splits_ok_def example_held_walk_def example_walk_def)
  have days: "required_days [1 \<mapsto> example_held_walk] 1 = 45"
    by (simp add: required_days_def example_held_walk_def example_walk_def)
  define evs where "evs = hp_events (1400 + required_days [1 \<mapsto> example_held_walk] 1) (Some (1430, 500)) (lw_events example_held_walk)"
  have evs: "evs = [\<lparr>ev_sell = False, ev_date = 1000, ev_qty = 10000\<rparr>, \<lparr>ev_sell = True, ev_date = 1420, ev_qty = 4000\<rparr>,
      \<lparr>ev_sell = True, ev_date = 1430, ev_qty = 500\<rparr>]"
    unfolding evs_def days by (simp add: hp_events_def events_through_def example_held_walk_def)
  have q: "\<forall>e \<in> set evs. 0 < ev_qty e" by (simp add: evs)
  have h: "\<forall>b \<in> set (before_ex 1400 evs). \<forall>s \<in> set (from_ex 1400 evs).
      \<not> ev_sell b \<and> ev_sell s \<longrightarrow> required_days [1 \<mapsto> example_held_walk] 1 < ev_date s - ev_date b"
    by (simp add: evs before_ex_def from_ex_def days)
  from long_held_never_denied [OF ref.decimal_laws_axioms w s evs_def q h] show ?thesis by blast
qed

theorem franking_what_if_is_recorded_witness:
  "test_with_sale ref_dec (load_walks (\<lambda>_. Some False) example_ledger) 7 15 (Some (30, 20))
   = hp_test ref_dec (load_walks (\<lambda>_. Some False) (with_sale example_ledger
        \<lparr>tr_type = Sell, tr_row = example_buy\<lparr>pr_id := 9, pr_date := 30, pr_quantity := au_new 20\<rparr>\<rparr>
        \<lparr>al_id = 7, al_sale_trade_id = 9, al_purchase_trade_id = 1, al_quantity_allocated = 20\<rparr>)) 7 15"
proof -
  let ?sale = "\<lparr>tr_type = Sell, tr_row = example_buy\<lparr>pr_id := 9, pr_date := 30, pr_quantity := au_new 20\<rparr>\<rparr>"
  obtain w where w: "load_walks (\<lambda>_. Some False) example_ledger 7 = Some w" by (simp add: load_walks_def)
  have facts: "tr_type ?sale = Sell" "pr_listing_id (tr_row ?sale) = 7" "no_provenance (tr_row ?sale)"
    "\<forall>t \<in> set (lg_trades example_ledger). pr_id (tr_row t) < pr_id (tr_row ?sale)"
    by (simp_all add: example_ledger_def example_buy_def no_provenance_def)
  from franking_what_if_is_recorded [OF w facts] show ?thesis by (simp add: units_simps)
qed

end
