(* ===== verification/DeductionDestination.thy ===== *)
theory DeductionDestination
  imports Income
begin

text \<open>
  \<open>src/src/domain/deduction_destination.rs\<close>: the return item an investment expense is deducted
  at, from the facts of the listing it is attributed to.
\<close>

datatype deduction_destination = TrustDistributions | ForeignIncome | ForeignDebt | DividendAndInterest

definition ato_label :: "deduction_destination \<Rightarrow> string" where
  "ato_label d = (case d of TrustDistributions \<Rightarrow> ''13Y'' | ForeignIncome \<Rightarrow> ''20M'' | ForeignDebt \<Rightarrow> ''D15''
     | DividendAndInterest \<Rightarrow> ''D7 / D8'')"

record listing_facts =
  lf_amit :: bool
  lf_amit_from :: "date option"
  lf_non_aud :: bool
  lf_trust_income :: bool
  lf_foreign_income :: bool
  lf_any_income :: bool

type_synonym deduction_routing = "listing_id \<rightharpoonup> listing_facts"

record listing_row =
  li_amit :: bool
  li_amit_from :: "date option"
  li_currency :: currency_code

definition listing_start :: "listing_row \<Rightarrow> listing_facts" where
  "listing_start l = \<lparr>lf_amit = li_amit l, lf_amit_from = li_amit_from l, lf_non_aud = (\<not> is_aud (li_currency l)),
     lf_trust_income = False, lf_foreign_income = False, lf_any_income = False\<rparr>"

definition routing_step :: "deduction_routing \<Rightarrow> 'd::{zero,ord} income \<Rightarrow> deduction_routing" where
  "routing_step routing i =
     (case routing (in_listing_id i) of
        None \<Rightarrow> routing
      | Some facts \<Rightarrow> routing(in_listing_id i \<mapsto>
          facts\<lparr>lf_any_income := True,
                lf_trust_income := lf_trust_income facts \<or> in_trust_income i,
                lf_foreign_income := lf_foreign_income facts \<or> 0 < in_foreign_source_income i\<rparr>))"

definition load_routing :: "(listing_id \<rightharpoonup> listing_row) \<Rightarrow> 'd::{zero,ord} income list \<Rightarrow> deduction_routing" where
  "load_routing listings income_rows =
     foldl routing_step (\<lambda>l. map_option listing_start (listings l)) income_rows"

definition destination ::
    "chrono_api \<Rightarrow> deduction_routing \<Rightarrow> listing_id option \<Rightarrow> bool \<Rightarrow> int \<Rightarrow> deduction_destination" where
  "destination C routing listing debt_deduction tax_year =
     (case Option.bind listing routing of
        None \<Rightarrow> DividendAndInterest
      | Some facts \<Rightarrow>
          (let amit_year = amit_in_tax_year C (lf_amit facts) (lf_amit_from facts) tax_year;
               ordinary_trust_year = (lf_amit facts \<and> \<not> amit_year)
           in if amit_year \<or> ordinary_trust_year \<or> lf_trust_income facts then TrustDistributions
              else if lf_foreign_income facts \<or> \<not> lf_any_income facts \<and> lf_non_aud facts
              then (if debt_deduction then ForeignDebt else ForeignIncome)
              else DividendAndInterest))"

lemma load_routing_facts:
  "load_routing listings rows l = map_option (\<lambda>r. \<lparr>lf_amit = li_amit r, lf_amit_from = li_amit_from r,
      lf_non_aud = (\<not> is_aud (li_currency r)),
      lf_trust_income = (\<exists>i \<in> set rows. in_listing_id i = l \<and> in_trust_income i),
      lf_foreign_income = (\<exists>i \<in> set rows. in_listing_id i = l \<and> 0 < in_foreign_source_income i),
      lf_any_income = (\<exists>i \<in> set rows. in_listing_id i = l)\<rparr>) (listings l)"
proof (induction rows rule: rev_induct)
  case Nil
  show ?case by (cases "listings l") (simp_all add: load_routing_def listing_start_def)
next
  case (snoc i rows)
  have step: "load_routing listings (rows @ [i]) = routing_step (load_routing listings rows) i"
    by (simp add: load_routing_def)
  show ?case
  proof (cases "in_listing_id i = l")
    case True
    then show ?thesis unfolding step using snoc.IH by (cases "listings l") (auto simp: routing_step_def)
  next
    case False
    then show ?thesis unfolding step using snoc.IH
      by (cases "load_routing listings rows (in_listing_id i)") (auto simp: routing_step_def)
  qed
qed

text \<open>
  The rule the routing implements: an AMIT listing, or one that has paid trust income, deducts
  against trust distributions in any year; else foreign income decides, or the listing's currency
  where it has paid nothing; an unattributed expense goes with dividends and interest.
\<close>

lemma destination_rule:
  "destination C (load_routing listings rows) listing debt y =
     (case Option.bind listing listings of
        None \<Rightarrow> DividendAndInterest
      | Some r \<Rightarrow>
          (let mine = filter (\<lambda>i. Some (in_listing_id i) = listing) rows
           in if li_amit r \<or> list_ex in_trust_income mine then TrustDistributions
              else if list_ex (\<lambda>i. 0 < in_foreign_source_income i) mine \<or> mine = [] \<and> \<not> is_aud (li_currency r)
              then (if debt then ForeignDebt else ForeignIncome)
              else DividendAndInterest))"
proof (cases listing)
  case (Some l)
  note l = this
  show ?thesis
  proof (cases "listings l")
    case None
    then show ?thesis by (simp add: destination_def load_routing_facts l)
  next
    case (Some r)
    define mine where "mine = filter (\<lambda>i. Some (in_listing_id i) = listing) rows"
    have m1: "list_ex P mine \<longleftrightarrow> (\<exists>i \<in> set rows. in_listing_id i = l \<and> P i)" for P
      by (auto simp: mine_def list_ex_iff l)
    have m2: "mine = [] \<longleftrightarrow> \<not> (\<exists>i \<in> set rows. in_listing_id i = l)"
      by (auto simp: mine_def filter_empty_conv l)
    show ?thesis
      unfolding mine_def [symmetric] Let_def m1 m2
      by (simp add: destination_def load_routing_facts Let_def l Some amit_in_tax_year_def) blast
  qed
qed (simp add: destination_def)

end
