(* ===== verification/TaxSummary.thy ===== *)
theory TaxSummary
  imports Franking DeductionDestination
begin

text \<open>
  \<open>src/src/reports/tax_summary.rs\<close>: the per-financial-year tax summary. Income, interest, AMMA
  statements, employee-share discounts and expenses are added into a summary per year, franking
  credits that fail the holding-period rule are taken back, the foreign tax offset is capped, and
  the assessable total is struck at the cent. The hash map of years is an association list.
\<close>

section \<open>The year's summary\<close>

record 'd tax_year_summary =
  ts_tax_year :: int
  ts_dividends_assessable :: 'd
  ts_interest_income :: 'd
  ts_foreign_interest_income :: 'd
  ts_foreign_source_income :: 'd
  ts_lic_capital_gain_deduction :: 'd
  ts_trust_income_unfranked :: 'd
  ts_trust_franked_distributions :: 'd
  ts_amma_australian_interest :: 'd
  ts_amma_dividends_unfranked :: 'd
  ts_amma_franked_dividends :: 'd
  ts_amma_net_rent :: 'd
  ts_amma_foreign_income :: 'd
  ts_amma_other_income :: 'd
  ts_amma_cgt_discount_gains :: 'd
  ts_amma_cgt_indexation_gains :: 'd
  ts_amma_cgt_other_gains :: 'd
  ts_amma_capital_losses_applied :: 'd
  ts_franking_credits :: 'd
  ts_dividend_franking_credits :: 'd
  ts_franking_credits_denied :: 'd
  ts_foreign_tax_offsets :: 'd
  ts_foreign_tax_offset_excess :: 'd
  ts_foreign_tax_offsets_cgt_discount_reduction :: 'd
  ts_tfn_withholding_tax :: 'd
  ts_ess_discount_assessable :: 'd
  ts_ess_taxed_upfront_reduction :: 'd
  ts_ess_foreign_source_discount :: 'd
  ts_employment_income :: 'd
  ts_other_income :: 'd
  ts_gross_assessable_investment_income :: 'd
  ts_deductions_loan_interest :: 'd
  ts_deductions_management_fee :: 'd
  ts_deductions_advice_fee :: 'd
  ts_deductions_account_keeping_fee :: 'd
  ts_deductions_subscription :: 'd
  ts_deductions_other :: 'd
  ts_deductions_trust_distributions :: 'd
  ts_deductions_foreign_income :: 'd
  ts_deductions_foreign_debt :: 'd
  ts_deductions_dividend_and_interest :: 'd
  ts_deductions_total :: 'd
  ts_net_assessable_investment_income :: 'd
  ts_taxpayer_basis :: string

definition taxpayer_basis :: string where
  "taxpayer_basis = ''individual resident: 50% CGT discount; 50% LIC deduction''"

definition zero_summary :: "int \<Rightarrow> 'd::zero tax_year_summary" where
  "zero_summary tax_year = \<lparr>ts_tax_year = tax_year,
     ts_dividends_assessable = 0, ts_interest_income = 0, ts_foreign_interest_income = 0,
     ts_foreign_source_income = 0, ts_lic_capital_gain_deduction = 0, ts_trust_income_unfranked = 0,
     ts_trust_franked_distributions = 0, ts_amma_australian_interest = 0,
     ts_amma_dividends_unfranked = 0, ts_amma_franked_dividends = 0, ts_amma_net_rent = 0,
     ts_amma_foreign_income = 0, ts_amma_other_income = 0, ts_amma_cgt_discount_gains = 0,
     ts_amma_cgt_indexation_gains = 0, ts_amma_cgt_other_gains = 0,
     ts_amma_capital_losses_applied = 0, ts_franking_credits = 0, ts_dividend_franking_credits = 0,
     ts_franking_credits_denied = 0, ts_foreign_tax_offsets = 0, ts_foreign_tax_offset_excess = 0,
     ts_foreign_tax_offsets_cgt_discount_reduction = 0, ts_tfn_withholding_tax = 0,
     ts_ess_discount_assessable = 0, ts_ess_taxed_upfront_reduction = 0,
     ts_ess_foreign_source_discount = 0, ts_employment_income = 0, ts_other_income = 0,
     ts_gross_assessable_investment_income = 0, ts_deductions_loan_interest = 0,
     ts_deductions_management_fee = 0, ts_deductions_advice_fee = 0,
     ts_deductions_account_keeping_fee = 0, ts_deductions_subscription = 0, ts_deductions_other = 0,
     ts_deductions_trust_distributions = 0, ts_deductions_foreign_income = 0,
     ts_deductions_foreign_debt = 0, ts_deductions_dividend_and_interest = 0,
     ts_deductions_total = 0, ts_net_assessable_investment_income = 0,
     ts_taxpayer_basis = taxpayer_basis\<rparr>"

type_synonym 'd summaries = "(int \<times> 'd tax_year_summary) list"

definition year_entry :: "'d::zero summaries \<Rightarrow> int \<Rightarrow> 'd tax_year_summary" where
  "year_entry m y = (case map_of m y of None \<Rightarrow> zero_summary y | Some s \<Rightarrow> s)"

definition into_year :: "('d tax_year_summary \<Rightarrow> 'd tax_year_summary) \<Rightarrow> int \<Rightarrow> 'd::zero summaries \<Rightarrow> 'd summaries" where
  "into_year f y m = AList.update y (f (year_entry m y)) m"

text \<open>A missing entry where the source unwraps one is an error value.\<close>

datatype summary_error =
    SummaryFx fx_error
  | UnknownExpenseType string
  | MissingSummaryYear int

definition ess_reduction_cap_aud :: "'d decimal_api \<Rightarrow> 'd" where
  "ess_reduction_cap_aud D = dnew D 1000 0"

definition fito_de_minimis_aud :: "'d decimal_api \<Rightarrow> 'd" where
  "fito_de_minimis_aud D = dnew D 1000 0"

text \<open>The claimable part of the foreign tax on a fund's capital gains, and what the discount takes off it.\<close>

definition apportion_capital_gains_foreign_tax ::
    "'d::{zero,one,plus,minus,times,inverse} decimal_api \<Rightarrow> 'd \<Rightarrow> 'd \<Rightarrow> 'd \<Rightarrow> 'd \<Rightarrow> 'd \<times> 'd" where
  "apportion_capital_gains_foreign_tax D foreign_tax discount_gains indexation_gains other_gains =
     (let assessable = discount_gains + indexation_gains + other_gains;
          grossed_up = discount_gains * dnew D 2 0 + indexation_gains + other_gains
      in if foreign_tax = 0 \<or> grossed_up = 0 then (foreign_tax, 0)
         else (let claimable = mul_div D [foreign_tax, assessable] grossed_up
               in (claimable, foreign_tax - claimable)))"

definition aud_field_with ::
    "chrono_api \<Rightarrow> 'd::{one,inverse} fx_rates \<Rightarrow> 'd \<Rightarrow> currency_code \<Rightarrow> date \<Rightarrow> 'd fx_override \<Rightarrow> summary_error + 'd" where
  "aud_field_with C rates v currency d manual = map_error SummaryFx (fx_to_aud C rates v currency d manual)"

definition aud_value :: "chrono_api \<Rightarrow> 'd::{one,inverse} fx_rates \<Rightarrow> 'd \<Rightarrow> currency_code \<Rightarrow> date \<Rightarrow> summary_error + 'd" where
  "aud_value C rates v currency d = aud_field_with C rates v currency d FxNone"

text \<open>A label the employer stated in Australian dollars is taken as stated.\<close>

definition aud_label ::
    "chrono_api \<Rightarrow> 'd::{one,inverse} fx_rates \<Rightarrow> 'd option \<Rightarrow> 'd \<Rightarrow> currency_code \<Rightarrow> date \<Rightarrow> 'd fx_override \<Rightarrow>
     summary_error + 'd" where
  "aud_label C rates stated v currency d manual =
     (case stated of Some s \<Rightarrow> Inr s | None \<Rightarrow> aud_field_with C rates v currency d manual)"

section \<open>Accumulation\<close>

definition income_line ::
    "'d::plus income \<Rightarrow> 'd \<Rightarrow> 'd \<Rightarrow> 'd \<Rightarrow> 'd \<Rightarrow> 'd \<Rightarrow> 'd \<Rightarrow> 'd \<Rightarrow> 'd tax_year_summary \<Rightarrow> 'd tax_year_summary" where
  "income_line i franked unfranked foreign_income foreign_tax tfn_wht fc lic s =
     (case in_income_type i of
        EmploymentIncome \<Rightarrow> s\<lparr>ts_employment_income := ts_employment_income s + unfranked\<rparr>
      | OtherIncome \<Rightarrow> s\<lparr>ts_other_income := ts_other_income s + unfranked\<rparr>
      | Dividend \<Rightarrow>
          (let s1 = (if in_trust_income i
                     then s\<lparr>ts_trust_income_unfranked := ts_trust_income_unfranked s + unfranked,
                            ts_trust_franked_distributions := ts_trust_franked_distributions s + franked\<rparr>
                     else s\<lparr>ts_dividends_assessable := ts_dividends_assessable s + (franked + unfranked),
                            ts_dividend_franking_credits := ts_dividend_franking_credits s + fc\<rparr>)
           in s1\<lparr>ts_foreign_source_income := ts_foreign_source_income s1 + foreign_income,
                 ts_lic_capital_gain_deduction := ts_lic_capital_gain_deduction s1 + lic,
                 ts_franking_credits := ts_franking_credits s1 + fc,
                 ts_foreign_tax_offsets := ts_foreign_tax_offsets s1 + foreign_tax,
                 ts_tfn_withholding_tax := ts_tfn_withholding_tax s1 + tfn_wht\<rparr>))"

definition accumulate_income ::
    "'d::{zero,one,plus,inverse} decimal_api \<Rightarrow> chrono_api \<Rightarrow> 'd fx_rates \<Rightarrow> 'd summaries \<Rightarrow> 'd income \<Rightarrow>
     summary_error + 'd summaries" where
  "accumulate_income D C rates m i =
     (let assessed = assessment_date i; tax_year = tax_year_for C assessed;
          aud = (\<lambda>amount. aud_value C rates amount (in_currency i) assessed)
      in and_then (aud (in_franked_amount i)) (\<lambda>franked.
         and_then (aud (in_unfranked_amount i)) (\<lambda>unfranked.
         and_then (aud (in_foreign_source_income i)) (\<lambda>foreign_income.
         and_then (aud (in_foreign_tax_paid i)) (\<lambda>foreign_tax.
         and_then (aud (in_tfn_withholding_tax i)) (\<lambda>tfn_wht.
         and_then (aud (in_franking_credits i)) (\<lambda>fc.
         and_then (aud (lic_capital_gain_deduction D i)) (\<lambda>lic.
         Inr (into_year (income_line i franked unfranked foreign_income foreign_tax tfn_wht fc lic) tax_year m)))))))))"

record 'd interest_row =
  ir_date_paid :: date
  ir_amount :: 'd
  ir_tfn_withholding_tax :: 'd
  ir_foreign_source :: bool
  ir_foreign_tax_paid :: 'd
  ir_currency :: currency_code

definition accumulate_interest ::
    "chrono_api \<Rightarrow> 'd::{zero,one,plus,inverse} fx_rates \<Rightarrow> 'd summaries \<Rightarrow> 'd interest_row \<Rightarrow> summary_error + 'd summaries" where
  "accumulate_interest C rates m r =
     (let aud = (\<lambda>amount. aud_value C rates amount (ir_currency r) (ir_date_paid r))
      in and_then (aud (ir_amount r)) (\<lambda>amount.
         and_then (aud (ir_tfn_withholding_tax r)) (\<lambda>tfn_wht.
         and_then (aud (ir_foreign_tax_paid r)) (\<lambda>foreign_tax.
         Inr (into_year (\<lambda>s.
           let s1 = (if ir_foreign_source r
                     then s\<lparr>ts_foreign_interest_income := ts_foreign_interest_income s + amount,
                            ts_foreign_tax_offsets := ts_foreign_tax_offsets s + foreign_tax\<rparr>
                     else s\<lparr>ts_interest_income := ts_interest_income s + amount\<rparr>)
           in s1\<lparr>ts_tfn_withholding_tax := ts_tfn_withholding_tax s1 + tfn_wht\<rparr>)
           (tax_year_for C (ir_date_paid r)) m)))))"

definition accumulate_amma ::
    "'d::{zero,one,plus,minus,times,inverse} decimal_api \<Rightarrow> chrono_api \<Rightarrow> 'd fx_rates \<Rightarrow> 'd summaries \<Rightarrow> 'd amma_row \<Rightarrow>
     summary_error + 'd summaries" where
  "accumulate_amma D C rates m r =
     (let aud = (\<lambda>amount. aud_value C rates amount (ag_currency r) (ag_tax_year_end_date r))
      in and_then (aud (ar_australian_interest r)) (\<lambda>interest.
         and_then (aud (ar_australian_dividends_unfranked r)) (\<lambda>div_unfranked.
         and_then (aud (ar_franked_dividends r)) (\<lambda>franked_div.
         and_then (aud (ar_franking_credits r)) (\<lambda>fc.
         and_then (aud (ar_net_rent r)) (\<lambda>rent.
         and_then (aud (ar_foreign_income r)) (\<lambda>foreign_inc.
         and_then (aud (ar_foreign_tax_credits r)) (\<lambda>foreign_tax.
         and_then (aud (ar_foreign_tax_credits_capital_gains r)) (\<lambda>foreign_tax_cg.
         and_then (aud (ar_other_income r)) (\<lambda>oth.
         and_then (aud (ag_cgt_discount_gains r)) (\<lambda>cgt_disc.
         and_then (aud (ag_cgt_indexation_gains r)) (\<lambda>cgt_idx.
         and_then (aud (ag_cgt_other_gains r)) (\<lambda>cgt_other.
         and_then (aud (ar_capital_losses_applied r)) (\<lambda>cap_losses.
         and_then (aud (ar_tfn_withholding_tax r)) (\<lambda>tfn_wht.
         (let (claimable, reduced) = apportion_capital_gains_foreign_tax D foreign_tax_cg cgt_disc cgt_idx cgt_other
          in Inr (into_year (\<lambda>s. s\<lparr>
               ts_amma_australian_interest := ts_amma_australian_interest s + interest,
               ts_amma_dividends_unfranked := ts_amma_dividends_unfranked s + div_unfranked,
               ts_amma_franked_dividends := ts_amma_franked_dividends s + franked_div,
               ts_amma_net_rent := ts_amma_net_rent s + rent,
               ts_amma_foreign_income := ts_amma_foreign_income s + foreign_inc,
               ts_amma_other_income := ts_amma_other_income s + oth,
               ts_amma_cgt_discount_gains := ts_amma_cgt_discount_gains s + cgt_disc,
               ts_amma_cgt_indexation_gains := ts_amma_cgt_indexation_gains s + cgt_idx,
               ts_amma_cgt_other_gains := ts_amma_cgt_other_gains s + cgt_other,
               ts_amma_capital_losses_applied := ts_amma_capital_losses_applied s + cap_losses,
               ts_franking_credits := ts_franking_credits s + fc,
               ts_foreign_tax_offsets := ts_foreign_tax_offsets s + foreign_tax + claimable,
               ts_foreign_tax_offsets_cgt_discount_reduction := ts_foreign_tax_offsets_cgt_discount_reduction s + reduced,
               ts_tfn_withholding_tax := ts_tfn_withholding_tax s + tfn_wht\<rparr>)
             (tax_year_for C (ag_tax_year_end_date r)) m)))))))))))))))))"

record 'd ess_row =
  er_taxing_point_date :: date
  er_currency :: currency_code
  er_fx_rate :: "'d option"
  er_taxed_upfront_eligible :: "'d option \<times> 'd"
  er_taxed_upfront_not_eligible :: "'d option \<times> 'd"
  er_deferral_discount :: "'d option \<times> 'd"
  er_pre_2009_cessation_discount :: "'d option \<times> 'd"
  er_foreign_source_discount :: "'d option \<times> 'd"
  er_tfn_withholding :: 'd

definition ess_fx_override :: "'d ess_row \<Rightarrow> 'd fx_override" where
  "ess_fx_override r = (case er_fx_rate r of Some rate \<Rightarrow> FxFallback rate | None \<Rightarrow> FxNone)"

text \<open>The statements' totals and, beside them, the eligible discounts by year.\<close>

definition ess_step ::
    "chrono_api \<Rightarrow> 'd::{zero,one,plus,inverse} fx_rates \<Rightarrow> 'd summaries \<times> (int \<times> 'd) list \<Rightarrow> 'd ess_row \<Rightarrow>
     summary_error + 'd summaries \<times> (int \<times> 'd) list" where
  "ess_step C rates = (\<lambda>(m, by_year) r.
     let d = er_taxing_point_date r; y = tax_year_for C d; over = ess_fx_override r;
         label = (\<lambda>(stated, v). aud_label C rates stated v (er_currency r) d over)
     in and_then (label (er_taxed_upfront_eligible r)) (\<lambda>eligible.
        and_then (label (er_taxed_upfront_not_eligible r)) (\<lambda>not_eligible.
        and_then (label (er_deferral_discount r)) (\<lambda>deferral.
        and_then (label (er_pre_2009_cessation_discount r)) (\<lambda>pre_2009.
        and_then (label (er_foreign_source_discount r)) (\<lambda>foreign.
        and_then (aud_field_with C rates (er_tfn_withholding r) (er_currency r) d over) (\<lambda>tfn.
        Inr (into_year (\<lambda>s. s\<lparr>
               ts_ess_discount_assessable := ts_ess_discount_assessable s + (eligible + not_eligible + deferral + pre_2009),
               ts_ess_foreign_source_discount := ts_ess_foreign_source_discount s + foreign,
               ts_tfn_withholding_tax := ts_tfn_withholding_tax s + tfn\<rparr>) y m,
             AList.update y ((case map_of by_year y of None \<Rightarrow> 0 | Some a \<Rightarrow> a) + eligible) by_year))))))))"

definition ess_reduction ::
    "'d::{zero,minus,linorder} decimal_api \<Rightarrow> int set \<Rightarrow> 'd summaries \<Rightarrow> int \<times> 'd \<Rightarrow> summary_error + 'd summaries" where
  "ess_reduction D ineligible_years m = (\<lambda>(y, eligible_total).
     if y \<in> ineligible_years then Inr m
     else (let reduction = min eligible_total (ess_reduction_cap_aud D)
           in if 0 < reduction then
                (case map_of m y of
                   None \<Rightarrow> Inl (MissingSummaryYear y)
                 | Some s \<Rightarrow> Inr (AList.update y (s\<lparr>ts_ess_taxed_upfront_reduction := reduction,
                     ts_ess_discount_assessable := ts_ess_discount_assessable s - reduction\<rparr>) m))
              else Inr m))"

definition accumulate_ess ::
    "'d::{zero,one,plus,minus,inverse,linorder} decimal_api \<Rightarrow> chrono_api \<Rightarrow> 'd fx_rates \<Rightarrow> int set \<Rightarrow> 'd ess_row list \<Rightarrow>
     'd summaries \<Rightarrow> summary_error + 'd summaries" where
  "accumulate_ess D C rates ineligible_years rows m =
     and_then (try_foldl (ess_step C rates) (m, []) rows) (\<lambda>(m', by_year).
       try_foldl (ess_reduction D ineligible_years) m' by_year)"

datatype expense_type = LoanInterest | ManagementFee | AdviceFee | AccountKeepingFee | Subscription | OtherExpense

definition is_debt_deduction :: "expense_type \<Rightarrow> bool" where
  "is_debt_deduction k \<longleftrightarrow> k = LoanInterest"

definition expense_type_of :: "string \<Rightarrow> summary_error + expense_type" where
  "expense_type_of t =
     (if t = ''LoanInterest'' then Inr LoanInterest
      else if t = ''ManagementFee'' then Inr ManagementFee
      else if t = ''AdviceFee'' then Inr AdviceFee
      else if t = ''AccountKeepingFee'' then Inr AccountKeepingFee
      else if t = ''Subscription'' then Inr Subscription
      else if t = ''Other'' then Inr OtherExpense
      else Inl (UnknownExpenseType t))"

record 'd expense_row =
  ex_date_incurred :: date
  ex_expense_type :: string
  ex_amount :: 'd
  ex_currency :: currency_code
  ex_listing_id :: "listing_id option"

definition kind_line :: "expense_type \<Rightarrow> 'd::plus \<Rightarrow> 'd tax_year_summary \<Rightarrow> 'd tax_year_summary" where
  "kind_line k amount s =
     (case k of
        LoanInterest \<Rightarrow> s\<lparr>ts_deductions_loan_interest := ts_deductions_loan_interest s + amount\<rparr>
      | ManagementFee \<Rightarrow> s\<lparr>ts_deductions_management_fee := ts_deductions_management_fee s + amount\<rparr>
      | AdviceFee \<Rightarrow> s\<lparr>ts_deductions_advice_fee := ts_deductions_advice_fee s + amount\<rparr>
      | AccountKeepingFee \<Rightarrow> s\<lparr>ts_deductions_account_keeping_fee := ts_deductions_account_keeping_fee s + amount\<rparr>
      | Subscription \<Rightarrow> s\<lparr>ts_deductions_subscription := ts_deductions_subscription s + amount\<rparr>
      | OtherExpense \<Rightarrow> s\<lparr>ts_deductions_other := ts_deductions_other s + amount\<rparr>)"

definition destination_line :: "deduction_destination \<Rightarrow> 'd::plus \<Rightarrow> 'd tax_year_summary \<Rightarrow> 'd tax_year_summary" where
  "destination_line to amount s =
     (case to of
        TrustDistributions \<Rightarrow> s\<lparr>ts_deductions_trust_distributions := ts_deductions_trust_distributions s + amount\<rparr>
      | ForeignIncome \<Rightarrow> s\<lparr>ts_deductions_foreign_income := ts_deductions_foreign_income s + amount\<rparr>
      | ForeignDebt \<Rightarrow> s\<lparr>ts_deductions_foreign_debt := ts_deductions_foreign_debt s + amount\<rparr>
      | DividendAndInterest \<Rightarrow>
          s\<lparr>ts_deductions_dividend_and_interest := ts_deductions_dividend_and_interest s + amount\<rparr>)"

definition accumulate_expense ::
    "'d::{zero,one,plus,inverse} decimal_api \<Rightarrow> chrono_api \<Rightarrow> 'd fx_rates \<Rightarrow> deduction_routing \<Rightarrow> 'd summaries \<Rightarrow>
     'd expense_row \<Rightarrow> summary_error + 'd summaries" where
  "accumulate_expense D C rates routing m r =
     (let y = tax_year_for C (ex_date_incurred r) in
      and_then (aud_value C rates (ex_amount r) (ex_currency r) (ex_date_incurred r)) (\<lambda>exact.
      let amount = to_cents D exact in
      and_then (expense_type_of (ex_expense_type r)) (\<lambda>kind.
      let to = destination C routing (ex_listing_id r) (is_debt_deduction kind) y in
      Inr (into_year (\<lambda>s.
        let s1 = destination_line to amount (kind_line kind amount s)
        in s1\<lparr>ts_deductions_total := ts_deductions_total s1 + amount\<rparr>) y m))))"

section \<open>Adjustments and totals\<close>

definition refuse_credits :: "bool \<Rightarrow> 'd::{plus,minus} \<Rightarrow> 'd tax_year_summary \<Rightarrow> 'd tax_year_summary" where
  "refuse_credits trust_income refused s =
     (let s1 = s\<lparr>ts_franking_credits := ts_franking_credits s - refused,
                 ts_franking_credits_denied := ts_franking_credits_denied s + refused\<rparr>
      in if \<not> trust_income
         then s1\<lparr>ts_dividend_franking_credits := ts_dividend_franking_credits s1 - refused\<rparr> else s1)"

definition deny_credits ::
    "'d::linordered_field decimal_api \<Rightarrow> 'd by_year \<Rightarrow> 'd holding_walks \<Rightarrow> 'd summaries \<Rightarrow> 'd franked_dividend \<Rightarrow>
     summary_error + 'd summaries" where
  "deny_credits D attached_by_year walks m dv =
     and_then (ok_or (MissingSummaryYear (fd_tax_year dv)) (attached_by_year (fd_tax_year dv))) (\<lambda>attached.
       if attached < small_shareholder_threshold_aud D then Inr m
       else (let test = hp_test D walks (fd_listing_id dv) (fd_ex_date dv);
                 refused = denied D test (fd_credits_aud dv)
             in if 0 < refused then
                  (case map_of m (fd_tax_year dv) of
                     None \<Rightarrow> Inl (MissingSummaryYear (fd_tax_year dv))
                   | Some s \<Rightarrow> Inr (AList.update (fd_tax_year dv) (refuse_credits (fd_trust_income dv) refused s) m))
                else Inr m))"

definition apply_franking_denials ::
    "'d::linordered_field decimal_api \<Rightarrow> 'd by_year \<Rightarrow> 'd holding_walks \<Rightarrow> 'd franked_dividend list \<Rightarrow> 'd summaries \<Rightarrow>
     summary_error + 'd summaries" where
  "apply_franking_denials D attached_by_year walks dividends m =
     try_foldl (deny_credits D attached_by_year walks) m dividends"

definition cap_foreign_offset :: "'d::{minus,ord} decimal_api \<Rightarrow> 'd tax_year_summary \<Rightarrow> 'd tax_year_summary" where
  "cap_foreign_offset D s =
     (let limit = fito_de_minimis_aud D
      in if limit < ts_foreign_tax_offsets s
         then s\<lparr>ts_foreign_tax_offset_excess := ts_foreign_tax_offsets s - limit, ts_foreign_tax_offsets := limit\<rparr>
         else s)"

definition assessable_lines :: "'d tax_year_summary \<Rightarrow> 'd list" where
  "assessable_lines s =
     [ts_dividends_assessable s, ts_interest_income s, ts_foreign_interest_income s, ts_foreign_source_income s,
      ts_trust_income_unfranked s, ts_trust_franked_distributions s, ts_amma_australian_interest s,
      ts_amma_dividends_unfranked s, ts_amma_franked_dividends s, ts_amma_net_rent s, ts_amma_foreign_income s,
      ts_amma_other_income s, ts_other_income s, ts_dividend_franking_credits s]"

definition total_line :: "'d::{zero,plus,minus} decimal_api \<Rightarrow> 'd tax_year_summary \<Rightarrow> 'd tax_year_summary" where
  "total_line D s =
     (let lines = assessable_lines s;
          gross = foldl (\<lambda>acc line. acc + to_cents D line) (to_cents D (hd lines)) (tl lines)
      in s\<lparr>ts_gross_assessable_investment_income := gross,
           ts_net_assessable_investment_income := gross - ts_deductions_total s\<rparr>)"

text \<open>What the summary reads.\<close>

record 'd summary_ledger =
  sl_ledger :: "'d ledger"
  sl_preference :: "listing_id \<rightharpoonup> bool"
  sl_listings :: "listing_id \<rightharpoonup> listing_row"
  sl_income :: "'d income list"
  sl_interest :: "'d interest_row list"
  sl_amma :: "'d amma_row list"
  sl_ess :: "'d ess_row list"
  sl_ess_ineligible_years :: "int set"
  sl_expenses :: "'d expense_row list"

definition amit_of :: "'d summary_ledger \<Rightarrow> amit_listings" where
  "amit_of S l = map_option (\<lambda>r. (li_amit r, li_amit_from r)) (sl_listings S l)"

definition db_tax_summary ::
    "'d::linordered_field decimal_api \<Rightarrow> chrono_api \<Rightarrow> 'd summary_ledger \<Rightarrow> summary_error + 'd tax_year_summary list" where
  "db_tax_summary D C S =
     (let rates = lg_rates (sl_ledger S);
          income_rows = db_assessable_cash_income C (amit_of S) (sl_income S)
      in and_then (map_error SummaryFx (db_franked_dividends C rates (amit_of S) (sl_income S) (sl_amma S)))
           (\<lambda>(dividends, attached).
         and_then (try_foldl (accumulate_income D C rates) [] income_rows) (\<lambda>m1.
         and_then (try_foldl (accumulate_interest C rates) m1 (sl_interest S)) (\<lambda>m2.
         and_then (try_foldl (accumulate_amma D C rates) m2 (sl_amma S)) (\<lambda>m3.
         and_then (accumulate_ess D C rates (sl_ess_ineligible_years S) (sl_ess S) m3) (\<lambda>m4.
         and_then (try_foldl (accumulate_expense D C rates (load_routing (sl_listings S) (sl_income S))) m4 (sl_expenses S))
           (\<lambda>m5.
         and_then (apply_franking_denials D attached (load_walks (sl_preference S) (sl_ledger S)) dividends m5) (\<lambda>m6.
         Inr (sort_key ts_tax_year (map (\<lambda>(y, s). total_line D (cap_foreign_offset D s)) m6))))))))))"

section \<open>Entries\<close>

lemma try_foldl_sum:
  assumes "try_foldl f s xs = Inr t"
    and "\<And>s x s'. x \<in> set xs \<Longrightarrow> f s x = Inr s' \<Longrightarrow> g s' = g s + (h x :: 'd::comm_monoid_add)"
  shows "g t = g s + sum_list (map h xs)"
  using assms
proof (induction xs arbitrary: s)
  case (Cons x xs)
  from Cons.prems(1) obtain s' where s': "f s x = Inr s'" "try_foldl f s' xs = Inr t"
    by (auto simp: result_simps)
  have "g t = g s' + sum_list (map h xs)" by (rule Cons.IH [OF s'(2)]) (use Cons.prems(2) in auto)
  then show ?case using Cons.prems(2) [OF _ s'(1)] by (simp add: add.assoc)
qed simp

lemma year_entry_update: "year_entry (AList.update y s m) z = (if z = y then s else year_entry m z)"
  by (simp add: year_entry_def update_conv')

lemma year_entry_into [simp]: "year_entry (into_year f y m) z = (if z = y then f (year_entry m y) else year_entry m z)"
  by (simp add: into_year_def year_entry_update)

lemma into_year_keys [simp]: "fst ` set (into_year f y m) = insert y (fst ` set m)"
  by (simp add: into_year_def dom_update)

definition kinds_total :: "'d::plus tax_year_summary \<Rightarrow> 'd" where
  "kinds_total s = ts_deductions_loan_interest s + ts_deductions_management_fee s + ts_deductions_advice_fee s
     + ts_deductions_account_keeping_fee s + ts_deductions_subscription s + ts_deductions_other s"

definition destinations_total :: "'d::plus tax_year_summary \<Rightarrow> 'd" where
  "destinations_total s = ts_deductions_trust_distributions s + ts_deductions_foreign_income s
     + ts_deductions_foreign_debt s + ts_deductions_dividend_and_interest s"

text \<open>What every entry keeps: its year, and deductions that add up along both cuts, in whole cents.\<close>

definition totals_ok :: "int \<Rightarrow> 'd::linordered_field tax_year_summary \<Rightarrow> bool" where
  "totals_ok y s \<longleftrightarrow> ts_tax_year s = y \<and> kinds_total s = ts_deductions_total s
     \<and> destinations_total s = ts_deductions_total s \<and> on_grid 2 (ts_deductions_total s)"

definition summaries_ok :: "'d::linordered_field summaries \<Rightarrow> bool" where
  "summaries_ok m \<longleftrightarrow> distinct (map fst m) \<and> (\<forall>(y, s) \<in> set m. totals_ok y s)"

lemma totals_ok_zero: "totals_ok y (zero_summary y)"
  by (simp add: totals_ok_def zero_summary_def kinds_total_def destinations_total_def on_grid_0)

lemma totals_ok_of: "summaries_ok m \<Longrightarrow> totals_ok y (year_entry m y)"
  by (auto simp: summaries_ok_def year_entry_def totals_ok_zero dest!: map_of_SomeD split: option.splits)

lemma summaries_ok_update: "summaries_ok m \<Longrightarrow> totals_ok y s \<Longrightarrow> summaries_ok (AList.update y s m)"
  using set_update_sub [of y s m] by (auto simp: summaries_ok_def distinct_update)

lemma into_year_ok:
  assumes "summaries_ok m" and "\<And>s. totals_ok y s \<Longrightarrow> totals_ok y (f s)"
  shows "summaries_ok (into_year f y m)"
  unfolding into_year_def by (rule summaries_ok_update [OF assms(1)]) (rule assms(2) [OF totals_ok_of [OF assms(1)]])

lemmas entry_simps = totals_ok_def kinds_total_def destinations_total_def

lemma income_line_ok: "totals_ok y s \<Longrightarrow> totals_ok y (income_line i a b c d e f g s)"
  by (cases "in_income_type i") (simp_all add: income_line_def entry_simps Let_def)

lemma accumulate_income_Inr:
  "accumulate_income D C rates m i = Inr m' \<longleftrightarrow>
     (\<exists>franked unfranked foreign_income foreign_tax tfn_wht fc lic.
        aud_value C rates (in_franked_amount i) (in_currency i) (assessment_date i) = Inr franked
        \<and> aud_value C rates (in_unfranked_amount i) (in_currency i) (assessment_date i) = Inr unfranked
        \<and> aud_value C rates (in_foreign_source_income i) (in_currency i) (assessment_date i) = Inr foreign_income
        \<and> aud_value C rates (in_foreign_tax_paid i) (in_currency i) (assessment_date i) = Inr foreign_tax
        \<and> aud_value C rates (in_tfn_withholding_tax i) (in_currency i) (assessment_date i) = Inr tfn_wht
        \<and> aud_value C rates (in_franking_credits i) (in_currency i) (assessment_date i) = Inr fc
        \<and> aud_value C rates (lic_capital_gain_deduction D i) (in_currency i) (assessment_date i) = Inr lic
        \<and> m' = into_year (income_line i franked unfranked foreign_income foreign_tax tfn_wht fc lic)
             (tax_year_for C (assessment_date i)) m)"
  unfolding accumulate_income_def Let_def and_then_Inr sum.inject by blast

section \<open>What a step adds\<close>

text \<open>
  A step changes one year's entry, keeps it well-formed, and adds \<open>c\<close> to its credits before
  denials.
\<close>

definition step_adds :: "int \<Rightarrow> 'd::linordered_field \<Rightarrow> 'd \<Rightarrow> 'd summaries \<Rightarrow> 'd summaries \<Rightarrow> bool" where
  "step_adds y c refused m m' \<longleftrightarrow>
     (\<exists>f. m' = into_year f y m \<and> (\<forall>z s. totals_ok z s \<longrightarrow> totals_ok z (f s))
        \<and> (\<forall>s. ts_franking_credits (f s) + ts_franking_credits_denied (f s)
               = ts_franking_credits s + ts_franking_credits_denied s + c
            \<and> ts_franking_credits_denied (f s) = ts_franking_credits_denied s + refused))"

definition credits_before :: "'d::linordered_field summaries \<Rightarrow> int \<Rightarrow> 'd" where
  "credits_before m y = ts_franking_credits (year_entry m y) + ts_franking_credits_denied (year_entry m y)"

definition credits_refused :: "'d::linordered_field summaries \<Rightarrow> int \<Rightarrow> 'd" where
  "credits_refused m y = ts_franking_credits_denied (year_entry m y)"

lemma step_addsD:
  assumes "step_adds y c refused m m'"
  shows "summaries_ok m \<Longrightarrow> summaries_ok m'" "fst ` set m' = insert y (fst ` set m)"
    "credits_before m' z = credits_before m z + (if z = y then c else 0)"
    "credits_refused m' z = credits_refused m z + (if z = y then refused else 0)"
proof -
  from assms obtain f where f: "m' = into_year f y m" "\<And>z s. totals_ok z s \<Longrightarrow> totals_ok z (f s)"
    "\<And>s. ts_franking_credits (f s) + ts_franking_credits_denied (f s) = ts_franking_credits s + ts_franking_credits_denied s + c"
    "\<And>s. ts_franking_credits_denied (f s) = ts_franking_credits_denied s + refused"
    unfolding step_adds_def by blast
  show "summaries_ok m \<Longrightarrow> summaries_ok m'" unfolding f(1) by (rule into_year_ok [OF _ f(2)])
  show "fst ` set m' = insert y (fst ` set m)" by (simp add: f(1))
  show "credits_before m' z = credits_before m z + (if z = y then c else 0)"
    by (simp add: credits_before_def f(1,3))
  show "credits_refused m' z = credits_refused m z + (if z = y then refused else 0)"
    by (simp add: credits_refused_def f(1,4))
qed

lemma step_addsI:
  assumes "m' = into_year f y m" and "\<And>z s. totals_ok z s \<Longrightarrow> totals_ok z (f s)"
    and "\<And>s. ts_franking_credits (f s) = ts_franking_credits s + (c - refused)"
    and "\<And>s. ts_franking_credits_denied (f s) = ts_franking_credits_denied s + refused"
  shows "step_adds y c refused m m'"
  unfolding step_adds_def using assms by (intro exI [of _ f]) simp

text \<open>A fold of such steps.\<close>

lemma fold_adds:
  assumes "try_foldl f m xs = Inr m'"
    and step: "\<And>n x n'. x \<in> set xs \<Longrightarrow> f n x = Inr n' \<Longrightarrow> step_adds (y x) (c x) (r x) n n'"
  shows "summaries_ok m \<Longrightarrow> summaries_ok m'" "fst ` set m' = fst ` set m \<union> y ` set xs"
    "credits_before m' z = credits_before m z + sum_list (map (\<lambda>x. if z = y x then c x else 0) xs)"
    "credits_refused m' z = credits_refused m z + sum_list (map (\<lambda>x. if z = y x then r x else 0) xs)"
proof -
  show "summaries_ok m \<Longrightarrow> summaries_ok m'"
    by (rule try_foldl_invariant [OF assms(1)]) (auto dest: step step_addsD(1))
  show "fst ` set m' = fst ` set m \<union> y ` set xs"
    using assms
  proof (induction xs arbitrary: m)
    case (Cons x xs)
    from Cons.prems(1) obtain n where n: "f m x = Inr n" "try_foldl f n xs = Inr m'" by (auto simp: result_simps)
    have "fst ` set m' = fst ` set n \<union> y ` set xs" by (rule Cons.IH [OF n(2)]) (use Cons.prems(2) in simp)
    then show ?case using step_addsD(2) [OF Cons.prems(2) [OF _ n(1)]] by auto
  qed simp
  show "credits_before m' z = credits_before m z + sum_list (map (\<lambda>x. if z = y x then c x else 0) xs)"
    by (rule try_foldl_sum [OF assms(1), where g = "\<lambda>m. credits_before m z"]) (rule step_addsD(3), rule step)
  show "credits_refused m' z = credits_refused m z + sum_list (map (\<lambda>x. if z = y x then r x else 0) xs)"
    by (rule try_foldl_sum [OF assms(1), where g = "\<lambda>m. credits_refused m z"]) (rule step_addsD(4), rule step)
qed

section \<open>The steps\<close>

text \<open>What a recorded credit is in Australian dollars, where its rate is known.\<close>

definition credit_aud :: "chrono_api \<Rightarrow> 'd::linordered_field fx_rates \<Rightarrow> 'd \<Rightarrow> currency_code \<Rightarrow> date \<Rightarrow> 'd" where
  "credit_aud C rates v currency d = (case fx_to_aud C rates v currency d FxNone of Inl _ \<Rightarrow> 0 | Inr x \<Rightarrow> x)"

definition income_credit :: "chrono_api \<Rightarrow> 'd::linordered_field fx_rates \<Rightarrow> 'd income \<Rightarrow> 'd" where
  "income_credit C rates i = credit_aud C rates (in_franking_credits i) (in_currency i) (assessment_date i)"

definition amma_credit :: "chrono_api \<Rightarrow> 'd::linordered_field fx_rates \<Rightarrow> 'd amma_row \<Rightarrow> 'd" where
  "amma_credit C rates r = credit_aud C rates (ar_franking_credits r) (ag_currency r) (ag_tax_year_end_date r)"

lemma aud_value_Inr [result_simps]: "aud_value C rates v cur d = Inr x \<longleftrightarrow> fx_to_aud C rates v cur d FxNone = Inr x"
  by (cases "fx_to_aud C rates v cur d FxNone") (simp_all add: aud_value_def aud_field_with_def)

lemma aud_zero: "fx_to_aud C rates 0 cur d manual = Inr x \<Longrightarrow> x = (0 :: 'd::linordered_field)"
  by (auto simp: fx_to_aud_def result_simps apply_rate_def)

lemma income_adds:
  assumes "accumulate_income D C rates m i = Inr m'"
  shows "step_adds (tax_year_for C (assessment_date i)) (if in_income_type i = Dividend then income_credit C rates i else 0) 0 m m'"
proof -
  from assms obtain a b c d e fc g where
    m': "m' = into_year (income_line i a b c d e fc g) (tax_year_for C (assessment_date i)) m"
    and fc: "fx_to_aud C rates (in_franking_credits i) (in_currency i) (assessment_date i) FxNone = Inr fc"
    unfolding accumulate_income_Inr aud_value_Inr by blast
  have credit: "income_credit C rates i = fc" by (simp add: income_credit_def credit_aud_def fc)
  show ?thesis
    by (rule step_addsI [OF m' income_line_ok], assumption)
       (cases "in_income_type i"; simp add: income_line_def Let_def credit)+
qed

lemma interest_adds:
  assumes "accumulate_interest C rates m r = Inr m'"
  shows "step_adds (tax_year_for C (ir_date_paid r)) 0 0 m m'"
proof -
  from assms obtain amount tfn tax where m': "m' = into_year (\<lambda>s.
       let s1 = (if ir_foreign_source r
                 then s\<lparr>ts_foreign_interest_income := ts_foreign_interest_income s + amount,
                        ts_foreign_tax_offsets := ts_foreign_tax_offsets s + tax\<rparr>
                 else s\<lparr>ts_interest_income := ts_interest_income s + amount\<rparr>)
       in s1\<lparr>ts_tfn_withholding_tax := ts_tfn_withholding_tax s1 + tfn\<rparr>) (tax_year_for C (ir_date_paid r)) m"
    unfolding accumulate_interest_def Let_def and_then_Inr sum.inject by blast
  show ?thesis by (rule step_addsI [OF m']) (simp_all add: entry_simps Let_def)
qed

lemma amma_adds:
  assumes "accumulate_amma D C rates m r = Inr m'"
  shows "step_adds (tax_year_for C (ag_tax_year_end_date r)) (amma_credit C rates r) 0 m m'"
proof -
  from assms obtain a b c fc d e f g h i j k l n p q where
    fc: "aud_value C rates (ar_franking_credits r) (ag_currency r) (ag_tax_year_end_date r) = Inr fc"
    and m': "m' = into_year (\<lambda>s. s\<lparr>
               ts_amma_australian_interest := ts_amma_australian_interest s + a,
               ts_amma_dividends_unfranked := ts_amma_dividends_unfranked s + b,
               ts_amma_franked_dividends := ts_amma_franked_dividends s + c,
               ts_amma_net_rent := ts_amma_net_rent s + d,
               ts_amma_foreign_income := ts_amma_foreign_income s + e,
               ts_amma_other_income := ts_amma_other_income s + f,
               ts_amma_cgt_discount_gains := ts_amma_cgt_discount_gains s + g,
               ts_amma_cgt_indexation_gains := ts_amma_cgt_indexation_gains s + h,
               ts_amma_cgt_other_gains := ts_amma_cgt_other_gains s + i,
               ts_amma_capital_losses_applied := ts_amma_capital_losses_applied s + j,
               ts_franking_credits := ts_franking_credits s + fc,
               ts_foreign_tax_offsets := ts_foreign_tax_offsets s + k + l,
               ts_foreign_tax_offsets_cgt_discount_reduction := ts_foreign_tax_offsets_cgt_discount_reduction s + n,
               ts_tfn_withholding_tax := ts_tfn_withholding_tax s + p\<rparr>) (tax_year_for C (ag_tax_year_end_date r)) m"
    unfolding accumulate_amma_def Let_def and_then_Inr sum.inject case_prod_beta by blast
  have credit: "amma_credit C rates r = fc" using fc by (simp add: amma_credit_def credit_aud_def aud_value_Inr)
  show ?thesis by (rule step_addsI [OF m']) (simp_all add: entry_simps credit)
qed

lemma ess_step_adds:
  assumes "ess_step C rates (m, by_year) r = Inr (m', by_year')"
  shows "step_adds (tax_year_for C (er_taxing_point_date r)) 0 0 m m'"
    "fst ` set by_year' = insert (tax_year_for C (er_taxing_point_date r)) (fst ` set by_year)"
proof -
  from assms obtain a b c d e f x where
    m': "m' = into_year (\<lambda>s. s\<lparr>ts_ess_discount_assessable := ts_ess_discount_assessable s + (a + b + c + d),
               ts_ess_foreign_source_discount := ts_ess_foreign_source_discount s + e,
               ts_tfn_withholding_tax := ts_tfn_withholding_tax s + f\<rparr>) (tax_year_for C (er_taxing_point_date r)) m"
    and y': "by_year' = AList.update (tax_year_for C (er_taxing_point_date r)) x by_year"
    unfolding ess_step_def Let_def and_then_Inr sum.inject prod.case prod.inject by blast
  show "step_adds (tax_year_for C (er_taxing_point_date r)) 0 0 m m'"
    by (rule step_addsI [OF m']) (simp_all add: entry_simps)
  show "fst ` set by_year' = insert (tax_year_for C (er_taxing_point_date r)) (fst ` set by_year)"
    by (simp add: y' dom_update)
qed

text \<open>A change to an entry that is there.\<close>

lemma update_adds:
  assumes "map_of m y = Some s0" and "m' = AList.update y (f s0) m" and "\<And>z s. totals_ok z s \<Longrightarrow> totals_ok z (f s)"
    and "\<And>s. ts_franking_credits (f s) = ts_franking_credits s + (c - refused)"
    and "\<And>s. ts_franking_credits_denied (f s) = ts_franking_credits_denied s + refused"
  shows "step_adds y c refused m m'"
  by (rule step_addsI [OF _ assms(3-5)]) (simp_all add: into_year_def year_entry_def assms(1,2))

lemma kind_line_simps [simp]:
  fixes s :: "'d::linordered_field tax_year_summary"
  shows "kinds_total (kind_line k x s) = kinds_total s + x" "destinations_total (kind_line k x s) = destinations_total s"
    "ts_deductions_total (kind_line k x s) = ts_deductions_total s" "ts_tax_year (kind_line k x s) = ts_tax_year s"
    "ts_franking_credits (kind_line k x s) = ts_franking_credits s"
    "ts_franking_credits_denied (kind_line k x s) = ts_franking_credits_denied s"
  by (cases k; simp add: kind_line_def kinds_total_def destinations_total_def)+

lemma destination_line_simps [simp]:
  fixes s :: "'d::linordered_field tax_year_summary"
  shows "kinds_total (destination_line k x s) = kinds_total s" "destinations_total (destination_line k x s) = destinations_total s + x"
    "ts_deductions_total (destination_line k x s) = ts_deductions_total s" "ts_tax_year (destination_line k x s) = ts_tax_year s"
    "ts_franking_credits (destination_line k x s) = ts_franking_credits s"
    "ts_franking_credits_denied (destination_line k x s) = ts_franking_credits_denied s"
  by (cases k; simp add: destination_line_def kinds_total_def destinations_total_def)+

lemma totals_of_total [simp]:
  "kinds_total (s\<lparr>ts_deductions_total := x\<rparr>) = kinds_total s"
  "destinations_total (s\<lparr>ts_deductions_total := x\<rparr>) = destinations_total s"
  by (simp_all add: kinds_total_def destinations_total_def)

lemma expense_adds:
  assumes D: "decimal_laws D" and "accumulate_expense D C rates routing m r = Inr m'"
  shows "step_adds (tax_year_for C (ex_date_incurred r)) 0 0 m m'"
proof -
  from assms(2) obtain exact kind where m': "m' = into_year (\<lambda>s.
      (let s1 = destination_line (destination C routing (ex_listing_id r) (is_debt_deduction kind)
                  (tax_year_for C (ex_date_incurred r))) (to_cents D exact) (kind_line kind (to_cents D exact) s)
       in s1\<lparr>ts_deductions_total := ts_deductions_total s1 + to_cents D exact\<rparr>)) (tax_year_for C (ex_date_incurred r)) m"
    unfolding accumulate_expense_def Let_def and_then_Inr sum.inject by blast
  have grid: "on_grid 2 (to_cents D exact)" by (rule decimal_laws.to_cents_grid [OF D])
  show ?thesis
  proof (rule step_addsI [OF m'])
    fix z and s :: "'a tax_year_summary"
    assume "totals_ok z s"
    then show "totals_ok z (let s1 = destination_line (destination C routing (ex_listing_id r) (is_debt_deduction kind)
                  (tax_year_for C (ex_date_incurred r))) (to_cents D exact) (kind_line kind (to_cents D exact) s)
       in s1\<lparr>ts_deductions_total := ts_deductions_total s1 + to_cents D exact\<rparr>)"
      using on_grid_add [OF _ grid] by (simp add: totals_ok_def Let_def)
  qed (simp_all add: Let_def)
qed

lemma ess_reduction_adds:
  assumes "ess_reduction D ineligible m (y, tot) = Inr m'"
  shows "m' = m \<or> y \<in> fst ` set m \<and> step_adds y 0 0 m m'"
proof (cases "m' = m")
  case False
  then obtain s where s: "map_of m y = Some s"
    "m' = AList.update y (s\<lparr>ts_ess_taxed_upfront_reduction := min tot (ess_reduction_cap_aud D),
       ts_ess_discount_assessable := ts_ess_discount_assessable s - min tot (ess_reduction_cap_aud D)\<rparr>) m"
    using assms by (auto simp: ess_reduction_def Let_def split: if_splits option.splits)
  have "step_adds y 0 0 m m'"
    by (rule update_adds [OF s(1), where f = "\<lambda>s. s\<lparr>ts_ess_taxed_upfront_reduction := min tot (ess_reduction_cap_aud D),
          ts_ess_discount_assessable := ts_ess_discount_assessable s - min tot (ess_reduction_cap_aud D)\<rparr>"])
       (simp_all add: entry_simps s(2))
  then show ?thesis using map_of_SomeD [OF s(1)] by force
qed simp

lemma step_keeps:
  assumes "step_adds y 0 r n n'" and "y \<in> fst ` set n"
  shows "(summaries_ok n \<longrightarrow> summaries_ok n') \<and> fst ` set n' = fst ` set n \<and> credits_before n' = credits_before n"
  using step_addsD [OF assms(1)] assms(2) by (simp add: fun_eq_iff insert_absorb)

lemma ess_reduction_keeps:
  assumes "try_foldl (ess_reduction D ineligible) m by_year = Inr m'"
  shows "(summaries_ok m \<longrightarrow> summaries_ok m') \<and> fst ` set m' = fst ` set m
    \<and> credits_before m' = credits_before m \<and> credits_refused m' = credits_refused m"
proof (rule try_foldl_invariant [OF assms, where
      I = "\<lambda>n. (summaries_ok m \<longrightarrow> summaries_ok n) \<and> fst ` set n = fst ` set m
        \<and> credits_before n = credits_before m \<and> credits_refused n = credits_refused m"])
  fix n x n'
  assume I: "(summaries_ok m \<longrightarrow> summaries_ok n) \<and> fst ` set n = fst ` set m
      \<and> credits_before n = credits_before m \<and> credits_refused n = credits_refused m"
    and stp: "ess_reduction D ineligible n x = Inr n'"
  obtain y tot where x: "x = (y, tot)" by (cases x)
  from ess_reduction_adds [OF stp [unfolded x]]
  show "(summaries_ok m \<longrightarrow> summaries_ok n') \<and> fst ` set n' = fst ` set m
      \<and> credits_before n' = credits_before m \<and> credits_refused n' = credits_refused m"
  proof
    assume "y \<in> fst ` set n \<and> step_adds y 0 0 n n'"
    then show ?thesis
      using I step_addsD [of y 0 0 n n'] by (auto simp: fun_eq_iff)
  qed (use I in simp)
qed simp

lemma accumulate_ess_keeps:
  assumes "accumulate_ess D C rates ineligible rows m = Inr m'"
  shows "(summaries_ok m \<longrightarrow> summaries_ok m') \<and> fst ` set m \<subseteq> fst ` set m'
    \<and> credits_before m' = credits_before m \<and> credits_refused m' = credits_refused m"
proof -
  let ?I = "\<lambda>(n, by_year). (summaries_ok m \<longrightarrow> summaries_ok n) \<and> fst ` set m \<subseteq> fst ` set n
      \<and> credits_before n = credits_before m \<and> credits_refused n = credits_refused m"
  from assms obtain n by_year where n: "try_foldl (ess_step C rates) (m, []) rows = Inr (n, by_year)"
    "try_foldl (ess_reduction D ineligible) n by_year = Inr m'"
    by (auto simp: accumulate_ess_def result_simps)
  have "?I (n, by_year)"
  proof (rule try_foldl_invariant [OF n(1)])
    fix s x s'
    assume I: "?I s" and stp: "ess_step C rates s x = Inr s'"
    obtain k b k' b' where s: "s = (k, b)" "s' = (k', b')" by (cases s; cases s')
    from ess_step_adds(1) [OF stp [unfolded s]] step_addsD [of _ 0 0 k k'] I show "?I s'"
      by (auto simp: s fun_eq_iff)
  qed simp
  then show ?thesis using ess_reduction_keeps [OF n(2)] by auto
qed

lemma ess_step_keys:
  fixes rates :: "'d::linordered_field fx_rates"
  assumes "try_foldl (ess_step C rates) (m, []) rows = Inr (n, by_year)"
  shows "fst ` set by_year \<subseteq> fst ` set n"
proof -
  have "case (n, by_year) of (n, by_year) \<Rightarrow> fst ` set by_year \<subseteq> fst ` set n"
  proof (rule try_foldl_invariant [OF assms])
    fix s x s'
    assume I: "case s of (n, by_year) \<Rightarrow> fst ` set by_year \<subseteq> fst ` set n" and stp: "ess_step C rates s x = Inr s'"
    obtain k b k' b' where s: "s = (k, b)" "s' = (k', b')" by (cases s; cases s')
    from ess_step_adds [OF stp [unfolded s]] step_addsD(2) [of _ 0 0 k k'] I
    show "case s' of (n, by_year) \<Rightarrow> fst ` set by_year \<subseteq> fst ` set n" by (auto simp: s)
  qed simp
  then show ?thesis by simp
qed

lemma ess_fold_keys:
  fixes rates :: "'d::linordered_field fx_rates"
  assumes "try_foldl (ess_step C rates) (m, bs) rows = Inr (n, by_year)"
  shows "fst ` set n = fst ` set m \<union> (\<lambda>r. tax_year_for C (er_taxing_point_date r)) ` set rows"
  using assms
proof (induction rows arbitrary: m bs)
  case (Cons r rows)
  from Cons.prems obtain k b where k: "ess_step C rates (m, bs) r = Inr (k, b)"
    "try_foldl (ess_step C rates) (k, b) rows = Inr (n, by_year)"
    by (auto simp: result_simps)
  show ?case using Cons.IH [OF k(2)] step_addsD(2) [OF ess_step_adds(1) [OF k(1)]] by auto
qed simp

lemma accumulate_ess_keys:
  fixes rates :: "'d::linordered_field fx_rates"
  assumes "accumulate_ess D C rates ineligible rows m = Inr m'"
  shows "fst ` set m' = fst ` set m \<union> (\<lambda>r. tax_year_for C (er_taxing_point_date r)) ` set rows"
proof -
  from assms obtain n by_year where n: "try_foldl (ess_step C rates) (m, []) rows = Inr (n, by_year)"
    "try_foldl (ess_reduction D ineligible) n by_year = Inr m'"
    by (auto simp: accumulate_ess_def result_simps)
  show ?thesis using ess_fold_keys [OF n(1)] ess_reduction_keeps [OF n(2)] by simp
qed

text \<open>What the denial step takes off a dividend.\<close>

definition refused_of :: "'d::linordered_field decimal_api \<Rightarrow> 'd by_year \<Rightarrow> 'd holding_walks \<Rightarrow> 'd franked_dividend \<Rightarrow> 'd" where
  "refused_of D attached walks dv =
     (case attached (fd_tax_year dv) of
        None \<Rightarrow> 0
      | Some a \<Rightarrow> if a < small_shareholder_threshold_aud D then 0
                 else max 0 (denied D (hp_test D walks (fd_listing_id dv) (fd_ex_date dv)) (fd_credits_aud dv)))"

lemma deny_credits_adds:
  assumes "deny_credits D attached walks m dv = Inr m'"
  shows "m' = m \<and> refused_of D attached walks dv = 0
    \<or> fd_tax_year dv \<in> fst ` set m \<and> step_adds (fd_tax_year dv) 0 (refused_of D attached walks dv) m m'"
proof -
  from assms obtain a where a: "attached (fd_tax_year dv) = Some a"
    by (auto simp: deny_credits_def result_simps)
  define r where "r = denied D (hp_test D walks (fd_listing_id dv) (fd_ex_date dv)) (fd_credits_aud dv)"
  show ?thesis
  proof (cases "a < small_shareholder_threshold_aud D \<or> r \<le> 0")
    case True
    then show ?thesis
      using assms a by (auto simp: deny_credits_def refused_of_def Let_def r_def [symmetric])
  next
    case False
    then have r: "refused_of D attached walks dv = r" by (simp add: refused_of_def a r_def [symmetric] max_def)
    from False assms a obtain s where s: "map_of m (fd_tax_year dv) = Some s"
      by (auto simp: deny_credits_def Let_def r_def [symmetric] split: option.splits)
    have m': "m' = AList.update (fd_tax_year dv) (refuse_credits (fd_trust_income dv) r s) m"
      using False assms a s by (auto simp: deny_credits_def Let_def r_def [symmetric])
    have "step_adds (fd_tax_year dv) 0 r m m'"
      by (rule update_adds [OF s, where f = "refuse_credits (fd_trust_income dv) r"])
         (simp_all add: m' refuse_credits_def entry_simps Let_def)
    then show ?thesis using map_of_SomeD [OF s] r by force
  qed
qed

lemma denials_keep:
  assumes "apply_franking_denials D attached walks dividends m = Inr m'"
  shows "(summaries_ok m \<longrightarrow> summaries_ok m') \<and> fst ` set m' = fst ` set m
    \<and> credits_before m' = credits_before m
    \<and> credits_refused m' z = credits_refused m z
        + sum_list (map (\<lambda>dv. if z = fd_tax_year dv then refused_of D attached walks dv else 0) dividends)"
proof -
  note run = assms [unfolded apply_franking_denials_def]
  have "(summaries_ok m \<longrightarrow> summaries_ok m') \<and> fst ` set m' = fst ` set m \<and> credits_before m' = credits_before m"
  proof (rule try_foldl_invariant [OF run, where
        I = "\<lambda>n. (summaries_ok m \<longrightarrow> summaries_ok n) \<and> fst ` set n = fst ` set m \<and> credits_before n = credits_before m"])
    fix n x n'
    assume I: "(summaries_ok m \<longrightarrow> summaries_ok n) \<and> fst ` set n = fst ` set m \<and> credits_before n = credits_before m"
      and stp: "deny_credits D attached walks n x = Inr n'"
    from deny_credits_adds [OF stp]
    show "(summaries_ok m \<longrightarrow> summaries_ok n') \<and> fst ` set n' = fst ` set m \<and> credits_before n' = credits_before m"
    proof
      assume "fd_tax_year x \<in> fst ` set n \<and> step_adds (fd_tax_year x) 0 (refused_of D attached walks x) n n'"
      then show ?thesis using I step_keeps by metis
    qed (use I in simp)
  qed simp
  moreover have "credits_refused m' z = credits_refused m z
      + sum_list (map (\<lambda>dv. if z = fd_tax_year dv then refused_of D attached walks dv else 0) dividends)"
  proof (rule try_foldl_sum [OF run, where g = "\<lambda>n. credits_refused n z"])
    fix n x n'
    assume "deny_credits D attached walks n x = Inr n'"
    from deny_credits_adds [OF this]
    show "credits_refused n' z = credits_refused n z + (if z = fd_tax_year x then refused_of D attached walks x else 0)"
      by (auto simp: step_addsD(4))
  qed
  ultimately show ?thesis by blast
qed

section \<open>The stages\<close>


lemma summary_stages:
  assumes "db_tax_summary D C S = Inr rows"
  obtains dividends attached m1 m2 m3 m4 m5 m6 where
    "db_franked_dividends C (lg_rates (sl_ledger S)) (amit_of S) (sl_income S) (sl_amma S) = Inr (dividends, attached)"
    "try_foldl (accumulate_income D C (lg_rates (sl_ledger S))) []
       (db_assessable_cash_income C (amit_of S) (sl_income S)) = Inr m1"
    "try_foldl (accumulate_interest C (lg_rates (sl_ledger S))) m1 (sl_interest S) = Inr m2"
    "try_foldl (accumulate_amma D C (lg_rates (sl_ledger S))) m2 (sl_amma S) = Inr m3"
    "accumulate_ess D C (lg_rates (sl_ledger S)) (sl_ess_ineligible_years S) (sl_ess S) m3 = Inr m4"
    "try_foldl (accumulate_expense D C (lg_rates (sl_ledger S)) (load_routing (sl_listings S) (sl_income S))) m4
       (sl_expenses S) = Inr m5"
    "apply_franking_denials D attached (load_walks (sl_preference S) (sl_ledger S)) dividends m5 = Inr m6"
    "rows = sort_key ts_tax_year (map (\<lambda>(y, s). total_line D (cap_foreign_offset D s)) m6)"
  using assms by (auto simp: db_tax_summary_def Let_def and_then_Inr map_error_Inr)

text \<open>Striking the totals touches neither the year, the credits nor the deductions.\<close>

definition finished :: "'d::linordered_field decimal_api \<Rightarrow> 'd tax_year_summary \<Rightarrow> 'd tax_year_summary" where
  "finished D s = total_line D (cap_foreign_offset D s)"

lemma finished_simps [simp]:
  "ts_tax_year (finished D s) = ts_tax_year s" "ts_franking_credits (finished D s) = ts_franking_credits s"
  "ts_franking_credits_denied (finished D s) = ts_franking_credits_denied s"
  "ts_deductions_total (finished D s) = ts_deductions_total s" "kinds_total (finished D s) = kinds_total s"
  "destinations_total (finished D s) = destinations_total s" "assessable_lines (finished D s) = assessable_lines s"
  by (simp_all add: finished_def total_line_def cap_foreign_offset_def Let_def kinds_total_def destinations_total_def
      assessable_lines_def)

lemma finished_gross:
  "ts_gross_assessable_investment_income (finished D s) = sum_list (map (to_cents D) (assessable_lines s))"
  "ts_net_assessable_investment_income (finished D s)
     = ts_gross_assessable_investment_income (finished D s) - ts_deductions_total s"
  by (simp_all add: finished_def total_line_def cap_foreign_offset_def Let_def assessable_lines_def add.assoc)

lemma finished_offset:
  "ts_foreign_tax_offsets (finished D s) = min (ts_foreign_tax_offsets s) (fito_de_minimis_aud D)"
  by (simp add: finished_def total_line_def cap_foreign_offset_def Let_def)

text \<open>The years anything is recorded in, and a year's credits before any denial.\<close>

definition recorded_years :: "chrono_api \<Rightarrow> 'd summary_ledger \<Rightarrow> int set" where
  "recorded_years C S =
     (\<lambda>i. tax_year_for C (assessment_date i)) ` set (db_assessable_cash_income C (amit_of S) (sl_income S))
     \<union> (\<lambda>r. tax_year_for C (ir_date_paid r)) ` set (sl_interest S)
     \<union> (\<lambda>r. tax_year_for C (ag_tax_year_end_date r)) ` set (sl_amma S)
     \<union> (\<lambda>r. tax_year_for C (er_taxing_point_date r)) ` set (sl_ess S)
     \<union> (\<lambda>r. tax_year_for C (ex_date_incurred r)) ` set (sl_expenses S)"

definition recorded_credits :: "chrono_api \<Rightarrow> 'd::linordered_field summary_ledger \<Rightarrow> int \<Rightarrow> 'd" where
  "recorded_credits C S y =
     sum_list (map (income_credit C (lg_rates (sl_ledger S)))
       (filter (\<lambda>i. in_income_type i = Dividend \<and> tax_year_for C (assessment_date i) = y)
         (db_assessable_cash_income C (amit_of S) (sl_income S))))
     + sum_list (map (amma_credit C (lg_rates (sl_ledger S)))
         (filter (\<lambda>r. tax_year_for C (ag_tax_year_end_date r) = y) (sl_amma S)))"

lemma sum_list_where: "sum_list (map (\<lambda>x. if P x then f x else 0) xs) = sum_list (map f (filter P xs))"
  for f :: "'a \<Rightarrow> 'd::comm_monoid_add"
  by (induction xs) auto

lemma if_nested: "(if A then if B then x else z else z) = (if B \<and> A then x else z)"
  by simp

text \<open>What a run that succeeds leaves, before the totals are struck.\<close>

definition outcome_of ::
    "'d::linordered_field decimal_api \<Rightarrow> chrono_api \<Rightarrow> 'd summary_ledger \<Rightarrow> 'd franked_dividend list \<Rightarrow> 'd by_year \<Rightarrow>
     'd summaries \<Rightarrow> 'd tax_year_summary list \<Rightarrow> bool" where
  "outcome_of D C S dividends attached m rows \<longleftrightarrow>
     rows = sort_key ts_tax_year (map (\<lambda>(y, s). finished D s) m) \<and> summaries_ok m
     \<and> fst ` set m = recorded_years C S
     \<and> (\<forall>y. credits_before m y = recorded_credits C S y
         \<and> credits_refused m y = sum_list (map (refused_of D attached (load_walks (sl_preference S) (sl_ledger S)))
             (filter (\<lambda>dv. fd_tax_year dv = y) dividends)))"

lemma summary_outcome:
  assumes D: "decimal_laws D" and run: "db_tax_summary D C S = Inr rows"
  obtains dividends attached m where
    "db_franked_dividends C (lg_rates (sl_ledger S)) (amit_of S) (sl_income S) (sl_amma S) = Inr (dividends, attached)"
    "outcome_of D C S dividends attached m rows"
proof -
  let ?rates = "lg_rates (sl_ledger S)" and ?start = "[] :: 'a summaries"
  have start: "summaries_ok ?start" "credits_before ?start y = 0" "credits_refused ?start y = 0" for y
    by (simp_all add: summaries_ok_def credits_before_def credits_refused_def year_entry_def zero_summary_def)
  from run obtain dividends attached m1 m2 m3 m4 m5 m6 where
    div: "db_franked_dividends C ?rates (amit_of S) (sl_income S) (sl_amma S) = Inr (dividends, attached)"
    and m1: "try_foldl (accumulate_income D C ?rates) ?start (db_assessable_cash_income C (amit_of S) (sl_income S)) = Inr m1"
    and m2: "try_foldl (accumulate_interest C ?rates) m1 (sl_interest S) = Inr m2"
    and m3: "try_foldl (accumulate_amma D C ?rates) m2 (sl_amma S) = Inr m3"
    and m4: "accumulate_ess D C ?rates (sl_ess_ineligible_years S) (sl_ess S) m3 = Inr m4"
    and m5: "try_foldl (accumulate_expense D C ?rates (load_routing (sl_listings S) (sl_income S))) m4 (sl_expenses S) = Inr m5"
    and m6: "apply_franking_denials D attached (load_walks (sl_preference S) (sl_ledger S)) dividends m5 = Inr m6"
    and rows: "rows = sort_key ts_tax_year (map (\<lambda>(y, s). total_line D (cap_foreign_offset D s)) m6)"
    by (rule summary_stages)
  note i = fold_adds [OF m1 income_adds, simplified start add_0_left]
    and n = fold_adds [OF m2 interest_adds] and a = fold_adds [OF m3 amma_adds]
    and e = accumulate_ess_keeps [OF m4] and k = accumulate_ess_keys [OF m4]
    and x = fold_adds [OF m5 expense_adds [OF D]] and d = denials_keep [OF m6]
  have ok: "summaries_ok m6" using i(1) n(1) a(1) e x(1) d by simp
  have keys: "fst ` set m6 = recorded_years C S" using i n a k x d by (simp add: recorded_years_def Un_assoc)
  have before: "credits_before m6 y = recorded_credits C S y" for y
    using i(3) [where z = y] n(3) [where z = y] a(3) [where z = y] e x(3) [where z = y] d
    by (simp add: recorded_credits_def sum_list_where [symmetric] if_nested eq_commute [of y])
  have refused: "credits_refused m6 y = sum_list (map (refused_of D attached (load_walks (sl_preference S) (sl_ledger S)))
      (filter (\<lambda>dv. fd_tax_year dv = y) dividends))" for y
    using i(4) [where z = y] n(4) [where z = y] a(4) [where z = y] e x(4) [where z = y] d [where z = y]
    by (simp add: sum_list_where [symmetric] eq_commute [of y])
  show thesis
    by (rule that [OF div, of m6]) (simp add: outcome_of_def ok keys before refused rows finished_def)
qed

section \<open>No year is missing\<close>

definition years_known :: "summary_error + 'a \<Rightarrow> bool" where
  "years_known r \<longleftrightarrow> (\<forall>y. r \<noteq> Inl (MissingSummaryYear y))"

named_theorems known_intros \<open>computations that cannot fail on a missing year\<close>

lemma known_Inr [known_intros]: "years_known (Inr a)"
  by (simp add: years_known_def)

lemma known_and_then [known_intros]:
  assumes "years_known r" and "\<And>a. r = Inr a \<Longrightarrow> years_known (f a)"
  shows "years_known (and_then r f)"
  using assms by (cases r) (auto simp: years_known_def)

lemma known_let [known_intros]: "years_known (f x) \<Longrightarrow> years_known (Let x f)"
  by simp

lemma known_aud [known_intros]:
  "years_known (aud_field_with C rates v currency d manual)" "years_known (aud_value C rates v currency d)"
  "years_known (aud_label C rates stated v currency d manual)" "years_known (expense_type_of t)"
  by (auto simp: years_known_def aud_value_def aud_label_def aud_field_with_def expense_type_of_def map_error_Inl
      split: option.splits)

lemma known_fold:
  assumes "I s" and "\<And>x s s'. x \<in> set xs \<Longrightarrow> I s \<Longrightarrow> f s x = Inr s' \<Longrightarrow> I s'"
    and "\<And>x s. x \<in> set xs \<Longrightarrow> I s \<Longrightarrow> years_known (f s x)"
  shows "years_known (try_foldl f s xs)"
  using assms
proof (induction xs arbitrary: s)
  case (Cons x xs)
  have "years_known (try_foldl f s' xs)" if "f s x = Inr s'" for s'
  proof (rule Cons.IH)
    show "I s'" using Cons.prems(1,2) that by auto
    show "\<And>x s s'. x \<in> set xs \<Longrightarrow> I s \<Longrightarrow> f s x = Inr s' \<Longrightarrow> I s'" by (rule Cons.prems(2)) simp_all
    show "\<And>x s. x \<in> set xs \<Longrightarrow> I s \<Longrightarrow> years_known (f s x)" by (rule Cons.prems(3)) simp_all
  qed
  then show ?case using Cons.prems by (simp add: known_and_then)
qed (simp add: known_Inr)

lemma known_fold_plain: "(\<And>x s. years_known (f s x)) \<Longrightarrow> years_known (try_foldl f s xs)"
  by (rule known_fold [where I = "\<lambda>_. True"]) simp_all

lemma known_income [known_intros]: "years_known (accumulate_income D C rates m i)"
  unfolding accumulate_income_def Let_def by (rule known_and_then known_Inr known_aud)+

lemma known_interest [known_intros]: "years_known (accumulate_interest C rates m n)"
  unfolding accumulate_interest_def Let_def by (rule known_and_then known_Inr known_aud)+

lemma known_amma [known_intros]: "years_known (accumulate_amma D C rates m a)"
  unfolding accumulate_amma_def Let_def case_prod_beta by (rule known_and_then known_Inr known_aud)+

lemma known_ess_step [known_intros]: "years_known (ess_step C rates s r)"
  unfolding ess_step_def Let_def case_prod_beta by (rule known_and_then known_Inr known_aud)+

lemma known_expense [known_intros]: "years_known (accumulate_expense D C rates routing m x)"
  unfolding accumulate_expense_def Let_def by (rule known_and_then known_Inr known_aud)+

lemma known_ess:
  fixes rates :: "'d::linordered_field fx_rates"
  shows "years_known (accumulate_ess D C rates ineligible rows m)"
  unfolding accumulate_ess_def
proof (rule known_and_then)
  show "years_known (try_foldl (ess_step C rates) (m, []) rows)" by (rule known_fold_plain) (rule known_intros)
next
  fix a assume steps: "try_foldl (ess_step C rates) (m, []) rows = Inr a"
  obtain n by_year where a: "a = (n, by_year)" by (cases a)
  have sub: "fst ` set by_year \<subseteq> fst ` set n" by (rule ess_step_keys [OF steps [unfolded a]])
  have "years_known (try_foldl (ess_reduction D ineligible) n by_year)"
  proof (rule known_fold [where I = "\<lambda>k. fst ` set k = fst ` set n"])
    fix x and k k' :: "'d summaries" assume "fst ` set k = fst ` set n" "ess_reduction D ineligible k x = Inr k'"
    then show "fst ` set k' = fst ` set n"
      using ess_reduction_adds [of D ineligible k "fst x" "snd x" k'] step_keeps [of "fst x" 0 k k'] by auto
  next
    fix x and k :: "'d summaries" assume "x \<in> set by_year" "fst ` set k = fst ` set n"
    then have "map_of k (fst x) \<noteq> None" using sub by (auto simp: map_of_eq_None_iff)
    then show "years_known (ess_reduction D ineligible k x)"
      by (auto simp: ess_reduction_def Let_def years_known_def split: prod.splits)
  qed simp
  then show "years_known (case a of (m', by_year) \<Rightarrow> try_foldl (ess_reduction D ineligible) m' by_year)"
    by (simp add: a)
qed

lemma known_denials:
  fixes m :: "'d::linordered_field summaries"
  assumes div: "\<forall>dv \<in> set dividends. attached (fd_tax_year dv) \<noteq> None \<and> fd_tax_year dv \<in> fst ` set m"
  shows "years_known (apply_franking_denials D attached walks dividends m)"
  unfolding apply_franking_denials_def
proof (rule known_fold [where I = "\<lambda>k. fst ` set k = fst ` set m"])
  fix x and k k' :: "'d summaries" assume "fst ` set k = fst ` set m" "deny_credits D attached walks k x = Inr k'"
  then show "fst ` set k' = fst ` set m"
    using deny_credits_adds [of D attached walks k x k']
      step_keeps [of "fd_tax_year x" "refused_of D attached walks x" k k'] by metis
next
  fix x and k :: "'d summaries" assume "x \<in> set dividends" "fst ` set k = fst ` set m"
  then have "map_of k (fd_tax_year x) \<noteq> None" "attached (fd_tax_year x) \<noteq> None"
    using div by (auto simp: map_of_eq_None_iff)
  then show "years_known (deny_credits D attached walks k x)"
    by (auto simp: deny_credits_def Let_def years_known_def split: if_splits)
qed simp

lemma franked_years_in_income:
  assumes "db_franked_dividends C rates listings income_rows amma_rows = Inr (dividends, attached)" and "dv \<in> set dividends"
  shows "fd_tax_year dv \<in> (\<lambda>i. tax_year_for C (assessment_date i)) ` set (db_assessable_cash_income C listings income_rows)"
    "attached (fd_tax_year dv) \<noteq> None" "0 < fd_credits_aud dv"
  using franked_years [OF assms(1)] assms(2) by auto

section \<open>The rows of the summary\<close>

lemma outcome_entry:
  assumes "outcome_of D C S dividends attached m rows" and "s \<in> set rows"
  obtains t where "s = finished D t" "(ts_tax_year s, t) \<in> set m" "totals_ok (ts_tax_year s) t"
    "year_entry m (ts_tax_year s) = t"
proof -
  from assms obtain y t where t: "s = finished D t" "(y, t) \<in> set m" "totals_ok y t" "distinct (map fst m)"
    by (auto simp: outcome_of_def summaries_ok_def)
  then have "ts_tax_year s = y" by (simp add: totals_ok_def)
  then show thesis using that [of t] t by (simp add: year_entry_def)
qed

lemma outcome_years:
  assumes "outcome_of D C S dividends attached m rows"
  shows "sorted_wrt (<) (map ts_tax_year rows)" "set (map ts_tax_year rows) = recorded_years C S"
proof -
  have m: "rows = sort_key ts_tax_year (map (\<lambda>(y, s). finished D s) m)" "summaries_ok m" "fst ` set m = recorded_years C S"
    using assms by (simp_all add: outcome_of_def)
  have years: "map (\<lambda>p. ts_tax_year (finished D (snd p))) m = map fst m"
    using m(2) by (intro map_cong) (auto simp: summaries_ok_def totals_ok_def)
  have perm: "mset (map ts_tax_year rows) = mset (map fst m)"
    unfolding years [symmetric] by (simp add: m(1) case_prod_beta' image_mset.compositionality comp_def)
  have "distinct (map ts_tax_year rows)"
    using mset_eq_imp_distinct_iff [OF perm] m(2) by (simp add: summaries_ok_def)
  moreover have "set (map ts_tax_year rows) = fst ` set m" using mset_eq_setD [OF perm] by simp
  ultimately show "sorted_wrt (<) (map ts_tax_year rows)" "set (map ts_tax_year rows) = recorded_years C S"
    by (simp_all add: strict_sorted_iff m(1,3))
qed

lemma cents_sum_grid:
  assumes "decimal_laws D"
  shows "on_grid 2 (sum_list (map (to_cents D) xs))"
  by (induction xs) (simp_all add: on_grid_0 on_grid_add decimal_laws.to_cents_grid [OF assms])

lemma outcome_row:
  assumes D: "decimal_laws D" and out: "outcome_of D C S dividends attached m rows" and s: "s \<in> set rows"
  shows "ts_gross_assessable_investment_income s = sum_list (map (to_cents D) (assessable_lines s))
    \<and> ts_net_assessable_investment_income s = ts_gross_assessable_investment_income s - ts_deductions_total s
    \<and> on_grid 2 (ts_gross_assessable_investment_income s) \<and> on_grid 2 (ts_net_assessable_investment_income s)
    \<and> kinds_total s = ts_deductions_total s \<and> destinations_total s = ts_deductions_total s
    \<and> ts_foreign_tax_offsets s \<le> 1000"
proof -
  from outcome_entry [OF out s] obtain t where t: "s = finished D t" "totals_ok (ts_tax_year s) t" by metis
  have cents: "on_grid 2 (sum_list (map (to_cents D) (assessable_lines t)))" by (rule cents_sum_grid [OF D])
  have offset: "ts_foreign_tax_offsets s \<le> 1000"
    by (simp add: t(1) finished_offset fito_de_minimis_aud_def decimal_laws.dnew_0_scale [OF D])
  show ?thesis
    using t(2) cents offset by (simp add: t(1) finished_gross totals_ok_def on_grid_diff)
qed

section \<open>The year's attached credits\<close>

definition year_total :: "'d::linordered_field by_year \<Rightarrow> int \<Rightarrow> 'd" where
  "year_total attached y = (case attached y of None \<Rightarrow> 0 | Some a \<Rightarrow> a)"

lemma year_total_add [simp]: "year_total (add_year m z x) y = year_total m y + (if y = z then x else 0)"
  by (simp add: year_total_def add_year_def)

lemma attached_total:
  fixes rates :: "'d::linordered_field fx_rates"
  assumes "db_franked_dividends C rates listings income_rows amma_rows = Inr (dividends, attached)"
  shows "year_total attached y =
    sum_list (map (\<lambda>i. if y = tax_year_for C (assessment_date i) then max 0 (income_credit C rates i) else 0)
      (db_assessable_cash_income C listings income_rows))
    + sum_list (map (\<lambda>r. if y = tax_year_for C (ag_tax_year_end_date r) then amma_credit C rates r else 0) amma_rows)"
proof -
  from assms obtain m where m:
    "try_foldl (franked_step C rates) ([], Map.empty) (db_assessable_cash_income C listings income_rows) = Inr (dividends, m)"
    "try_foldl (amma_step C rates) m amma_rows = Inr attached"
    by (auto simp: db_franked_dividends_def result_simps)
  have "year_total (snd (dividends, m)) y = year_total (snd ([] :: 'd franked_dividend list, Map.empty)) y
      + sum_list (map (\<lambda>i. if y = tax_year_for C (assessment_date i) then max 0 (income_credit C rates i) else 0)
          (db_assessable_cash_income C listings income_rows))"
    by (rule try_foldl_sum [OF m(1), where g = "\<lambda>s. year_total (snd s) y"
          and h = "\<lambda>i. if y = tax_year_for C (assessment_date i) then max 0 (income_credit C rates i) else 0"])
       (auto simp: franked_step_def Let_def result_simps income_credit_def credit_aud_def split: if_splits)
  moreover have "year_total attached y = year_total m y
      + sum_list (map (\<lambda>r. if y = tax_year_for C (ag_tax_year_end_date r) then amma_credit C rates r else 0) amma_rows)"
    by (rule try_foldl_sum [OF m(2), where g = "\<lambda>m. year_total m y"])
       (auto simp: amma_step_def result_simps amma_credit_def credit_aud_def)
  ultimately show ?thesis by (simp add: year_total_def)
qed

definition rates_positive :: "'d::linordered_field fx_rates \<Rightarrow> bool" where
  "rates_positive rates \<longleftrightarrow> (\<forall>k r. rates k = Some r \<longrightarrow> 0 < r)"

lemma credit_nonneg:
  assumes "rates_positive rates" and "0 \<le> v"
  shows "0 \<le> credit_aud C rates v cur d"
proof (cases "fx_to_aud C rates v cur d FxNone")
  case (Inr x)
  then have "0 \<le> x"
    using assms by (auto simp: fx_to_aud_def result_simps resolve_rate_def pick_rate_order rates_positive_def
        apply_rate_val divide_nonneg_pos Let_def split: if_splits)
  then show ?thesis by (simp add: credit_aud_def Inr)
qed (simp add: credit_aud_def)

lemma credit_zero: "credit_aud C rates 0 cur d = (0 :: 'd::linordered_field)"
  by (auto simp: credit_aud_def dest: aud_zero split: sum.splits)

text \<open>On well-formed rows the attached credits of the exemption are the recorded ones.\<close>

lemma attached_recorded:
  assumes "db_franked_dividends C (lg_rates (sl_ledger S)) (amit_of S) (sl_income S) (sl_amma S) = Inr (dividends, attached)"
    and pos: "rates_positive (lg_rates (sl_ledger S))" and ok: "\<forall>i \<in> set (sl_income S). income_row_ok D C i"
  shows "year_total attached y = recorded_credits C S y"
proof -
  let ?r = "lg_rates (sl_ledger S)" and ?rows = "db_assessable_cash_income C (amit_of S) (sl_income S)"
  have "(if y = tax_year_for C (assessment_date i) then max 0 (income_credit C ?r i) else 0)
      = (if in_income_type i = Dividend \<and> tax_year_for C (assessment_date i) = y then income_credit C ?r i else 0)"
    if "i \<in> set ?rows" for i
  proof -
    from that ok have i: "income_row_ok D C i" by (auto simp: db_assessable_cash_income_def)
    then have "0 \<le> income_credit C ?r i"
      unfolding income_credit_def by (intro credit_nonneg [OF pos]) (auto simp: income_row_ok_def amounts_ok_def)
    moreover from i have "in_income_type i \<noteq> Dividend \<Longrightarrow> income_credit C ?r i = 0"
      by (simp add: income_row_ok_def income_credit_def credit_zero)
    ultimately show ?thesis by (auto simp: max_def)
  qed
  then show ?thesis
    unfolding attached_total [OF assms(1)] recorded_credits_def sum_list_where [symmetric]
    by (simp add: eq_commute [of y] cong: map_cong)
qed

lemma sum_list_zero: "(\<And>x. x \<in> set xs \<Longrightarrow> f x = 0) \<Longrightarrow> sum_list (map f xs) = (0 :: 'd::comm_monoid_add)"
  by (induction xs) auto

lemma refused_nonneg: "0 \<le> refused_of D attached walks dv"
  by (simp add: refused_of_def split: option.splits)

lemma outcome_credits:
  assumes out: "outcome_of D C S dividends attached m rows" and s: "s \<in> set rows"
  shows "ts_franking_credits s + ts_franking_credits_denied s = recorded_credits C S (ts_tax_year s)"
    "ts_franking_credits_denied s = sum_list (map (refused_of D attached (load_walks (sl_preference S) (sl_ledger S)))
       (filter (\<lambda>dv. fd_tax_year dv = ts_tax_year s) dividends))"
proof -
  from outcome_entry [OF out s] obtain t where t: "s = finished D t" "year_entry m (ts_tax_year s) = t" by metis
  have "credits_before m (ts_tax_year s) = recorded_credits C S (ts_tax_year s)"
    "credits_refused m (ts_tax_year s) = sum_list (map (refused_of D attached (load_walks (sl_preference S) (sl_ledger S)))
       (filter (\<lambda>dv. fd_tax_year dv = ts_tax_year s) dividends))"
    using out by (simp_all add: outcome_of_def)
  moreover have "credits_before m (ts_tax_year s) = ts_franking_credits s + ts_franking_credits_denied s"
    "credits_refused m (ts_tax_year s) = ts_franking_credits_denied s"
    unfolding credits_before_def credits_refused_def t(2) unfolding t(1) by simp_all
  ultimately show "ts_franking_credits s + ts_franking_credits_denied s = recorded_credits C S (ts_tax_year s)"
    "ts_franking_credits_denied s = sum_list (map (refused_of D attached (load_walks (sl_preference S) (sl_ledger S)))
       (filter (\<lambda>dv. fd_tax_year dv = ts_tax_year s) dividends))" by simp_all
qed

section \<open>Growing years\<close>

definition grows :: "('a \<times> 'b) list \<Rightarrow> ('a \<times> 'b) list \<Rightarrow> bool" where
  "grows m m' \<longleftrightarrow> fst ` set m \<subseteq> fst ` set m'"

lemma step_grows: "step_adds y c r m m' \<Longrightarrow> grows m m'"
  by (auto simp: grows_def step_addsD(2))

lemma fold_grows:
  assumes "try_foldl f m xs = Inr m'" and "\<And>n x n'. f n x = Inr n' \<Longrightarrow> grows n n'"
  shows "grows m m'"
proof (rule try_foldl_invariant [OF assms(1)])
  fix n x n' assume "grows m n" "f n x = Inr n'"
  then show "grows m n'" using assms(2) [of n x n'] unfolding grows_def by (meson order_trans)
qed (simp add: grows_def)

lemma expense_grows: "accumulate_expense D C rates routing m r = Inr m' \<Longrightarrow> grows m m'"
proof -
  assume "accumulate_expense D C rates routing m r = Inr m'"
  then obtain f y where "m' = into_year f y m"
    unfolding accumulate_expense_def Let_def and_then_Inr sum.inject by blast
  then show "grows m m'" by (simp add: grows_def subset_insertI)
qed

text \<open>By the denial step the years of all dividends have entries.\<close>

lemma stages_have_years:
  fixes rates :: "'d::linordered_field fx_rates"
  assumes div: "db_franked_dividends C rates listings income_rows amma_rows = Inr (dividends, attached)"
    and m1: "try_foldl (accumulate_income D C rates) [] (db_assessable_cash_income C listings income_rows) = Inr m1"
    and m2: "try_foldl (accumulate_interest C rates) m1 interest = Inr m2"
    and m3: "try_foldl (accumulate_amma D C rates) m2 amma_rows = Inr m3"
    and m4: "accumulate_ess D C rates ineligible ess m3 = Inr m4"
    and m5: "try_foldl (accumulate_expense D C rates routing) m4 expenses = Inr m5"
  shows "\<forall>dv \<in> set dividends. attached (fd_tax_year dv) \<noteq> None \<and> fd_tax_year dv \<in> fst ` set m5"
proof
  fix dv assume dv: "dv \<in> set dividends"
  have "fd_tax_year dv \<in> fst ` set m1"
    using franked_years_in_income(1) [OF div dv] fold_adds(2) [OF m1 income_adds] by simp
  moreover have "grows m1 m2" by (rule fold_grows [OF m2], rule step_grows, rule interest_adds)
  moreover have "grows m2 m3" by (rule fold_grows [OF m3], rule step_grows, rule amma_adds)
  moreover have "grows m4 m5" by (rule fold_grows [OF m5], rule expense_grows)
  moreover have "grows m3 m4" using accumulate_ess_keeps [OF m4] by (simp add: grows_def)
  ultimately have "fd_tax_year dv \<in> fst ` set m5" unfolding grows_def by (meson subsetD)
  then show "attached (fd_tax_year dv) \<noteq> None \<and> fd_tax_year dv \<in> fst ` set m5"
    using franked_years_in_income(2) [OF div dv] by (rule conjI [rotated])
qed

section \<open>The denials and the at-risk report\<close>

text \<open>Walks as they come from well-formed tables.\<close>

definition walks_ok :: "'d::linordered_field holding_walks \<Rightarrow> bool" where
  "walks_ok walks \<longleftrightarrow> (\<forall>l w. walks l = Some w \<longrightarrow> splits_ok (lw_splits w) \<and> (\<forall>e \<in> set (lw_events w). 0 < ev_qty e))"

lemma denied_nonneg:
  assumes D: "decimal_laws D" and walks: "walks_ok walks" and c: "0 \<le> credits"
  shows "0 \<le> denied D (hp_test D walks listing ex_date) credits"
proof (cases "walks listing")
  case (Some w)
  let ?until = "ex_date + required_days walks listing"
  have "\<forall>e \<in> set (hp_events ?until None (lw_events w)). 0 < ev_qty e"
    using walks Some by (auto simp: walks_ok_def hp_events_def dest: in_set_takeD)
  moreover have "splits_ok (lw_splits w)" using walks Some by (simp add: walks_ok_def)
  ultimately show ?thesis
    using hp_test_facts [where sale = None and window_end = ?until and ex_date = ex_date and credits = credits
        and walks = walks and listing = listing and w = w and D = D] D Some c by (simp add: hp_test_def)
qed (simp add: hp_test_def test_with_sale_def denied_def)

lemma refused_is_reported:
  assumes D: "decimal_laws D" and walks: "walks_ok walks" and attached: "attached (fd_tax_year dv) \<noteq> None"
    and credits: "0 < fd_credits_aud dv" and alert: "at_risk_of D walks attached dv = Inr alert"
  shows "refused_of D attached walks dv = (case alert of None \<Rightarrow> 0 | Some a \<Rightarrow> fa_credits_denied a)"
    "\<forall>b. alert = Some b \<longrightarrow> fa_tax_year b = fd_tax_year dv"
proof -
  define test where "test = hp_test D walks (fd_listing_id dv) (fd_ex_date dv)"
  from attached obtain a where a: "attached (fd_tax_year dv) = Some a" by blast
  have nonneg: "0 \<le> denied D test (fd_credits_aud dv)"
    unfolding test_def using denied_nonneg [OF D walks] credits by simp
  then show "refused_of D attached walks dv = (case alert of None \<Rightarrow> 0 | Some a \<Rightarrow> fa_credits_denied a)"
    using alert by (auto simp: refused_of_def at_risk_of_def test_def [symmetric] Let_def a exempt_year_def denied_def
        split: if_splits)
  show "\<forall>b. alert = Some b \<longrightarrow> fa_tax_year b = fd_tax_year dv"
    using alert by (auto simp: at_risk_of_def Let_def result_simps split: if_splits)
qed

lemma at_risk_sum:
  assumes "try_map (at_risk_of D walks attached) dividends = Inr alerts"
    and "\<And>dv alert. dv \<in> set dividends \<Longrightarrow> at_risk_of D walks attached dv = Inr alert \<Longrightarrow>
      refused_of D attached walks dv = (case alert of None \<Rightarrow> 0 | Some a \<Rightarrow> fa_credits_denied a)
      \<and> (\<forall>a. alert = Some a \<longrightarrow> fa_tax_year a = fd_tax_year dv)"
  shows "sum_list (map fa_credits_denied (filter (\<lambda>a. fa_tax_year a = y) (concat (map (case_option [] (\<lambda>a. [a])) alerts))))
    = sum_list (map (refused_of D attached walks) (filter (\<lambda>dv. fd_tax_year dv = y) dividends))"
  using assms
proof (induction dividends arbitrary: alerts)
  case (Cons dv dividends)
  from Cons.prems(1) obtain alert rest where a: "at_risk_of D walks attached dv = Inr alert"
    "try_map (at_risk_of D walks attached) dividends = Inr rest" "alerts = alert # rest"
    by (auto simp: result_simps)
  have IH: "sum_list (map fa_credits_denied (filter (\<lambda>a. fa_tax_year a = y) (concat (map (case_option [] (\<lambda>a. [a])) rest))))
    = sum_list (map (refused_of D attached walks) (filter (\<lambda>dv. fd_tax_year dv = y) dividends))"
    by (rule Cons.IH [OF a(2)]) (use Cons.prems(2) in simp)
  show ?case using Cons.prems(2) [OF _ a(1)] IH by (cases alert) (auto simp: a(3))
qed simp

section \<open>Claims\<close>

text \<open>C4: the totals of the summary. A run that succeeds has one row for each year anything is
  recorded in, in ascending order. On each, the gross income is the sum of the assessable lines at
  the cent and the net is the gross less the deductions, which are in whole cents and add up both
  by kind of expense and by the label they are claimed at; the foreign tax offset is within the
  limit that needs no further working out.
\<close>

theorem summary_totals:
  assumes D: "decimal_laws D" and run: "db_tax_summary D C S = Inr rows"
  shows "sorted_wrt (<) (map ts_tax_year rows) \<and> set (map ts_tax_year rows) = recorded_years C S
    \<and> (\<forall>s \<in> set rows.
         ts_gross_assessable_investment_income s = sum_list (map (to_cents D) (assessable_lines s))
         \<and> ts_net_assessable_investment_income s
             = ts_gross_assessable_investment_income s - ts_deductions_total s
         \<and> on_grid 2 (ts_gross_assessable_investment_income s) \<and> on_grid 2 (ts_net_assessable_investment_income s)
         \<and> kinds_total s = ts_deductions_total s \<and> destinations_total s = ts_deductions_total s
         \<and> ts_foreign_tax_offsets s \<le> 1000)"
proof -
  from D run obtain dividends attached m where out: "outcome_of D C S dividends attached m rows"
    by (rule summary_outcome)
  then show ?thesis using outcome_years [OF out] outcome_row [OF D out] by blast
qed

text \<open>C12: no franking credit is lost: on every row of the summary the credits claimed and the
  credits denied are together the credits recorded for the year, by the fund's statements and by
  dividends and distributions, the denied ones are not negative, and in a year whose recorded
  credits are under the small-shareholder threshold none is denied.
\<close>

theorem credits_conserved:
  assumes D: "decimal_laws D" and run: "db_tax_summary D C S = Inr rows"
    and pos: "rates_positive (lg_rates (sl_ledger S))" and ok: "\<forall>i \<in> set (sl_income S). income_row_ok D C i"
    and s: "s \<in> set rows"
  shows "ts_franking_credits s + ts_franking_credits_denied s = recorded_credits C S (ts_tax_year s)
    \<and> 0 \<le> ts_franking_credits_denied s
    \<and> (recorded_credits C S (ts_tax_year s) < 5000 \<longrightarrow> ts_franking_credits_denied s = 0)"
proof -
  from D run obtain dividends attached m where out: "outcome_of D C S dividends attached m rows"
    and div: "db_franked_dividends C (lg_rates (sl_ledger S)) (amit_of S) (sl_income S) (sl_amma S) = Inr (dividends, attached)"
    by (rule summary_outcome)
  note credits = outcome_credits [OF out s]
  have "refused_of D attached walks dv = 0"
    if "recorded_credits C S (ts_tax_year s) < 5000" "dv \<in> set dividends" "fd_tax_year dv = ts_tax_year s" for walks dv
    using that franked_years_in_income(2) [OF div that(2)] attached_recorded [OF div pos ok, of "ts_tax_year s"]
    by (auto simp: refused_of_def year_total_def small_shareholder_threshold_aud_def decimal_laws.dnew_0_scale [OF D])
  then have "ts_franking_credits_denied s = 0" if "recorded_credits C S (ts_tax_year s) < 5000"
    unfolding credits(2) by (intro sum_list_zero) (use that in auto)
  then show ?thesis
    using credits(1) by (auto simp: credits(2) refused_nonneg intro!: sum_list_nonneg)
qed

text \<open>The summary cannot panic on a year it has no entry for: a reduction or a denial is only
  ever made in a year some row was added to, and every dividend's year has attached credits.
\<close>

theorem summary_years_present: "db_tax_summary D C S \<noteq> Inl (MissingSummaryYear y)"
proof -
  let ?rates = "lg_rates (sl_ledger S)"
  have "years_known (db_tax_summary D C S)"
    unfolding db_tax_summary_def Let_def
  proof (intro known_and_then)
    show "years_known (map_error SummaryFx (db_franked_dividends C ?rates (amit_of S) (sl_income S) (sl_amma S)))"
      by (auto simp: years_known_def map_error_Inl)
  next
    fix r assume "map_error SummaryFx (db_franked_dividends C ?rates (amit_of S) (sl_income S) (sl_amma S)) = Inr r"
    then obtain dividends attached where r: "r = (dividends, attached)"
      and div: "db_franked_dividends C ?rates (amit_of S) (sl_income S) (sl_amma S) = Inr (dividends, attached)"
      by (cases r) (auto simp: result_simps)
    show "years_known (case r of (dividends, attached) \<Rightarrow>
        and_then (try_foldl (accumulate_income D C ?rates) [] (db_assessable_cash_income C (amit_of S) (sl_income S))) (\<lambda>m1.
        and_then (try_foldl (accumulate_interest C ?rates) m1 (sl_interest S)) (\<lambda>m2.
        and_then (try_foldl (accumulate_amma D C ?rates) m2 (sl_amma S)) (\<lambda>m3.
        and_then (accumulate_ess D C ?rates (sl_ess_ineligible_years S) (sl_ess S) m3) (\<lambda>m4.
        and_then (try_foldl (accumulate_expense D C ?rates (load_routing (sl_listings S) (sl_income S))) m4 (sl_expenses S)) (\<lambda>m5.
        and_then (apply_franking_denials D attached (load_walks (sl_preference S) (sl_ledger S)) dividends m5) (\<lambda>m6.
        Inr (sort_key ts_tax_year (map (\<lambda>(y, s). total_line D (cap_foreign_offset D s)) m6)))))))))"
      unfolding r prod.case
      by (intro known_and_then known_denials stages_have_years [OF div] known_ess known_fold_plain
          known_income known_interest known_amma known_expense known_Inr)
  qed
  then show ?thesis by (simp add: years_known_def)
qed

text \<open>C27: the summary and the at-risk report agree: what the summary denies in a year is the sum of
  what the report says is denied of that year's dividends.
\<close>

theorem denials_are_reported:
  assumes D: "decimal_laws D" and run: "db_tax_summary D C S = Inr rows"
    and report: "db_franking_at_risk D C (sl_preference S) (amit_of S) (sl_ledger S) (sl_income S) (sl_amma S) = Inr alerts"
    and walks: "walks_ok (load_walks (sl_preference S) (sl_ledger S))" and s: "s \<in> set rows"
  shows "ts_franking_credits_denied s
    = sum_list (map fa_credits_denied (filter (\<lambda>a. fa_tax_year a = ts_tax_year s) alerts))"
proof -
  from D run obtain dividends attached m where out: "outcome_of D C S dividends attached m rows"
    and div: "db_franked_dividends C (lg_rates (sl_ledger S)) (amit_of S) (sl_income S) (sl_amma S) = Inr (dividends, attached)"
    by (rule summary_outcome)
  let ?walks = "load_walks (sl_preference S) (sl_ledger S)"
  from report obtain found where found: "try_map (at_risk_of D ?walks attached) dividends = Inr found"
    and alerts: "alerts = sort_key (\<lambda>a. (fa_ex_date a, fa_income_id a)) (concat (map (case_option [] (\<lambda>a. [a])) found))"
    by (auto simp: db_franking_at_risk_def div result_simps)
  have "sum_list (map fa_credits_denied (filter (\<lambda>a. fa_tax_year a = ts_tax_year s) (concat (map (case_option [] (\<lambda>a. [a])) found))))
      = sum_list (map (refused_of D attached ?walks) (filter (\<lambda>dv. fd_tax_year dv = ts_tax_year s) dividends))"
  proof (rule at_risk_sum [OF found])
    fix dv alert assume dv: "dv \<in> set dividends" and alert: "at_risk_of D ?walks attached dv = Inr alert"
    show "refused_of D attached ?walks dv = (case alert of None \<Rightarrow> 0 | Some a \<Rightarrow> fa_credits_denied a)
        \<and> (\<forall>a. alert = Some a \<longrightarrow> fa_tax_year a = fd_tax_year dv)"
      using refused_is_reported [OF D walks franked_years_in_income(2,3) [OF div dv] alert] by (rule conjI)
  qed
  then show ?thesis
    unfolding outcome_credits(2) [OF out s] alerts by (simp add: filter_sort sum_list_sort_key)
qed

section \<open>Examples\<close>

text \<open>
  A franked dividend on shares of which some were sold five days after the ex date, beside
  interest, a fund's statement and an expense.
\<close>

definition example_paid :: "rat income" where
  "example_paid = example_dividend\<lparr>in_id := 4, in_listing_id := 7, in_date_paid := 30, in_ex_date := Some 15,
     in_franked_amount := 17500, in_franking_credits := 7000, in_amount_per_security := None,
     in_securities_held := None\<rparr>"

definition example_interest :: "rat interest_row" where
  "example_interest = \<lparr>ir_date_paid = 40, ir_amount = 12, ir_tfn_withholding_tax = 0, ir_foreign_source = False,
     ir_foreign_tax_paid = 0, ir_currency = ''AUD''\<rparr>"

definition example_expense :: "rat expense_row" where
  "example_expense = \<lparr>ex_date_incurred = 50, ex_expense_type = ''AdviceFee'', ex_amount = 300, ex_currency = ''AUD'',
     ex_listing_id = Some 7\<rparr>"

definition example_books :: "rat summary_ledger" where
  "example_books = \<lparr>sl_ledger = example_ledger, sl_preference = (\<lambda>_. Some False),
     sl_listings = (\<lambda>_. Some \<lparr>li_amit = False, li_amit_from = None, li_currency = ''AUD''\<rparr>),
     sl_income = [example_paid], sl_interest = [example_interest], sl_amma = [], sl_ess = [],
     sl_ess_ineligible_years = {}, sl_expenses = [example_expense]\<rparr>"

lemma aud_kept:
  fixes rates :: "'d::linordered_field fx_rates"
  shows "fx_to_aud C rates v ''AUD'' d FxNone = Inr v" "aud_value C rates v ''AUD'' d = Inr v"
  by (simp_all add: aud_value_Inr fx_to_aud_def resolve_rate_def aud_code apply_rate_def)

lemma example_year: "tax_year_for gregorian 30 = 1" "tax_year_for gregorian 40 = 1" "tax_year_for gregorian 50 = 1"
  by code_simp+

lemma example_walks:
  "load_walks (\<lambda>_. Some False) example_ledger 7 = Some \<lparr>lw_preference = False,
     lw_events = [\<lparr>ev_sell = False, ev_date = 10, ev_qty = 100\<rparr>, \<lparr>ev_sell = False, ev_date = 10, ev_qty = 40\<rparr>,
       \<lparr>ev_sell = True, ev_date = 20, ev_qty = 80\<rparr>], lw_splits = []\<rparr>"
  by (simp add: load_walks_def walked_trade_def walk_event_def example_ledger_def example_buy_def units_simps)

lemma no_splits: "ua_quantity (rebased ref_dec (units_at_new q d) [] t) = q"
  by (simp add: rebased_def units_at_new_def ref.rebase_val splits_ok_def cum_factor_def)

lemma example_refused: "denied ref_dec (hp_test ref_dec (load_walks (\<lambda>_. Some False) example_ledger) 7 15) 7000 = 4000"
  by (simp add: hp_test_def test_with_sale_def example_walks required_days_def hp_events_def events_through_def Let_def
      hp_step_def hp_start_def hp_snapshot_def hp_sell.simps denied_def ref.mul_div_eq no_splits)


lemma example_franked:
  "db_franked_dividends gregorian (lg_rates example_ledger) (amit_of example_books) [example_paid] [] =
     Inr ([\<lparr>fd_income_id = 4, fd_tax_year = 1, fd_listing_id = 7, fd_date_paid = 30, fd_ex_date = 15,
            fd_ex_date_recorded = True, fd_credits_aud = 7000, fd_trust_income = False\<rparr>], [1 \<mapsto> 7000])"
  by (simp add: db_franked_dividends_def db_assessable_cash_income_def amit_of_def example_books_def amit_in_tax_year_def
      franked_step_def assessment_date_def example_paid_def example_dividend_def ex_or_pay_date_def ex_date_recorded_def
      aud_kept example_year add_year_def)

lemma example_assessable: "db_assessable_cash_income gregorian (amit_of example_books) [example_paid] = [example_paid]"
  by (simp add: db_assessable_cash_income_def amit_of_def example_books_def amit_in_tax_year_def)

lemma into_year_lookup: "map_of (into_year f y m) z = (if z = y then Some (f (year_entry m y)) else map_of m z)"
  by (simp add: into_year_def update_conv')

lemma example_books_simps [simp]:
  "sl_ledger example_books = example_ledger" "sl_preference example_books = (\<lambda>_. Some False)"
  "sl_income example_books = [example_paid]" "sl_interest example_books = [example_interest]"
  "sl_amma example_books = []" "sl_ess example_books = []" "sl_expenses example_books = [example_expense]"
  by (simp_all add: example_books_def)

lemma example_paid_simps:
  "in_currency example_paid = ''AUD''" "assessment_date example_paid = 30" "in_franking_credits example_paid = 7000"
  "in_income_type example_paid = Dividend"
  by (simp_all add: example_paid_def example_dividend_def assessment_date_def)

lemma example_run: "\<exists>rows. db_tax_summary ref_dec gregorian example_books = Inr rows"
  by (simp add: db_tax_summary_def example_franked example_assessable Let_def accumulate_income_def example_paid_simps
      aud_kept example_year accumulate_interest_def example_interest_def
      accumulate_ess_def accumulate_expense_def example_expense_def expense_type_of_def apply_franking_denials_def
      deny_credits_def example_refused small_shareholder_threshold_aud_def into_year_lookup ref.dnew_0_scale)

text \<open>Of the seven thousand dollars of credits, four thousand go with the shares sold too soon.\<close>

lemma example_denied:
  "\<exists>rows s. db_tax_summary ref_dec gregorian example_books = Inr rows \<and> s \<in> set rows \<and> ts_tax_year s = 1"
proof -
  obtain rows where run: "db_tax_summary ref_dec gregorian example_books = Inr rows" using example_run by blast
  obtain dividends attached m where out: "outcome_of ref_dec gregorian example_books dividends attached m rows"
    by (rule summary_outcome [OF ref.decimal_laws_axioms run])
  have "1 \<in> recorded_years gregorian example_books"
    by (simp add: recorded_years_def example_interest_def example_year)
  then have "1 \<in> ts_tax_year ` set rows" using outcome_years(2) [OF out] by simp
  then show ?thesis using run by (metis imageE)
qed

theorem summary_totals_witness:
  "\<exists>rows s. db_tax_summary ref_dec gregorian example_books = Inr rows \<and> s \<in> set rows \<and> ts_tax_year s = 1
     \<and> sorted_wrt (<) (map ts_tax_year rows) \<and> ts_foreign_tax_offsets s \<le> 1000
     \<and> ts_gross_assessable_investment_income s = sum_list (map (to_cents ref_dec) (assessable_lines s))"
proof -
  obtain rows s where s: "db_tax_summary ref_dec gregorian example_books = Inr rows" "s \<in> set rows" "ts_tax_year s = 1"
    using example_denied by blast
  from summary_totals [OF ref.decimal_laws_axioms s(1)] s show ?thesis by (intro exI conjI) auto
qed

lemma example_row_ok: "income_row_ok ref_dec gregorian example_paid"
proof -
  have m: "maximum_franking_credit ref_dec 17500 = 7500"
    by (simp add: maximum_franking_credit_def ref.mul_div_eq ref_round_def floor_eq_iff)
  have "credit_above_ceiling ref_dec gregorian 17500 7000 30 = None"
    by (simp add: credit_above_ceiling_def credit_ceiling_def m tolerance_def Let_def ref_round_def
        thirty_percent_rate_from_def greg_ymd_def year_start_def month_offset_def leap_def floor_eq_iff)
  then show ?thesis
    by (simp add: income_row_ok_def amounts_ok_def example_paid_def example_dividend_def below_zero_def per_share_ok_def)
qed

theorem credits_conserved_witness:
  "\<exists>rows s. db_tax_summary ref_dec gregorian example_books = Inr rows \<and> s \<in> set rows
     \<and> ts_franking_credits s + ts_franking_credits_denied s = 7000"
proof -
  obtain rows s where s: "db_tax_summary ref_dec gregorian example_books = Inr rows" "s \<in> set rows" "ts_tax_year s = 1"
    using example_denied by blast
  have pos: "rates_positive (lg_rates (sl_ledger example_books))"
    by (simp add: rates_positive_def example_ledger_def)
  have ok: "\<forall>i \<in> set (sl_income example_books). income_row_ok ref_dec gregorian i" by (simp add: example_row_ok)
  have total: "recorded_credits gregorian example_books 1 = 7000"
    by (simp add: recorded_credits_def example_assessable income_credit_def credit_aud_def example_paid_simps
        example_year aud_kept)
  from credits_conserved [OF ref.decimal_laws_axioms s(1) pos ok s(2)] s total show ?thesis by (intro exI conjI) auto
qed

theorem denials_are_reported_witness:
  "\<exists>rows s alerts. db_tax_summary ref_dec gregorian example_books = Inr rows \<and> s \<in> set rows
     \<and> db_franking_at_risk ref_dec gregorian (\<lambda>_. Some False) (amit_of example_books) example_ledger [example_paid] []
         = Inr alerts
     \<and> map fa_credits_denied alerts = [4000] \<and> ts_franking_credits_denied s = 4000"
proof -
  obtain rows s where s: "db_tax_summary ref_dec gregorian example_books = Inr rows" "s \<in> set rows" "ts_tax_year s = 1"
    using example_denied by blast
  obtain alert where alert: "at_risk_of ref_dec (load_walks (\<lambda>_. Some False) example_ledger) [1 \<mapsto> 7000]
      \<lparr>fd_income_id = 4, fd_tax_year = 1, fd_listing_id = 7, fd_date_paid = 30, fd_ex_date = 15,
       fd_ex_date_recorded = True, fd_credits_aud = 7000, fd_trust_income = False\<rparr> = Inr (Some alert)"
    "fa_credits_denied alert = 4000" "fa_tax_year alert = 1"
  proof -
    have "hp_disqualified_units (hp_test ref_dec (load_walks (\<lambda>_. Some False) example_ledger) 7 15) \<noteq> 0"
      using example_refused by (auto simp: denied_def)
    then show thesis
      by (intro that) (auto simp: at_risk_of_def Let_def exempt_year_def example_refused small_shareholder_threshold_aud_def
          ref.dnew_0_scale)
  qed
  then have report: "db_franking_at_risk ref_dec gregorian (sl_preference example_books) (amit_of example_books)
      (sl_ledger example_books) (sl_income example_books) (sl_amma example_books) = Inr [alert]"
    by (simp add: db_franking_at_risk_def example_franked)
  have walks: "walks_ok (load_walks (sl_preference example_books) (sl_ledger example_books))"
    by (auto simp: walks_ok_def load_walks_def walk_event_def splits_ok_def example_ledger_def example_buy_def units_simps
        split: option.splits if_splits)
  from denials_are_reported [OF ref.decimal_laws_axioms s(1) report walks s(2)] s alert report show ?thesis
    by (intro exI [of _ rows] exI [of _ s] exI [of _ "[alert]"]) simp
qed

end
