(* ===== verification/Lockout.thy ===== *)
theory Lockout
  imports Prelude "HOL-Library.Word"
begin

text \<open>
  \<open>src/src/infra/auth.rs\<close>, the failed-login lockout: the source an attempt is counted against,
  the tracker's state and operations, and the system they form with the clock as a step
  relation. An \<open>Instant\<close> and a \<open>Duration\<close> are nanoseconds; the theorems at the end bound the
  guesses of one source and of all of them in any run of the system.
\<close>

section \<open>Sources\<close>

datatype ip_addr = IpV4 "32 word" | IpV6 "128 word"

datatype source = SourceV4 "32 word" | SourceV6Prefix "128 word" | SourceUnknown

fun source_of_ip :: "ip_addr option \<Rightarrow> source" where
  "source_of_ip (Some (IpV4 v4)) = SourceV4 v4"
| "source_of_ip (Some (IpV6 v6)) = SourceV6Prefix (push_bit 64 (drop_bit 64 v6))"
| "source_of_ip None = SourceUnknown"

text \<open>
  \<open>forwarded\<close> is the last entry of the last \<open>X-Forwarded-For\<close> line, where it is an address.
\<close>

definition login_source :: "ip_addr list \<Rightarrow> ip_addr option \<Rightarrow> ip_addr option \<Rightarrow> source" where
  "login_source trusted forwarded peer =
     (case peer of
        None \<Rightarrow> SourceUnknown
      | Some address \<Rightarrow>
          if address \<notin> set trusted then source_of_ip (Some address)
          else source_of_ip (Some (case forwarded of None \<Rightarrow> address | Some f \<Rightarrow> f)))"

section \<open>The tracker\<close>

type_synonym instant = nat

record source_state =
  ss_failures :: nat
  ss_window_started :: instant
  ss_last_seen :: instant
  ss_locked_until :: "instant option"

datatype bound = BySource | ByCeiling

datatype attempt = Allowed | Refused nat bound

record lockout_policy =
  lp_budget :: nat
  lp_window :: nat
  lp_cooldown :: nat
  lp_max_sources :: nat
  lp_global_ceiling :: nat
  lp_global_window :: nat

definition nanos :: nat where
  "nanos = 1000000000"

definition production :: lockout_policy where
  "production = \<lparr>lp_budget = 5, lp_window = 15 * 60 * nanos, lp_cooldown = 5 * 60 * nanos,
     lp_max_sources = 4096, lp_global_ceiling = 100, lp_global_window = 60 * 60 * nanos\<rparr>"

text \<open>The hash map is an association list; of several least-recently-seen sources it yields one.\<close>

record tracker =
  tr_sources :: "(source \<times> source_state) list"
  tr_recent :: "instant list"

definition new_tracker :: tracker where
  "new_tracker = \<lparr>tr_sources = [], tr_recent = []\<rparr>"

definition ceil_secs :: "nat \<Rightarrow> nat" where
  "ceil_secs remaining = remaining div nanos + (if remaining mod nanos > 0 then 1 else 0)"

definition locked_at :: "instant \<Rightarrow> source_state \<Rightarrow> bool" where
  "locked_at now e = (case ss_locked_until e of None \<Rightarrow> False | Some until \<Rightarrow> now < until)"

definition prune :: "instant \<Rightarrow> nat \<Rightarrow> (source \<times> source_state) list \<Rightarrow> (source \<times> source_state) list" where
  "prune now window sources =
     filter (\<lambda>(_, e). locked_at now e \<or> now - ss_window_started e < window) sources"

fun oldest_source :: "(source \<times> source_state) list \<Rightarrow> source option" where
  "oldest_source [] = None"
| "oldest_source ((s, e) # rest) =
     (if \<forall>(_, f) \<in> set rest. ss_last_seen e \<le> ss_last_seen f then Some s else oldest_source rest)"

definition evict_oldest :: "(source \<times> source_state) list \<Rightarrow> (source \<times> source_state) list" where
  "evict_oldest sources =
     (case oldest_source sources of None \<Rightarrow> sources | Some s \<Rightarrow> AList.delete s sources)"

definition make_room ::
    "lockout_policy \<Rightarrow> instant \<Rightarrow> source \<Rightarrow> (source \<times> source_state) list \<Rightarrow> (source \<times> source_state) list" where
  "make_room P now s sources =
     (if map_of sources s \<noteq> None then sources
      else (let kept = prune now (lp_window P) sources
            in if lp_max_sources P \<le> length kept then evict_oldest kept else kept))"

text \<open>The entry after its lockout and its streak have been looked at, and the refusal if it is locked.\<close>

definition fresh_source :: "instant \<Rightarrow> source_state" where
  "fresh_source now =
     \<lparr>ss_failures = 0, ss_window_started = now, ss_last_seen = now, ss_locked_until = None\<rparr>"

definition settle_entry :: "lockout_policy \<Rightarrow> instant \<Rightarrow> source_state \<Rightarrow> nat + source_state" where
  "settle_entry P now e =
     (case ss_locked_until e of
        Some until \<Rightarrow>
          if now < until then Inl (ceil_secs (until - now))
          else Inr (e\<lparr>ss_locked_until := None, ss_failures := 0\<rparr>)
      | None \<Rightarrow>
          if lp_window P \<le> now - ss_window_started e then Inr (e\<lparr>ss_failures := 0\<rparr>) else Inr e)"

definition count_attempt :: "lockout_policy \<Rightarrow> instant \<Rightarrow> source_state \<Rightarrow> source_state" where
  "count_attempt P now e =
     (let e1 = e\<lparr>ss_failures := ss_failures e + 1, ss_window_started := now\<rparr>
      in if lp_budget P \<le> ss_failures e1 then e1\<lparr>ss_locked_until := Some (now + lp_cooldown P)\<rparr> else e1)"

definition begin_attempt :: "lockout_policy \<Rightarrow> instant \<Rightarrow> source \<Rightarrow> tracker \<Rightarrow> attempt \<times> tracker" where
  "begin_attempt P now s t =
     (let sources = make_room P now s (tr_sources t);
          entry = (case map_of sources s of None \<Rightarrow> fresh_source now | Some e \<Rightarrow> e)\<lparr>ss_last_seen := now\<rparr>
      in (case settle_entry P now entry of
            Inl secs \<Rightarrow> (Refused secs BySource, t\<lparr>tr_sources := AList.update s entry sources\<rparr>)
          | Inr e \<Rightarrow>
              (let recent = dropWhile (\<lambda>i. lp_global_window P \<le> now - i) (tr_recent t)
               in if lp_global_ceiling P \<le> length recent
                  then (let oldest = (case recent of [] \<Rightarrow> now | i # _ \<Rightarrow> i);
                            until = oldest + lp_global_window P
                        in (Refused (max (ceil_secs (until - now)) 1) ByCeiling,
                            t\<lparr>tr_sources := AList.update s e sources, tr_recent := recent\<rparr>))
                  else (Allowed, \<lparr>tr_sources = AList.update s (count_attempt P now e) sources,
                                  tr_recent = recent @ [now]\<rparr>))))"

definition record_success :: "source \<Rightarrow> tracker \<Rightarrow> tracker" where
  "record_success s t = \<lparr>tr_sources = AList.delete s (tr_sources t), tr_recent = butlast (tr_recent t)\<rparr>"

section \<open>The system\<close>

text \<open>
  Time passes, an attempt arrives, or an attempt that was let through turns out to have the
  right password. Any number of attempts may be under verification at once, so a success may
  come at any time after its attempt; nothing is assumed about when.
\<close>

datatype login_event = Tick nat | Tried source attempt | Succeeded source

inductive step :: "lockout_policy \<Rightarrow> instant \<times> tracker \<Rightarrow> login_event \<Rightarrow> instant \<times> tracker \<Rightarrow> bool"
  for P where
  tick: "step P (now, t) (Tick d) (now + d, t)"
| tried: "begin_attempt P now s t = (a, t') \<Longrightarrow> step P (now, t) (Tried s a) (now, t')"
| succeeded: "step P (now, t) (Succeeded s) (now, record_success s t)"

inductive_cases step_tick: "step P c (Tick d) c'"
inductive_cases step_tried: "step P c (Tried s a) c'"
inductive_cases step_succeeded: "step P c (Succeeded s) c'"
inductive_simps step_simps: "step P (now, t) ev c'"

inductive run :: "lockout_policy \<Rightarrow> instant \<times> tracker \<Rightarrow> login_event list \<Rightarrow> instant \<times> tracker \<Rightarrow> bool"
  for P where
  stop: "run P c [] c"
| more: "run P c evs c' \<Longrightarrow> step P c' ev c'' \<Longrightarrow> run P c (evs @ [ev]) c''"

text \<open>The same system as a function, to run concrete histories.\<close>

fun play_step :: "lockout_policy \<Rightarrow> login_event \<Rightarrow> instant \<times> tracker \<Rightarrow> (instant \<times> tracker) option" where
  "play_step P (Tick d) (now, t) = Some (now + d, t)"
| "play_step P (Tried s a) (now, t) =
     (let (a', t') = begin_attempt P now s t in if a' = a then Some (now, t') else None)"
| "play_step P (Succeeded s) (now, t) = Some (now, record_success s t)"

fun play :: "lockout_policy \<Rightarrow> login_event list \<Rightarrow> instant \<times> tracker \<Rightarrow> (instant \<times> tracker) option" where
  "play P [] c = Some c"
| "play P (ev # evs) c = (case play_step P ev c of None \<Rightarrow> None | Some c' \<Rightarrow> play P evs c')"

lemma step_play: "step P c ev c' \<longleftrightarrow> play_step P ev c = Some c'"
  by (cases c; cases ev) (auto simp: step_simps split: prod.splits)

lemma play_snoc: "play P (evs @ [ev]) c = (case play P evs c of None \<Rightarrow> None | Some c' \<Rightarrow> play_step P ev c')"
  by (induction evs arbitrary: c) (auto split: option.splits)

lemma run_play: "run P c evs c' \<longleftrightarrow> play P evs c = Some c'"
proof
  show "run P c evs c' \<Longrightarrow> play P evs c = Some c'"
    by (induction rule: run.induct) (simp_all add: play_snoc step_play)
  show "play P evs c = Some c' \<Longrightarrow> run P c evs c'"
  proof (induction evs arbitrary: c' rule: rev_induct)
    case (snoc ev evs)
    then show ?case by (auto simp: play_snoc step_play split: option.splits intro: run.more)
  qed (simp add: run.stop)
qed

definition allowed_of :: "source \<Rightarrow> login_event list \<Rightarrow> nat" where
  "allowed_of s evs = length (filter (\<lambda>ev. ev = Tried s Allowed) evs)"

definition allowed_all :: "login_event list \<Rightarrow> nat" where
  "allowed_all evs = length (filter (\<lambda>ev. \<exists>s. ev = Tried s Allowed) evs)"

definition successes :: "login_event list \<Rightarrow> nat" where
  "successes evs = length (filter (\<lambda>ev. \<exists>s. ev = Succeeded s) evs)"

definition sources_of :: "login_event list \<Rightarrow> source set" where
  "sources_of evs = {s. \<exists>a. Tried s a \<in> set evs}"


section \<open>Reachable states\<close>

definition policy_ok :: "lockout_policy \<Rightarrow> bool" where
  "policy_ok P \<longleftrightarrow> 0 < lp_budget P \<and> 0 < lp_max_sources P \<and> 0 < lp_global_ceiling P"

text \<open>An entry is either short of the budget, or exactly at it and locked since its last count.\<close>

definition entry_ok :: "lockout_policy \<Rightarrow> instant \<Rightarrow> source_state \<Rightarrow> bool" where
  "entry_ok P now e \<longleftrightarrow>
     ss_window_started e \<le> now \<and> ss_last_seen e \<le> now
     \<and> (case ss_locked_until e of
          None \<Rightarrow> ss_failures e < lp_budget P
        | Some until \<Rightarrow> ss_failures e = lp_budget P \<and> until = ss_window_started e + lp_cooldown P)"

definition tracker_ok :: "lockout_policy \<Rightarrow> instant \<Rightarrow> tracker \<Rightarrow> bool" where
  "tracker_ok P now t \<longleftrightarrow>
     distinct (map fst (tr_sources t)) \<and> length (tr_sources t) \<le> lp_max_sources P
     \<and> (\<forall>(s, e) \<in> set (tr_sources t). entry_ok P now e)
     \<and> length (tr_recent t) \<le> lp_global_ceiling P \<and> sorted (tr_recent t) \<and> (\<forall>i \<in> set (tr_recent t). i \<le> now)"

lemma entry_ok_later: "entry_ok P now e \<Longrightarrow> now \<le> later \<Longrightarrow> entry_ok P later e"
  by (auto simp: entry_ok_def)

lemma update_set_old: "x \<in> set al \<Longrightarrow> fst x \<noteq> k \<Longrightarrow> x \<in> set (AList.update k v al)"
  by (induction al) auto

lemma update_length: "length (AList.update k v al) = (if k \<in> fst ` set al then length al else Suc (length al))"
  by (induction al) auto

lemma delete_length:
  assumes "distinct (map fst al)" and "k \<in> fst ` set al"
  shows "Suc (length (AList.delete k al)) = length al"
  using assms
proof (induction al)
  case (Cons x al)
  show ?case
  proof (cases "fst x = k")
    case True
    then have "k \<notin> fst ` set al" using Cons.prems(1) by (auto simp: image_iff)
    then show ?thesis using True by (cases x) (simp add: delete_id)
  next
    case False
    then show ?thesis using Cons by (cases x) auto
  qed
qed simp

lemma delete_length_le: "length (AList.delete k al) \<le> length al"
  by (simp add: AList.delete_eq)

lemma delete_set: "set (AList.delete k al) = {x \<in> set al. fst x \<noteq> k}"
  by (auto simp: AList.delete_eq)

lemma delete_distinct: "distinct (map fst al) \<Longrightarrow> distinct (map fst (AList.delete k al))"
  by (simp add: AList.delete_eq distinct_map_filter)

lemma oldest_source_in: "al \<noteq> [] \<Longrightarrow> \<exists>s. oldest_source al = Some s \<and> s \<in> fst ` set al"
proof (induction al rule: oldest_source.induct)
  case (2 s e rest)
  then show ?case by (cases "rest = []") auto
qed simp

lemma prune_props:
  "set (prune now w al) \<subseteq> set al" "distinct (map fst al) \<Longrightarrow> distinct (map fst (prune now w al))"
  "length (prune now w al) \<le> length al"
  by (auto simp: prune_def distinct_map_filter)

lemma make_room_props:
  assumes "distinct (map fst al)" and "length al \<le> lp_max_sources P" and "0 < lp_max_sources P"
  shows "set (make_room P now s al) \<subseteq> set al" "distinct (map fst (make_room P now s al))"
    and "length (AList.update s e (make_room P now s al)) \<le> lp_max_sources P"
proof -
  define kept where "kept = prune now (lp_window P) al"
  have kept: "set kept \<subseteq> set al" "distinct (map fst kept)" "length kept \<le> lp_max_sources P"
    using prune_props(1,2) [where al = al] assms(1) order_trans [OF prune_props(3) assms(2)] by (auto simp: kept_def)
  show "set (make_room P now s al) \<subseteq> set al" "distinct (map fst (make_room P now s al))"
    using kept(1,2) assms(1)
    by (auto simp: make_room_def Let_def kept_def [symmetric] evict_oldest_def delete_set delete_distinct
        split: option.splits)
  show "length (AList.update s e (make_room P now s al)) \<le> lp_max_sources P"
  proof (cases "map_of al s = None")
    case True
    show ?thesis
    proof (cases "lp_max_sources P \<le> length kept")
      case full: True
      then have "kept \<noteq> []" using assms(3) by auto
      from oldest_source_in [OF this] obtain old where old: "oldest_source kept = Some old" "old \<in> fst ` set kept" by blast
      have "Suc (length (AList.delete old kept)) = length kept" by (rule delete_length [OF kept(2) old(2)])
      then show ?thesis using True full kept(3) old(1)
        by (simp add: make_room_def Let_def kept_def [symmetric] evict_oldest_def update_length)
    next
      case False
      then show ?thesis using True by (simp add: make_room_def Let_def kept_def [symmetric] update_length)
    qed
  next
    case False
    then have "s \<in> fst ` set al" by (force dest: map_of_SomeD)
    then show ?thesis using False assms(2) by (simp add: make_room_def update_length)
  qed
qed

lemma settle_entry_ok:
  assumes "settle_entry P now e = Inr e'" and "entry_ok P now e" and "0 < lp_budget P"
  shows "ss_locked_until e' = None \<and> ss_failures e' < lp_budget P \<and> ss_window_started e' = ss_window_started e
    \<and> ss_last_seen e' = ss_last_seen e"
  using assms by (auto simp: settle_entry_def entry_ok_def split: option.splits if_splits)

lemma count_attempt_ok:
  assumes "ss_locked_until e = None" and "ss_failures e < lp_budget P" and "ss_last_seen e \<le> now"
  shows "entry_ok P now (count_attempt P now e)"
  using assms by (auto simp: count_attempt_def entry_ok_def Let_def)

lemma tracker_ok_update:
  assumes "tracker_ok P now t" and "policy_ok P" and "entry_ok P now e"
    and "length (tr_recent t') \<le> lp_global_ceiling P" "sorted (tr_recent t')" "\<forall>i \<in> set (tr_recent t'). i \<le> now"
    and "tr_sources t' = AList.update s e (make_room P now s (tr_sources t))"
  shows "tracker_ok P now t'"
proof -
  have t: "distinct (map fst (tr_sources t))" "length (tr_sources t) \<le> lp_max_sources P" "0 < lp_max_sources P"
    and all: "\<forall>(s, e) \<in> set (tr_sources t). entry_ok P now e"
    using assms(1,2) by (simp_all add: tracker_ok_def policy_ok_def)
  note room = make_room_props [OF t, where now = now and s = s]
  have "set (tr_sources t') \<subseteq> insert (s, e) (set (tr_sources t))"
    using set_update_sub [of s e] room(1) assms(7) by auto
  then have "\<forall>(s, e) \<in> set (tr_sources t'). entry_ok P now e"
    using all assms(3) by blast
  then show ?thesis
    using room(2,3) assms(4-7) by (simp add: tracker_ok_def distinct_update)
qed

text \<open>The outcomes of an attempt, each with the state it leaves.\<close>

lemma begin_attempt_cases:
  assumes "begin_attempt P now s t = (a, t')"
  defines "room \<equiv> make_room P now s (tr_sources t)"
  defines "entry \<equiv> (case map_of room s of None \<Rightarrow> fresh_source now | Some e \<Rightarrow> e)\<lparr>ss_last_seen := now\<rparr>"
  defines "recent \<equiv> dropWhile (\<lambda>i. lp_global_window P \<le> now - i) (tr_recent t)"
  obtains
    (locked) secs where "settle_entry P now entry = Inl secs" "a = Refused secs BySource"
      "tr_sources t' = AList.update s entry room" "tr_recent t' = tr_recent t"
  | (full) e where "settle_entry P now entry = Inr e" "lp_global_ceiling P \<le> length recent"
      "a = Refused (max (ceil_secs ((case recent of [] \<Rightarrow> now | i # _ \<Rightarrow> i) + lp_global_window P - now)) 1) ByCeiling"
      "tr_sources t' = AList.update s e room" "tr_recent t' = recent"
  | (allowed) e where "settle_entry P now entry = Inr e" "length recent < lp_global_ceiling P" "a = Allowed"
      "tr_sources t' = AList.update s (count_attempt P now e) room" "tr_recent t' = recent @ [now]"
proof (cases "settle_entry P now entry")
  case (Inl secs)
  then show ?thesis
    using assms(1) locked by (auto simp: begin_attempt_def Let_def room_def entry_def)
next
  case (Inr e)
  then show ?thesis
    using assms(1) full allowed
    by (cases "lp_global_ceiling P \<le> length recent")
       (auto simp: begin_attempt_def Let_def room_def entry_def recent_def)
qed

lemma begin_attempt_ok:
  assumes ok: "tracker_ok P now t" and P: "policy_ok P" and ba: "begin_attempt P now s t = (a, t')"
  shows "tracker_ok P now t'"
proof -
  have t: "distinct (map fst (tr_sources t))" "length (tr_sources t) \<le> lp_max_sources P" "0 < lp_max_sources P"
    and r: "length (tr_recent t) \<le> lp_global_ceiling P" "sorted (tr_recent t)" "\<forall>i \<in> set (tr_recent t). i \<le> now"
    using ok P by (simp_all add: tracker_ok_def policy_ok_def)
  have budget: "0 < lp_budget P" using P by (simp add: policy_ok_def)
  let ?room = "make_room P now s (tr_sources t)"
  have "entry_ok P now e" if "map_of ?room s = Some e" for e
    using map_of_SomeD [OF that] make_room_props(1) [OF t, where now = now and s = s] ok
    by (auto simp: tracker_ok_def)
  then have entry: "entry_ok P now ((case map_of ?room s of None \<Rightarrow> fresh_source now | Some e \<Rightarrow> e)\<lparr>ss_last_seen := now\<rparr>)"
    using budget by (auto simp: entry_ok_def fresh_source_def split: option.splits)
  note settled = settle_entry_ok [OF _ entry budget]
  let ?recent = "dropWhile (\<lambda>i. lp_global_window P \<le> now - i) (tr_recent t)"
  have recent: "length ?recent \<le> lp_global_ceiling P" "sorted ?recent" "\<forall>i \<in> set ?recent. i \<le> now"
    using r order_trans [OF length_dropWhile_le r(1)] by (auto simp: sorted_dropWhile dest: set_dropWhileD)
  from ba show ?thesis
  proof (cases rule: begin_attempt_cases)
    case (locked secs)
    show ?thesis by (rule tracker_ok_update [OF ok P entry _ _ _ locked(3)]) (simp_all add: locked(4) r)
  next
    case (full e)
    have "entry_ok P now e" using settled [OF full(1)] entry by (simp add: entry_ok_def)
    then show ?thesis by (rule tracker_ok_update [OF ok P _ _ _ _ full(4)]) (simp_all add: full(5) recent)
  next
    case (allowed e)
    have "entry_ok P now (count_attempt P now e)"
      using settled [OF allowed(1)] entry by (intro count_attempt_ok) (auto simp: entry_ok_def)
    then show ?thesis
      using allowed(2) recent
      by (intro tracker_ok_update [OF ok P _ _ _ _ allowed(4)]) (auto simp: allowed(5) sorted_append)
  qed
qed

lemma step_ok:
  assumes "step P (now, t) ev (now', t')" and "tracker_ok P now t" and "policy_ok P"
  shows "tracker_ok P now' t' \<and> now \<le> now'"
  using assms(1)
proof (cases rule: step.cases)
  case (tick d)
  then show ?thesis using assms(2) entry_ok_later [of P now] by (fastforce simp: tracker_ok_def)
next
  case (tried s a)
  then show ?thesis using begin_attempt_ok [OF assms(2,3)] by simp
next
  case (succeeded s)
  then show ?thesis
    using assms(2) order_trans [OF delete_length_le, of "tr_sources t" "lp_max_sources P"]
    by (auto simp: tracker_ok_def record_success_def delete_distinct delete_set sorted_butlast
        dest: in_set_butlastD)
qed

lemma run_ok:
  "run P c evs c' \<Longrightarrow> policy_ok P \<Longrightarrow> tracker_ok P (fst c) (snd c) \<Longrightarrow> tracker_ok P (fst c') (snd c') \<and> fst c \<le> fst c'"
proof (induction rule: run.induct)
  case (more c evs c' ev c'')
  then show ?case using step_ok [of P "fst c'" "snd c'" ev "fst c''" "snd c''"] by simp
qed simp

lemma new_tracker_ok: "tracker_ok P now new_tracker"
  by (simp add: tracker_ok_def new_tracker_def)


section \<open>What one attempt does\<close>

text \<open>The entry a tracked source keeps through the pruning and the eviction another one's attempt causes.\<close>

lemma make_room_keeps:
  assumes "map_of al s = Some e" and "distinct (map fst al)"
    and room: "length al < lp_max_sources P \<or> s = s'" and "0 < lp_window P"
    and live: "locked_at now e \<or> now - ss_window_started e < lp_window P"
  shows "map_of (make_room P now s' al) s = Some e"
proof (cases "map_of al s' = None")
  case True
  then have "length al < lp_max_sources P" using room assms(1) by auto
  then have short: "\<not> lp_max_sources P \<le> length (prune now (lp_window P) al)"
    using prune_props(3) [of now "lp_window P" al] by simp
  have "(s, e) \<in> set (prune now (lp_window P) al)"
    using map_of_SomeD [OF assms(1)] live by (simp add: prune_def)
  then have "map_of (prune now (lp_window P) al) s = Some e"
    using prune_props(2) [OF assms(2)] by (simp add: map_of_eq_Some_iff)
  then show ?thesis using True short by (simp add: make_room_def Let_def)
qed (use assms(1) in \<open>simp add: make_room_def\<close>)

lemma update_lookup: "map_of (AList.update k v al) s = (if s = k then Some v else map_of al s)"
  by (simp add: update_conv')

lemma delete_lookup: "s \<noteq> k \<Longrightarrow> map_of (AList.delete k al) s = map_of al s"
  by (simp add: delete_conv')

lemma begin_attempt_tracked:
  assumes "begin_attempt P now s t = (a, t')"
  shows "fst ` set (tr_sources t') \<subseteq> insert s (fst ` set (tr_sources t))"
proof -
  have prune: "fst ` set (prune now (lp_window P) al) \<subseteq> fst ` set al" for al
    by (auto simp: prune_def)
  have room: "fst ` set (make_room P now s (tr_sources t)) \<subseteq> fst ` set (tr_sources t)"
    using prune [of "tr_sources t"]
    by (auto simp: make_room_def Let_def evict_oldest_def delete_set split: option.splits)
  have kept: "fst ` set (AList.update s e (make_room P now s (tr_sources t)))
      \<subseteq> insert s (fst ` set (tr_sources t))" for e
    unfolding dom_update insert_is_Un [symmetric] by (rule insert_mono [OF room])
  from assms show ?thesis
  proof (cases rule: begin_attempt_cases)
    case (locked secs)
    show ?thesis unfolding locked(3) by (rule kept)
  next
    case (full e)
    show ?thesis unfolding full(4) by (rule kept)
  next
    case (allowed e)
    show ?thesis unfolding allowed(4) by (rule kept)
  qed
qed


section \<open>One source's budget\<close>

text \<open>What the tracker knows of a source after \<open>n\<close> of its attempts were let through since \<open>start\<close>.\<close>

definition counted :: "instant \<Rightarrow> source \<Rightarrow> nat \<Rightarrow> tracker \<Rightarrow> bool" where
  "counted start s n t \<longleftrightarrow>
     n = 0 \<or> (\<exists>e. map_of (tr_sources t) s = Some e \<and> n \<le> ss_failures e \<and> start \<le> ss_window_started e)"

lemma counted_other:
  assumes "counted start s n t" and ok: "tracker_ok P now t" and s': "s' \<noteq> s"
    and P: "policy_ok P" and w: "0 < lp_window P" "now < start + lp_window P"
    and room: "card (insert s' (fst ` set (tr_sources t))) \<le> lp_max_sources P"
    and ba: "begin_attempt P now s' t = (a, t')"
  shows "counted start s n t'"
proof (cases "n = 0")
  case False
  then obtain e where e: "map_of (tr_sources t) s = Some e" "n \<le> ss_failures e" "start \<le> ss_window_started e"
    using assms(1) by (auto simp: counted_def)
  have d: "distinct (map fst (tr_sources t))" using ok by (simp add: tracker_ok_def)
  have live: "now - ss_window_started e < lp_window P" using e(3) w by arith
  have kept: "map_of (make_room P now s' (tr_sources t)) s = Some e"
  proof (cases "map_of (tr_sources t) s' = None")
    case True
    then have "s' \<notin> fst ` set (tr_sources t)" by (simp add: map_of_eq_None_iff)
    moreover have "card (fst ` set (tr_sources t)) = length (tr_sources t)"
      using distinct_card [OF d] by simp
    ultimately have "length (tr_sources t) < lp_max_sources P" using room by simp
    then show ?thesis using make_room_keeps [OF e(1) d _ w(1)] live by simp
  next
    case False
    then show ?thesis using e(1) by (auto simp: make_room_def)
  qed
  have "map_of (tr_sources t') s = Some e"
    using ba by (cases rule: begin_attempt_cases) (simp_all add: update_lookup kept s' [symmetric])
  then show ?thesis using e(2,3) by (auto simp: counted_def)
qed (simp add: counted_def)

lemma counted_own:
  assumes c: "counted start s n t" and ok: "tracker_ok P now t"
    and now: "start \<le> now" "now < start + lp_window P" "now < start + lp_cooldown P"
    and ba: "begin_attempt P now s t = (a, t')"
  shows "counted start s (if a = Allowed then Suc n else n) t'"
proof (cases "n = 0")
  case True
  from ba show ?thesis
    by (cases rule: begin_attempt_cases)
       (auto simp: True counted_def update_lookup count_attempt_def Let_def now(1))
next
  case False
  then obtain e where e: "map_of (tr_sources t) s = Some e" "n \<le> ss_failures e" "start \<le> ss_window_started e"
    using c by (auto simp: counted_def)
  have "entry_ok P now e" using map_of_SomeD [OF e(1)] ok by (auto simp: tracker_ok_def)
  then have locked: "until = ss_window_started e + lp_cooldown P" if "ss_locked_until e = Some until" for until
    using that by (simp add: entry_ok_def)
  have room: "make_room P now s (tr_sources t) = tr_sources t" using e(1) by (simp add: make_room_def)
  have live: "now - ss_window_started e < lp_window P" using e(3) now by arith
  have settled: "e' = e\<lparr>ss_last_seen := now\<rparr>" if "settle_entry P now (e\<lparr>ss_last_seen := now\<rparr>) = Inr e'" for e'
    using that locked live e(3) now(3) by (auto simp: settle_entry_def split: option.splits if_splits)
  from ba show ?thesis
  proof (cases rule: begin_attempt_cases)
    case (locked secs)
    then show ?thesis using e by (auto simp: counted_def update_lookup room)
  next
    case (full e')
    then have "e' = e\<lparr>ss_last_seen := now\<rparr>" using settled by (simp add: room e(1))
    then show ?thesis using e full by (auto simp: counted_def update_lookup room)
  next
    case (allowed e')
    then have "e' = e\<lparr>ss_last_seen := now\<rparr>" using settled by (simp add: room e(1))
    then show ?thesis using e allowed now(1) by (auto simp: counted_def update_lookup room count_attempt_def Let_def)
  qed
qed

lemma run_mono: "run P c evs c' \<Longrightarrow> fst c \<le> fst c'"
proof (induction rule: run.induct)
  case (more c evs c' ev c'')
  from more(2) have "fst c' \<le> fst c''" by cases auto
  then show ?case using more.IH by simp
qed simp

lemma sources_of_snoc:
  "sources_of (evs @ [Tried s a]) = insert s (sources_of evs)"
  "sources_of (evs @ [Tick d]) = sources_of evs" "sources_of (evs @ [Succeeded s]) = sources_of evs"
  by (auto simp: sources_of_def)

lemma sources_of_finite: "finite (sources_of evs)"
proof (induction evs rule: rev_induct)
  case (snoc ev evs)
  then show ?case by (cases ev) (simp_all add: sources_of_snoc)
qed (simp add: sources_of_def)

lemma run_tracked:
  "run P c evs c' \<Longrightarrow> fst ` set (tr_sources (snd c')) \<subseteq> fst ` set (tr_sources (snd c)) \<union> sources_of evs"
proof (induction rule: run.induct)
  case (more c evs c' ev c'')
  from more(2) show ?case
  proof cases
    case (tried now s t a t')
    have "fst ` set (tr_sources t') \<subseteq> insert s (fst ` set (tr_sources t))"
      by (rule begin_attempt_tracked [OF tried(4)])
    also have "\<dots> \<subseteq> insert s (fst ` set (tr_sources (snd c)) \<union> sources_of evs)"
      using more.IH tried by (intro insert_mono) simp
    finally show ?thesis using tried by (simp add: sources_of_snoc)
  qed (use more.IH in \<open>auto simp: sources_of_snoc record_success_def delete_set\<close>)
qed simp

lemma run_counted:
  assumes "run P c evs c'" and "tracker_ok P (fst c) (snd c)" and P: "policy_ok P"
    and "fst c' < fst c + min (lp_window P) (lp_cooldown P)"
    and "card (fst ` set (tr_sources (snd c)) \<union> sources_of evs) \<le> lp_max_sources P"
    and "Succeeded s \<notin> set evs"
  shows "counted (fst c) s (allowed_of s evs) (snd c')"
  using assms
proof (induction rule: run.induct)
  case (stop c)
  then show ?case by (simp add: counted_def allowed_of_def)
next
  case (more c evs c' ev c'')
  have fin: "finite (fst ` set (tr_sources (snd c)) \<union> sources_of (evs @ [ev]))"
    by (simp add: sources_of_finite)
  have mono: "fst c' \<le> fst c''" using more(2) by cases auto
  have fewer: "card (fst ` set (tr_sources (snd c)) \<union> sources_of evs) \<le> lp_max_sources P"
  proof (rule order_trans [OF card_mono [OF fin] more.prems(4)])
    show "fst ` set (tr_sources (snd c)) \<union> sources_of evs \<subseteq> fst ` set (tr_sources (snd c)) \<union> sources_of (evs @ [ev])"
      by (auto simp: sources_of_def)
  qed
  have prev: "counted (fst c) s (allowed_of s evs) (snd c')"
    using more.IH more.prems mono fewer by simp
  have ok: "tracker_ok P (fst c') (snd c')" and le: "fst c \<le> fst c'"
    using run_ok [OF more(1) P more.prems(1)] by simp_all
  from more(2) show ?case
  proof cases
    case (tick now t d)
    then show ?thesis using prev by (simp add: allowed_of_def)
  next
    case (succeeded now t s')
    then have "s' \<noteq> s" using more.prems(5) by auto
    then show ?thesis
      using prev succeeded by (auto simp: allowed_of_def counted_def record_success_def delete_lookup)
  next
    case (tried now s' t a t')
    show ?thesis
    proof (cases "s' = s")
      case True
      show ?thesis
        using counted_own [of "fst c" s "allowed_of s evs" t P now a t'] prev ok le tried more.prems(3) True
        by (auto simp: allowed_of_def)
    next
      case False
      have "insert s' (fst ` set (tr_sources t)) \<subseteq> fst ` set (tr_sources (snd c)) \<union> sources_of (evs @ [ev])"
        unfolding tried(2) sources_of_snoc Un_insert_right
        using run_tracked [OF more(1)] tried(1) by (intro insert_mono) simp
      from order_trans [OF card_mono [OF fin this] more.prems(4)]
      have "card (insert s' (fst ` set (tr_sources t))) \<le> lp_max_sources P" .
      then show ?thesis
        using counted_other [of "fst c" s "allowed_of s evs" t P now s' a t'] prev ok P tried more.prems(3) False le
        by (auto simp: allowed_of_def)
    qed
  qed
qed


section \<open>All sources together\<close>

definition recently :: "instant \<Rightarrow> tracker \<Rightarrow> nat" where
  "recently start t = length (filter (\<lambda>i. start \<le> i) (tr_recent t))"

lemma recently_dropped:
  assumes "now < start + w" and "start \<le> now"
  shows "filter (\<lambda>i. start \<le> i) (dropWhile (\<lambda>i. w \<le> now - i) is) = filter (\<lambda>i. start \<le> i) (is :: nat list)"
proof (induction "is")
  case (Cons i rest)
  then show ?case using assms by auto
qed simp

lemma recently_butlast: "recently start t \<le> Suc (length (filter (\<lambda>i. start \<le> i) (butlast (tr_recent t))))"
  unfolding recently_def by (cases "tr_recent t" rule: rev_cases) auto

lemma run_recently:
  assumes "run P c evs c'" and "fst c' < fst c + lp_global_window P"
  shows "allowed_all evs \<le> successes evs + recently (fst c) (snd c')"
  using assms
proof (induction rule: run.induct)
  case (stop c)
  then show ?case by (simp add: allowed_all_def)
next
  case (more c evs c' ev c'')
  have mono: "fst c' \<le> fst c''" using more(2) by cases auto
  have le: "fst c \<le> fst c'" using run_mono [OF more(1)] .
  have prev: "allowed_all evs \<le> successes evs + recently (fst c) (snd c')"
    using more.IH more.prems mono by simp
  from more(2) show ?case
  proof cases
    case (tick now t d)
    then show ?thesis using prev by (simp add: allowed_all_def successes_def)
  next
    case (succeeded now t s)
    then show ?thesis using prev recently_butlast [of "fst c" t]
      by (simp add: allowed_all_def successes_def recently_def record_success_def)
  next
    case (tried now s t a t')
    have now: "now < fst c + lp_global_window P" "fst c \<le> now" using more.prems tried le by simp_all
    note same = recently_dropped [OF now]
    from tried(4) show ?thesis
    proof (cases rule: begin_attempt_cases)
      case (locked secs)
      then show ?thesis using prev tried by (simp add: allowed_all_def successes_def recently_def)
    next
      case (full e)
      then show ?thesis using prev tried by (simp add: allowed_all_def successes_def recently_def same)
    next
      case (allowed e)
      then show ?thesis using prev tried now(2) by (simp add: allowed_all_def successes_def recently_def same)
    qed
  qed
qed

section \<open>How long a refusal lasts\<close>

lemma ceil_secs_enough: "d \<le> ceil_secs d * nanos"
proof -
  have d: "d div nanos * nanos + d mod nanos = d" by (rule div_mult_mod_eq)
  have "d mod nanos < nanos" by (simp add: nanos_def)
  then show ?thesis
  proof (cases "0 < d mod nanos")
    case True
    then have "ceil_secs d * nanos = d div nanos * nanos + nanos" by (simp add: ceil_secs_def)
    then show ?thesis using d \<open>d mod nanos < nanos\<close> by linarith
  next
    case False
    then have "ceil_secs d * nanos = d div nanos * nanos" by (simp add: ceil_secs_def)
    then show ?thesis using d False by linarith
  qed
qed

lemma ceil_secs_pos: "0 < ceil_secs d \<longleftrightarrow> 0 < d"
proof (cases "d mod nanos > 0")
  case True
  then show ?thesis by (cases "d = 0") (simp_all add: ceil_secs_def)
next
  case False
  then show ?thesis by (auto simp: ceil_secs_def nanos_def dvd_def)
qed


lemma settle_unlocked:
  assumes "ss_locked_until e = None \<or> (\<exists>until. ss_locked_until e = Some until \<and> until \<le> now)"
  shows "\<exists>e'. settle_entry P now e = Inr e' \<and> ss_locked_until e' = None"
  using assms by (auto simp: settle_entry_def)

lemma make_room_tracked: "map_of al s = Some e \<Longrightarrow> make_room P now s al = al"
  by (simp add: make_room_def)

lemma begin_attempt_unlocked:
  assumes "map_of (tr_sources t) s = Some e"
    and "ss_locked_until e = None \<or> (\<exists>until. ss_locked_until e = Some until \<and> until \<le> now)"
  shows "fst (begin_attempt P now s t) \<noteq> Refused r BySource"
    and "length (dropWhile (\<lambda>i. lp_global_window P \<le> now - i) (tr_recent t)) < lp_global_ceiling P
         \<Longrightarrow> fst (begin_attempt P now s t) = Allowed"
proof -
  have "ss_locked_until (e\<lparr>ss_last_seen := now\<rparr>) = None
      \<or> (\<exists>until. ss_locked_until (e\<lparr>ss_last_seen := now\<rparr>) = Some until \<and> until \<le> now)"
    using assms(2) by simp
  from settle_unlocked [OF this] obtain e' where "settle_entry P now (e\<lparr>ss_last_seen := now\<rparr>) = Inr e'" by blast
  then show "fst (begin_attempt P now s t) \<noteq> Refused r BySource"
    and "length (dropWhile (\<lambda>i. lp_global_window P \<le> now - i) (tr_recent t)) < lp_global_ceiling P
         \<Longrightarrow> fst (begin_attempt P now s t) = Allowed"
    by (simp_all add: begin_attempt_def Let_def make_room_tracked [OF assms(1)] assms(1))
qed

lemma refused_by_source:
  assumes "begin_attempt P now s t = (Refused secs BySource, t')"
  obtains e until where "map_of (tr_sources t') s = Some e" "ss_locked_until e = Some until" "now < until"
    "secs = ceil_secs (until - now)"
  using assms
proof (cases rule: begin_attempt_cases)
  case (locked r)
  then show ?thesis using that by (auto simp: update_lookup settle_entry_def split: option.splits if_splits)
qed simp_all

lemma refused_by_ceiling:
  assumes "begin_attempt P now s t = (Refused secs ByCeiling, t')" and "0 < lp_global_ceiling P"
    and "length (tr_recent t) \<le> lp_global_ceiling P"
  obtains e oldest rest where "map_of (tr_sources t') s = Some e" "ss_locked_until e = None"
    "tr_recent t' = oldest # rest" "length (tr_recent t') \<le> lp_global_ceiling P"
    "secs = max (ceil_secs (oldest + lp_global_window P - now)) 1"
  using assms(1)
proof (cases rule: begin_attempt_cases)
  case (full e)
  have "ss_locked_until e = None"
    using full(1) by (auto simp: settle_entry_def split: option.splits if_splits)
  moreover have "tr_recent t' \<noteq> []" using full(2) [folded full(5)] assms(2) by (intro notI) simp
  then obtain oldest rest where "tr_recent t' = oldest # rest" by (cases "tr_recent t'") simp_all
  moreover have "length (tr_recent t') \<le> lp_global_ceiling P"
    unfolding full(5) by (rule order_trans [OF length_dropWhile_le assms(3)])
  ultimately show ?thesis using that full by (simp add: update_lookup)
qed simp_all

section \<open>Claims\<close>

text \<open>C33: a reachable tracker stays within its bounds: it never holds more sources than the policy
  allows nor more attempts than the ceiling, and every source it holds is locked exactly when its
  counted attempts have reached the budget, until the cool-down after the last of them.
\<close>

theorem tracker_stays_bounded:
  assumes "run P (start, new_tracker) evs (now, t)" and "policy_ok P"
  shows "length (tr_sources t) \<le> lp_max_sources P \<and> length (tr_recent t) \<le> lp_global_ceiling P
    \<and> (\<forall>(s, e) \<in> set (tr_sources t).
         ss_failures e \<le> lp_budget P
         \<and> ss_locked_until e
             = (if ss_failures e = lp_budget P then Some (ss_window_started e + lp_cooldown P) else None))"
proof -
  have "tracker_ok P now t"
    using run_ok [OF assms] new_tracker_ok by simp
  then show ?thesis by (auto simp: tracker_ok_def entry_ok_def split: option.splits)
qed

text \<open>C17: no source gets more passwords checked than its budget in any stretch of time shorter than
  the window and the cool-down, whatever else happens in it and however the attempts fall, unless
  one of its passwords is right; provided the sources seen fit in the tracker.
\<close>

theorem source_budget:
  assumes "run P (start, new_tracker) before c" and "run P c evs c'" and "policy_ok P"
    and "fst c' < fst c + min (lp_window P) (lp_cooldown P)"
    and "card (sources_of (before @ evs)) \<le> lp_max_sources P" and "Succeeded s \<notin> set evs"
  shows "allowed_of s evs \<le> lp_budget P"
proof -
  have ok: "tracker_ok P (fst c) (snd c)" using run_ok [OF assms(1,3)] new_tracker_ok by simp
  have sub: "fst ` set (tr_sources (snd c)) \<union> sources_of evs \<subseteq> sources_of (before @ evs)"
    using run_tracked [OF assms(1)] by (auto simp: new_tracker_def sources_of_def)
  have "counted (fst c) s (allowed_of s evs) (snd c')"
    using order_trans [OF card_mono [OF sources_of_finite sub] assms(5)]
    by (intro run_counted [OF assms(2) ok assms(3,4) _ assms(6)])
  moreover have "tracker_ok P (fst c') (snd c')" using run_ok [OF assms(2,3) ok] by simp
  ultimately show ?thesis
    by (force simp: counted_def tracker_ok_def entry_ok_def dest!: map_of_SomeD split: option.splits)
qed




section \<open>Examples\<close>

definition ex_source :: source where
  "ex_source = source_of_ip (Some (IpV4 3232235777))"

text \<open>Five attempts in two minutes and the refusal of the sixth.\<close>

definition ex_history :: "login_event list" where
  "ex_history = [Tried ex_source Allowed, Tick (30 * nanos), Tried ex_source Allowed, Tried ex_source Allowed,
     Tick (30 * nanos), Tried ex_source Allowed, Tick (60 * nanos), Tried ex_source Allowed,
     Tick (nanos + 1), Tried ex_source (Refused 299 BySource)]"

lemmas play_simps = begin_attempt_def make_room_def prune_def settle_entry_def count_attempt_def fresh_source_def
  evict_oldest_def record_success_def production_def new_tracker_def ceil_secs_def nanos_def locked_at_def Let_def

lemma ex_history_runs: "\<exists>c. run production (0, new_tracker) ex_history c \<and> fst c = 121000000001"
  unfolding run_play ex_history_def by (simp add: play_simps)


lemma policy_ok_production: "policy_ok production"
  by (simp add: policy_ok_def production_def)

theorem tracker_stays_bounded_witness:
  "\<exists>now t. run production (0, new_tracker) ex_history (now, t) \<and> length (tr_sources t) \<le> 4096"
proof -
  from ex_history_runs obtain now t where r: "run production (0, new_tracker) ex_history (now, t)" by auto
  from tracker_stays_bounded [OF this policy_ok_production] have "length (tr_sources t) \<le> 4096"
    by (simp add: production_def)
  with r show ?thesis by (intro exI conjI)
qed

theorem source_budget_witness: "allowed_of ex_source ex_history = 5 \<and> 5 \<le> lp_budget production"
proof -
  from ex_history_runs obtain c where r: "run production (0, new_tracker) ex_history c" "fst c = 121000000001" by auto
  have five: "allowed_of ex_source ex_history = 5" by (simp add: allowed_of_def ex_history_def)
  have "sources_of ([] @ ex_history) = {ex_source}" by (auto simp: sources_of_def ex_history_def)
  then have fit: "card (sources_of ([] @ ex_history)) \<le> lp_max_sources production"
    by (simp only: card.empty card_insert_disjoint finite.emptyI empty_iff not_False_eq_True) (simp add: production_def)
  have "allowed_of ex_source ex_history \<le> lp_budget production"
  proof (rule source_budget [OF run.stop r(1) policy_ok_production _ fit])
    show "fst c < fst (0, new_tracker) + min (lp_window production) (lp_cooldown production)"
      by (simp add: r(2) production_def nanos_def)
    show "Succeeded ex_source \<notin> set ex_history" by (simp add: ex_history_def)
  qed
  then show ?thesis by (simp add: five)
qed



end
