(* ===== verification/Sessions.thy ===== *)
theory Sessions
  imports Lockout Fx "HOL-Library.Char_ord"
begin

text \<open>
  \<open>src/src/infra/auth.rs\<close>, the credentials: hexadecimal, the signed session cookie, the bearer
  token, the gate in front of every route and the sign-in handler over the lockout. A string is
  its UTF-8 bytes. HMAC-SHA256 and the Argon2 verifier are parameters.
\<close>

section \<open>Text\<close>

text \<open>\<open>String::from_utf8\<close> succeeds on exactly these byte strings.\<close>

definition byte_in :: "nat \<Rightarrow> nat \<Rightarrow> char \<Rightarrow> bool" where
  "byte_in lo hi c \<longleftrightarrow> lo \<le> (of_char c :: nat) \<and> (of_char c :: nat) \<le> hi"

text \<open>The bytes that must follow a leading one, as ranges.\<close>

definition continuation :: "char \<Rightarrow> (nat \<times> nat) list option" where
  "continuation c =
     (let cont = (128, 191) in
      if byte_in 0 127 c then Some []
      else if byte_in 194 223 c then Some [cont]
      else if byte_in 224 224 c then Some [(160, 191), cont]
      else if byte_in 237 237 c then Some [(128, 159), cont]
      else if byte_in 225 239 c then Some [cont, cont]
      else if byte_in 240 240 c then Some [(144, 191), cont, cont]
      else if byte_in 241 243 c then Some [cont, cont, cont]
      else if byte_in 244 244 c then Some [(128, 143), cont, cont]
      else None)"

fun utf8_from :: "(nat \<times> nat) list \<Rightarrow> string \<Rightarrow> bool" where
  "utf8_from [] [] \<longleftrightarrow> True"
| "utf8_from ((lo, hi) # rest) [] \<longleftrightarrow> False"
| "utf8_from [] (c # s) \<longleftrightarrow> (case continuation c of None \<Rightarrow> False | Some ranges \<Rightarrow> utf8_from ranges s)"
| "utf8_from ((lo, hi) # rest) (c # s) \<longleftrightarrow> byte_in lo hi c \<and> utf8_from rest s"

definition utf8 :: "string \<Rightarrow> bool" where
  "utf8 s = utf8_from [] s"

fun split_on :: "char \<Rightarrow> string \<Rightarrow> string list" where
  "split_on c [] = [[]]"
| "split_on c (d # s) = (if d = c then [] # split_on c s else (d # hd (split_on c s)) # tl (split_on c s))"

definition strip_prefix :: "string \<Rightarrow> string \<Rightarrow> string option" where
  "strip_prefix p s = (if take (length p) s = p then Some (drop (length p) s) else None)"

text \<open>Integers: \<open>from_str_radix\<close> takes an optional plus sign and digits, and fails on overflow.\<close>

definition digit_value :: "nat \<Rightarrow> char \<Rightarrow> nat option" where
  "digit_value radix c =
     (let v = (if byte_in 48 57 c then of_char c - 48
               else if byte_in 97 122 c then of_char c - 87
               else if byte_in 65 90 c then of_char c - 55 else 36)
      in if v < radix then Some v else None)"

definition digits_value :: "nat \<Rightarrow> string \<Rightarrow> nat option" where
  "digits_value radix s =
     foldl (\<lambda>acc c. case (acc, digit_value radix c) of (Some a, Some d) \<Rightarrow> Some (a * radix + d) | _ \<Rightarrow> None) (Some 0) s"

definition from_str_radix :: "nat \<Rightarrow> nat \<Rightarrow> string \<Rightarrow> nat option" where
  "from_str_radix bound radix s =
     (let digits = (case s of [] \<Rightarrow> [] | c # rest \<Rightarrow> if c = CHR ''+'' then rest else s)
      in if digits = [] then None
         else (case digits_value radix digits of
                 None \<Rightarrow> None | Some v \<Rightarrow> if v < bound then Some v else None))"

definition digit :: "nat \<Rightarrow> char" where
  "digit d = char_of (if d < 10 then 48 + d else 87 + d)"

function decimal :: "nat \<Rightarrow> string" where
  "decimal n = (if n < 10 then [digit n] else decimal (n div 10) @ [digit (n mod 10)])"
  by pat_completeness auto
termination by (relation "measure id") auto

declare decimal.simps [simp del]

section \<open>Hexadecimal\<close>

definition hex_encode :: "string \<Rightarrow> string" where
  "hex_encode bytes = concat (map (\<lambda>b. [digit (of_char b div 16), digit (of_char b mod 16)]) bytes)"

definition is_hexdigit :: "char \<Rightarrow> bool" where
  "is_hexdigit c \<longleftrightarrow> byte_in 48 57 c \<or> byte_in 97 102 c \<or> byte_in 65 70 c"

fun hex_pairs :: "string \<Rightarrow> string option" where
  "hex_pairs (a # b # s) =
     (case (from_str_radix 256 16 [a, b], hex_pairs s) of
        (Some v, Some bytes) \<Rightarrow> Some (char_of v # bytes) | _ \<Rightarrow> None)"
| "hex_pairs _ = Some []"

definition hex_decode :: "string \<Rightarrow> string option" where
  "hex_decode s = (if \<not> list_all is_hexdigit s \<or> length s mod 2 \<noteq> 0 then None else hex_pairs s)"

section \<open>Credentials\<close>

type_synonym hmac = "string \<Rightarrow> string \<Rightarrow> string"

record auth =
  au_username :: string
  au_password_hash :: string
  au_api_token :: "string option"
  au_secure :: bool
  au_signing_key :: string
  au_lockouts :: tracker
  au_trusted_proxies :: "ip_addr list"

definition session_context :: string where
  "session_context = ''share-tracker session v1''"

definition session_lifetime :: nat where
  "session_lifetime = 30 * 24 * 60 * 60"

definition derive_signing_key :: "hmac \<Rightarrow> string \<Rightarrow> string" where
  "derive_signing_key hmac password_hash = hmac password_hash session_context"

definition new_auth ::
    "hmac \<Rightarrow> (string \<Rightarrow> bool) \<Rightarrow> string \<Rightarrow> string \<Rightarrow> string option \<Rightarrow> bool \<Rightarrow> string + auth" where
  "new_auth hmac phc_ok username password_hash api_token secure =
     (if \<not> phc_ok password_hash then Inl ''invalid auth.password_hash''
      else Inr \<lparr>au_username = username, au_password_hash = password_hash, au_api_token = api_token,
             au_secure = secure, au_signing_key = derive_signing_key hmac password_hash,
             au_lockouts = new_tracker, au_trusted_proxies = []\<rparr>)"

definition sign :: "hmac \<Rightarrow> auth \<Rightarrow> string \<Rightarrow> string" where
  "sign hmac a payload = hex_encode payload @ ''.'' @ hex_encode (hmac (au_signing_key a) payload)"

definition mint_cookie :: "hmac \<Rightarrow> nat \<Rightarrow> auth \<Rightarrow> string" where
  "mint_cookie hmac now a =
     (let expiry = now + session_lifetime in sign hmac a (au_username a @ ''|'' @ decimal expiry))"

definition verify_cookie :: "hmac \<Rightarrow> nat \<Rightarrow> auth \<Rightarrow> string \<Rightarrow> bool" where
  "verify_cookie hmac now a cookie =
     (case split_once (CHR ''.'') cookie of
        None \<Rightarrow> False
      | Some (payload_hex, tag_hex) \<Rightarrow>
          (case (hex_decode payload_hex, hex_decode tag_hex) of
             (Some payload, Some given_tag) \<Rightarrow>
               if given_tag \<noteq> hmac (au_signing_key a) payload then False
               else if \<not> utf8 payload then False
               else (case split_once (CHR ''|'') payload of
                       None \<Rightarrow> False
                     | Some (username, expiry) \<Rightarrow>
                         (case from_str_radix (2 ^ 64) 10 expiry of
                            None \<Rightarrow> False
                          | Some e \<Rightarrow> username = au_username a \<and> now < e))
           | _ \<Rightarrow> False))"

definition verify_bearer :: "auth \<Rightarrow> string \<Rightarrow> bool" where
  "verify_bearer a token =
     (case au_api_token a of Some expected \<Rightarrow> token = expected | None \<Rightarrow> False)"

section \<open>The gate\<close>

text \<open>The first value of each header the gate reads; \<open>to_str\<close> refuses any byte outside visible ASCII.\<close>

record headers =
  hd_authorization :: "string option"
  hd_cookie :: "string option"
  hd_accept :: "string option"

definition to_str :: "string \<Rightarrow> string option" where
  "to_str v = (if list_all (\<lambda>c. byte_in 32 126 c \<or> byte_in 9 9 c) v then Some v else None)"

definition bearer_token :: "headers \<Rightarrow> string option" where
  "bearer_token h =
     Option.bind (Option.bind (hd_authorization h) to_str) (strip_prefix ''Bearer '')"

definition cookie_name :: string where
  "cookie_name = ''st_session''"

fun find_cookie :: "string list \<Rightarrow> string option" where
  "find_cookie [] = None"
| "find_cookie (kv # rest) =
     (case split_once (CHR ''='') (trim kv) of
        Some (name, v) \<Rightarrow> if name = cookie_name then Some v else find_cookie rest
      | None \<Rightarrow> find_cookie rest)"

definition session_cookie :: "headers \<Rightarrow> string option" where
  "session_cookie h =
     Option.bind (Option.bind (hd_cookie h) to_str) (\<lambda>raw. find_cookie (split_on (CHR '';'') raw))"

definition is_allowlisted :: "string \<Rightarrow> bool" where
  "is_allowlisted path \<longleftrightarrow> path = ''/login'' \<or> path = ''/static/style.css''"

definition is_authorized :: "hmac \<Rightarrow> nat \<Rightarrow> auth \<Rightarrow> headers \<Rightarrow> bool" where
  "is_authorized hmac now a h =
     (if (case bearer_token h of Some token \<Rightarrow> verify_bearer a token | None \<Rightarrow> False) then True
      else if (case session_cookie h of Some cookie \<Rightarrow> verify_cookie hmac now a cookie | None \<Rightarrow> False) then True
      else False)"

fun contains :: "string \<Rightarrow> string \<Rightarrow> bool" where
  "contains p [] \<longleftrightarrow> p = []"
| "contains p (c # s) \<longleftrightarrow> take (length p) (c # s) = p \<or> contains p s"

definition wants_html :: "headers \<Rightarrow> bool" where
  "wants_html h =
     (case Option.bind (hd_accept h) to_str of None \<Rightarrow> False | Some v \<Rightarrow> contains ''text/html'' v)"

datatype gate = Served | RedirectTo string | Unauthorized

definition require_auth :: "hmac \<Rightarrow> nat \<Rightarrow> auth \<Rightarrow> string \<Rightarrow> string \<Rightarrow> headers \<Rightarrow> gate" where
  "require_auth hmac now a base path h =
     (if is_allowlisted path \<or> is_authorized hmac now a h then Served
      else if wants_html h then RedirectTo (base @ ''/login'') else Unauthorized)"

section \<open>Signing in and out\<close>

definition build_set_cookie :: "auth \<Rightarrow> string \<Rightarrow> string option \<Rightarrow> string" where
  "build_set_cookie a path value_opt =
     (let secure = (if au_secure a then ''; Secure'' else []) in
      case value_opt of
        Some v \<Rightarrow> cookie_name @ ''='' @ v @ ''; Path='' @ path @ ''; Max-Age='' @ decimal session_lifetime
                    @ ''; HttpOnly; SameSite=Lax'' @ secure
      | None \<Rightarrow> cookie_name @ ''=; Path='' @ path @ ''; Max-Age=0; HttpOnly; SameSite=Lax'' @ secure)"

datatype login_answer =
    SignedIn string
  | WrongCredentials
  | TooMany nat
  | VerifiersBusy

text \<open>
  \<open>verified\<close> is what the bounded verifier answers: nothing when no slot came free, else whether
  Argon2 accepts the password; the user name is compared first.
\<close>

definition verify_password_bounded :: "(string \<Rightarrow> string \<Rightarrow> bool option) \<Rightarrow> auth \<Rightarrow> string \<Rightarrow> string \<Rightarrow> bool option" where
  "verify_password_bounded argon2 a username password =
     map_option (\<lambda>matches. username = au_username a \<and> matches) (argon2 (au_password_hash a) password)"

definition login_submit ::
    "hmac \<Rightarrow> (string \<Rightarrow> string \<Rightarrow> bool option) \<Rightarrow> instant \<Rightarrow> nat \<Rightarrow> string \<Rightarrow> source \<Rightarrow> string \<Rightarrow> string \<Rightarrow> auth
     \<Rightarrow> login_answer \<times> auth" where
  "login_submit hmac argon2 now now_unix path s username password a =
     (case begin_attempt production now s (au_lockouts a) of
        (Refused secs _, t) \<Rightarrow> (TooMany secs, a\<lparr>au_lockouts := t\<rparr>)
      | (Allowed, t) \<Rightarrow>
          (case verify_password_bounded argon2 a username password of
             None \<Rightarrow> (VerifiersBusy, a\<lparr>au_lockouts := t\<rparr>)
           | Some True \<Rightarrow>
               (SignedIn (build_set_cookie a path (Some (mint_cookie hmac now_unix a))),
                a\<lparr>au_lockouts := record_success s t\<rparr>)
           | Some False \<Rightarrow> (WrongCredentials, a\<lparr>au_lockouts := t\<rparr>)))"

definition logout :: "string \<Rightarrow> auth \<Rightarrow> string" where
  "logout path a = build_set_cookie a path None"


section \<open>Text, again\<close>

lemma split_once_append: "c \<notin> set xs \<Longrightarrow> split_once c (xs @ c # ys) = Some (xs, ys)"
  by (rule split_once_show) (auto simp: list_all_iff)

lemma split_once_front: "split_once c s = Some (xs, ys) \<Longrightarrow> c \<notin> set xs"
  by (induction s arbitrary: xs ys) (auto split: if_splits option.splits)

lemma split_on_none: "c \<notin> set s \<Longrightarrow> split_on c s = [s]"
  by (induction s) auto

lemma split_on_append: "split_on c (xs @ c # ys) = split_on c xs @ split_on c ys"
proof (induction xs)
  case (Cons d xs)
  have "split_on c xs \<noteq> []" by (cases xs) auto
  then show ?case using Cons by simp
qed simp

lemma dropWhile_space: "\<forall>c \<in> set s. \<not> is_space c \<Longrightarrow> dropWhile is_space s = s"
  by (cases s) auto

lemma trim_clean: "\<forall>c \<in> set s. \<not> is_space c \<Longrightarrow> trim s = s"
  by (simp add: trim_def dropWhile_space)

lemma trim_space: "trim (CHR '' '' # s) = trim s"
  by (simp add: trim_def is_space_def)

lemma utf8_from_append: "utf8_from rs xs \<Longrightarrow> utf8_from rs (xs @ ys) = utf8_from [] ys"
  by (induction rs xs rule: utf8_from.induct) (auto split: option.splits)

lemma utf8_append: "utf8 xs \<Longrightarrow> utf8 (xs @ ys) = utf8 ys"
  by (simp add: utf8_def utf8_from_append)

lemma utf8_ascii: "\<forall>c \<in> set s. byte_in 0 127 c \<Longrightarrow> utf8 s"
  unfolding utf8_def by (induction s) (simp_all add: continuation_def)

lemma of_digit: "d < 36 \<Longrightarrow> of_char (digit d) = (if d < 10 then 48 + d else 87 + d)"
  by (simp add: digit_def)

lemma digit_value_digit: "d < radix \<Longrightarrow> radix \<le> 36 \<Longrightarrow> digit_value radix (digit d) = Some d"
  by (simp add: digit_value_def byte_in_def of_digit)

lemma digit_not_sign: "d < 36 \<Longrightarrow> digit d \<noteq> CHR ''+''"
proof
  assume "d < 36" "digit d = CHR ''+''"
  from arg_cong [OF this(2), of "of_char :: char \<Rightarrow> nat"] show False using \<open>d < 36\<close>
    by (simp add: of_digit split: if_splits)
qed

lemma digits_value_snoc:
  "digits_value radix (s @ [c]) =
     (case (digits_value radix s, digit_value radix c) of (Some a, Some d) \<Rightarrow> Some (a * radix + d) | _ \<Rightarrow> None)"
  by (simp add: digits_value_def)

lemma decimal_value: "digits_value 10 (decimal n) = Some n"
proof (induction n rule: decimal.induct)
  case (1 n)
  show ?case
  proof (cases "n < 10")
    case True
    then show ?thesis by (simp add: decimal.simps [of n] digits_value_def digit_value_digit)
  next
    case False
    then show ?thesis using 1 by (simp add: decimal.simps [of n] digits_value_snoc digit_value_digit)
  qed
qed

lemma decimal_digits: "c \<in> set (decimal n) \<Longrightarrow> byte_in 48 57 c"
proof (induction n rule: decimal.induct)
  case (1 n)
  have "byte_in 48 57 (digit d)" if "d < 10" for d using that by (simp add: byte_in_def of_digit)
  then show ?case using 1 by (cases "n < 10") (auto simp: decimal.simps [of n])
qed

lemma decimal_not_empty: "decimal n \<noteq> []"
  by (subst decimal.simps) simp

lemma parse_decimal: "from_str_radix bound 10 (decimal n) = (if n < bound then Some n else None)"
proof -
  have "hd (decimal n) \<noteq> CHR ''+''"
    using decimal_digits [of "hd (decimal n)" n] decimal_not_empty [of n] by (auto simp: byte_in_def)
  then have "(case decimal n of [] \<Rightarrow> [] | c # rest \<Rightarrow> if c = CHR ''+'' then rest else decimal n) = decimal n"
    by (cases "decimal n") simp_all
  then show ?thesis by (simp add: from_str_radix_def Let_def decimal_value decimal_not_empty)
qed

section \<open>Hexadecimal, both ways\<close>

lemma byte_div16: "(of_char (b :: char) :: nat) div 16 < 16"
proof -
  have "(of_char b :: nat) < 16 * 16" using nat_of_char_less_256 [of b] by simp
  then show ?thesis by (rule less_mult_imp_div_less)
qed

lemma byte_hex: "from_str_radix 256 16 [digit (of_char b div 16), digit (of_char b mod 16)] = Some (of_char b)"
proof -
  have b: "(of_char b :: nat) < 256" by (rule nat_of_char_less_256)
  have d: "(of_char b :: nat) div 16 < 16" by (rule byte_div16)
  show ?thesis
    using b by (simp add: from_str_radix_def digit_not_sign digits_value_def digit_value_digit d less_trans [OF d])
qed

lemma is_hexdigit_digit: "d < 16 \<Longrightarrow> is_hexdigit (digit d)"
  by (simp add: is_hexdigit_def byte_in_def of_digit)

lemma hex_encode_Cons:
  "hex_encode (b # bytes) = digit (of_char b div 16) # digit (of_char b mod 16) # hex_encode bytes"
  by (simp add: hex_encode_def)

lemma hex_encode_digits: "list_all is_hexdigit (hex_encode bytes)" "length (hex_encode bytes) mod 2 = 0"
  by (induction bytes) (simp_all add: hex_encode_Cons is_hexdigit_digit byte_div16, simp_all add: hex_encode_def)

lemma hex_pairs_encode: "hex_pairs (hex_encode bytes) = Some bytes"
proof (induction bytes)
  case (Cons b bytes)
  then show ?case by (simp add: hex_encode_Cons byte_hex)
qed (simp add: hex_encode_def)

lemma hex_decode_encode: "hex_decode (hex_encode bytes) = Some bytes"
  by (simp add: hex_decode_def hex_encode_digits hex_pairs_encode)


text \<open>Decoding also takes the upper-case digits, so a byte string has several spellings.\<close>

definition ascii_lower :: "char \<Rightarrow> char" where
  "ascii_lower c = (if byte_in 65 90 c then char_of (of_char c + 32 :: nat) else c)"

lemma char_of_nat_eq: "char_of n = c \<longleftrightarrow> n mod 256 = (of_char c :: nat)"
  by (metis char_of_char of_char_of)

lemma hexdigit_spelling:
  assumes "is_hexdigit c"
  obtains d where "d < 16" "digit_value 16 c = Some d" "ascii_lower c = digit d" "c \<noteq> CHR ''+''"
proof -
  define n where "n = (of_char c :: nat)"
  have n: "n < 256" by (simp add: n_def)
  have "c \<noteq> CHR ''+''" using assms by (auto simp: is_hexdigit_def byte_in_def)
  moreover have "\<exists>d < 16. digit_value 16 c = Some d \<and> ascii_lower c = digit d"
  proof -
    consider "48 \<le> n" "n \<le> 57" | "97 \<le> n" "n \<le> 102" | "65 \<le> n" "n \<le> 70"
      using assms by (auto simp: is_hexdigit_def byte_in_def n_def)
    then show ?thesis
    proof cases
      case 1
      then show ?thesis
        by (intro exI [of _ "n - 48"])
           (auto simp: digit_value_def byte_in_def ascii_lower_def digit_def n_def [symmetric] char_of_nat_eq
             eq_commute [of c] n Let_def)
    next
      case 2
      then show ?thesis
        by (intro exI [of _ "n - 87"])
           (auto simp: digit_value_def byte_in_def ascii_lower_def digit_def n_def [symmetric] char_of_nat_eq
             eq_commute [of c] n Let_def)
    next
      case 3
      then show ?thesis
        by (intro exI [of _ "n - 55"])
           (auto simp: digit_value_def byte_in_def ascii_lower_def digit_def n_def [symmetric] Let_def)
    qed
  qed
  ultimately show ?thesis using that by blast
qed

lemma digit_inject: "c < 16 \<Longrightarrow> d < 16 \<Longrightarrow> digit c = digit d \<longleftrightarrow> c = d"
  by (auto simp: of_digit dest!: arg_cong [of "digit c" "digit d" "of_char :: char \<Rightarrow> nat"] split: if_splits)

lemma hex_pair_value:
  assumes "digit_value 16 a = Some x" "digit_value 16 b = Some y" "a \<noteq> CHR ''+''" "x < 16" "y < 16"
  shows "from_str_radix 256 16 [a, b] = Some (x * 16 + y)"
  using assms by (simp add: from_str_radix_def digits_value_def)

lemma hex_pairs_spelling:
  "list_all is_hexdigit s \<Longrightarrow> even (length s) \<Longrightarrow> hex_pairs s = Some bytes \<longleftrightarrow> map ascii_lower s = hex_encode bytes"
proof (induction s arbitrary: bytes rule: hex_pairs.induct)
  case (1 a b s)
  from 1(2) have hex: "is_hexdigit a" "is_hexdigit b" "list_all is_hexdigit s" by simp_all
  obtain x where x: "x < 16" "digit_value 16 a = Some x" "ascii_lower a = digit x" "a \<noteq> CHR ''+''"
    using hexdigit_spelling [OF hex(1)] by blast
  obtain y where y: "y < 16" "digit_value 16 b = Some y" "ascii_lower b = digit y"
    using hexdigit_spelling [OF hex(2)] by blast
  note v = hex_pair_value [OF x(2) y(2) x(4) x(1) y(1)]
  have xy: "x * 16 + y < 256" using x(1) y(1) by simp
  have IH: "hex_pairs s = Some bs \<longleftrightarrow> map ascii_lower s = hex_encode bs" for bs
    using 1 hex(3) by simp
  have head: "of_char c div 16 = x \<and> of_char c mod 16 = y \<longleftrightarrow> char_of (x * 16 + y) = c" for c
  proof (unfold char_of_nat_eq mod_less [OF xy], intro iffI)
    show "x * 16 + y = of_char c" if "of_char c div 16 = x \<and> of_char c mod 16 = y"
      using that div_mult_mod_eq [of "of_char c :: nat" 16] by simp
    show "of_char c div 16 = x \<and> of_char c mod 16 = y" if eq: "x * 16 + y = of_char c"
      unfolding eq [symmetric] using y(1) by simp
  qed
  show ?case
  proof (cases bytes)
    case Nil
    then show ?thesis by (auto simp: hex_encode_def v split: option.splits)
  next
    case (Cons c bs)
    have "map ascii_lower (a # b # s) = hex_encode bytes
        \<longleftrightarrow> (x = of_char c div 16 \<and> y = of_char c mod 16) \<and> map ascii_lower s = hex_encode bs"
      by (simp add: Cons hex_encode_Cons x(3) y(3) digit_inject x(1) y(1) byte_div16)
    moreover have "hex_pairs (a # b # s) = Some bytes \<longleftrightarrow> char_of (x * 16 + y) = c \<and> hex_pairs s = Some bs"
      by (auto simp: v Cons split: option.splits)
    ultimately show ?thesis using head [of c] IH [of bs] by auto
  qed
next
  case "2_1"
  then show ?case by (cases bytes) (simp_all add: hex_encode_def)
next
  case "2_2"
  then show ?case by simp
qed

section \<open>The cookie, both ways\<close>

lemma utf8_bar: "utf8 ''|''"
  by (rule utf8_ascii) (simp add: byte_in_def)

lemma hex_no_dot: "CHR ''.'' \<notin> set (hex_encode bytes)"
  using hex_encode_digits(1) [of bytes] by (auto simp: list_all_iff is_hexdigit_def byte_in_def)

lemma payload_utf8: "utf8 username \<Longrightarrow> utf8 (username @ ''|'' @ decimal n)"
proof -
  assume u: "utf8 username"
  have "utf8 (''|'' @ decimal n)"
    using decimal_digits by (intro utf8_ascii) (fastforce simp: byte_in_def)
  with utf8_append [OF u] show ?thesis by simp
qed

lemma verify_minted:
  assumes u: "utf8 (au_username a)" and n: "now + session_lifetime < 2 ^ 64"
  shows "verify_cookie hmac later a (mint_cookie hmac now a)
     \<longleftrightarrow> CHR ''|'' \<notin> set (au_username a) \<and> later < now + session_lifetime"
proof -
  let ?payload = "au_username a @ ''|'' @ decimal (now + session_lifetime)"
  have dot: "split_once (CHR ''.'') (mint_cookie hmac now a)
      = Some (hex_encode ?payload, hex_encode (hmac (au_signing_key a) ?payload))"
    using split_once_append [OF hex_no_dot] by (simp add: mint_cookie_def sign_def Let_def)
  have body: "verify_cookie hmac later a (mint_cookie hmac now a)
     = (case split_once (CHR ''|'') ?payload of None \<Rightarrow> False
        | Some (username, expiry) \<Rightarrow>
            (case from_str_radix (2 ^ 64) 10 expiry of None \<Rightarrow> False | Some e \<Rightarrow> username = au_username a \<and> later < e))"
    by (simp add: verify_cookie_def dot hex_decode_encode payload_utf8 [OF u, simplified])
  show ?thesis
  proof (cases "CHR ''|'' \<in> set (au_username a)")
    case True
    have "username \<noteq> au_username a" if "split_once (CHR ''|'') ?payload = Some (username, rest)" for username rest
      using split_once_front [OF that] True by auto
    then show ?thesis unfolding body using True by (auto split: option.splits)
  next
    case False
    have "split_once (CHR ''|'') ?payload = Some (au_username a, decimal (now + session_lifetime))"
      using split_once_append [OF False] by simp
    then show ?thesis unfolding body using False n by (simp add: parse_decimal)
  qed
qed

lemma hex_encode_clean: "c \<in> set (hex_encode bytes) \<Longrightarrow> byte_in 48 57 c \<or> byte_in 97 102 c \<or> byte_in 65 70 c"
  using hex_encode_digits(1) [of bytes] by (simp add: list_all_iff is_hexdigit_def)

text \<open>A browser sends back the name and value of the cookie it was given, among its others.\<close>

definition cookie_pair :: "string \<Rightarrow> string" where
  "cookie_pair set_cookie = hd (split_on (CHR '';'') set_cookie)"

lemma split_on_first: "c \<notin> set xs \<Longrightarrow> hd (split_on c (xs @ c # ys)) = xs"
  by (simp add: split_on_append split_on_none)

lemma build_set_cookie_front: "\<exists>rest. build_set_cookie a path (Some v) = (cookie_name @ ''='' @ v) @ CHR '';'' # rest"
  by (simp add: build_set_cookie_def Let_def)

lemma cookie_pair_set:
  assumes "CHR '';'' \<notin> set v"
  shows "cookie_pair (build_set_cookie a path (Some v)) = cookie_name @ ''='' @ v"
proof -
  have "CHR '';'' \<notin> set (cookie_name @ ''='' @ v)" using assms by (simp add: cookie_name_def)
  note first = split_on_first [OF this]
  from build_set_cookie_front obtain rest
    where "build_set_cookie a path (Some v) = (cookie_name @ ''='' @ v) @ CHR '';'' # rest" by blast
  then show ?thesis unfolding cookie_pair_def by (simp only: first)
qed

lemma mint_cookie_clean: "c \<in> set (mint_cookie hmac now a) \<Longrightarrow> byte_in 46 57 c \<or> byte_in 97 102 c \<or> byte_in 65 70 c"
  by (auto simp: mint_cookie_def sign_def Let_def byte_in_def dest!: hex_encode_clean)

lemma session_cookie_sent:
  assumes "\<forall>c \<in> set v. byte_in 46 57 c \<or> byte_in 97 102 c \<or> byte_in 65 70 c"
    and "to_str others = Some others" and "find_cookie (split_on (CHR '';'') others) = None"
    and "hd_cookie h = Some (others @ ''; '' @ cookie_name @ ''='' @ v)"
  shows "session_cookie h = Some v"
proof -
  let ?pair = "cookie_name @ ''='' @ v"
  have clean: "byte_in 46 122 c" if "c \<in> set ?pair" for c
    using that assms(1) by (auto simp: cookie_name_def byte_in_def)
  have ascii: "to_str (others @ ''; '' @ ?pair) = Some (others @ ''; '' @ ?pair)"
    using assms(2) clean by (fastforce simp: to_str_def byte_in_def list_all_iff split: if_splits)
  have semi: "CHR '';'' \<notin> set (CHR '' '' # ?pair)"
    using assms(1) by (auto simp: cookie_name_def byte_in_def)
  have trim: "trim (CHR '' '' # ?pair) = ?pair"
    unfolding trim_space using clean by (intro trim_clean) (fastforce simp: is_space_def byte_in_def)
  have once: "split_once (CHR ''='') ?pair = Some (cookie_name, v)"
    using split_once_append [of "CHR ''=''" cookie_name v] by (simp add: cookie_name_def)
  have found: "find_cookie (kvs @ rest) = (case find_cookie kvs of None \<Rightarrow> find_cookie rest | Some x \<Rightarrow> Some x)" for kvs rest
    by (induction kvs) (auto split: option.splits)
  have "split_on (CHR '';'') (others @ ''; '' @ ?pair) = split_on (CHR '';'') others @ [CHR '' '' # ?pair]"
    using split_on_append [of "CHR '';''" others "CHR '' '' # ?pair"] split_on_none [OF semi] by simp
  then have "find_cookie (split_on (CHR '';'') (others @ ''; '' @ ?pair)) = Some v"
    using found [of "split_on (CHR '';'') others" "[CHR '' '' # ?pair]"] assms(3) trim once by simp
  then show ?thesis unfolding session_cookie_def assms(4) using ascii by simp
qed

section \<open>Claims\<close>

text \<open>Hexadecimal is decoded exactly where it was encoded, up to the case of its letters: a string
  of hexadecimal digits decodes to the bytes whose encoding is its lower-case form, and nothing
  else decodes.
\<close>

theorem hex_roundtrip:
  "hex_decode s = Some bytes \<longleftrightarrow> list_all is_hexdigit s \<and> map ascii_lower s = hex_encode bytes"
proof (cases "list_all is_hexdigit s \<and> even (length s)")
  case True
  then show ?thesis by (simp add: hex_decode_def hex_pairs_spelling flip: even_iff_mod_2_eq_zero)
next
  case False
  have "even (length s)" if "map ascii_lower s = hex_encode bytes"
    using arg_cong [OF that, of length] hex_encode_digits(2) [of bytes] by (simp add: even_iff_mod_2_eq_zero)
  then show ?thesis using False by (auto simp: hex_decode_def even_iff_mod_2_eq_zero)
qed


text \<open>An attempt refused by the lockout never reaches the password verifier: the answer is the
  same whatever the verifier would say, right password included; and the owner's name with the
  right password, let through, is the one thing that gives a session.
\<close>

theorem refused_unverified:
  "((\<exists>secs. fst (login_submit hmac argon2 now now_unix path s username password a) = TooMany secs)
     \<longleftrightarrow> fst (begin_attempt production now s (au_lockouts a)) \<noteq> Allowed)
   \<and> ((\<exists>c. fst (login_submit hmac argon2 now now_unix path s username password a) = SignedIn c)
     \<longleftrightarrow> fst (begin_attempt production now s (au_lockouts a)) = Allowed
       \<and> username = au_username a \<and> argon2 (au_password_hash a) password = Some True)"
  by (auto simp: login_submit_def verify_password_bounded_def split: prod.splits attempt.splits option.splits bool.splits)

section \<open>Examples\<close>

definition ex_hmac :: hmac where
  "ex_hmac key message = take 32 (rev message @ key)"

definition ex_argon2 :: "string \<Rightarrow> string \<Rightarrow> bool option" where
  "ex_argon2 phc password = Some (phc = ''phc:'' @ password)"

definition ex_auth :: "string \<Rightarrow> auth" where
  "ex_auth username = \<lparr>au_username = username, au_password_hash = ''phc:pw'', au_api_token = None, au_secure = True,
     au_signing_key = derive_signing_key ex_hmac ''phc:pw'', au_lockouts = new_tracker, au_trusted_proxies = []\<rparr>"

definition ex_headers :: "string \<Rightarrow> headers" where
  "ex_headers set_cookie = \<lparr>hd_authorization = None,
     hd_cookie = Some (''theme=dark'' @ ''; '' @ cookie_pair set_cookie), hd_accept = Some ''text/html''\<rparr>"

lemma ex_sign_in:
  "\<exists>set_cookie a'. login_submit ex_hmac ex_argon2 0 1000 ''/'' ex_source username ''pw'' (ex_auth username)
     = (SignedIn set_cookie, a')"
  by (simp add: login_submit_def verify_password_bounded_def ex_argon2_def ex_auth_def play_simps)


text \<open>The same history for an owner called \<open>a|b\<close>: the right password, and still no session.\<close>

lemma barred_owner_shut_out:
  "\<exists>set_cookie a'. login_submit ex_hmac ex_argon2 0 1000 ''/'' ex_source ''a|b'' ''pw'' (ex_auth ''a|b'')
       = (SignedIn set_cookie, a') \<and> \<not> verify_cookie ex_hmac 1001 a' (mint_cookie ex_hmac 1000 a')"
proof -
  obtain c a' where c: "login_submit ex_hmac ex_argon2 0 1000 ''/'' ex_source ''a|b'' ''pw'' (ex_auth ''a|b'')
      = (SignedIn c, a')"
    using ex_sign_in by blast
  then have u: "au_username a' = ''a|b''"
    by (auto simp: login_submit_def ex_auth_def split: prod.splits attempt.splits option.splits bool.splits)
  then have "utf8 (au_username a')" by (simp add: utf8_ascii byte_in_def)
  from verify_minted [OF this, of 1000] have "\<not> verify_cookie ex_hmac 1001 a' (mint_cookie ex_hmac 1000 a')"
    by (simp add: u session_lifetime_def)
  with c show ?thesis by (intro exI conjI)
qed

end
