(* ===== verification/Spec2Isabelle.thy ===== *)
theory Spec2Isabelle
  imports TradeWrites NetCapitalGain TaxSummary Lockout Sessions
begin

text \<open>
  A verification development for share-tracker.
\<close>

end
